(* ===== verification/Prelude.thy ===== *)
theory Prelude
  imports Main "HOL-Library.Word" "HOL-Library.List_Lexorder" "HOL-Library.Char_ord"
begin

text \<open>
  Shared vocabulary of the development: the machine integer types of the Rust code, its
  \<open>Result\<close> type as a sum, saturating arithmetic, ordered string maps (\<open>BTreeMap\<close>), and the
  generic list facts the component theories use.

  A Rust \<open>String\<close> or \<open>&str\<close> is a \<^typ>\<open>string\<close>: the list of its UTF-8 bytes. The order on strings is
  the library's lexicographic order on bytes, which is what \<open>str::cmp\<close> and \<open>BTreeMap<String, _>\<close> use.
\<close>

named_theorems res_simps \<open>unfolding of the result combinators\<close>
named_theorems word_nat \<open>machine integers read as natural numbers\<close>

subsection \<open>Machine integers\<close>

type_synonym u32 = "32 word"
type_synonym u64 = "64 word"

text \<open>\<open>u64::saturating_add\<close> and \<open>u64::saturating_mul\<close>: the exact result, or the greatest value.\<close>

definition sat_add :: "u64 \<Rightarrow> u64 \<Rightarrow> u64" where
  "sat_add a b = (if unat a + unat b < 2 ^ 64 then a + b else - 1)"

definition sat_mul :: "u64 \<Rightarrow> u64 \<Rightarrow> u64" where
  "sat_mul a b = (if unat a * unat b < 2 ^ 64 then a * b else - 1)"

lemma unat_bound64 [simp]: "unat (w :: u64) < 18446744073709551616"
  using unsigned_less [of w] by simp

lemma unat_le64 [simp]: "unat (w :: u64) \<le> 18446744073709551615"
  using unat_bound64 [of w] by linarith

lemma unat_minus_one_u64 [simp]: "unat (- 1 :: u64) = 18446744073709551615"
  by (simp add: unsigned_minus_1_eq_mask mask_eq_exp_minus_1)

lemma unat_sat_add [word_nat]: "unat (sat_add a b) = min (2 ^ 64 - 1) (unat a + unat b)"
  by (auto simp: sat_add_def unat_word_ariths)

lemma unat_sat_mul [word_nat]: "unat (sat_mul a b) = min (2 ^ 64 - 1) (unat a * unat b)"
  by (auto simp: sat_mul_def unat_word_ariths)

lemma sat_add_0 [simp]: "sat_add 0 a = a" "sat_add a 0 = a"
  by (simp_all add: sat_add_def)

lemma sat_add_commute: "sat_add a b = sat_add b a"
  by (simp add: sat_add_def add.commute)

lemma sat_add_assoc: "sat_add (sat_add a b) c = sat_add a (sat_add b c)"
  by (simp add: word_unat_eq_iff unat_sat_add)

subsection \<open>Results\<close>

text \<open>
  \<open>Result<T, E>\<close> is the sum type, \<open>Inl\<close> the error. \<open>res_bind\<close> is the \<open>?\<close> operator: the first
  error ends the computation.
\<close>

definition res_bind :: "'e + 'a \<Rightarrow> ('a \<Rightarrow> 'e + 'b) \<Rightarrow> 'e + 'b" where
  "res_bind r f = (case r of Inl e \<Rightarrow> Inl e | Inr x \<Rightarrow> f x)"

definition res_map :: "('a \<Rightarrow> 'b) \<Rightarrow> 'e + 'a \<Rightarrow> 'e + 'b" where
  "res_map f r = (case r of Inl e \<Rightarrow> Inl e | Inr x \<Rightarrow> Inr (f x))"

definition ok_or :: "'e \<Rightarrow> 'a option \<Rightarrow> 'e + 'a" where
  "ok_or e r = (case r of None \<Rightarrow> Inl e | Some x \<Rightarrow> Inr x)"

text \<open>A loop whose body may return early with an error.\<close>

fun for_each :: "('a \<Rightarrow> 'e + unit) \<Rightarrow> 'a list \<Rightarrow> 'e + unit" where
  "for_each f [] = Inr ()"
| "for_each f (x # xs) = (case f x of Inl e \<Rightarrow> Inl e | Inr _ \<Rightarrow> for_each f xs)"

text \<open>\<open>iter().map(f).collect::<Result<Vec<_>, _>>()\<close>: the results in order, or the first error.\<close>

fun map_res :: "('a \<Rightarrow> 'e + 'b) \<Rightarrow> 'a list \<Rightarrow> 'e + 'b list" where
  "map_res f [] = Inr []"
| "map_res f (x # xs) =
     (case f x of Inl e \<Rightarrow> Inl e
      | Inr y \<Rightarrow> (case map_res f xs of Inl e \<Rightarrow> Inl e | Inr ys \<Rightarrow> Inr (y # ys)))"

lemma res_bind_simps [simp, res_simps]:
  "res_bind (Inl e) f = Inl e" "res_bind (Inr x) f = f x"
  by (simp_all add: res_bind_def)

lemma res_map_simps [simp, res_simps]:
  "res_map f (Inl e) = Inl e" "res_map f (Inr x) = Inr (f x)"
  by (simp_all add: res_map_def)

lemma ok_or_simps [simp, res_simps]:
  "ok_or e None = Inl e" "ok_or e (Some x) = Inr x"
  by (simp_all add: ok_or_def)

lemma res_bind_Inr_iff: "res_bind r f = Inr y \<longleftrightarrow> (\<exists>x. r = Inr x \<and> f x = Inr y)"
  by (cases r) auto

lemma res_bind_Inl_iff: "res_bind r f = Inl e \<longleftrightarrow> r = Inl e \<or> (\<exists>x. r = Inr x \<and> f x = Inl e)"
  by (cases r) auto

lemma res_map_Inr_iff: "res_map f r = Inr y \<longleftrightarrow> (\<exists>x. r = Inr x \<and> y = f x)"
  by (cases r) auto

lemma ok_or_Inr_iff [simp]: "ok_or e r = Inr x \<longleftrightarrow> r = Some x"
  by (cases r) auto

lemma for_each_Inr_iff: "for_each f xs = Inr u \<longleftrightarrow> (\<forall>x \<in> set xs. f x = Inr ())"
  by (induction xs) (auto split: sum.splits)

lemma for_each_Inl_D: "for_each f xs = Inl e \<Longrightarrow> \<exists>x \<in> set xs. f x = Inl e"
  by (induction xs) (auto split: sum.splits)

lemma for_each_first_error:
  "for_each f xs = Inl e \<longleftrightarrow> (\<exists>i < length xs. f (xs ! i) = Inl e \<and> (\<forall>j < i. f (xs ! j) = Inr ()))"
proof (induction xs)
  case (Cons x xs)
  show ?case
  proof (cases "f x")
    case (Inl e')
    then show ?thesis by (auto simp: All_less_Suc2 Ex_less_Suc2)
  next
    case (Inr u)
    with Cons show ?thesis by (simp add: All_less_Suc2 Ex_less_Suc2)
  qed
qed simp

lemma map_res_Inr_iff:
  "map_res f xs = Inr ys \<longleftrightarrow> list_all2 (\<lambda>x y. f x = Inr y) xs ys"
proof (induction xs arbitrary: ys)
  case Nil
  then show ?case by auto
next
  case (Cons x xs)
  show ?case
  proof (cases "map_res f xs")
    case (Inl e)
    with Cons.IH have "\<not> list_all2 (\<lambda>x y. f x = Inr y) xs ys'" for ys' by (metis Inl_Inr_False)
    with Inl show ?thesis by (cases ys) (auto split: sum.splits)
  next
    case (Inr zs)
    with Cons.IH have "list_all2 (\<lambda>x y. f x = Inr y) xs ys' \<longleftrightarrow> ys' = zs" for ys' by (metis sum.inject(2))
    with Inr show ?thesis by (cases ys) (auto split: sum.splits)
  qed
qed

lemma map_res_Inr_map: "(\<And>x. x \<in> set xs \<Longrightarrow> f x = Inr (g x)) \<Longrightarrow> map_res f xs = Inr (map g xs)"
  by (induction xs) auto

subsection \<open>Ordered string maps\<close>

text \<open>
  A \<open>BTreeMap<String, V>\<close> is the list of its entries in ascending key order. \<open>bt_insert\<close> replaces
  the entry of an existing key and otherwise inserts in place; \<open>map_of\<close> is \<open>get\<close>. A
  \<open>BTreeSet<String>\<close> is a map to \<open>unit\<close>.
\<close>

type_synonym 'v btree = "(string \<times> 'v) list"

fun bt_insert :: "string \<Rightarrow> 'v \<Rightarrow> 'v btree \<Rightarrow> 'v btree" where
  "bt_insert k v [] = [(k, v)]"
| "bt_insert k v ((k', v') # m) =
     (if k < k' then (k, v) # (k', v') # m
      else if k = k' then (k, v) # m
      else (k', v') # bt_insert k v m)"

definition bt_wf :: "'v btree \<Rightarrow> bool" where
  "bt_wf m \<longleftrightarrow> sorted_wrt (<) (map fst m)"

definition bt_keys :: "'v btree \<Rightarrow> string list" where
  "bt_keys m = map fst m"

lemma bt_wf_Nil [simp]: "bt_wf []"
  by (simp add: bt_wf_def)

lemma bt_get_insert [simp]: "map_of (bt_insert k v m) k' = (if k' = k then Some v else map_of m k')"
  by (induction k v m rule: bt_insert.induct) auto

lemma set_keys_insert [simp]: "fst ` set (bt_insert k v m) = insert k (fst ` set m)"
  by (induction k v m rule: bt_insert.induct) auto

lemma bt_wf_insert [simp]: "bt_wf m \<Longrightarrow> bt_wf (bt_insert k v m)"
proof (induction k v m rule: bt_insert.induct)
  case (2 k v k' v' m)
  have "set (map fst (bt_insert k v m)) = insert k (set (map fst m))"
    using set_keys_insert [of k v m] by simp
  with 2 show ?case by (auto simp: bt_wf_def dest: order.strict_trans)
qed (simp add: bt_wf_def)

lemma bt_wf_distinct: "bt_wf m \<Longrightarrow> distinct (map fst m)"
  by (simp add: bt_wf_def strict_sorted_iff)

text \<open>
  The interface of a finite map keyed by strings, as the registries, the profile set and the JSON
  objects use it. \<open>bt_insert\<close> and \<^const>\<open>map_of\<close> implement it.
\<close>

locale string_map =
  fixes empty :: "'m"
    and get :: "'m \<Rightarrow> string \<Rightarrow> 'v option"
    and put :: "string \<Rightarrow> 'v \<Rightarrow> 'm \<Rightarrow> 'm"
    and invar :: "'m \<Rightarrow> bool"
  assumes get_empty: "get empty k = None"
    and get_put: "invar m \<Longrightarrow> get (put k v m) k' = (if k' = k then Some v else get m k')"
    and invar_empty: "invar empty"
    and invar_put: "invar m \<Longrightarrow> invar (put k v m)"
begin

text \<open>Inserting a list of keys: exactly the listed keys are added, and the rest is untouched.\<close>

lemma invar_fold_put: "invar m \<Longrightarrow> invar (fold (\<lambda>k. put k v) ks m)"
  by (induction ks arbitrary: m) (auto simp: invar_put)

lemma get_fold_put:
  "invar m \<Longrightarrow> get (fold (\<lambda>k. put k v) ks m) k' = (if k' \<in> set ks then Some v else get m k')"
  by (induction ks arbitrary: m) (auto simp: get_put invar_put)

lemma put_new_dom: "invar m \<Longrightarrow> dom (get (put k v m)) = insert k (dom (get m))"
  by (auto simp: dom_def get_put)

lemma put_frame: "invar m \<Longrightarrow> k' \<noteq> k \<Longrightarrow> get (put k v m) k' = get m k'"
  by (simp add: get_put)

end

interpretation bt: string_map "[]" map_of bt_insert bt_wf
  by unfold_locales auto

subsection \<open>Lists\<close>

lemma nth_before_iff_take: "distinct xs \<Longrightarrow> i < length xs \<Longrightarrow> j < i \<Longrightarrow> xs ! j \<in> set (take i xs)"
  by (metis in_set_conv_nth length_take less_imp_le min.absorb2 nth_take order.strict_trans1)

lemma find_Some_D: "find P xs = Some x \<Longrightarrow> x \<in> set xs \<and> P x"
  by (auto simp: find_Some_iff)

lemma find_None_D: "find P xs = None \<Longrightarrow> y \<in> set xs \<Longrightarrow> \<not> P y"
  by (auto simp: find_None_iff)

lemma find_append: "find P (xs @ ys) = (case find P xs of None \<Rightarrow> find P ys | Some x \<Rightarrow> Some x)"
  by (induction xs) auto

lemma find_map: "find P (map f xs) = map_option f (find (\<lambda>x. P (f x)) xs)"
  by (induction xs) auto

lemma find_unique_key:
  "distinct (map f xs) \<Longrightarrow> x \<in> set xs \<Longrightarrow> find (\<lambda>y. f y = f x) xs = Some x"
  by (induction xs) auto

lemma find_unique_keyI:
  "distinct (map f xs) \<Longrightarrow> x \<in> set xs \<Longrightarrow> f x = k \<Longrightarrow> find (\<lambda>y. f y = k) xs = Some x"
  using find_unique_key by fastforce

end
