(* ===== verification/Rust_Str.thy ===== *)
theory Rust_Str
  imports Prelude
begin

text \<open>
  The operations of Rust's \<open>str\<close> the program uses, on the list of UTF-8 bytes of the string:
  \<open>starts_with\<close>, \<open>strip_prefix\<close>, \<open>find\<close>, \<open>trim\<close>, \<open>rsplit\<close>, \<open>chars().count()\<close>,
  \<open>char::is_control\<close> and the decimal rendering of an unsigned integer. Offsets are byte offsets,
  as in the language. Where a Unicode property matters (white space, control characters) the
  UTF-8 sequences of the code points that have it are listed.
\<close>

definition starts_with :: "string \<Rightarrow> string \<Rightarrow> bool" where
  "starts_with p s \<longleftrightarrow> take (length p) s = p"

definition ends_with :: "string \<Rightarrow> string \<Rightarrow> bool" where
  "ends_with p s \<longleftrightarrow> length p \<le> length s \<and> drop (length s - length p) s = p"

definition strip_prefix :: "string \<Rightarrow> string \<Rightarrow> string option" where
  "strip_prefix p s = (if starts_with p s then Some (drop (length p) s) else None)"

text \<open>\<open>s.find(p)\<close>: the byte offset of the first occurrence.\<close>

fun str_find :: "string \<Rightarrow> string \<Rightarrow> nat option" where
  "str_find p [] = (if p = [] then Some 0 else None)"
| "str_find p (c # s) = (if starts_with p (c # s) then Some 0 else map_option Suc (str_find p s))"

text \<open>\<open>&s[i..j]\<close>.\<close>

definition slice :: "nat \<Rightarrow> nat \<Rightarrow> string \<Rightarrow> string" where
  "slice i j s = take (j - i) (drop i s)"

text \<open>The UTF-8 encodings of the code points with the Unicode property White\_Space.\<close>

definition white_seqs :: "string list" where
  "white_seqs =
     [[CHR 0x09], [CHR 0x0A], [CHR 0x0B], [CHR 0x0C], [CHR 0x0D], [CHR 0x20],
      [CHR 0xC2, CHR 0x85], [CHR 0xC2, CHR 0xA0], [CHR 0xE1, CHR 0x9A, CHR 0x80],
      [CHR 0xE2, CHR 0x80, CHR 0x80], [CHR 0xE2, CHR 0x80, CHR 0x81], [CHR 0xE2, CHR 0x80, CHR 0x82],
      [CHR 0xE2, CHR 0x80, CHR 0x83], [CHR 0xE2, CHR 0x80, CHR 0x84], [CHR 0xE2, CHR 0x80, CHR 0x85],
      [CHR 0xE2, CHR 0x80, CHR 0x86], [CHR 0xE2, CHR 0x80, CHR 0x87], [CHR 0xE2, CHR 0x80, CHR 0x88],
      [CHR 0xE2, CHR 0x80, CHR 0x89], [CHR 0xE2, CHR 0x80, CHR 0x8A], [CHR 0xE2, CHR 0x80, CHR 0xA8],
      [CHR 0xE2, CHR 0x80, CHR 0xA9], [CHR 0xE2, CHR 0x80, CHR 0xAF], [CHR 0xE2, CHR 0x81, CHR 0x9F],
      [CHR 0xE3, CHR 0x80, CHR 0x80]]"

lemma white_seqs_nonempty: "w \<in> set white_seqs \<Longrightarrow> w \<noteq> []"
  by (auto simp: white_seqs_def)

function trim_start :: "string \<Rightarrow> string" where
  "trim_start s =
     (case find (\<lambda>w. starts_with w s) white_seqs of
        None \<Rightarrow> s
      | Some w \<Rightarrow> trim_start (drop (length w) s))"
  by pat_completeness auto
termination
proof (relation "measure length")
  fix s w
  assume f: "find (\<lambda>w. starts_with w s) white_seqs = Some w"
  from find_Some_D [OF this] white_seqs_nonempty have "w \<noteq> []" "starts_with w s" by auto
  then have "s \<noteq> []" by (cases s) (auto simp: starts_with_def)
  with \<open>w \<noteq> []\<close> show "(drop (length w) s, s) \<in> measure length" by simp
qed simp

function trim_end :: "string \<Rightarrow> string" where
  "trim_end s =
     (case find (\<lambda>w. ends_with w s) white_seqs of
        None \<Rightarrow> s
      | Some w \<Rightarrow> trim_end (take (length s - length w) s))"
  by pat_completeness auto
termination
proof (relation "measure length")
  fix s w
  assume f: "find (\<lambda>w. ends_with w s) white_seqs = Some w"
  from find_Some_D [OF this] white_seqs_nonempty have "w \<noteq> []" "ends_with w s" by auto
  then have "length s - length w < length s" by (cases s) (auto simp: ends_with_def)
  then show "(take (length s - length w) s, s) \<in> measure length" by simp
qed simp

declare trim_start.simps [simp del] trim_end.simps [simp del]

definition trim :: "string \<Rightarrow> string" where
  "trim s = trim_end (trim_start s)"

text \<open>\<open>s.replace(c, d)\<close> for two ASCII characters.\<close>

definition replace_char :: "char \<Rightarrow> char \<Rightarrow> string \<Rightarrow> string" where
  "replace_char c d s = map (\<lambda>x. if x = c then d else x) s"

text \<open>\<open>s.rsplit(c).next()\<close>: what follows the last \<open>c\<close>, or the whole string.\<close>

definition last_segment :: "char \<Rightarrow> string \<Rightarrow> string" where
  "last_segment c s = rev (takeWhile (\<lambda>x. x \<noteq> c) (rev s))"

fun join :: "string \<Rightarrow> string list \<Rightarrow> string" where
  "join sep [] = []"
| "join sep [x] = x"
| "join sep (x # y # xs) = x @ sep @ join sep (y # xs)"

text \<open>
  \<open>s.chars().count()\<close>: the bytes that are not UTF-8 continuation bytes; \<open>s.chars().any(char::is_control)\<close>:
  a byte below 0x20, the byte 0x7F, or a code point 0x80 to 0x9F, encoded as 0xC2 0x80 to 0xC2 0x9F.
\<close>

definition is_continuation :: "char \<Rightarrow> bool" where
  "is_continuation c \<longleftrightarrow> 128 \<le> (of_char c :: nat) \<and> (of_char c :: nat) < 192"

definition chars_count :: "string \<Rightarrow> nat" where
  "chars_count s = length (filter (\<lambda>c. \<not> is_continuation c) s)"

fun has_control :: "string \<Rightarrow> bool" where
  "has_control [] = False"
| "has_control (c # s) =
     ((of_char c :: nat) < 32 \<or> (of_char c :: nat) = 127
      \<or> (c = CHR 0xC2 \<and> (case s of [] \<Rightarrow> False | d # _ \<Rightarrow> 128 \<le> (of_char d :: nat) \<and> (of_char d :: nat) < 160))
      \<or> has_control s)"

text \<open>\<open>format!("{n}")\<close> for an unsigned integer.\<close>

fun dec :: "nat \<Rightarrow> string" where
  "dec n = (if n < 10 then [char_of (n + 48)] else dec (n div 10) @ [char_of (n mod 10 + 48)])"

declare dec.simps [simp del]

definition is_digit :: "char \<Rightarrow> bool" where
  "is_digit c \<longleftrightarrow> 48 \<le> (of_char c :: nat) \<and> (of_char c :: nat) < 58"

text \<open>\<open>to_le_bytes\<close> of an unsigned integer of \<open>n\<close> bytes.\<close>

fun le_bytes :: "nat \<Rightarrow> nat \<Rightarrow> string" where
  "le_bytes 0 v = []"
| "le_bytes (Suc n) v = char_of (v mod 256) # le_bytes n (v div 256)"

subsection \<open>Facts\<close>

lemma starts_with_append [simp]: "starts_with p (p @ s)"
  by (simp add: starts_with_def)

lemma starts_with_iff: "starts_with p s \<longleftrightarrow> (\<exists>t. s = p @ t)"
  by (metis append_take_drop_id starts_with_append starts_with_def)

lemma starts_with_Nil [simp]: "starts_with p [] \<longleftrightarrow> p = []"
  by (auto simp: starts_with_def)

lemma strip_prefix_Some: "strip_prefix p s = Some t \<longleftrightarrow> s = p @ t"
  by (auto simp: strip_prefix_def starts_with_iff)

lemma str_find_Some:
  "str_find p s = Some i \<Longrightarrow> \<exists>t. s = take i s @ p @ t \<and> i + length p \<le> length s"
proof (induction p s arbitrary: i rule: str_find.induct)
  case (1 p)
  then show ?case by (auto split: if_splits)
next
  case (2 p c s)
  show ?case
  proof (cases "starts_with p (c # s)")
    case True
    then obtain t where t: "c # s = p @ t" by (auto simp: starts_with_iff)
    then have "length p \<le> length (c # s)" by simp
    moreover have "i = 0" using True "2.prems" by simp
    ultimately show ?thesis using t by simp
  next
    case False
    with "2.prems" obtain j where j: "str_find p s = Some j" "i = Suc j" by auto
    from "2.IH" [OF False j(1)] obtain t where "s = take j s @ p @ t" "j + length p \<le> length s" by blast
    with j(2) show ?thesis by auto
  qed
qed

lemma str_find_bound: "str_find p s = Some i \<Longrightarrow> i + length p \<le> length s"
  by (drule str_find_Some) blast

lemma str_find_match: "str_find p s = Some i \<Longrightarrow> starts_with p (drop i s)"
proof -
  assume "str_find p s = Some i"
  then obtain t where t: "s = take i s @ p @ t" "i + length p \<le> length s"
    using str_find_Some by blast
  then have "take i s @ drop i s = take i s @ p @ t" by simp
  then have "drop i s = p @ t" by (simp only: same_append_eq)
  then show ?thesis by simp
qed

lemma str_find_first: "str_find p s = Some i \<Longrightarrow> j < i \<Longrightarrow> \<not> starts_with p (drop j s)"
proof (induction p s arbitrary: i j rule: str_find.induct)
  case (2 p c s)
  then show ?case by (cases j) (auto split: if_splits)
qed (auto split: if_splits)

lemma str_find_None: "str_find p s = None \<Longrightarrow> j \<le> length s \<Longrightarrow> \<not> starts_with p (drop j s)"
proof (induction p s arbitrary: j rule: str_find.induct)
  case (2 p c s)
  then show ?case by (cases j) (auto split: if_splits)
qed (auto split: if_splits)

lemma replace_char_idem: "replace_char c d (replace_char c d s) = replace_char c d s"
  by (simp add: replace_char_def)

lemma replace_char_gone: "c \<noteq> d \<Longrightarrow> c \<notin> set (replace_char c d s)"
  by (auto simp: replace_char_def)

lemma length_le_bytes [simp]: "length (le_bytes n v) = n"
  by (induction n arbitrary: v) auto

lemma le_bytes_inj: "le_bytes n v = le_bytes n w \<Longrightarrow> v < 256 ^ n \<Longrightarrow> w < 256 ^ n \<Longrightarrow> v = w"
proof (induction n arbitrary: v w)
  case (Suc n)
  from Suc.prems(1) have "(of_char (char_of (v mod 256) :: char) :: nat) = of_char (char_of (w mod 256) :: char)"
    and tl: "le_bytes n (v div 256) = le_bytes n (w div 256)" by auto
  then have m: "v mod 256 = w mod 256" by simp
  have "v div 256 < 256 ^ n" "w div 256 < 256 ^ n" using Suc.prems(2,3) by (auto simp: less_mult_imp_div_less mult.commute)
  with Suc.IH tl have "v div 256 = w div 256" by blast
  with m show ?case by (metis div_mult_mod_eq)
qed simp

lemma dec_nonempty: "dec n \<noteq> []"
  by (subst dec.simps) simp

lemma digit_char: "d < 10 \<Longrightarrow> is_digit (char_of (d + 48 :: nat))"
  by (simp add: is_digit_def)

lemma dec_digits: "c \<in> set (dec n) \<Longrightarrow> is_digit c"
proof (induction n rule: dec.induct)
  case (1 n)
  show ?case
  proof (cases "n < 10")
    case True
    with 1 show ?thesis by (simp add: dec.simps [of n] digit_char)
  next
    case False
    with "1.prems" have "c \<in> set (dec (n div 10)) \<or> c = char_of (n mod 10 + 48)"
      by (auto simp: dec.simps [of n])
    then show ?thesis
    proof
      assume "c = char_of (n mod 10 + 48)"
      then show ?thesis by (simp add: digit_char del: char_of_mod_256)
    qed (rule "1.IH" [OF False])
  qed
qed

lemma dec_inj: "dec m = dec n \<Longrightarrow> m = n"
proof (induction m arbitrary: n rule: dec.induct)
  case (1 m)
  have last: "last (dec k) = char_of (k mod 10 + 48)" for k
    by (subst dec.simps) simp
  have butl: "butlast (dec k) = (if k < 10 then [] else dec (k div 10))" for k
    by (subst dec.simps) simp
  have "(of_char (char_of (m mod 10 + 48) :: char) :: nat) = of_char (char_of (n mod 10 + 48) :: char)"
    using "1.prems" last by metis
  then have md: "m mod 10 = n mod 10" by simp
  have bl: "(if m < 10 then [] else dec (m div 10)) = (if n < 10 then [] else dec (n div 10))"
    using "1.prems" butl by metis
  show ?case
  proof (cases "m < 10")
    case True
    with bl have "n < 10" using dec_nonempty by (metis)
    with True md show ?thesis by simp
  next
    case False
    with bl have n: "\<not> n < 10" using dec_nonempty by metis
    with False bl have "dec (m div 10) = dec (n div 10)" by simp
    with "1.IH" [OF False] have "m div 10 = n div 10" by blast
    with md show ?thesis by (metis div_mult_mod_eq)
  qed
qed

lemma digits_split_inj:
  assumes "xs @ c # ys = xs' @ c # ys'" "\<And>x. x \<in> set xs \<Longrightarrow> is_digit x"
    "\<And>x. x \<in> set xs' \<Longrightarrow> is_digit x" "\<not> is_digit c"
  shows "xs = xs' \<and> ys = ys'"
proof -
  have "c \<notin> set xs" "c \<notin> set xs'" using assms by auto
  moreover have "c \<notin> set zs \<Longrightarrow> takeWhile (\<lambda>x. x \<noteq> c) (zs @ c # us) = zs" for zs us
    by (induction zs) auto
  ultimately have "xs = xs'" using assms(1) by metis
  with assms(1) show ?thesis by simp
qed

end
