(* ===== verification/F64.thy ===== *)
theory F64
  imports Prelude "HOL-Library.Log_Nat"
begin

text \<open>
  The part of IEEE 754 binary64 the program computes with: a value is a NaN, an infinity or a
  finite rational; a product is the exact product rounded to the nearest double, ties to even,
  with gradual underflow (least exponent -1074) and overflow to infinity. The two zeros are not
  told apart: nothing here divides or prints a float. \<open>f64::round\<close> rounds half away from zero;
  the \<open>as u64\<close> cast truncates and saturates, and sends a NaN to 0.
\<close>

datatype f64 = F_NaN | F_Inf bool | F_Fin rat

definition round_half_even :: "rat \<Rightarrow> int" where
  "round_half_even q =
     (let f = \<lfloor>q\<rfloor>; d = q - of_int f in
      if d < 1 / 2 then f else if 1 / 2 < d then f + 1 else if even f then f else f + 1)"

text \<open>The greatest \<open>e\<close> with \<open>2 powi e \<le> q\<close>, for a positive \<open>q\<close>.\<close>

definition ilog2 :: "rat \<Rightarrow> int" where
  "ilog2 q = (case quotient_of q of (a, b) \<Rightarrow>
     let l = bitlen a - bitlen b in if (2 :: rat) powi l \<le> q then l else l - 1)"

definition f64_of_rat :: "rat \<Rightarrow> f64" where
  "f64_of_rat q =
     (if q = 0 then F_Fin 0
      else let e = max (- 1074) (ilog2 \<bar>q\<bar> - 52);
               v = of_int (round_half_even (\<bar>q\<bar> / 2 powi e)) * 2 powi e
           in if 2 ^ 1024 \<le> v then F_Inf (q < 0) else F_Fin (sgn q * v))"

fun f64_is_finite :: "f64 \<Rightarrow> bool" where
  "f64_is_finite (F_Fin _) = True"
| "f64_is_finite _ = False"

text \<open>\<open>x > 0.0\<close> and \<open>x <= 0.0\<close>: both are false of a NaN.\<close>

fun f64_pos :: "f64 \<Rightarrow> bool" where
  "f64_pos F_NaN = False"
| "f64_pos (F_Inf neg) = (\<not> neg)"
| "f64_pos (F_Fin q) = (0 < q)"

fun f64_nonpos :: "f64 \<Rightarrow> bool" where
  "f64_nonpos F_NaN = False"
| "f64_nonpos (F_Inf neg) = neg"
| "f64_nonpos (F_Fin q) = (q \<le> 0)"

fun f64_mul :: "f64 \<Rightarrow> f64 \<Rightarrow> f64" where
  "f64_mul (F_Fin p) (F_Fin q) = f64_of_rat (p * q)"
| "f64_mul (F_Inf s) (F_Inf t) = F_Inf (s \<noteq> t)"
| "f64_mul (F_Inf s) (F_Fin q) = (if q = 0 then F_NaN else F_Inf (s \<noteq> (q < 0)))"
| "f64_mul (F_Fin q) (F_Inf s) = (if q = 0 then F_NaN else F_Inf (s \<noteq> (q < 0)))"
| "f64_mul _ _ = F_NaN"

fun f64_round :: "f64 \<Rightarrow> f64" where
  "f64_round (F_Fin q) = F_Fin (sgn q * of_int \<lfloor>\<bar>q\<bar> + 1 / 2\<rfloor>)"
| "f64_round x = x"

fun f64_as_u64 :: "f64 \<Rightarrow> u64" where
  "f64_as_u64 F_NaN = 0"
| "f64_as_u64 (F_Inf neg) = (if neg then 0 else - 1)"
| "f64_as_u64 (F_Fin q) =
     (if q \<le> 0 then 0 else if 2 ^ 64 \<le> \<lfloor>q\<rfloor> then - 1 else word_of_int \<lfloor>q\<rfloor>)"

subsection \<open>Facts\<close>

lemma round_half_even_int [simp]: "round_half_even (of_int n) = n"
  by (simp add: round_half_even_def)

lemma quotient_of_of_nat: "quotient_of (of_nat n) = (int n, 1)"
  using quotient_of_int [of "int n"] by (simp add: of_int_of_nat_eq)

lemma bitlen_bounds_nat: "0 < n \<Longrightarrow> 2 ^ nat (bitlen (int n) - 1) \<le> int n \<and> int n < 2 ^ nat (bitlen (int n))"
  using bitlen_bounds [of "int n"] by simp

lemma ilog2_of_nat_le:
  assumes "0 < n" "n < 2 ^ 53"
  shows "ilog2 (of_nat n) \<le> 52"
proof -
  have "bitlen (int n) \<le> 53"
  proof (rule ccontr)
    assume "\<not> bitlen (int n) \<le> 53"
    then have "53 \<le> nat (bitlen (int n) - 1)" by simp
    then have "(2 :: int) ^ 53 \<le> 2 ^ nat (bitlen (int n) - 1)" by (rule power_increasing) simp
    with bitlen_bounds_nat [OF assms(1)] have "2 ^ 53 \<le> int n" by linarith
    with assms(2) show False by simp
  qed
  moreover have "bitlen 1 = 1" by (simp add: bitlen_def floorlog_def)
  ultimately show ?thesis by (simp add: ilog2_def quotient_of_of_nat Let_def)
qed

lemma round_scaled_nat:
  fixes n :: nat and e :: int
  assumes "e \<le> 0"
  shows "of_int (round_half_even (of_nat n / 2 powi e)) * 2 powi e = (of_nat n :: rat)"
proof -
  have "of_nat n / (2 :: rat) powi e = of_int (int n * 2 ^ nat (- e))"
    using assms by (cases "e = 0") (simp_all add: power_int_def field_simps)
  then have "round_half_even (of_nat n / 2 powi e) = int n * 2 ^ nat (- e)"
    by (metis round_half_even_int)
  then show ?thesis
    using assms by (cases "e = 0") (simp_all add: power_int_def field_simps)
qed

text \<open>A natural number below \<open>2 ^ 53\<close> is a double, so it is its own rounding.\<close>

lemma f64_of_rat_nat: "n < 2 ^ 53 \<Longrightarrow> f64_of_rat (of_nat n) = F_Fin (of_nat n)"
proof (cases "n = 0")
  case False
  assume n: "n < 2 ^ 53"
  let ?e = "max (- 1074) (ilog2 (of_nat n) - 52)"
  have e: "?e \<le> 0" using ilog2_of_nat_le [of n] False n by simp
  have small: "(of_nat n :: rat) < 2 ^ 1024"
  proof -
    have "(of_nat n :: rat) < of_nat (2 ^ 53)" using n by (simp only: of_nat_less_iff)
    also have "\<dots> \<le> 2 ^ 1024" by simp
    finally show ?thesis .
  qed
  show ?thesis using False small by (simp add: f64_of_rat_def Let_def round_scaled_nat [OF e])
qed (simp add: f64_of_rat_def)

end
