(* ===== verification/Json.thy ===== *)
theory Json
  imports Rust_Str F64
begin

text \<open>
  JSON values as \<open>serde_json::Value\<close> has them (a number is an unsigned integer, a negative integer
  or a float; an object is an ordered map), and the accessors \<open>get\<close> and \<open>as_u64\<close>. Rendering a value
  to text and parsing it back is code of another package: it is a parameter of the definitions
  that use it.
\<close>

datatype jnum = PosInt u64 | NegInt int | Float f64

datatype json =
    JNull
  | JBool bool
  | JNum jnum
  | JStr string
  | JArr "json list"
  | JObj "(string \<times> json) list"

fun json_get :: "json \<Rightarrow> string \<Rightarrow> json option" where
  "json_get (JObj m) k = map_of m k"
| "json_get _ k = None"

fun as_u64 :: "json \<Rightarrow> u64 option" where
  "as_u64 (JNum (PosInt n)) = Some n"
| "as_u64 _ = None"

text \<open>\<open>json!(n)\<close> for a \<open>u64\<close>, and the encoding of an optional string.\<close>

abbreviation json_u64 :: "u64 \<Rightarrow> json" where
  "json_u64 n \<equiv> JNum (PosInt n)"

text \<open>
  \<open>serde_json::to_string\<close> and \<open>serde_json::from_str\<close>, which the stores use for their JSON columns.
  \<open>codec sd v\<close> is what the code relies on for a value it writes: reading the text back gives the value.
\<close>

record serde =
  js_to_text :: "json \<Rightarrow> string"
  js_of_text :: "string \<Rightarrow> json option"

definition codec :: "serde \<Rightarrow> json \<Rightarrow> bool" where
  "codec sd v \<longleftrightarrow> js_of_text sd (js_to_text sd v) = Some v"

text \<open>A concrete codec for the values the examples of this development store.\<close>

definition serde_example :: serde where
  "serde_example =
     \<lparr>js_to_text = (\<lambda>v. if v = JArr [] then ''[]'' else if v = JArr [JNull] then ''[null]'' else ''null''),
      js_of_text = (\<lambda>s. if s = ''[]'' then Some (JArr []) else if s = ''[null]'' then Some (JArr [JNull])
                    else if s = ''null'' then Some JNull else None)\<rparr>"

lemma codec_example [simp]: "codec serde_example JNull" "codec serde_example (JArr [])" "codec serde_example (JArr [JNull])"
  by (simp_all add: codec_def serde_example_def)

fun_cases as_u64_SomeE: "as_u64 v = Some n"

end
