(* ===== verification/Workflow_Model.thy ===== *)
theory Workflow_Model
  imports Json
begin

text \<open>
  The data of the workflow crate: the manifest of \<open>crates/workflow/src/model.rs\<close> and the agent
  profile of \<open>crates/workflow/src/agent.rs\<close>, with the profile's validation and its role. Parsing
  YAML and TOML text into these types is code of other packages and a parameter where it is used.
\<close>

subsection \<open>The manifest\<close>

definition SUPPORTED_SCHEMA_VERSION :: u32 where
  "SUPPORTED_SCHEMA_VERSION = 1"

record workflow_input =
  input_type :: string
  required :: bool

record workflow_budget =
  maximum_cost_usd :: "f64 option"
  maximum_duration_seconds :: "u64 option"
  maximum_agents :: "u32 option"

record agent_ref =
  ar_role :: string
  ar_model_policy :: "string option"

datatype workspace_mode = SharedWorktree | IsolatedWorktree

record workspace_spec =
  ws_mode :: workspace_mode

datatype approval_policy = BeforeWrite | Always

record retry_policy =
  attempts :: u32
  backoff_seconds :: u64

text \<open>\<open>impl Default for RetryPolicy\<close>: one attempt, no backoff.\<close>

definition default_retry :: retry_policy where
  "default_retry = \<lparr>attempts = 1, backoff_seconds = 0\<rparr>"

datatype orchestration_reason = Parallelism | IndependentReview | AccessSeparation | Specialist

record workflow_step =
  step_id :: string
  step_depends_on :: "string list"
  step_agent :: "agent_ref option"
  step_tool :: "string option"
  step_with :: "json btree"
  step_skill :: "string option"
  step_workspace :: "workspace_spec option"
  step_approval :: "approval_policy option"
  step_retry :: "retry_policy option"
  step_outputs :: "string list"

record workflow_definition =
  schema_version :: u32
  wd_id :: string
  wd_version :: u32
  wd_description :: "string option"
  wd_inputs :: "workflow_input btree"
  wd_budget :: workflow_budget
  wd_steps :: "workflow_step list"
  wd_orchestration_reason :: "orchestration_reason option"

subsection \<open>Agent profiles\<close>

definition SUPPORTED_AGENT_SCHEMA_VERSION :: u32 where
  "SUPPORTED_AGENT_SCHEMA_VERSION = 1"

record agent_permissions =
  filesystem_read :: "string list"
  filesystem_write :: "string list"
  commands :: "string list"
  network :: "string list"
  delegate_agents :: bool

record agent_budget =
  ab_maximum_cost_usd :: "f64 option"
  ab_maximum_duration_seconds :: "u64 option"
  ab_maximum_tool_calls :: "u64 option"

record agent_completion =
  completion_requires :: "string list"

record agent_profile =
  ap_schema_version :: u32
  ap_id :: string
  ap_name :: string
  ap_description :: "string option"
  ap_role :: "string option"
  ap_scope :: "string option"
  ap_mode :: "string option"
  ap_autonomy :: "string option"
  ap_model_policy :: "string option"
  ap_skills :: "string list"
  ap_tools :: "string list"
  ap_permissions :: agent_permissions
  ap_budget :: agent_budget
  ap_completion :: agent_completion

datatype agent_profile_error =
    AP_Parse
  | AP_UnsupportedSchemaVersion u32 u32
  | AP_EmptyId

text \<open>\<open>parse_agent_profile\<close>: \<open>toml\<close> is the TOML parser.\<close>

definition parse_agent_profile ::
    "(string \<Rightarrow> agent_profile option) \<Rightarrow> string \<Rightarrow> agent_profile_error + agent_profile" where
  "parse_agent_profile toml s =
     (case toml s of
        None \<Rightarrow> Inl AP_Parse
      | Some p \<Rightarrow>
          if ap_schema_version p \<noteq> SUPPORTED_AGENT_SCHEMA_VERSION
          then Inl (AP_UnsupportedSchemaVersion (ap_schema_version p) SUPPORTED_AGENT_SCHEMA_VERSION)
          else if trim (ap_id p) = [] then Inl AP_EmptyId
          else Inr p)"

text \<open>\<open>AgentProfile::fulfilled_role\<close>: the explicit role, or the last dotted segment of the id.\<close>

definition fulfilled_role :: "agent_profile \<Rightarrow> string" where
  "fulfilled_role p = (case ap_role p of Some r \<Rightarrow> r | None \<Rightarrow> last_segment (CHR ''.'') (ap_id p))"

lemma parse_agent_profile_Inr:
  "parse_agent_profile toml s = Inr p \<longleftrightarrow>
     toml s = Some p \<and> ap_schema_version p = SUPPORTED_AGENT_SCHEMA_VERSION \<and> trim (ap_id p) \<noteq> []"
  by (auto simp: parse_agent_profile_def split: option.splits)

text \<open>The derived role holds no dot, and the id is a prefix ending in a dot followed by it.\<close>

lemma last_segment_no_sep: "c \<notin> set (last_segment c s)"
  by (auto simp: last_segment_def dest: set_takeWhileD)

lemma last_segment_split: "s = last_segment c s \<or> (\<exists>p. s = p @ c # last_segment c s)"
proof -
  let ?t = "takeWhile (\<lambda>x. x \<noteq> c) (rev s)" and ?d = "dropWhile (\<lambda>x. x \<noteq> c) (rev s)"
  have split: "rev s = ?t @ ?d" by simp
  show ?thesis
  proof (cases ?d)
    case Nil
    with split have "rev s = ?t" by simp
    then show ?thesis by (metis last_segment_def rev_rev_ident)
  next
    case (Cons x d)
    then have "x = c" using hd_dropWhile [of "\<lambda>x. x \<noteq> c" "rev s"] by auto
    with split Cons have "rev s = ?t @ c # d" by simp
    then have "s = rev (?t @ c # d)" by (metis rev_rev_ident)
    then have "s = rev d @ c # rev ?t" by simp
    then show ?thesis by (auto simp: last_segment_def)
  qed
qed

end
