(* ===== verification/Binding.thy ===== *)
theory Binding
  imports Workflow_Model
begin

text \<open>
  Tool-name normalization and \<open>with:\<close> argument binding (\<open>crates/workflow/src/binding.rs\<close>): the
  placeholder scanner, the interpolation of one value and of a whole \<open>with:\<close> map. Offsets are byte
  offsets, as in the code, and the error strings are the code's. \<open>to_text\<close> stands for the JSON
  rendering of a non-string value, which another package does.
\<close>

definition normalize_tool_name :: "string \<Rightarrow> string" where
  "normalize_tool_name name = replace_char (CHR ''-'') (CHR ''_'') name"

definition OPEN :: string where "OPEN = ''${{''"
definition CLOSE :: string where "CLOSE = ''}}''"

lemma length_OPEN_CLOSE [simp]: "length OPEN = 3" "length CLOSE = 2"
  by (simp_all add: OPEN_def CLOSE_def)

text \<open>A placeholder is its start, its exclusive end and the input name it refers to.\<close>

type_synonym placeholder = "nat \<times> nat \<times> string"

text \<open>The scanner's loop, from the byte offset \<open>cursor\<close>.\<close>

function find_placeholders_from :: "string \<Rightarrow> nat \<Rightarrow> string + placeholder list" where
  "find_placeholders_from s cursor =
     (case str_find OPEN (drop cursor s) of
        None \<Rightarrow> Inr []
      | Some rel \<Rightarrow>
          let start = cursor + rel; after_open = start + length OPEN in
          case str_find CLOSE (drop after_open s) of
            None \<Rightarrow> Inl (''unterminated `${{` placeholder in `'' @ s @ ''`'')
          | Some close_rel \<Rightarrow>
              let inner_end = after_open + close_rel;
                  fin = inner_end + length CLOSE;
                  inner = trim (slice after_open inner_end s) in
              case strip_prefix ''inputs.'' inner of
                None \<Rightarrow> Inl (''`'' @ slice start fin s @
                             ''` is not a supported placeholder (only `${{ inputs.<name> }}`)'')
              | Some name \<Rightarrow>
                  if name = [] then Inl (''empty input name in `'' @ slice start fin s @ ''`'')
                  else (case find_placeholders_from s fin of
                          Inl e \<Rightarrow> Inl e
                        | Inr ps \<Rightarrow> Inr ((start, fin, name) # ps)))"
  by pat_completeness auto
termination
proof (relation "measure (\<lambda>(s, c). length s - c)")
  fix s cursor rel x xa close_rel xb xc xd name
  assume *: "str_find OPEN (drop cursor s) = Some rel" "x = cursor + rel" "xa = x + length OPEN"
    "str_find CLOSE (drop xa s) = Some close_rel" "xb = xa + close_rel" "xc = xb + length CLOSE"
  from str_find_bound [OF *(1)] have "cursor < length s" by simp
  with * show "((s, xc), s, cursor) \<in> measure (\<lambda>(s, c). length s - c)" by simp
qed simp

declare find_placeholders_from.simps [simp del]

definition find_placeholders :: "string \<Rightarrow> string + placeholder list" where
  "find_placeholders s = find_placeholders_from s 0"

definition scan_input_refs :: "string \<Rightarrow> string + string list" where
  "scan_input_refs s = res_map (map (\<lambda>(_, _, name). name)) (find_placeholders s)"

fun stringify :: "(json \<Rightarrow> string) \<Rightarrow> json \<Rightarrow> string" where
  "stringify to_text (JStr s) = s"
| "stringify to_text v = to_text v"

definition lookup_input :: "json \<Rightarrow> string \<Rightarrow> string + json" where
  "lookup_input inputs name = ok_or (''unknown workflow input `'' @ name @ ''`'') (json_get inputs name)"

text \<open>The splicing loop: the text before each placeholder, then the placeholder's value.\<close>

fun splice :: "(json \<Rightarrow> string) \<Rightarrow> json \<Rightarrow> string \<Rightarrow> nat \<Rightarrow> placeholder list \<Rightarrow> string + string" where
  "splice to_text inputs s lastp [] = Inr (drop lastp s)"
| "splice to_text inputs s lastp ((start, fin, name) # ps) =
     (case lookup_input inputs name of
        Inl e \<Rightarrow> Inl e
      | Inr v \<Rightarrow> res_map (\<lambda>t. slice lastp start s @ stringify to_text v @ t)
                        (splice to_text inputs s fin ps))"

fun interpolate :: "(json \<Rightarrow> string) \<Rightarrow> json \<Rightarrow> json \<Rightarrow> string + json" where
  "interpolate to_text inputs (JStr s) =
     (case find_placeholders s of
        Inl e \<Rightarrow> Inl e
      | Inr [] \<Rightarrow> Inr (JStr s)
      | Inr [(start, fin, name)] \<Rightarrow>
          if start = 0 \<and> fin = length s then lookup_input inputs name
          else res_map JStr (splice to_text inputs s 0 [(start, fin, name)])
      | Inr ps \<Rightarrow> res_map JStr (splice to_text inputs s 0 ps))"
| "interpolate to_text inputs v = Inr v"

fun bind_entries :: "(json \<Rightarrow> string) \<Rightarrow> json \<Rightarrow> json btree \<Rightarrow> json btree \<Rightarrow> string + json" where
  "bind_entries to_text inputs bound [] = Inr (JObj bound)"
| "bind_entries to_text inputs bound ((k, v) # rest) =
     (case interpolate to_text inputs v of
        Inl e \<Rightarrow> Inl e
      | Inr v' \<Rightarrow> bind_entries to_text inputs (bt_insert k v' bound) rest)"

definition bind_with :: "(json \<Rightarrow> string) \<Rightarrow> json btree \<Rightarrow> json \<Rightarrow> string + json" where
  "bind_with to_text w inputs = bind_entries to_text inputs [] w"

subsection \<open>Well-formed placeholder spans\<close>

text \<open>
  The spans a scan reports from \<open>cursor\<close>: in order, disjoint, inside the string, each opening with
  \<open>${{\<close> and closing with the first \<open>}}\<close> after it, and no \<open>${{\<close> left before the first or after the last.
\<close>

fun spans_ok :: "string \<Rightarrow> nat \<Rightarrow> placeholder list \<Rightarrow> bool" where
  "spans_ok s cursor [] = (str_find OPEN (drop cursor s) = None)"
| "spans_ok s cursor ((start, fin, name) # ps) =
     (cursor \<le> start \<and> start + 5 \<le> fin \<and> fin \<le> length s
      \<and> str_find OPEN (drop cursor s) = Some (start - cursor)
      \<and> starts_with OPEN (drop start s)
      \<and> str_find CLOSE (drop (start + 3) s) = Some (fin - start - 5)
      \<and> name \<noteq> [] \<and> trim (slice (start + 3) (fin - 2) s) = ''inputs.'' @ name
      \<and> spans_ok s fin ps)"

lemma find_placeholders_from_spans:
  "find_placeholders_from s cursor = Inr ps \<Longrightarrow> spans_ok s cursor ps"
proof (induction s cursor arbitrary: ps rule: find_placeholders_from.induct)
  case (1 s cursor)
  show ?case
  proof (cases "str_find OPEN (drop cursor s)")
    case None
    with "1.prems" show ?thesis by (simp add: find_placeholders_from.simps [of s cursor])
  next
    case (Some rel)
    let ?st = "cursor + rel"
    obtain cl where cl: "str_find CLOSE (drop (?st + length OPEN) s) = Some cl"
      using "1.prems" Some by (fastforce simp: find_placeholders_from.simps [of s cursor] Let_def split: option.splits)
    let ?ie = "?st + length OPEN + cl" and ?fin = "?st + length OPEN + cl + length CLOSE"
    obtain name where nm: "strip_prefix ''inputs.'' (trim (slice (?st + length OPEN) ?ie s)) = Some name"
      using "1.prems" Some cl by (fastforce simp: find_placeholders_from.simps [of s cursor] Let_def split: option.splits)
    have ne: "name \<noteq> []"
      using "1.prems" Some cl nm by (auto simp: find_placeholders_from.simps [of s cursor] Let_def)
    obtain qs where qs: "find_placeholders_from s ?fin = Inr qs" "ps = (?st, ?fin, name) # qs"
      using "1.prems" Some cl nm ne by (auto simp: find_placeholders_from.simps [of s cursor] Let_def split: sum.splits)
    have "spans_ok s ?fin qs"
      by (rule "1.IH" [OF Some refl refl cl refl refl refl nm ne qs(1)])
    moreover have "starts_with OPEN (drop ?st s)"
      using str_find_match [OF Some] by (simp add: add.commute)
    moreover have "?fin \<le> length s" using str_find_bound [OF cl] by simp
    ultimately show ?thesis using Some cl nm ne qs(2) by (simp add: strip_prefix_Some add.commute add.left_commute)
  qed
qed

subsection \<open>What interpolation preserves\<close>

text \<open>
  Literal pieces and placeholder pieces alternating: the first literal, then a placeholder and the
  next literal, and so on.
\<close>

fun interleave :: "string list \<Rightarrow> string list \<Rightarrow> string" where
  "interleave [] vs = []"
| "interleave [l] vs = l"
| "interleave (l # ls) [] = l"
| "interleave (l # ls) (v # vs) = l @ v @ interleave ls vs"

text \<open>The literal pieces and the raw placeholder texts of a scanned string.\<close>

fun literals :: "string \<Rightarrow> nat \<Rightarrow> placeholder list \<Rightarrow> string list" where
  "literals s lastp [] = [drop lastp s]"
| "literals s lastp ((start, fin, name) # ps) = slice lastp start s # literals s fin ps"

fun raw_texts :: "string \<Rightarrow> placeholder list \<Rightarrow> string list" where
  "raw_texts s [] = []"
| "raw_texts s ((start, fin, name) # ps) = slice start fin s # raw_texts s ps"

lemma literals_nonempty [simp]: "literals s lastp ps \<noteq> []"
  by (cases ps) auto

lemma interleave_Cons: "ls \<noteq> [] \<Longrightarrow> interleave (l # ls) (v # vs) = l @ v @ interleave ls vs"
  by (cases ls) auto

lemma drop_slice: "i \<le> j \<Longrightarrow> drop i s = slice i j s @ drop j s"
  by (metis append_take_drop_id drop_drop le_add_diff_inverse2 slice_def)

lemma interleave_raw: "spans_ok s lastp ps \<Longrightarrow> interleave (literals s lastp ps) (raw_texts s ps) = drop lastp s"
proof (induction s lastp ps rule: spans_ok.induct)
  case (2 s cursor start fin name ps)
  then have IH: "interleave (literals s fin ps) (raw_texts s ps) = drop fin s" by simp
  have "drop cursor s = slice cursor start s @ slice start fin s @ drop fin s"
    using "2.prems" drop_slice [of cursor start s] drop_slice [of start fin s] by simp
  then show ?case by (simp add: interleave_Cons IH)
qed simp

lemma splice_Inr:
  "splice to_text inputs s lastp ps = Inr t \<Longrightarrow>
     \<exists>vs. list_all2 (\<lambda>(_, _, name) v. json_get inputs name = Some v) ps vs
        \<and> t = interleave (literals s lastp ps) (map (stringify to_text) vs)"
proof (induction to_text inputs s lastp ps arbitrary: t rule: splice.induct)
  case (2 to_text inputs s lastp start fin name ps)
  from "2.prems" obtain v t' where v: "json_get inputs name = Some v"
    and t': "splice to_text inputs s fin ps = Inr t'" "t = slice lastp start s @ stringify to_text v @ t'"
    by (auto simp: lookup_input_def res_map_def split: sum.splits)
  with "2.IH" obtain vs where "list_all2 (\<lambda>(_, _, name) v. json_get inputs name = Some v) ps vs"
    and "t' = interleave (literals s fin ps) (map (stringify to_text) vs)"
    by (fastforce simp: lookup_input_def)
  with v t' show ?case by (intro exI [of _ "v # vs"]) (simp add: interleave_Cons)
qed simp

text \<open>
  \<open>t\<close> is the string \<open>s\<close> with each placeholder replaced by the rendering of its input, every other
  byte kept.
\<close>

definition text_preserved :: "(json \<Rightarrow> string) \<Rightarrow> json \<Rightarrow> string \<Rightarrow> placeholder list \<Rightarrow> string \<Rightarrow> bool" where
  "text_preserved to_text inputs s ps t \<longleftrightarrow>
     s = interleave (literals s 0 ps) (raw_texts s ps)
     \<and> (\<exists>vs. list_all2 (\<lambda>(_, _, name) v. json_get inputs name = Some v) ps vs
          \<and> t = interleave (literals s 0 ps) (map (stringify to_text) vs))"

lemma splice_total:
  "(\<And>p. p \<in> set ps \<Longrightarrow> json_get inputs (snd (snd p)) \<noteq> None) \<Longrightarrow>
     \<exists>t. splice to_text inputs s lastp ps = Inr t"
proof (induction to_text inputs s lastp ps rule: splice.induct)
  case (2 to_text inputs s lastp start fin name ps)
  from "2.prems" [of "(start, fin, name)"] obtain v where "json_get inputs name = Some v" by auto
  then have l: "lookup_input inputs name = Inr v" by (simp add: lookup_input_def)
  from "2.IH" [OF l] "2.prems" obtain t where "splice to_text inputs s fin ps = Inr t" by fastforce
  with l show ?case by simp
qed simp

lemma interpolate_total:
  assumes "case v of JStr s \<Rightarrow> \<exists>ps. find_placeholders s = Inr ps \<and>
             (\<forall>p \<in> set ps. json_get inputs (snd (snd p)) \<noteq> None) | _ \<Rightarrow> True"
  shows "\<exists>r. interpolate to_text inputs v = Inr r"
proof (cases v)
  case (JStr s)
  with assms obtain ps where ps: "find_placeholders s = Inr ps"
    and look: "\<And>p. p \<in> set ps \<Longrightarrow> json_get inputs (snd (snd p)) \<noteq> None" by auto
  from splice_total [OF look] obtain t where t: "splice to_text inputs s 0 ps = Inr t" by blast
  have "\<exists>w. lookup_input inputs n = Inr w" if "(a, b, n) \<in> set ps" for a b n
    using look [OF that] by (auto simp: lookup_input_def)
  with ps t JStr show ?thesis by (auto split: list.splits)
qed auto

lemma bind_entries_total:
  assumes "\<And>k v. (k, v) \<in> set w \<Longrightarrow> \<exists>r. interpolate to_text inputs v = Inr r"
  shows "\<exists>b. bind_entries to_text inputs bound w = Inr (JObj b)"
  using assms
proof (induction w arbitrary: bound)
  case (Cons e w)
  obtain k v where e: "e = (k, v)" by (cases e)
  with Cons.prems obtain r where "interpolate to_text inputs v = Inr r" by auto
  moreover have "\<exists>b. bind_entries to_text inputs (bt_insert k r bound) w = Inr (JObj b)" for r
    by (rule Cons.IH) (use Cons.prems in auto)
  ultimately show ?case using e by simp
qed simp

text \<open>Binding a map in key order appends each entry, so the bound object has the map's keys in order.\<close>

lemma bt_insert_last: "(\<And>k'. k' \<in> set (map fst m) \<Longrightarrow> k' < k) \<Longrightarrow> bt_insert k v m = m @ [(k, v)]"
proof (induction m)
  case (Cons e m)
  from Cons.prems [of "fst e"] have "fst e < k" by simp
  then show ?case using Cons by (cases e) (auto dest: order.asym)
qed simp

lemma bind_entries_Inr:
  "bind_entries to_text inputs bound w = Inr r \<Longrightarrow> sorted_wrt (<) (map fst (bound @ w)) \<Longrightarrow>
     \<exists>b. r = JObj (bound @ b) \<and> list_all2 (\<lambda>(k, v) (k', v'). k' = k \<and> interpolate to_text inputs v = Inr v') w b"
proof (induction w arbitrary: bound)
  case (Cons e w)
  obtain k v where e: "e = (k, v)" by (cases e)
  with Cons.prems obtain v' where v': "interpolate to_text inputs v = Inr v'"
    and rec: "bind_entries to_text inputs (bt_insert k v' bound) w = Inr r" by (auto split: sum.splits)
  have ins: "bt_insert k v' bound = bound @ [(k, v')]"
    using Cons.prems(2) e by (intro bt_insert_last) (auto simp: sorted_wrt_append)
  with Cons.prems(2) e have "sorted_wrt (<) (map fst ((bound @ [(k, v')]) @ w))" by simp
  from Cons.IH [OF rec [unfolded ins] this] obtain b where
    "r = JObj ((bound @ [(k, v')]) @ b)" "list_all2 (\<lambda>(k, v) (k', v'). k' = k \<and> interpolate to_text inputs v = Inr v') w b"
    by blast
  with e v' show ?case by (intro exI [of _ "(k, v') # b"]) simp
qed simp

lemma normalize_idem: "normalize_tool_name (normalize_tool_name n) = normalize_tool_name n"
  by (simp add: normalize_tool_name_def replace_char_idem)

subsection \<open>Properties\<close>

text \<open>
  the scanner reports exactly the placeholders of the string: the spans are in order, disjoint
  and inside the string, each opens at the first \<open>${{\<close> after the previous one and ends at the first
  \<open>}}\<close> after that, its trimmed content is \<open>inputs.\<close> followed by the non-empty name reported, and no
  \<open>${{\<close> is left after the last.
\<close>

lemma find_placeholders_spans: "find_placeholders s = Inr ps \<Longrightarrow> spans_ok s 0 ps"
  unfolding find_placeholders_def by (rule find_placeholders_from_spans)

text \<open>
  interpolating a string either is the typed passthrough of a string that is one whole
  placeholder (the input's JSON value unchanged), or substitutes each placeholder by the rendering
  of its input and keeps every byte of the surrounding text: source and result are the same literal
  pieces, interleaved once with the raw placeholders and once with the rendered inputs.
\<close>

lemma interpolate_text:
  assumes "find_placeholders s = Inr ps" "interpolate to_text inputs (JStr s) = Inr r"
  shows "(\<exists>n. ps = [(0, length s, n)] \<and> json_get inputs n = Some r)
    \<or> (\<exists>t. r = JStr t \<and> text_preserved to_text inputs s ps t)"
proof (cases "\<exists>n. ps = [(0, length s, n)]")
  case True
  with assms show ?thesis by (auto simp: lookup_input_def)
next
  case False
  have raw: "s = interleave (literals s 0 ps) (raw_texts s ps)"
    using interleave_raw [OF find_placeholders_from_spans] assms(1) by (simp add: find_placeholders_def)
  have ex: "\<exists>t. splice to_text inputs s 0 ps = Inr t \<and> r = JStr t"
    using assms False by (auto split: list.splits if_splits simp: res_map_def split: sum.splits)
  then obtain t where t: "splice to_text inputs s 0 ps = Inr t" "r = JStr t" by blast
  from raw splice_Inr [OF t(1)] have "text_preserved to_text inputs s ps t"
    unfolding text_preserved_def by (rule conjI)
  with t(2) show ?thesis by blast
qed

text \<open>
  A bound \<open>with:\<close> map has exactly the manifest's keys, in order, each with its interpolated value.
\<close>

lemma bind_with_entries:
  assumes "bt_wf w" "bind_with to_text w inputs = Inr r"
  shows "\<exists>b. r = JObj b \<and> bt_keys b = bt_keys w
    \<and> list_all2 (\<lambda>(k, v) (k', v'). k' = k \<and> interpolate to_text inputs v = Inr v') w b"
proof -
  from bind_entries_Inr [of to_text inputs "[]" w r] assms obtain b where
    r: "r = JObj b" and b: "list_all2 (\<lambda>(k, v) (k', v'). k' = k \<and> interpolate to_text inputs v = Inr v') w b"
    by (auto simp: bind_with_def bt_wf_def)
  from b have "bt_keys b = bt_keys w"
    unfolding bt_keys_def by (induction rule: list_all2_induct) auto
  with r b show ?thesis by blast
qed

end
