(* ===== verification/Registry.thy ===== *)
theory Registry
  imports Workflow_Model
begin

text \<open>
  The name registry the compiler's references are checked against (\<open>crates/workflow/src/registry.rs\<close>).
  The trait \<open>WorkflowRegistry\<close> is a record of its three membership tests; \<open>SetRegistry\<close> is a record of
  three string sets, a \<open>BTreeSet<String>\<close> being a map to \<open>unit\<close>.
\<close>

record workflow_registry =
  has_tool :: "string \<Rightarrow> bool"
  has_skill :: "string \<Rightarrow> bool"
  has_agent_role :: "string \<Rightarrow> bool"

record set_registry =
  sr_tools :: "unit btree"
  sr_skills :: "unit btree"
  sr_roles :: "unit btree"

definition new_registry :: set_registry where
  "new_registry = \<lparr>sr_tools = [], sr_skills = [], sr_roles = []\<rparr>"

definition with_tool :: "string \<Rightarrow> set_registry \<Rightarrow> set_registry" where
  "with_tool name r = r\<lparr>sr_tools := bt_insert name () (sr_tools r)\<rparr>"

definition with_skill :: "string \<Rightarrow> set_registry \<Rightarrow> set_registry" where
  "with_skill name r = r\<lparr>sr_skills := bt_insert name () (sr_skills r)\<rparr>"

definition with_agent_role :: "string \<Rightarrow> set_registry \<Rightarrow> set_registry" where
  "with_agent_role name r = r\<lparr>sr_roles := bt_insert name () (sr_roles r)\<rparr>"

definition add_tools :: "string list \<Rightarrow> set_registry \<Rightarrow> set_registry" where
  "add_tools names r = r\<lparr>sr_tools := fold (\<lambda>n. bt_insert n ()) names (sr_tools r)\<rparr>"

definition add_skills :: "string list \<Rightarrow> set_registry \<Rightarrow> set_registry" where
  "add_skills names r = r\<lparr>sr_skills := fold (\<lambda>n. bt_insert n ()) names (sr_skills r)\<rparr>"

definition add_agent_roles :: "string list \<Rightarrow> set_registry \<Rightarrow> set_registry" where
  "add_agent_roles names r = r\<lparr>sr_roles := fold (\<lambda>n. bt_insert n ()) names (sr_roles r)\<rparr>"

text \<open>\<open>impl WorkflowRegistry for SetRegistry\<close>.\<close>

definition set_registry_lookup :: "set_registry \<Rightarrow> workflow_registry" where
  "set_registry_lookup r =
     \<lparr>has_tool = (\<lambda>n. map_of (sr_tools r) n \<noteq> None),
      has_skill = (\<lambda>n. map_of (sr_skills r) n \<noteq> None),
      has_agent_role = (\<lambda>n. map_of (sr_roles r) n \<noteq> None)\<rparr>"

definition registry_wf :: "set_registry \<Rightarrow> bool" where
  "registry_wf r \<longleftrightarrow> bt_wf (sr_tools r) \<and> bt_wf (sr_skills r) \<and> bt_wf (sr_roles r)"

lemmas registry_defs = new_registry_def with_tool_def with_skill_def with_agent_role_def
  add_tools_def add_skills_def add_agent_roles_def set_registry_lookup_def registry_wf_def

lemma registry_wf_ops:
  "registry_wf new_registry"
  "registry_wf r \<Longrightarrow> registry_wf (with_tool n r)"
  "registry_wf r \<Longrightarrow> registry_wf (with_skill n r)"
  "registry_wf r \<Longrightarrow> registry_wf (with_agent_role n r)"
  "registry_wf r \<Longrightarrow> registry_wf (add_tools ns r)"
  "registry_wf r \<Longrightarrow> registry_wf (add_skills ns r)"
  "registry_wf r \<Longrightarrow> registry_wf (add_agent_roles ns r)"
  by (simp_all add: registry_defs bt.invar_fold_put)

lemma registry_lookup_ops:
  assumes "registry_wf r"
  shows "has_tool (set_registry_lookup (add_tools ns r)) n \<longleftrightarrow> n \<in> set ns \<or> has_tool (set_registry_lookup r) n"
    and "has_skill (set_registry_lookup (add_skills ns r)) n \<longleftrightarrow> n \<in> set ns \<or> has_skill (set_registry_lookup r) n"
    and "has_agent_role (set_registry_lookup (add_agent_roles ns r)) n \<longleftrightarrow> n \<in> set ns \<or> has_agent_role (set_registry_lookup r) n"
  using assms by (simp_all add: registry_defs bt.get_fold_put del: not_None_eq)

end
