(* ===== verification/Blackboard.thy ===== *)
theory Blackboard
  imports Json "HOL-Library.Product_Lexorder" "HOL-Library.Multiset"
begin

text \<open>
  The blackboard of a workflow run (\<open>crates/workflow/src/blackboard.rs\<close>): the artifact kinds, the board
  status, and the store. The table \<open>blackboard_items\<close> is the list of its rows in insertion order, with
  its text columns as the code writes them: the kind by its name, JSON as text through a \<^typ>\<open>serde\<close>.
  Each operation takes what it gets from elsewhere as an argument: the fresh id, the clock, the set of
  existing workflow runs (the foreign key), and \<open>lower\<close> for \<open>str::to_lowercase\<close>.
\<close>

subsection \<open>Kinds and statuses\<close>

datatype blackboard_kind =
    Finding | Hypothesis | Decision | CodeLocation | ProposedPatch | TestResult | DocumentDraft
  | OpenQuestion | Task

fun kind_str :: "blackboard_kind \<Rightarrow> string" where
  "kind_str Finding = ''finding''"
| "kind_str Hypothesis = ''hypothesis''"
| "kind_str Decision = ''decision''"
| "kind_str CodeLocation = ''code_location''"
| "kind_str ProposedPatch = ''proposed_patch''"
| "kind_str TestResult = ''test_result''"
| "kind_str DocumentDraft = ''document_draft''"
| "kind_str OpenQuestion = ''open_question''"
| "kind_str Task = ''task''"

fun requires_evidence :: "blackboard_kind \<Rightarrow> bool" where
  "requires_evidence Finding = True"
| "requires_evidence Decision = True"
| "requires_evidence TestResult = True"
| "requires_evidence ProposedPatch = True"
| "requires_evidence CodeLocation = True"
| "requires_evidence _ = False"

definition parse_kind :: "string \<Rightarrow> blackboard_kind option" where
  "parse_kind s =
     (if s = ''finding'' then Some Finding
      else if s = ''hypothesis'' then Some Hypothesis
      else if s = ''decision'' then Some Decision
      else if s = ''code_location'' then Some CodeLocation
      else if s = ''proposed_patch'' then Some ProposedPatch
      else if s = ''test_result'' then Some TestResult
      else if s = ''document_draft'' then Some DocumentDraft
      else if s = ''open_question'' then Some OpenQuestion
      else if s = ''task'' then Some Task
      else None)"

lemma parse_kind_str [simp]: "parse_kind (kind_str k) = Some k"
  by (cases k) (simp_all add: parse_kind_def)

lemma kind_str_parse: "parse_kind s = Some k \<Longrightarrow> s = kind_str k"
  by (auto simp: parse_kind_def split: if_splits)

datatype blackboard_error =
    BE_Database
  | BE_Serde
  | BE_EvidenceRequired string
  | BE_NotFound string
  | BE_AlreadySuperseded string
  | BE_InvalidStatus string
  | BE_BoardUnavailable string

definition bb_parse_kind :: "string \<Rightarrow> blackboard_error + blackboard_kind" where
  "bb_parse_kind s = ok_or (BE_NotFound (''kind '' @ s)) (parse_kind s)"

definition DEFAULT_BOARD_STATUSES :: "string list" where
  "DEFAULT_BOARD_STATUSES = [''todo'', ''doing'', ''review'', ''done'']"

definition DEFAULT_TASK_STATUS :: string where
  "DEFAULT_TASK_STATUS = ''todo''"

definition MAX_STATUS_LEN :: nat where
  "MAX_STATUS_LEN = 32"

definition normalize_status :: "(string \<Rightarrow> string) \<Rightarrow> string \<Rightarrow> blackboard_error + string" where
  "normalize_status lower status =
     (let trimmed = trim status in
      if trimmed = [] \<or> MAX_STATUS_LEN < chars_count trimmed \<or> has_control trimmed
      then Inl (BE_InvalidStatus status)
      else Inr (lower trimmed))"

subsection \<open>Artifacts\<close>

record board_fields =
  board_scope :: "string option"
  board_status :: "string option"
  board_assignee :: "string option"
  board_ordinal :: "int option"

record new_item =
  ni_kind :: blackboard_kind
  ni_payload :: json
  ni_author :: json
  ni_confidence :: "f64 option"
  ni_evidence :: "json list"
  ni_board :: board_fields

record item =
  it_id :: string
  it_kind :: blackboard_kind
  it_payload :: json
  it_author :: json
  it_confidence :: "f64 option"
  it_evidence :: "json list"
  it_revision :: u32
  it_superseded_by :: "string option"
  it_board :: board_fields

text \<open>A row of \<open>blackboard_items\<close>.\<close>

record bb_row =
  row_id :: string
  row_run :: string
  row_kind :: string
  row_payload :: string
  row_author :: string
  row_confidence :: "f64 option"
  row_evidence :: string
  row_revision :: u32
  row_superseded_by :: "string option"
  row_created_at :: string
  row_board :: board_fields

type_synonym bb_table = "bb_row list"

definition normalize_board :: "(string \<Rightarrow> string) \<Rightarrow> new_item \<Rightarrow> blackboard_error + new_item" where
  "normalize_board lower n =
     (case (board_status (ni_board n), ni_kind n) of
        (Some status, _) \<Rightarrow>
          res_map (\<lambda>s. n\<lparr>ni_board := (ni_board n)\<lparr>board_status := Some s\<rparr>\<rparr>) (normalize_status lower status)
      | (None, Task) \<Rightarrow> Inr (n\<lparr>ni_board := (ni_board n)\<lparr>board_status := Some DEFAULT_TASK_STATUS\<rparr>\<rparr>)
      | (None, _) \<Rightarrow> Inr n)"

text \<open>
  \<open>INSERT INTO blackboard_items\<close>: the primary key and the foreign key to \<open>workflow_runs\<close> may refuse it.
\<close>

definition insert_item_tx ::
    "serde \<Rightarrow> (string \<Rightarrow> bool) \<Rightarrow> string \<Rightarrow> string \<Rightarrow> string \<Rightarrow> new_item \<Rightarrow> u32 \<Rightarrow> bb_table \<Rightarrow> blackboard_error + bb_table" where
  "insert_item_tx sd runs now run uid n revision t =
     (if \<not> runs run \<or> (\<exists>r \<in> set t. row_id r = uid) then Inl BE_Database
      else Inr (t @ [\<lparr>row_id = uid, row_run = run, row_kind = kind_str (ni_kind n),
                     row_payload = js_to_text sd (ni_payload n), row_author = js_to_text sd (ni_author n),
                     row_confidence = ni_confidence n, row_evidence = js_to_text sd (JArr (ni_evidence n)),
                     row_revision = revision, row_superseded_by = None, row_created_at = now,
                     row_board = ni_board n\<rparr>]))"

definition item_of_new :: "string \<Rightarrow> u32 \<Rightarrow> new_item \<Rightarrow> item" where
  "item_of_new uid revision n =
     \<lparr>it_id = uid, it_kind = ni_kind n, it_payload = ni_payload n, it_author = ni_author n,
      it_confidence = ni_confidence n, it_evidence = ni_evidence n, it_revision = revision,
      it_superseded_by = None, it_board = ni_board n\<rparr>"

definition evidence_check :: "new_item \<Rightarrow> blackboard_error + unit" where
  "evidence_check n =
     (if requires_evidence (ni_kind n) \<and> ni_evidence n = []
      then Inl (BE_EvidenceRequired (kind_str (ni_kind n))) else Inr ())"

definition post ::
    "serde \<Rightarrow> (string \<Rightarrow> string) \<Rightarrow> (string \<Rightarrow> bool) \<Rightarrow> string \<Rightarrow> string \<Rightarrow> string \<Rightarrow> new_item \<Rightarrow> bb_table
      \<Rightarrow> blackboard_error + (bb_table \<times> item)" where
  "post sd lower runs now uid run n t =
     res_bind (evidence_check n) (\<lambda>_.
     res_bind (normalize_board lower n) (\<lambda>n'.
     res_map (\<lambda>t'. (t', item_of_new uid 1 n')) (insert_item_tx sd runs now run uid n' 1 t)))"

text \<open>
  \<open>supersede\<close>: one write-locked transaction. The final conditional \<open>UPDATE\<close> matches on the id and a NULL
  \<open>superseded_by\<close>; the count of rows it changed decides between commit and rollback.
\<close>

definition stamp_superseded :: "string \<Rightarrow> string \<Rightarrow> bb_table \<Rightarrow> bb_table \<times> nat" where
  "stamp_superseded new_id old_id t =
     (map (\<lambda>r. if row_id r = old_id \<and> row_superseded_by r = None
               then r\<lparr>row_superseded_by := Some new_id\<rparr> else r) t,
      length (filter (\<lambda>r. row_id r = old_id \<and> row_superseded_by r = None) t))"

definition supersede ::
    "serde \<Rightarrow> (string \<Rightarrow> string) \<Rightarrow> (string \<Rightarrow> bool) \<Rightarrow> string \<Rightarrow> string \<Rightarrow> string \<Rightarrow> string \<Rightarrow> new_item \<Rightarrow> bb_table
      \<Rightarrow> blackboard_error + (bb_table \<times> item)" where
  "supersede sd lower runs now uid run old_id n t =
     res_bind (evidence_check n) (\<lambda>_.
     res_bind (normalize_board lower n) (\<lambda>n'.
     res_bind (ok_or (BE_NotFound old_id) (find (\<lambda>r. row_id r = old_id \<and> row_run r = run) t)) (\<lambda>old.
     if row_superseded_by old \<noteq> None then Inl (BE_AlreadySuperseded old_id)
     else let revision = row_revision old + 1 in
       res_bind (insert_item_tx sd runs now run uid n' revision t) (\<lambda>t1.
       case stamp_superseded uid old_id t1 of (t2, affected) \<Rightarrow>
         if affected \<noteq> 1 then Inl (BE_AlreadySuperseded old_id)
         else Inr (t2, item_of_new uid revision n')))))"

definition next_ordinal :: "string \<Rightarrow> string \<Rightarrow> bb_table \<Rightarrow> int" where
  "next_ordinal run status t =
     (let os = List.map_filter (\<lambda>r. if row_run r = run \<and> board_status (row_board r) = Some status
                                      \<and> row_superseded_by r = None then board_ordinal (row_board r) else None) t
      in if os = [] then 0 else fold max os (hd os) + 1)"

definition row_to_item :: "serde \<Rightarrow> bb_row \<Rightarrow> blackboard_error + item" where
  "row_to_item sd r =
     res_bind (bb_parse_kind (row_kind r)) (\<lambda>kind.
     res_bind (ok_or BE_Serde (js_of_text sd (row_payload r))) (\<lambda>payload.
     res_bind (ok_or BE_Serde (js_of_text sd (row_author r))) (\<lambda>author.
     case js_of_text sd (row_evidence r) of
       Some (JArr evidence) \<Rightarrow>
         Inr \<lparr>it_id = row_id r, it_kind = kind, it_payload = payload, it_author = author,
              it_confidence = row_confidence r, it_evidence = evidence, it_revision = row_revision r,
              it_superseded_by = row_superseded_by r, it_board = row_board r\<rparr>
     | _ \<Rightarrow> Inl BE_Serde)))"

definition query :: "serde \<Rightarrow> string \<Rightarrow> blackboard_kind option \<Rightarrow> bool \<Rightarrow> bb_table \<Rightarrow> blackboard_error + item list" where
  "query sd run kind include_superseded t =
     map_res (row_to_item sd)
       (rev (sort_key (\<lambda>r. (row_created_at r, row_id r))
         (filter (\<lambda>r. row_run r = run \<and> (include_superseded \<or> row_superseded_by r = None)
                      \<and> (case kind of None \<Rightarrow> True | Some k \<Rightarrow> row_kind r = kind_str k)) t)))"

definition bb_get :: "serde \<Rightarrow> string \<Rightarrow> string \<Rightarrow> bb_table \<Rightarrow> blackboard_error + item option" where
  "bb_get sd run uid t =
     (case find (\<lambda>r. row_id r = uid \<and> row_run r = run) t of
        None \<Rightarrow> Inr None
      | Some r \<Rightarrow> res_map Some (row_to_item sd r))"

text \<open>
  The two walks of \<open>history\<close>. Each loop of the code follows one link per turn; \<open>fuel\<close> bounds the turns
  and \<open>None\<close> is running out of it, which does not happen on the tables the store builds.
\<close>

fun walk_back :: "nat \<Rightarrow> serde \<Rightarrow> string \<Rightarrow> string \<Rightarrow> bb_table \<Rightarrow> (blackboard_error + item list) option" where
  "walk_back 0 sd run cursor t = None"
| "walk_back (Suc fuel) sd run cursor t =
     (case find (\<lambda>r. row_run r = run \<and> row_superseded_by r = Some cursor) t of
        None \<Rightarrow> Some (Inr [])
      | Some r \<Rightarrow>
          (case row_to_item sd r of
             Inl e \<Rightarrow> Some (Inl e)
           | Inr it \<Rightarrow> map_option (res_map (\<lambda>its. it # its)) (walk_back fuel sd run (it_id it) t)))"

fun walk_forward :: "nat \<Rightarrow> serde \<Rightarrow> string \<Rightarrow> string option \<Rightarrow> bb_table \<Rightarrow> (blackboard_error + item list) option" where
  "walk_forward 0 sd run nxt t = None"
| "walk_forward (Suc fuel) sd run nxt t =
     (case nxt of
        None \<Rightarrow> Some (Inr [])
      | Some next_id \<Rightarrow>
          (case bb_get sd run next_id t of
             Inl e \<Rightarrow> Some (Inl e)
           | Inr None \<Rightarrow> Some (Inr [])
           | Inr (Some it) \<Rightarrow> map_option (res_map (\<lambda>its. it # its)) (walk_forward fuel sd run (it_superseded_by it) t)))"

definition history :: "nat \<Rightarrow> serde \<Rightarrow> string \<Rightarrow> string \<Rightarrow> bb_table \<Rightarrow> (blackboard_error + item list) option" where
  "history fuel sd run uid t =
     (case bb_get sd run uid t of
        Inl e \<Rightarrow> Some (Inl e)
      | Inr None \<Rightarrow> Some (Inr [])
      | Inr (Some anchor) \<Rightarrow>
          Option.bind (walk_back fuel sd run (it_id anchor) t) (\<lambda>rb.
          case rb of Inl e \<Rightarrow> Some (Inl e)
          | Inr back \<Rightarrow>
              map_option (res_map (\<lambda>fwd. sort_key it_revision (anchor # back @ fwd)))
                (walk_forward fuel sd run (it_superseded_by anchor) t)))"

subsection \<open>The tables the store builds\<close>

text \<open>
  \<open>bb_reach sd lower t\<close>: the table is built from the empty one by successful posts and supersedes,
  whatever the runs, clock readings and fresh ids they were given.
\<close>

inductive bb_reach :: "serde \<Rightarrow> (string \<Rightarrow> string) \<Rightarrow> bb_table \<Rightarrow> bool" for sd lower where
  init: "bb_reach sd lower []"
| post: "bb_reach sd lower t \<Longrightarrow> post sd lower runs now uid run n t = Inr (t', it) \<Longrightarrow> bb_reach sd lower t'"
| supersede: "bb_reach sd lower t \<Longrightarrow> supersede sd lower runs now uid run old_id n t = Inr (t', it) \<Longrightarrow>
    bb_reach sd lower t'"

text \<open>
  The shape of such a table: ids are distinct; a stamped row points to a later row of the same run
  whose revision is the next one; no two rows point to the same row.
\<close>

definition succ_ok :: "bb_row \<Rightarrow> bb_row \<Rightarrow> bool" where
  "succ_ok a b \<longleftrightarrow> row_superseded_by a = Some (row_id b) \<and> row_run b = row_run a
     \<and> row_revision b = row_revision a + 1"

definition bb_wf :: "bb_table \<Rightarrow> bool" where
  "bb_wf t \<longleftrightarrow> distinct (map row_id t)
     \<and> (\<forall>i < length t. row_superseded_by (t ! i) \<noteq> None \<longrightarrow> (\<exists>j. i < j \<and> j < length t \<and> succ_ok (t ! i) (t ! j)))
     \<and> (\<forall>i < length t. \<forall>j < length t. row_superseded_by (t ! i) \<noteq> None \<longrightarrow>
          row_superseded_by (t ! i) = row_superseded_by (t ! j) \<longrightarrow> i = j)
     \<and> (\<forall>i < length t. unat (row_revision (t ! i)) \<le> Suc i)"

text \<open>What every row carries: a known kind, evidence where the kind needs it, a normalized status.\<close>

definition status_ok :: "(string \<Rightarrow> string) \<Rightarrow> blackboard_kind \<Rightarrow> string option \<Rightarrow> bool" where
  "status_ok lower kind st \<longleftrightarrow> (case st of None \<Rightarrow> kind \<noteq> Task
     | Some s \<Rightarrow> s = DEFAULT_TASK_STATUS \<or> (\<exists>raw. normalize_status lower raw = Inr s))"

definition row_ok :: "serde \<Rightarrow> (string \<Rightarrow> string) \<Rightarrow> bb_row \<Rightarrow> bool" where
  "row_ok sd lower r \<longleftrightarrow> (\<exists>kind ev. row_kind r = kind_str kind \<and> row_evidence r = js_to_text sd (JArr ev)
     \<and> (requires_evidence kind \<longrightarrow> ev \<noteq> []) \<and> status_ok lower kind (board_status (row_board r)))"

definition new_row :: "serde \<Rightarrow> string \<Rightarrow> string \<Rightarrow> string \<Rightarrow> new_item \<Rightarrow> u32 \<Rightarrow> bb_row" where
  "new_row sd now run uid n revision =
     \<lparr>row_id = uid, row_run = run, row_kind = kind_str (ni_kind n),
      row_payload = js_to_text sd (ni_payload n), row_author = js_to_text sd (ni_author n),
      row_confidence = ni_confidence n, row_evidence = js_to_text sd (JArr (ni_evidence n)),
      row_revision = revision, row_superseded_by = None, row_created_at = now,
      row_board = ni_board n\<rparr>"

lemma new_row_sel [simp]:
  "row_id (new_row sd now run uid n v) = uid" "row_run (new_row sd now run uid n v) = run"
  "row_revision (new_row sd now run uid n v) = v" "row_superseded_by (new_row sd now run uid n v) = None"
  by (simp_all add: new_row_def)

lemma insert_item_tx_Inr:
  "insert_item_tx sd runs now run uid n v t = Inr t' \<longleftrightarrow>
     runs run \<and> uid \<notin> row_id ` set t \<and> t' = t @ [new_row sd now run uid n v]"
  by (auto simp: insert_item_tx_def new_row_def)

lemma normalize_board_Inr:
  "normalize_board lower n = Inr n' \<Longrightarrow> ni_kind n' = ni_kind n \<and> ni_evidence n' = ni_evidence n
     \<and> status_ok lower (ni_kind n) (board_status (ni_board n'))"
  by (auto simp: normalize_board_def status_ok_def res_map_def split: option.splits sum.splits blackboard_kind.splits)

lemma new_row_ok:
  "evidence_check n = Inr u \<Longrightarrow> normalize_board lower n = Inr n' \<Longrightarrow> row_ok sd lower (new_row sd now run uid n' v)"
  using normalize_board_Inr [of lower n n']
  by (auto simp: row_ok_def new_row_def evidence_check_def split: if_splits)

lemma post_Inr:
  assumes "post sd lower runs now uid run n t = Inr (t', it)"
  obtains r where "t' = t @ [r]" "row_superseded_by r = None" "row_revision r = 1" "row_id r = uid" "row_run r = run"
    "uid \<notin> row_id ` set t" "row_ok sd lower r"
proof -
  from assms obtain u n' where ev: "evidence_check n = Inr u" "normalize_board lower n = Inr n'"
    and "uid \<notin> row_id ` set t" "t' = t @ [new_row sd now run uid n' 1]"
    by (auto simp: post_def res_bind_Inr_iff insert_item_tx_Inr res_map_Inr_iff)
  with that [of "new_row sd now run uid n' 1"] new_row_ok [OF ev] show thesis by simp
qed

lemma stamp_superseded_unique:
  assumes "distinct (map row_id t)" "k < length t" "row_id (t ! k) = old_id" "row_superseded_by (t ! k) = None"
  shows "stamp_superseded new_id old_id t = (t[k := (t ! k)\<lparr>row_superseded_by := Some new_id\<rparr>], 1)"
proof -
  have eq: "row_id (t ! i) = old_id \<longleftrightarrow> i = k" if "i < length t" for i
    using assms that by (metis length_map nth_eq_iff_index_eq nth_map)
  have "map (\<lambda>r. if row_id r = old_id \<and> row_superseded_by r = None
               then r\<lparr>row_superseded_by := Some new_id\<rparr> else r) t = t[k := (t ! k)\<lparr>row_superseded_by := Some new_id\<rparr>]"
    using eq assms by (intro nth_equalityI) (auto simp: nth_list_update)
  moreover have "length (filter (\<lambda>r. row_id r = old_id \<and> row_superseded_by r = None) t) = card {k}"
    unfolding length_filter_conv_card using eq assms by (intro arg_cong [where f = card]) auto
  ultimately show ?thesis by (simp add: stamp_superseded_def)
qed

lemma supersede_Inr:
  assumes "supersede sd lower runs now uid run old_id n t = Inr (t', it)" and d: "distinct (map row_id t)"
  obtains k r where "k < length t" "row_id (t ! k) = old_id" "row_run (t ! k) = run" "row_superseded_by (t ! k) = None"
    "t' = t[k := (t ! k)\<lparr>row_superseded_by := Some uid\<rparr>] @ [r]" "row_superseded_by r = None" "row_id r = uid"
    "row_run r = run" "row_revision r = row_revision (t ! k) + 1" "uid \<notin> row_id ` set t" "row_ok sd lower r"
proof -
  from assms(1) obtain u n' old t1 where ev: "evidence_check n = Inr u" "normalize_board lower n = Inr n'"
    and old: "find (\<lambda>r. row_id r = old_id \<and> row_run r = run) t = Some old" "row_superseded_by old = None"
    and t1: "insert_item_tx sd runs now run uid n' (row_revision old + 1) t = Inr t1"
    and t': "t' = fst (stamp_superseded uid old_id t1)"
    by (auto simp: supersede_def res_bind_Inr_iff Let_def case_prod_beta split: if_splits)
  define r where "r = new_row sd now run uid n' (row_revision old + 1)"
  from t1 have t1: "uid \<notin> row_id ` set t" "t1 = t @ [r]" by (simp_all add: insert_item_tx_Inr r_def)
  from find_Some_D [OF old(1)] obtain k where k: "k < length t" "t ! k = old" "row_id old = old_id" "row_run old = run"
    by (auto simp: in_set_conv_nth)
  have "distinct (map row_id t1)" using d t1 by (auto simp: r_def)
  then have "stamp_superseded uid old_id t1 = (t1[k := old\<lparr>row_superseded_by := Some uid\<rparr>], 1)"
    using stamp_superseded_unique [of t1 k old_id uid] k old t1 by (simp add: nth_append)
  with t' t1 k have "t' = t[k := (t ! k)\<lparr>row_superseded_by := Some uid\<rparr>] @ [r]" by (simp add: list_update_append)
  moreover have "row_ok sd lower r" using new_row_ok [OF ev] by (simp add: r_def)
  ultimately show thesis using that [of k r] k old t1 by (simp add: r_def)
qed

lemma bb_wf_Nil [simp]: "bb_wf []"
  by (simp add: bb_wf_def)

lemma bb_wf_append:
  assumes wf: "bb_wf t" and "row_id r \<notin> row_id ` set t" "row_superseded_by r = None" "unat (row_revision r) \<le> Suc (length t)"
  shows "bb_wf (t @ [r])"
  unfolding bb_wf_def
proof (intro conjI allI impI)
  show "distinct (map row_id (t @ [r]))" using assms by (auto simp: bb_wf_def)
next
  fix i assume i: "i < length (t @ [r])" "row_superseded_by ((t @ [r]) ! i) \<noteq> None"
  then have "i < length t" using assms by (auto simp: nth_append less_Suc_eq)
  with i obtain j where "i < j" "j < length t" "succ_ok (t ! i) (t ! j)" using wf by (auto simp: bb_wf_def nth_append)
  with \<open>i < length t\<close> show "\<exists>j. i < j \<and> j < length (t @ [r]) \<and> succ_ok ((t @ [r]) ! i) ((t @ [r]) ! j)"
    by (intro exI [of _ j]) (simp add: nth_append)
next
  fix i j assume "i < length (t @ [r])" "j < length (t @ [r])" "row_superseded_by ((t @ [r]) ! i) \<noteq> None"
    "row_superseded_by ((t @ [r]) ! i) = row_superseded_by ((t @ [r]) ! j)"
  with wf assms show "i = j" by (auto simp: bb_wf_def nth_append less_Suc_eq split: if_splits)
next
  fix i assume "i < length (t @ [r])"
  with wf assms show "unat (row_revision ((t @ [r]) ! i)) \<le> Suc i"
    by (auto simp: bb_wf_def nth_append less_Suc_eq)
qed

lemma unat_succ_le: "unat (v + 1 :: u32) \<le> Suc (unat v)"
  by (metis add.commute order_refl plus_1_eq_Suc unatSuc unat_0 zero_le)

lemma bb_wf_supersede:
  assumes wf: "bb_wf t" and k: "k < length t" "row_superseded_by (t ! k) = None"
    and new: "row_id r \<notin> row_id ` set t" "row_superseded_by r = None" "row_run r = row_run (t ! k)"
      "row_revision r = row_revision (t ! k) + 1"
  shows "bb_wf (t[k := (t ! k)\<lparr>row_superseded_by := Some (row_id r)\<rparr>] @ [r])" (is "bb_wf ?t")
proof -
  have rev: "unat (row_revision r) \<le> Suc (length t)"
    using wf k unat_succ_le [of "row_revision (t ! k)"] by (auto simp: bb_wf_def new intro: order_trans)
  have ids: "map row_id (t[k := (t ! k)\<lparr>row_superseded_by := Some (row_id r)\<rparr>]) = map row_id t"
    using k by (simp add: map_update list_update_same_conv)
  have fresh: "row_superseded_by (t ! i) \<noteq> Some (row_id r)" if i: "i < length t" for i
  proof
    assume "row_superseded_by (t ! i) = Some (row_id r)"
    with wf i obtain j where "j < length t" "succ_ok (t ! i) (t ! j)" by (auto simp: bb_wf_def)
    with \<open>row_superseded_by (t ! i) = Some (row_id r)\<close> new(1) show False by (auto simp: succ_ok_def)
  qed
  show ?thesis unfolding bb_wf_def
  proof (intro conjI allI impI)
    show "distinct (map row_id ?t)" using wf new by (simp add: ids bb_wf_def del: map_update)
  next
    fix i assume i: "i < length ?t" "row_superseded_by (?t ! i) \<noteq> None"
    then have il: "i < length t" using new by (auto simp: nth_append less_Suc_eq)
    show "\<exists>j. i < j \<and> j < length ?t \<and> succ_ok (?t ! i) (?t ! j)"
    proof (cases "i = k")
      case True
      then show ?thesis using k new by (intro exI [of _ "length t"]) (simp add: nth_append succ_ok_def)
    next
      case False
      with i il obtain j where "i < j" "j < length t" "succ_ok (t ! i) (t ! j)"
        using wf by (auto simp: bb_wf_def nth_append)
      with False il k show ?thesis
        by (intro exI [of _ j]) (cases "j = k"; auto simp: nth_append nth_list_update succ_ok_def)
    qed
  next
    fix i j assume *: "i < length ?t" "j < length ?t" "row_superseded_by (?t ! i) \<noteq> None"
      "row_superseded_by (?t ! i) = row_superseded_by (?t ! j)"
    then have "i < length t" "j < length t" using new by (auto simp: nth_append less_Suc_eq split: if_splits)
    then show "i = j" using * k wf fresh [of i] fresh [of j]
      by (auto simp: bb_wf_def nth_append nth_list_update split: if_splits)
  next
    fix i assume "i < length ?t"
    with wf rev k show "unat (row_revision (?t ! i)) \<le> Suc i"
      by (auto simp: bb_wf_def nth_append nth_list_update less_Suc_eq)
  qed
qed

lemma bb_reach_wf: "bb_reach sd lower t \<Longrightarrow> bb_wf t"
proof (induction rule: bb_reach.induct)
  case (post t runs now uid run n t' it)
  from post.hyps(2) show ?case by (rule post_Inr) (use post.IH in \<open>simp add: bb_wf_append\<close>)
next
  case (supersede t runs now uid run old_id n t' it)
  from supersede.IH have "distinct (map row_id t)" by (simp add: bb_wf_def)
  from supersede_Inr [OF supersede.hyps(2) this] supersede.IH bb_wf_supersede show ?case by metis
qed simp

lemma bb_reach_row_ok: "bb_reach sd lower t \<Longrightarrow> r \<in> set t \<Longrightarrow> row_ok sd lower r"
proof (induction arbitrary: r rule: bb_reach.induct)
  case (post t runs now uid run n t' it)
  from post.hyps(2) obtain r' where "t' = t @ [r']" "row_ok sd lower r'" by (rule post_Inr)
  with post show ?case by auto
next
  case (supersede t runs now uid run old_id n t' it)
  from supersede.hyps(1) have "distinct (map row_id t)" using bb_reach_wf by (auto simp: bb_wf_def)
  from supersede.hyps(2) this obtain k r' where k: "k < length t"
    "t' = t[k := (t ! k)\<lparr>row_superseded_by := Some uid\<rparr>] @ [r']" "row_ok sd lower r'" by (rule supersede_Inr)
  have "row_ok sd lower ((t ! k)\<lparr>row_superseded_by := Some uid\<rparr>)"
    using supersede.IH [of "t ! k"] k(1) by (simp add: row_ok_def)
  with supersede k set_update_subset_insert [of t k "(t ! k)\<lparr>row_superseded_by := Some uid\<rparr>"]
  show ?case by auto
qed simp

subsection \<open>The history walk\<close>

definition decodes :: "serde \<Rightarrow> bb_row \<Rightarrow> bool" where
  "decodes sd r \<longleftrightarrow> (\<exists>it. row_to_item sd r = Inr it)"

lemma row_to_item_Inr:
  "row_to_item sd r = Inr it \<Longrightarrow> it_id it = row_id r \<and> it_superseded_by it = row_superseded_by r
     \<and> it_revision it = row_revision r"
  by (cases "bb_parse_kind (row_kind r)"; cases "js_of_text sd (row_payload r)";
      cases "js_of_text sd (row_author r)"; cases "js_of_text sd (row_evidence r)")
    (auto simp: row_to_item_def split: json.split_asm)

abbreviation row_items :: "serde \<Rightarrow> bb_row list \<Rightarrow> item list \<Rightarrow> bool" where
  "row_items sd rs its \<equiv> list_all2 (\<lambda>r it. row_to_item sd r = Inr it) rs its"

lemma bb_wf_find_id:
  assumes "bb_wf t" "j < length t" "row_run (t ! j) = run"
  shows "find (\<lambda>r. row_id r = row_id (t ! j) \<and> row_run r = run) t = Some (t ! j)"
proof -
  have "\<exists>i < length t. (row_id (t ! i) = row_id (t ! j) \<and> row_run (t ! i) = run) \<and> t ! j = t ! i
      \<and> (\<forall>i' < i. \<not> (row_id (t ! i') = row_id (t ! j) \<and> row_run (t ! i') = run))"
    using assms by (intro exI [of _ j]) (auto simp: bb_wf_def distinct_conv_nth)
  then show ?thesis by (simp add: find_Some_iff)
qed

lemma bb_wf_find_pred:
  assumes wf: "bb_wf t" and "find (\<lambda>r. row_run r = run \<and> row_superseded_by r = Some (row_id (t ! j))) t = Some r" "j < length t"
  obtains i where "i < j" "t ! i = r" "row_run r = run" "succ_ok (t ! i) (t ! j)"
proof -
  from find_Some_D [OF assms(2)] obtain i where i: "i < length t" "t ! i = r" "row_run r = run"
    "row_superseded_by r = Some (row_id (t ! j))" by (auto simp: in_set_conv_nth)
  with wf obtain j' where j': "i < j'" "j' < length t" "succ_ok (t ! i) (t ! j')"
    unfolding bb_wf_def by (metis option.distinct(1))
  with i have "row_id (t ! j') = row_id (t ! j)" by (simp add: succ_ok_def)
  with wf j' assms(3) have "j' = j" by (auto simp: bb_wf_def distinct_conv_nth)
  with that i j' show thesis by blast
qed

lemma walk_back_chain:
  assumes wf: "bb_wf t" and dec: "\<forall>r \<in> set t. decodes sd r"
  shows "j < length t \<Longrightarrow> j < fuel \<Longrightarrow> \<exists>rs its. walk_back fuel sd run (row_id (t ! j)) t = Some (Inr its)
    \<and> row_items sd rs its \<and> set rs \<subseteq> set t \<and> successively succ_ok (rev rs @ [t ! j])
    \<and> (\<forall>r \<in> set t. row_run r = run \<longrightarrow> row_superseded_by r \<noteq> Some (row_id (hd (rev rs @ [t ! j]))))"
proof (induction fuel arbitrary: j)
  case (Suc fuel)
  show ?case
  proof (cases "find (\<lambda>r. row_run r = run \<and> row_superseded_by r = Some (row_id (t ! j))) t")
    case None
    with find_None_D [OF None] show ?thesis by (intro exI [of _ "[]"]) auto
  next
    case (Some r)
    from wf Some Suc.prems(1) obtain i where i: "i < j" "t ! i = r" "succ_ok (t ! i) (t ! j)" by (rule bb_wf_find_pred)
    with Suc.prems dec obtain it where it: "row_to_item sd r = Inr it" by (force simp: decodes_def)
    from i Suc.prems have "i < length t" "i < fuel" by auto
    from Suc.IH [OF this] obtain rs its where IH: "walk_back fuel sd run (row_id r) t = Some (Inr its)"
      "row_items sd rs its" "set rs \<subseteq> set t" "successively succ_ok (rev rs @ [r])"
      "\<forall>r' \<in> set t. row_run r' = run \<longrightarrow> row_superseded_by r' \<noteq> Some (row_id (hd (rev rs @ [r])))"
      using i(2) by blast
    have "hd (rev rs @ [r, t ! j]) = hd (rev rs @ [r])" by (cases "rev rs") auto
    then show ?thesis using Some it IH i Suc.prems row_to_item_Inr [OF it]
      by (intro exI [of _ "r # rs"] exI [of _ "it # its"]) (auto simp: successively_append_iff)
  qed
qed simp

lemma walk_forward_chain:
  assumes wf: "bb_wf t" and dec: "\<forall>r \<in> set t. decodes sd r"
  shows "j < length t \<Longrightarrow> row_run (t ! j) = run \<Longrightarrow> length t \<le> j + fuel \<Longrightarrow>
    \<exists>rs its. walk_forward fuel sd run (row_superseded_by (t ! j)) t = Some (Inr its)
      \<and> row_items sd rs its \<and> set rs \<subseteq> set t \<and> successively succ_ok (t ! j # rs)
      \<and> row_superseded_by (last (t ! j # rs)) = None"
proof (induction fuel arbitrary: j)
  case (Suc fuel)
  show ?case
  proof (cases "row_superseded_by (t ! j)")
    case None
    then show ?thesis by (intro exI [of _ "[]"]) auto
  next
    case (Some y)
    with wf Suc.prems obtain k where k: "j < k" "k < length t" "succ_ok (t ! j) (t ! k)"
      unfolding bb_wf_def by (metis option.distinct(1))
    with Some Suc.prems have y: "y = row_id (t ! k)" "row_run (t ! k) = run" by (auto simp: succ_ok_def)
    from dec k obtain it where it: "row_to_item sd (t ! k) = Inr it" by (force simp: decodes_def)
    with y k have get: "bb_get sd run y t = Inr (Some it)"
      by (simp add: bb_get_def bb_wf_find_id [OF wf])
    have "length t \<le> k + fuel" using Suc.prems k by simp
    from Suc.IH [OF k(2) y(2) this] obtain rs its where
      "walk_forward fuel sd run (row_superseded_by (t ! k)) t = Some (Inr its)" "row_items sd rs its"
      "set rs \<subseteq> set t" "successively succ_ok (t ! k # rs)" "row_superseded_by (last (t ! k # rs)) = None" by blast
    then show ?thesis using Some get it k row_to_item_Inr [OF it]
      by (intro exI [of _ "t ! k # rs"] exI [of _ "it # its"]) simp
  qed
qed simp

lemma successively_revisions:
  "successively succ_ok rs \<Longrightarrow> (\<And>r. r \<in> set rs \<Longrightarrow> unat (row_revision r) < 2 ^ 32 - 1) \<Longrightarrow>
     sorted_wrt (<) (map row_revision rs)"
proof (induction rs rule: induct_list012)
  case (3 a b rs)
  then have IH: "sorted_wrt (<) (map row_revision (b # rs))" by simp
  from "3.prems"(1) have "row_revision b = row_revision a + 1" by (simp add: succ_ok_def)
  moreover have "row_revision a + 1 \<noteq> 0"
    using "3.prems"(2) [of a] by (auto simp: add_eq_0_iff2 unsigned_minus_1_eq_mask mask_eq_exp_minus_1)
  ultimately have "row_revision a < row_revision b"
    using unatSuc [of "row_revision a"] by (simp add: word_less_nat_alt add.commute)
  with IH show ?case by (auto intro: order.strict_trans)
qed auto

lemma bb_wf_revision_bound:
  "bb_wf t \<Longrightarrow> length t < 2 ^ 32 - 1 \<Longrightarrow> r \<in> set t \<Longrightarrow> unat (row_revision r) < 2 ^ 32 - 1"
  unfolding bb_wf_def in_set_conv_nth by force

lemma history_items:
  assumes wf: "bb_wf t" and dec: "\<forall>r \<in> set t. decodes sd r" and len: "length t < 2 ^ 32 - 1"
    and j: "j < length t" "row_run (t ! j) = run" and fuel: "length t \<le> fuel"
  shows "\<exists>rs its. history fuel sd run (row_id (t ! j)) t = Some (Inr its) \<and> row_items sd rs its
    \<and> set rs \<subseteq> set t \<and> t ! j \<in> set rs \<and> successively succ_ok rs
    \<and> row_superseded_by (last rs) = None
    \<and> (\<forall>r \<in> set t. row_run r = run \<longrightarrow> row_superseded_by r \<noteq> Some (row_id (hd rs)))"
proof -
  from dec j obtain it where it: "row_to_item sd (t ! j) = Inr it" by (force simp: decodes_def)
  then have get: "bb_get sd run (row_id (t ! j)) t = Inr (Some it)"
    using j by (simp add: bb_get_def bb_wf_find_id [OF wf])
  from j fuel have "j < fuel" "length t \<le> j + fuel" by auto
  from walk_back_chain [OF wf dec j(1) this(1), of run] obtain bs bits where b:
    "walk_back fuel sd run (row_id (t ! j)) t = Some (Inr bits)" "row_items sd bs bits" "set bs \<subseteq> set t"
    "successively succ_ok (rev bs @ [t ! j])"
    "\<forall>r \<in> set t. row_run r = run \<longrightarrow> row_superseded_by r \<noteq> Some (row_id (hd (rev bs @ [t ! j])))" by blast
  from walk_forward_chain [OF wf dec j \<open>length t \<le> j + fuel\<close>] obtain fs fits where f:
    "walk_forward fuel sd run (row_superseded_by (t ! j)) t = Some (Inr fits)" "row_items sd fs fits" "set fs \<subseteq> set t"
    "successively succ_ok (t ! j # fs)" "row_superseded_by (last (t ! j # fs)) = None" by blast
  define rs where "rs = rev bs @ t ! j # fs"
  define its where "its = rev bits @ it # fits"
  have items: "row_items sd rs its"
    using b(2) f(2) it unfolding rs_def its_def by (auto intro!: list_all2_appendI simp: list_all2_rev)
  have sub: "set rs \<subseteq> set t" using b(3) f(3) j by (auto simp: rs_def)
  have succ: "successively succ_ok rs"
    using b(4) f(4) by (auto simp: rs_def successively_append_iff)
  have revs: "map it_revision its = map row_revision rs"
    using items by (induction rule: list_all2_induct) (auto dest: row_to_item_Inr)
  have "sorted_wrt (<) (map row_revision rs)"
    using successively_revisions [OF succ] bb_wf_revision_bound [OF wf len] sub by blast
  then have strict: "sorted (map it_revision its)" "distinct (map it_revision its)"
    unfolding revs by (simp_all add: strict_sorted_iff)
  have perm: "mset (it # bits @ fits) = mset its" by (simp add: its_def)
  then have "set (it # bits @ fits) = set its" by (rule mset_eq_setD)
  with strict(2) have "inj_on it_revision (set (it # bits @ fits))" by (simp add: distinct_map)
  with perm have "sort_key it_revision (it # bits @ fits) = its" by (rule sort_key_inj_key_eq) (rule strict(1))
  then have "history fuel sd run (row_id (t ! j)) t = Some (Inr its)"
    using get b(1) f(1) row_to_item_Inr [OF it] by (simp add: history_def)
  moreover have "hd rs = hd (rev bs @ [t ! j])" by (cases "rev bs") (auto simp: rs_def)
  moreover have "last rs = last (t ! j # fs)" by (simp add: rs_def)
  ultimately show ?thesis using items sub succ b(5) f(5)
    by (intro exI [of _ rs] exI [of _ its]) (simp add: rs_def)
qed

text \<open>A concrete board: one hypothesis, corrected once.\<close>

definition example_item :: new_item where
  "example_item = \<lparr>ni_kind = Hypothesis, ni_payload = JNull, ni_author = JNull, ni_confidence = None,
     ni_evidence = [], ni_board = \<lparr>board_scope = None, board_status = None, board_assignee = None, board_ordinal = None\<rparr>\<rparr>"

definition example_row :: "string \<Rightarrow> string option \<Rightarrow> u32 \<Rightarrow> bb_row" where
  "example_row uid sb v = (new_row serde_example ''now'' ''run'' uid example_item v)\<lparr>row_superseded_by := sb\<rparr>"

definition board_example :: bb_table where
  "board_example = [example_row ''a'' (Some ''b'') 1, example_row ''b'' None 2]"

lemma example_post:
  "post serde_example id (\<lambda>_. True) ''now'' ''a'' ''run'' example_item [] =
     Inr ([example_row ''a'' None 1], item_of_new ''a'' 1 example_item)"
  by (simp add: post_def evidence_check_def normalize_board_def insert_item_tx_def example_item_def
      example_row_def new_row_def)

lemma example_supersede:
  "supersede serde_example id (\<lambda>_. True) ''now'' ''b'' ''run'' ''a'' example_item [example_row ''a'' None 1] =
     Inr (board_example, item_of_new ''b'' 2 example_item)"
  by (simp add: supersede_def evidence_check_def normalize_board_def insert_item_tx_def example_item_def
      example_row_def new_row_def board_example_def stamp_superseded_def)

lemma board_example_reach: "bb_reach serde_example id board_example"
  by (rule bb_reach.supersede [OF bb_reach.post [OF bb_reach.init example_post] example_supersede])

lemma board_example_decodes: "\<forall>r \<in> set board_example. decodes serde_example r"
  using codec_example
  by (auto simp: board_example_def decodes_def example_row_def new_row_def row_to_item_def bb_parse_kind_def
      example_item_def codec_def simp del: kind_str.simps)

subsection \<open>Properties\<close>

text \<open>
  C34: on every table the store builds, ids are unique and supersession is linear: a stamped row points to a
  later row of the same run at the next revision, and no two rows point to the same one.
\<close>

theorem board_supersession_linear: "bb_reach sd lower t \<Longrightarrow> bb_wf t"
  by (rule bb_reach_wf)

theorem board_supersession_linear_witness: "bb_wf board_example"
  by (rule board_supersession_linear [OF board_example_reach])

text \<open>
  every row of a table the store builds has a known kind, carries evidence when its kind requires it,
  and has a status that is the default or a normalized one; only a non-task item may have none.
\<close>

lemma board_rows_ok: "bb_reach sd lower t \<Longrightarrow> r \<in> set t \<Longrightarrow> row_ok sd lower r"
  by (rule bb_reach_row_ok)

text \<open>
  a supersede keeps the old item and stamps it, adds exactly the new item, and no later supersede of the
  same item succeeds: whatever its arguments, the table is left as it is and an error is returned, which
  is \<open>AlreadySuperseded\<close> when the arguments themselves are acceptable.
\<close>

lemma supersede_once:
  assumes "bb_reach sd lower t" "supersede sd lower runs now uid run old_id n t = Inr (t', it)"
  shows "map row_id t' = map row_id t @ [uid]
    \<and> (\<exists>e. supersede sd lower runs' now' uid' run old_id m t' = Inl e
         \<and> (\<forall>m'. evidence_check m = Inr () \<and> normalize_board lower m = Inr m' \<longrightarrow> e = BE_AlreadySuperseded old_id))"
proof -
  from bb_reach_wf [OF assms(1)] have d: "distinct (map row_id t)" by (simp add: bb_wf_def)
  from assms(2) d obtain k r where k: "k < length t" "row_id (t ! k) = old_id" "row_run (t ! k) = run"
    "t' = t[k := (t ! k)\<lparr>row_superseded_by := Some uid\<rparr>] @ [r]" "row_id r = uid" "row_run r = run" "row_superseded_by r = None"
    by (rule supersede_Inr)
  from bb_reach_wf [OF bb_reach.supersede [OF assms]] have wf': "bb_wf t'" .
  have old: "t' ! k = (t ! k)\<lparr>row_superseded_by := Some uid\<rparr>" "k < length t'" using k by (simp_all add: nth_append)
  with bb_wf_find_id [OF wf' old(2), of run] k
  have f: "find (\<lambda>r. row_id r = old_id \<and> row_run r = run) t' = Some ((t ! k)\<lparr>row_superseded_by := Some uid\<rparr>)" by simp
  have "map row_id (t[k := (t ! k)\<lparr>row_superseded_by := Some uid\<rparr>]) = map row_id t"
    using k by (simp add: map_update list_update_same_conv)
  with k f show ?thesis
    by (cases "evidence_check m"; cases "normalize_board lower m") (simp_all add: supersede_def del: map_update)
qed

text \<open>
  asked for any item of a run, \<open>history\<close> returns (as many loop turns as there are rows suffice) the whole
  revision chain of that item, oldest first: each entry is superseded by the next one, whose revision
  is one more; the last is live, and nothing was superseded by the first. The chain is shorter than 2^32 - 1.
\<close>

lemma history_chain:
  assumes "bb_reach sd lower t" "\<forall>r \<in> set t. decodes sd r" "length t < 2 ^ 32 - 1"
    and "j < length t" "row_run (t ! j) = run" "length t \<le> fuel"
  shows "\<exists>rs its. history fuel sd run (row_id (t ! j)) t = Some (Inr its) \<and> row_items sd rs its
    \<and> set rs \<subseteq> set t \<and> t ! j \<in> set rs \<and> successively succ_ok rs
    \<and> row_superseded_by (last rs) = None
    \<and> (\<forall>r \<in> set t. row_run r = run \<longrightarrow> row_superseded_by r \<noteq> Some (row_id (hd rs)))"
  by (rule history_items [OF bb_reach_wf [OF assms(1)] assms(2-6)])

end
