(* ===== verification/Manifest_Json.thy ===== *)
theory Manifest_Json
  imports Workflow_Model
begin

text \<open>
  The JSON a manifest serializes to, as the \<open>Serialize\<close> derives of \<open>crates/workflow/src/model.rs\<close> fix it by their
  attributes: the field order of the structs, kebab-case variants, and the optional fields that are left
  out when absent. The compiler hashes three of these values; \<open>definition_digest\<close>
  (\<open>crates/workflow/src/source.rs\<close>) hashes the whole definition.
\<close>

definition opt_field :: "string \<Rightarrow> ('a \<Rightarrow> json) \<Rightarrow> 'a option \<Rightarrow> (string \<times> json) list" where
  "opt_field k f v = (case v of None \<Rightarrow> [] | Some x \<Rightarrow> [(k, f x)])"

abbreviation json_u32 :: "u32 \<Rightarrow> json" where
  "json_u32 n \<equiv> json_u64 (ucast n)"

text \<open>A non-finite float is written as \<open>null\<close>.\<close>

definition json_f64 :: "f64 \<Rightarrow> json" where
  "json_f64 x = (if f64_is_finite x then JNum (Float x) else JNull)"

fun workspace_mode_json :: "workspace_mode \<Rightarrow> json" where
  "workspace_mode_json SharedWorktree = JStr ''shared-worktree''"
| "workspace_mode_json IsolatedWorktree = JStr ''isolated-worktree''"

fun approval_policy_json :: "approval_policy \<Rightarrow> json" where
  "approval_policy_json BeforeWrite = JStr ''before-write''"
| "approval_policy_json Always = JStr ''always''"

definition approval_json :: "approval_policy option \<Rightarrow> json" where
  "approval_json a = (case a of None \<Rightarrow> JNull | Some p \<Rightarrow> approval_policy_json p)"

definition retry_json :: "retry_policy \<Rightarrow> json" where
  "retry_json r = JObj [(''attempts'', json_u32 (attempts r)), (''backoff_seconds'', json_u64 (backoff_seconds r))]"

fun orchestration_reason_json :: "orchestration_reason \<Rightarrow> json" where
  "orchestration_reason_json Parallelism = JStr ''parallelism''"
| "orchestration_reason_json IndependentReview = JStr ''independent-review''"
| "orchestration_reason_json AccessSeparation = JStr ''access-separation''"
| "orchestration_reason_json Specialist = JStr ''specialist''"

definition input_json :: "workflow_input \<Rightarrow> json" where
  "input_json i = JObj [(''type'', JStr (input_type i)), (''required'', JBool (required i))]"

definition budget_json :: "workflow_budget \<Rightarrow> json" where
  "budget_json b = JObj (opt_field ''maximum_cost_usd'' json_f64 (maximum_cost_usd b)
     @ opt_field ''maximum_duration_seconds'' json_u64 (maximum_duration_seconds b)
     @ opt_field ''maximum_agents'' (\<lambda>n. json_u32 n) (maximum_agents b))"

definition agent_ref_json :: "agent_ref \<Rightarrow> json" where
  "agent_ref_json a = JObj ((''role'', JStr (ar_role a)) # opt_field ''model_policy'' JStr (ar_model_policy a))"

definition workspace_spec_json :: "workspace_spec \<Rightarrow> json" where
  "workspace_spec_json w = JObj [(''mode'', workspace_mode_json (ws_mode w))]"

definition step_json :: "workflow_step \<Rightarrow> json" where
  "step_json s = JObj ([(''id'', JStr (step_id s)), (''depends_on'', JArr (map JStr (step_depends_on s)))]
     @ opt_field ''agent'' agent_ref_json (step_agent s)
     @ opt_field ''tool'' JStr (step_tool s)
     @ (if step_with s = [] then [] else [(''with'', JObj (step_with s))])
     @ opt_field ''skill'' JStr (step_skill s)
     @ opt_field ''workspace'' workspace_spec_json (step_workspace s)
     @ opt_field ''approval'' approval_policy_json (step_approval s)
     @ opt_field ''retry'' retry_json (step_retry s)
     @ [(''outputs'', JArr (map JStr (step_outputs s)))])"

definition definition_json :: "workflow_definition \<Rightarrow> json" where
  "definition_json d = JObj ([(''schema_version'', json_u32 (schema_version d)), (''id'', JStr (wd_id d)),
       (''version'', json_u32 (wd_version d))]
     @ opt_field ''description'' JStr (wd_description d)
     @ [(''inputs'', JObj (map (\<lambda>(k, i). (k, input_json i)) (wd_inputs d))),
        (''budget'', budget_json (wd_budget d)),
        (''steps'', JArr (map step_json (wd_steps d)))]
     @ opt_field ''orchestration_reason'' orchestration_reason_json (wd_orchestration_reason d))"

definition definition_digest :: "(string \<Rightarrow> string) \<Rightarrow> serde \<Rightarrow> workflow_definition \<Rightarrow> string" where
  "definition_digest sha256_hex sd d = sha256_hex (js_to_text sd (definition_json d))"

end
