(* ===== verification/Compile.thy ===== *)
theory Compile
  imports Binding Registry Blackboard Manifest_Json
begin

text \<open>
  The workflow compiler (\<open>crates/workflow/src/compile.rs\<close>): validation of a manifest, Kahn's ordering of
  its steps, the compiled graph, its reference check and its signature. A hash map keyed by step ids is a
  partial function. YAML parsing, the JSON text of a value and the digest are code of other packages:
  they are the parameters \<open>yaml\<close>, \<open>sd\<close> and \<open>sha256_hex\<close>.
\<close>

definition EXECUTABLE_TOOL_NODES :: "string list" where
  "EXECUTABLE_TOOL_NODES = [''repository.test'', ''github.update_pull_request'', ''patch.consolidate'']"

definition is_executable_tool_node :: "string \<Rightarrow> bool" where
  "is_executable_tool_node tool = (normalize_tool_name (trim tool) \<in> set EXECUTABLE_TOOL_NODES)"

datatype compile_error =
    UnsupportedSchemaVersion u32 u32
  | EmptyId
  | InvalidVersion u32
  | NoSteps
  | UnknownOutputKind string string
  | EmptyStepId
  | DuplicateStepId string
  | StepMissingAction string
  | StepAmbiguousAction string
  | SkillWithoutAgent string
  | UnknownInputReference string string
  | MalformedBinding string string
  | SelfDependency string
  | UnknownDependency string string
  | Cycle "string list"
  | InvalidBudget string
  | MissingOrchestrationReason nat
  | UnknownTool string string
  | ToolNotExecutable string string string
  | UnknownSkill string string
  | UnknownAgentRole string string

datatype node_action = Agent string "string option" "string option" | Tool string

record compiled_node =
  cn_id :: string
  cn_action :: node_action
  cn_depends_on :: "string list"
  cn_dependents :: "string list"
  cn_workspace_mode :: workspace_mode
  cn_approval :: "approval_policy option"
  cn_retry :: retry_policy
  cn_outputs :: "string list"
  cn_with :: "json btree"
  cn_topo_order :: nat

record compiled_workflow =
  cw_id :: string
  cw_version :: u32
  cw_inputs :: "workflow_input btree"
  cw_budget :: workflow_budget
  cw_orchestration_reason :: "orchestration_reason option"
  cw_nodes :: "compiled_node list"

subsection \<open>The compiled workflow's methods\<close>

definition cw_node :: "compiled_workflow \<Rightarrow> string \<Rightarrow> compiled_node option" where
  "cw_node c i = find (\<lambda>n. cn_id n = i) (cw_nodes c)"

definition agent_node_count :: "compiled_workflow \<Rightarrow> nat" where
  "agent_node_count c = length (filter (\<lambda>n. case cn_action n of Agent _ _ _ \<Rightarrow> True | Tool _ \<Rightarrow> False) (cw_nodes c))"

definition max_concurrency :: "compiled_workflow \<Rightarrow> nat" where
  "max_concurrency c = (case maximum_agents (cw_budget c) of None \<Rightarrow> 1 | Some agents \<Rightarrow> unat (max agents 1))"

definition validate_node_references :: "workflow_registry \<Rightarrow> compiled_node \<Rightarrow> compile_error + unit" where
  "validate_node_references reg n =
     (case cn_action n of
        Tool name \<Rightarrow>
          if \<not> has_tool reg (normalize_tool_name name) then Inl (UnknownTool (cn_id n) name) else Inr ()
      | Agent role _ skill \<Rightarrow>
          if \<not> has_agent_role reg role then Inl (UnknownAgentRole (cn_id n) role)
          else (case skill of
                  Some s \<Rightarrow> if \<not> has_skill reg s then Inl (UnknownSkill (cn_id n) s) else Inr ()
                | None \<Rightarrow> Inr ()))"

definition validate_references :: "workflow_registry \<Rightarrow> compiled_workflow \<Rightarrow> compile_error + unit" where
  "validate_references reg c = for_each (validate_node_references reg) (cw_nodes c)"

subsection \<open>The signature\<close>

text \<open>The bytes \<open>hash_field\<close> and \<open>hash_opt\<close> feed to the hasher.\<close>

definition hash_field :: "string \<Rightarrow> string" where
  "hash_field bytes = le_bytes 8 (length bytes) @ bytes"

fun hash_opt :: "string option \<Rightarrow> string" where
  "hash_opt None = [CHR 0x00]"
| "hash_opt (Some s) = CHR 0x01 # hash_field s"

fun action_bytes :: "node_action \<Rightarrow> string" where
  "action_bytes (Tool name) = CHR 0x02 # ''tool'' @ CHR 0x00 # name"
| "action_bytes (Agent role model_policy skill) =
     CHR 0x02 # ''agent'' @ CHR 0x00 # hash_field role @ hash_opt model_policy @ hash_opt skill"

definition deps_bytes :: "string list \<Rightarrow> string" where
  "deps_bytes deps = concat (map (\<lambda>d. CHR 0x01 # d) (sort deps))"

definition node_bytes :: "serde \<Rightarrow> compiled_node \<Rightarrow> string" where
  "node_bytes sd n =
     CHR 0xFF # cn_id n @ action_bytes (cn_action n)
     @ CHR 0x03 # js_to_text sd (workspace_mode_json (cn_workspace_mode n))
     @ CHR 0x04 # js_to_text sd (approval_json (cn_approval n))
     @ CHR 0x05 # js_to_text sd (retry_json (cn_retry n))
     @ CHR 0x06 # js_to_text sd (JObj (cn_with n))
     @ deps_bytes (cn_depends_on n)"

definition signature_bytes :: "serde \<Rightarrow> compiled_workflow \<Rightarrow> string" where
  "signature_bytes sd c =
     cw_id c @ CHR 0x00 # le_bytes 4 (unat (cw_version c)) @ concat (map (node_bytes sd) (cw_nodes c))"

definition signature :: "(string \<Rightarrow> string) \<Rightarrow> serde \<Rightarrow> compiled_workflow \<Rightarrow> string" where
  "signature sha256_hex sd c = sha256_hex (signature_bytes sd c)"

subsection \<open>Validation\<close>

text \<open>Unique, non-empty step ids; the result is the set of ids.\<close>

fun check_ids :: "string set \<Rightarrow> workflow_step list \<Rightarrow> compile_error + string set" where
  "check_ids ids [] = Inr ids"
| "check_ids ids (st # sts) =
     (if trim (step_id st) = [] then Inl EmptyStepId
      else if step_id st \<in> ids then Inl (DuplicateStepId (step_id st))
      else check_ids (insert (step_id st) ids) sts)"

definition validate_with_bindings :: "workflow_step \<Rightarrow> workflow_input btree \<Rightarrow> compile_error + unit" where
  "validate_with_bindings st inputs =
     for_each (\<lambda>(_, v). case v of
          JStr text \<Rightarrow>
            (case scan_input_refs text of
               Inl detail \<Rightarrow> Inl (MalformedBinding (step_id st) detail)
             | Inr names \<Rightarrow>
                 for_each (\<lambda>name. if map_of inputs name = None then Inl (UnknownInputReference (step_id st) name)
                                  else Inr ()) names)
        | _ \<Rightarrow> Inr ()) (step_with st)"

text \<open>One turn of the action loop: the number of agent steps seen so far goes in and comes out.\<close>

definition check_step :: "workflow_input btree \<Rightarrow> nat \<Rightarrow> workflow_step \<Rightarrow> compile_error + nat" where
  "check_step inputs agent_steps st =
     res_bind (case (step_agent st \<noteq> None, step_tool st \<noteq> None) of
         (False, False) \<Rightarrow> Inl (StepMissingAction (step_id st))
       | (True, True) \<Rightarrow> Inl (StepAmbiguousAction (step_id st))
       | (True, False) \<Rightarrow> Inr (agent_steps + 1)
       | (False, True) \<Rightarrow> Inr agent_steps) (\<lambda>agent_steps'.
     if step_skill st \<noteq> None \<and> step_agent st = None then Inl (SkillWithoutAgent (step_id st))
     else res_bind (case step_tool st of
         Some tool \<Rightarrow>
           if \<not> is_executable_tool_node tool
           then Inl (ToolNotExecutable (step_id st) tool (join '', '' EXECUTABLE_TOOL_NODES)) else Inr ()
       | None \<Rightarrow> Inr ()) (\<lambda>_.
     res_bind (for_each (\<lambda>out. if parse_kind out = None then Inl (UnknownOutputKind (step_id st) out) else Inr ())
                 (step_outputs st)) (\<lambda>_.
     res_map (\<lambda>_. agent_steps') (validate_with_bindings st inputs))))"

fun check_steps :: "workflow_input btree \<Rightarrow> nat \<Rightarrow> workflow_step list \<Rightarrow> compile_error + nat" where
  "check_steps inputs agent_steps [] = Inr agent_steps"
| "check_steps inputs agent_steps (st # sts) =
     res_bind (check_step inputs agent_steps st) (\<lambda>k. check_steps inputs k sts)"

text \<open>
  Dependencies of one step: each names another existing step; repeated edges are dropped, the first
  occurrence kept.
\<close>

fun step_deps :: "string set \<Rightarrow> string \<Rightarrow> string list \<Rightarrow> string list \<Rightarrow> compile_error + string list" where
  "step_deps ids sid deps [] = Inr deps"
| "step_deps ids sid deps (d # ds) =
     (if d = sid then Inl (SelfDependency sid)
      else if d \<notin> ids then Inl (UnknownDependency sid d)
      else step_deps ids sid (if d \<in> set deps then deps else deps @ [d]) ds)"

type_synonym dep_map = "string \<rightharpoonup> string list"

fun dedup_deps :: "string set \<Rightarrow> dep_map \<Rightarrow> workflow_step list \<Rightarrow> compile_error + dep_map" where
  "dedup_deps ids m [] = Inr m"
| "dedup_deps ids m (st # sts) =
     res_bind (step_deps ids (step_id st) [] (step_depends_on st))
       (\<lambda>deps. dedup_deps ids (m(step_id st \<mapsto> deps)) sts)"

text \<open>\<open>deps[id]\<close>; every id that is looked up is a step's, and has an entry.\<close>

definition deps_of :: "dep_map \<Rightarrow> string \<Rightarrow> string list" where
  "deps_of m i = (case m i of Some ds \<Rightarrow> ds | None \<Rightarrow> [])"

definition validate_budget :: "workflow_budget \<Rightarrow> nat \<Rightarrow> compile_error + unit" where
  "validate_budget b agent_steps =
     (if (case maximum_cost_usd b of Some cost \<Rightarrow> \<not> (f64_is_finite cost \<and> f64_pos cost) | None \<Rightarrow> False)
      then Inl (InvalidBudget ''maximum_cost_usd must be a positive number'')
      else if maximum_duration_seconds b = Some 0
      then Inl (InvalidBudget ''maximum_duration_seconds must be greater than zero'')
      else if maximum_agents b = Some 0 then Inl (InvalidBudget ''maximum_agents must be at least 1'')
      else if maximum_agents b = None \<and> agent_steps > 0
      then Inl (InvalidBudget ''maximum_agents is required when the workflow has agent steps'')
      else Inr ())"

subsection \<open>Ordering\<close>

text \<open>The counters of Kahn's algorithm: \<open>in_degree\<close> starts as the number of dependencies of each step.\<close>

definition init_degree :: "dep_map \<Rightarrow> workflow_step list \<Rightarrow> (string \<rightharpoonup> nat)" where
  "init_degree deps sts = map_of (map (\<lambda>st. (step_id st, length (deps_of deps (step_id st)))) sts)"

fun relax :: "dep_map \<Rightarrow> string \<Rightarrow> workflow_step list \<Rightarrow> (string \<rightharpoonup> nat) \<Rightarrow> (string \<rightharpoonup> nat)" where
  "relax deps i [] deg = deg"
| "relax deps i (st # sts) deg =
     relax deps i sts
       (if i \<in> set (deps_of deps (step_id st))
        then deg(step_id st := map_option (\<lambda>k. k - 1) (deg (step_id st))) else deg)"

function topo_loop ::
    "workflow_step list \<Rightarrow> dep_map \<Rightarrow> string list \<Rightarrow> string set \<Rightarrow> (string \<rightharpoonup> nat) \<Rightarrow> string list \<times> string set" where
  "topo_loop sts deps order emitted deg =
     (if length order < length sts then
        (case find (\<lambda>i. i \<notin> emitted \<and> deg i = Some 0) (map step_id sts) of
           None \<Rightarrow> (order, emitted)
         | Some i \<Rightarrow> topo_loop sts deps (order @ [i]) (insert i emitted) (relax deps i sts deg))
      else (order, emitted))"
  by pat_completeness auto
termination
  by (relation "measure (\<lambda>(sts, deps, order, emitted, deg). length sts - length order)") auto

declare topo_loop.simps [simp del]

definition topological_order :: "workflow_definition \<Rightarrow> dep_map \<Rightarrow> compile_error + string list" where
  "topological_order d deps =
     (case topo_loop (wd_steps d) deps [] {} (init_degree deps (wd_steps d)) of
        (order, emitted) \<Rightarrow>
          if length order \<noteq> length (wd_steps d)
          then Inl (Cycle (sort (map step_id (filter (\<lambda>st. step_id st \<notin> emitted) (wd_steps d)))))
          else Inr order)"

text \<open>\<open>dependents_of\<close>: each edge pushes the step onto the entry of its dependency.\<close>

definition push_dependent :: "string \<Rightarrow> string \<Rightarrow> dep_map \<Rightarrow> dep_map" where
  "push_dependent sid dep m = m(dep \<mapsto> deps_of m dep @ [sid])"

definition dependents_of :: "workflow_definition \<Rightarrow> dep_map \<Rightarrow> dep_map" where
  "dependents_of d deps =
     fold (\<lambda>st. fold (push_dependent (step_id st)) (deps_of deps (step_id st))) (wd_steps d) (\<lambda>_. None)"

subsection \<open>Compilation\<close>

definition step_action :: "workflow_step \<Rightarrow> node_action" where
  "step_action st =
     (case step_agent st of
        Some agent \<Rightarrow> Agent (ar_role agent) (ar_model_policy agent) (step_skill st)
      | None \<Rightarrow> Tool (case step_tool st of Some t \<Rightarrow> t | None \<Rightarrow> []))"

text \<open>
  One node of the result. \<open>position\<close> is the index of the id in the order; the lookup of the step does not
  fail on an id of the order (\<open>expect\<close> in the code).
\<close>

definition emit_node :: "dep_map \<Rightarrow> dep_map \<Rightarrow> workflow_step \<Rightarrow> nat \<Rightarrow> compiled_node" where
  "emit_node deps dependents st pos =
     \<lparr>cn_id = step_id st, cn_action = step_action st, cn_depends_on = deps_of deps (step_id st),
      cn_dependents = deps_of dependents (step_id st),
      cn_workspace_mode = (case step_workspace st of None \<Rightarrow> SharedWorktree | Some w \<Rightarrow> ws_mode w),
      cn_approval = step_approval st,
      cn_retry = (case step_retry st of Some r \<Rightarrow> r | None \<Rightarrow> default_retry),
      cn_outputs = step_outputs st, cn_with = step_with st, cn_topo_order = pos\<rparr>"

definition emit_nodes :: "workflow_definition \<Rightarrow> dep_map \<Rightarrow> dep_map \<Rightarrow> string list \<Rightarrow> compiled_node list" where
  "emit_nodes d deps dependents order =
     List.map_filter (\<lambda>(pos, i). map_option (\<lambda>st. emit_node deps dependents st pos)
                                   (find (\<lambda>st. step_id st = i) (wd_steps d))) (enumerate 0 order)"

definition compile :: "workflow_definition \<Rightarrow> compile_error + compiled_workflow" where
  "compile d =
     (if schema_version d \<noteq> SUPPORTED_SCHEMA_VERSION
      then Inl (UnsupportedSchemaVersion (schema_version d) SUPPORTED_SCHEMA_VERSION)
      else if trim (wd_id d) = [] then Inl EmptyId
      else if wd_version d < 1 then Inl (InvalidVersion (wd_version d))
      else if wd_steps d = [] then Inl NoSteps
      else
        res_bind (check_ids {} (wd_steps d)) (\<lambda>ids.
        res_bind (check_steps (wd_inputs d) 0 (wd_steps d)) (\<lambda>agent_steps.
        res_bind (dedup_deps ids (\<lambda>_. None) (wd_steps d)) (\<lambda>deps.
        res_bind (validate_budget (wd_budget d) agent_steps) (\<lambda>_.
        if agent_steps \<ge> 2 \<and> wd_orchestration_reason d = None
        then Inl (MissingOrchestrationReason agent_steps)
        else
          res_bind (topological_order d deps) (\<lambda>order.
          Inr \<lparr>cw_id = wd_id d, cw_version = wd_version d, cw_inputs = wd_inputs d, cw_budget = wd_budget d,
               cw_orchestration_reason = wd_orchestration_reason d,
               cw_nodes = emit_nodes d deps (dependents_of d deps) order\<rparr>))))))"

definition compile_with_registry ::
    "workflow_definition \<Rightarrow> workflow_registry \<Rightarrow> compile_error + compiled_workflow" where
  "compile_with_registry d reg =
     res_bind (compile d) (\<lambda>c. res_bind (validate_references reg c) (\<lambda>_. Inr c))"

datatype workflow_error = WE_Parse | WE_Compile compile_error

text \<open>\<open>parse_definition\<close> is the YAML parser \<open>yaml\<close>, whose failure is a parse error.\<close>

definition parse_definition :: "(string \<Rightarrow> workflow_definition option) \<Rightarrow> string \<Rightarrow> workflow_error + workflow_definition" where
  "parse_definition yaml s = ok_or WE_Parse (yaml s)"

definition lift_compile :: "compile_error + 'a \<Rightarrow> workflow_error + 'a" where
  "lift_compile r = (case r of Inl e \<Rightarrow> Inl (WE_Compile e) | Inr x \<Rightarrow> Inr x)"

definition compile_yaml :: "(string \<Rightarrow> workflow_definition option) \<Rightarrow> string \<Rightarrow> workflow_error + compiled_workflow" where
  "compile_yaml yaml s = res_bind (parse_definition yaml s) (\<lambda>d. lift_compile (compile d))"

definition compile_yaml_with_registry ::
    "(string \<Rightarrow> workflow_definition option) \<Rightarrow> string \<Rightarrow> workflow_registry \<Rightarrow> workflow_error + compiled_workflow" where
  "compile_yaml_with_registry yaml s reg =
     res_bind (parse_definition yaml s) (\<lambda>d. lift_compile (compile_with_registry d reg))"

subsection \<open>What validation establishes\<close>

lemma check_ids_Inr:
  "check_ids ids sts = Inr ids' \<Longrightarrow> distinct (map step_id sts) \<and> ids \<inter> set (map step_id sts) = {}
     \<and> ids' = ids \<union> set (map step_id sts)"
  by (induction ids sts rule: check_ids.induct) (auto split: if_splits)

lemma step_deps_Inr:
  "step_deps ids sid deps ds = Inr r \<Longrightarrow> distinct deps \<Longrightarrow> distinct r \<and> set r = set deps \<union> set ds
     \<and> sid \<notin> set ds \<and> set ds \<subseteq> ids"
  by (induction ids sid deps ds rule: step_deps.induct) (auto split: if_splits)

text \<open>The dependency lists as computed: one per step, the step's own without repetitions.\<close>

definition dep_lists :: "workflow_step list \<Rightarrow> dep_map \<Rightarrow> bool" where
  "dep_lists sts m \<longleftrightarrow> (\<forall>st \<in> set sts. \<exists>ds. m (step_id st) = Some ds \<and> distinct ds
     \<and> set ds = set (step_depends_on st) \<and> step_id st \<notin> set ds \<and> set ds \<subseteq> set (map step_id sts))"

lemma dedup_deps_Inr:
  assumes "dedup_deps ids m sts = Inr m'" "distinct (map step_id sts)"
  shows "(\<forall>st \<in> set sts. \<exists>ds. m' (step_id st) = Some ds \<and> distinct ds
      \<and> set ds = set (step_depends_on st) \<and> step_id st \<notin> set ds \<and> set ds \<subseteq> ids)
    \<and> (\<forall>i. i \<notin> set (map step_id sts) \<longrightarrow> m' i = m i)"
  using assms
proof (induction ids m sts rule: dedup_deps.induct)
  case (2 ids m st sts)
  from "2.prems" obtain ds where ds: "step_deps ids (step_id st) [] (step_depends_on st) = Inr ds"
    and rest: "dedup_deps ids (m(step_id st \<mapsto> ds)) sts = Inr m'" by (auto simp: res_bind_Inr_iff)
  from step_deps_Inr [OF ds] "2.IH" [OF rest] "2.prems"(2) show ?case by auto
qed auto

lemma dep_lists_deps_of:
  assumes "dep_lists sts m" "i \<in> set (map step_id sts)"
  shows "distinct (deps_of m i)" "i \<notin> set (deps_of m i)" "set (deps_of m i) \<subseteq> set (map step_id sts)"
proof -
  from assms(2) obtain st where "st \<in> set sts" "i = step_id st" by auto
  with assms(1) obtain ds where "m i = Some ds" "distinct ds" "i \<notin> set ds" "set ds \<subseteq> set (map step_id sts)"
    unfolding dep_lists_def by blast
  then show "distinct (deps_of m i)" "i \<notin> set (deps_of m i)" "set (deps_of m i) \<subseteq> set (map step_id sts)"
    by (simp_all add: deps_of_def)
qed

lemma compile_Inr:
  assumes "compile d = Inr c"
  obtains ids agent_steps deps order where
    "check_ids {} (wd_steps d) = Inr ids" "check_steps (wd_inputs d) 0 (wd_steps d) = Inr agent_steps"
    "dedup_deps ids (\<lambda>_. None) (wd_steps d) = Inr deps" "validate_budget (wd_budget d) agent_steps = Inr ()"
    "topological_order d deps = Inr order" "distinct (map step_id (wd_steps d))" "dep_lists (wd_steps d) deps"
    "cw_nodes c = emit_nodes d deps (dependents_of d deps) order"
    "cw_budget c = wd_budget d" "cw_inputs c = wd_inputs d" "wd_steps d \<noteq> []"
    "2 \<le> agent_steps \<longrightarrow> cw_orchestration_reason c \<noteq> None"
proof -
  from assms obtain ids agent_steps deps order where *:
    "check_ids {} (wd_steps d) = Inr ids" "check_steps (wd_inputs d) 0 (wd_steps d) = Inr agent_steps"
    "dedup_deps ids (\<lambda>_. None) (wd_steps d) = Inr deps" "validate_budget (wd_budget d) agent_steps = Inr ()"
    "topological_order d deps = Inr order" "wd_steps d \<noteq> []"
    "2 \<le> agent_steps \<longrightarrow> wd_orchestration_reason d \<noteq> None"
    "c = \<lparr>cw_id = wd_id d, cw_version = wd_version d, cw_inputs = wd_inputs d, cw_budget = wd_budget d,
         cw_orchestration_reason = wd_orchestration_reason d,
         cw_nodes = emit_nodes d deps (dependents_of d deps) order\<rparr>"
    by (auto simp: compile_def res_bind_Inr_iff split: if_splits)
  moreover from check_ids_Inr [OF *(1)] have ids: "distinct (map step_id (wd_steps d))" "ids = set (map step_id (wd_steps d))"
    by auto
  moreover from dedup_deps_Inr [OF *(3) ids(1)] ids(2) have "dep_lists (wd_steps d) deps"
    by (simp add: dep_lists_def)
  ultimately show thesis using that by simp
qed

subsection \<open>Kahn's loop against its reference\<close>

text \<open>
  The reference ordering: no counters, the next step is the first one in definition order that is not
  yet ordered and whose dependencies all are.
\<close>

function ready_loop :: "workflow_step list \<Rightarrow> dep_map \<Rightarrow> string list \<Rightarrow> string list" where
  "ready_loop sts deps order =
     (if length order < length sts then
        (case find (\<lambda>i. i \<notin> set order \<and> set (deps_of deps i) \<subseteq> set order) (map step_id sts) of
           None \<Rightarrow> order
         | Some i \<Rightarrow> ready_loop sts deps (order @ [i]))
      else order)"
  by pat_completeness auto
termination
  by (relation "measure (\<lambda>(sts, deps, order). length sts - length order)") auto

declare ready_loop.simps [simp del]

lemma relax_other: "k \<notin> set (map step_id sts) \<Longrightarrow> relax deps i sts deg k = deg k"
  by (induction deps i sts deg rule: relax.induct) auto

lemma relax_entry:
  "distinct (map step_id sts) \<Longrightarrow> k \<in> set (map step_id sts) \<Longrightarrow>
     relax deps i sts deg k = (if i \<in> set (deps_of deps k) then map_option (\<lambda>n. n - 1) (deg k) else deg k)"
proof (induction deps i sts deg rule: relax.induct)
  case (2 deps i st sts deg)
  then show ?case by (cases "k = step_id st") (auto simp: relax_other)
qed simp

text \<open>Each counter is the number of dependencies not yet emitted.\<close>

definition counters :: "workflow_step list \<Rightarrow> dep_map \<Rightarrow> string list \<Rightarrow> (string \<rightharpoonup> nat) \<Rightarrow> bool" where
  "counters sts deps order deg \<longleftrightarrow>
     (\<forall>k \<in> set (map step_id sts). deg k = Some (card (set (deps_of deps k) - set order)))"

lemma counters_init:
  assumes "distinct (map step_id sts)" "dep_lists sts deps"
  shows "counters sts deps [] (init_degree deps sts)"
  unfolding counters_def
proof
  fix k assume k: "k \<in> set (map step_id sts)"
  then obtain st where st: "st \<in> set sts" "k = step_id st" by auto
  from assms(1) have "distinct (map fst (map (\<lambda>st. (step_id st, length (deps_of deps (step_id st)))) sts))"
    by (simp add: comp_def)
  moreover have "(k, length (deps_of deps k)) \<in> set (map (\<lambda>st. (step_id st, length (deps_of deps (step_id st)))) sts)"
    using st by auto
  ultimately have "init_degree deps sts k = Some (length (deps_of deps k))"
    unfolding init_degree_def by (rule map_of_is_SomeI)
  then show "init_degree deps sts k = Some (card (set (deps_of deps k) - set []))"
    using dep_lists_deps_of(1) [OF assms(2) k] by (simp add: distinct_card)
qed

lemma counters_relax:
  assumes "counters sts deps order deg" "distinct (map step_id sts)" "i \<notin> set order"
  shows "counters sts deps (order @ [i]) (relax deps i sts deg)"
  unfolding counters_def
proof
  fix k assume k: "k \<in> set (map step_id sts)"
  let ?A = "set (deps_of deps k) - set order"
  have "set (deps_of deps k) - set (order @ [i]) = ?A - {i}" by auto
  with assms k show "relax deps i sts deg k = Some (card (set (deps_of deps k) - set (order @ [i])))"
    by (auto simp: relax_entry counters_def card_Diff_singleton_if)
qed

lemma topo_loop_reference:
  "distinct (map step_id sts) \<Longrightarrow> counters sts deps order deg \<Longrightarrow>
     topo_loop sts deps order (set order) deg = (ready_loop sts deps order, set (ready_loop sts deps order))"
proof (induction sts deps order arbitrary: deg rule: ready_loop.induct)
  case (1 sts deps order)
  let ?f = "find (\<lambda>i. i \<notin> set order \<and> set (deps_of deps i) \<subseteq> set order) (map step_id sts)"
  have eq: "find (\<lambda>i. i \<notin> set order \<and> deg i = Some 0) (map step_id sts) = ?f"
    by (rule find_cong [OF refl]) (use "1.prems" in \<open>auto simp: counters_def\<close>)
  show ?case
  proof (cases "length order < length sts \<and> ?f \<noteq> None")
    case True
    then obtain i where i: "length order < length sts" "?f = Some i" by auto
    from find_Some_D [OF i(2)] have "i \<notin> set order" by simp
    from "1.IH" [OF i "1.prems"(1) counters_relax [OF "1.prems"(2,1) this]]
    show ?thesis using i
      by (subst topo_loop.simps, subst (1 2) ready_loop.simps) (simp add: eq)
  next
    case False
    then show ?thesis
      by (subst topo_loop.simps, subst (1 2) ready_loop.simps) (auto simp: eq)
  qed
qed

text \<open>An order in the making: distinct step ids, each after all its dependencies.\<close>

definition ordered_prefix :: "workflow_step list \<Rightarrow> dep_map \<Rightarrow> string list \<Rightarrow> bool" where
  "ordered_prefix sts deps order \<longleftrightarrow> distinct order \<and> set order \<subseteq> set (map step_id sts)
     \<and> (\<forall>i < length order. set (deps_of deps (order ! i)) \<subseteq> set (take i order))"

lemma ordered_prefix_snoc:
  "ordered_prefix sts deps order \<Longrightarrow> i \<in> set (map step_id sts) \<Longrightarrow> i \<notin> set order \<Longrightarrow>
     set (deps_of deps i) \<subseteq> set order \<Longrightarrow> ordered_prefix sts deps (order @ [i])"
  by (auto simp: ordered_prefix_def nth_append less_Suc_eq)

text \<open>The loop ends with an ordered prefix, complete unless every remaining step waits for a remaining step.\<close>

lemma ready_loop_result:
  "ordered_prefix sts deps order \<Longrightarrow>
     ordered_prefix sts deps (ready_loop sts deps order)
     \<and> (length (ready_loop sts deps order) < length sts \<longrightarrow>
          (\<forall>i \<in> set (map step_id sts). i \<notin> set (ready_loop sts deps order) \<longrightarrow>
             \<not> set (deps_of deps i) \<subseteq> set (ready_loop sts deps order)))"
proof (induction sts deps order rule: ready_loop.induct)
  case (1 sts deps order)
  let ?f = "find (\<lambda>i. i \<notin> set order \<and> set (deps_of deps i) \<subseteq> set order) (map step_id sts)"
  show ?case
  proof (cases "length order < length sts")
    case False
    then have "ready_loop sts deps order = order" by (subst ready_loop.simps) simp
    with "1.prems" False show ?thesis by simp
  next
    case len: True
    show ?thesis
    proof (cases ?f)
      case None
      then have "ready_loop sts deps order = order" by (subst ready_loop.simps) simp
      with "1.prems" find_None_D [OF None] show ?thesis by auto
    next
      case (Some i)
      then have r: "ready_loop sts deps order = ready_loop sts deps (order @ [i])"
        using len by (subst ready_loop.simps) simp
      from find_Some_D [OF Some] "1.prems" have "ordered_prefix sts deps (order @ [i])"
        by (auto intro: ordered_prefix_snoc)
      from "1.IH" [OF len Some this] show ?thesis by (simp add: r)
    qed
  qed
qed

lemma ready_loop_cong:
  "(\<And>i. i \<in> set (map step_id sts) \<Longrightarrow> set (deps_of deps i) = set (deps_of deps' i)) \<Longrightarrow>
     ready_loop sts deps order = ready_loop sts deps' order"
proof (induction sts deps order rule: ready_loop.induct)
  case (1 sts deps order)
  have eq: "find (\<lambda>i. i \<notin> set order \<and> set (deps_of deps' i) \<subseteq> set order) (map step_id sts)
      = find (\<lambda>i. i \<notin> set order \<and> set (deps_of deps i) \<subseteq> set order) (map step_id sts)"
    by (rule find_cong [OF refl]) (simp add: "1.prems")
  show ?case
    by (subst (1 2) ready_loop.simps) (use "1.IH" "1.prems" in \<open>auto simp: eq split: option.splits\<close>)
qed

lemma ordered_prefix_full:
  assumes "ordered_prefix sts deps order" "distinct (map step_id sts)" "length order = length sts"
  shows "set order = set (map step_id sts)"
proof (rule card_subset_eq)
  show "set order \<subseteq> set (map step_id sts)" using assms(1) by (simp add: ordered_prefix_def)
  show "card (set order) = card (set (map step_id sts))"
    using assms by (metis distinct_card length_map ordered_prefix_def)
qed simp

lemma topological_order_cases:
  assumes "distinct (map step_id (wd_steps d))" "dep_lists (wd_steps d) deps"
  shows "topological_order d deps =
    (let order = ready_loop (wd_steps d) deps [] in
     if length order \<noteq> length (wd_steps d)
     then Inl (Cycle (sort (map step_id (filter (\<lambda>st. step_id st \<notin> set order) (wd_steps d))))) else Inr order)"
  using topo_loop_reference [OF assms(1) counters_init [OF assms]] by (simp add: topological_order_def Let_def)

lemma topological_order_Inr:
  assumes "distinct (map step_id (wd_steps d))" "dep_lists (wd_steps d) deps" "topological_order d deps = Inr order"
  shows "ordered_prefix (wd_steps d) deps order" "set order = set (map step_id (wd_steps d))"
    "length order = length (wd_steps d)"
proof -
  from assms have o: "order = ready_loop (wd_steps d) deps []" "length order = length (wd_steps d)"
    by (auto simp: topological_order_cases [OF assms(1,2)] Let_def split: if_splits)
  have "ordered_prefix (wd_steps d) deps []" by (simp add: ordered_prefix_def)
  from ready_loop_result [OF this] o show *: "ordered_prefix (wd_steps d) deps order" by simp
  show "set order = set (map step_id (wd_steps d))" by (rule ordered_prefix_full [OF * assms(1) o(2)])
qed (use assms in \<open>auto simp: topological_order_cases [OF assms(1,2)] Let_def split: if_splits\<close>)

subsection \<open>The compiled graph\<close>

lemma push_dependents:
  "distinct ds \<Longrightarrow> deps_of (fold (push_dependent sid) ds m) k = deps_of m k @ (if k \<in> set ds then [sid] else [])"
  by (induction ds arbitrary: m) (auto simp: push_dependent_def deps_of_def)

lemma dependents_of_fold:
  "(\<And>st. st \<in> set sts \<Longrightarrow> distinct (deps_of deps (step_id st))) \<Longrightarrow>
     deps_of (fold (\<lambda>st. fold (push_dependent (step_id st)) (deps_of deps (step_id st))) sts m) k
       = deps_of m k @ map step_id (filter (\<lambda>st. k \<in> set (deps_of deps (step_id st))) sts)"
  by (induction sts arbitrary: m) (auto simp: push_dependents)

lemma dependents_of_eq:
  assumes "dep_lists (wd_steps d) deps"
  shows "deps_of (dependents_of d deps) k =
    map step_id (filter (\<lambda>st. k \<in> set (deps_of deps (step_id st))) (wd_steps d))"
proof -
  have "distinct (deps_of deps (step_id st))" if "st \<in> set (wd_steps d)" for st
    using dep_lists_deps_of(1) [OF assms] that by auto
  from dependents_of_fold [OF this] show ?thesis by (simp add: dependents_of_def deps_of_def)
qed

text \<open>What a node takes from its step.\<close>

definition node_of_step :: "workflow_step \<Rightarrow> compiled_node \<Rightarrow> bool" where
  "node_of_step st n \<longleftrightarrow> cn_id n = step_id st \<and> cn_action n = step_action st \<and> distinct (cn_depends_on n)
     \<and> set (cn_depends_on n) = set (step_depends_on st)
     \<and> cn_approval n = step_approval st \<and> cn_outputs n = step_outputs st \<and> cn_with n = step_with st
     \<and> cn_retry n = (case step_retry st of Some r \<Rightarrow> r | None \<Rightarrow> default_retry)
     \<and> cn_workspace_mode n = (case step_workspace st of None \<Rightarrow> SharedWorktree | Some w \<Rightarrow> ws_mode w)"

text \<open>
  A well-formed graph: distinct ids, each node at its position, every dependency strictly earlier, and
  the dependents the inverse of the dependencies.
\<close>

definition wf_graph :: "compiled_node list \<Rightarrow> bool" where
  "wf_graph ns \<longleftrightarrow> distinct (map cn_id ns)
     \<and> (\<forall>i < length ns. cn_topo_order (ns ! i) = i)
     \<and> (\<forall>i < length ns. set (cn_depends_on (ns ! i)) \<subseteq> cn_id ` set (take i ns))
     \<and> (\<forall>n \<in> set ns. set (cn_dependents n) = cn_id ` {m \<in> set ns. cn_id n \<in> set (cn_depends_on m)})"

lemma map_filter_all_Some: "(\<And>x. x \<in> set xs \<Longrightarrow> f x = Some (g x)) \<Longrightarrow> List.map_filter f xs = map g xs"
  by (induction xs) (auto simp: List.map_filter_simps)

lemma emit_nodes_nth:
  assumes "distinct (map step_id (wd_steps d))" "set order \<subseteq> set (map step_id (wd_steps d))"
  shows "length (emit_nodes d deps dependents order) = length order"
    and "i < length order \<Longrightarrow> \<exists>st \<in> set (wd_steps d). step_id st = order ! i
           \<and> emit_nodes d deps dependents order ! i = emit_node deps dependents st i"
proof -
  define S where "S = (\<lambda>i. the (find (\<lambda>st. step_id st = i) (wd_steps d)))"
  have f: "find (\<lambda>st. step_id st = k) (wd_steps d) = Some (S k)" if "k \<in> set order" for k
    using that assms(2) by (cases "find (\<lambda>st. step_id st = k) (wd_steps d)") (auto simp: S_def dest: find_None_D)
  have e: "emit_nodes d deps dependents order = map (\<lambda>(pos, k). emit_node deps dependents (S k) pos) (enumerate 0 order)"
    unfolding emit_nodes_def
    by (rule map_filter_all_Some) (auto simp: in_set_enumerate_eq f)
  then show "length (emit_nodes d deps dependents order) = length order" by simp
  assume i: "i < length order"
  then have "emit_nodes d deps dependents order ! i = emit_node deps dependents (S (order ! i)) i"
    by (simp add: e nth_enumerate_eq)
  with find_Some_D [OF f [of "order ! i"]] i show "\<exists>st \<in> set (wd_steps d). step_id st = order ! i
      \<and> emit_nodes d deps dependents order ! i = emit_node deps dependents st i" by auto
qed

lemma emit_nodes_graph:
  assumes ids: "distinct (map step_id (wd_steps d))" and dl: "dep_lists (wd_steps d) deps"
    and order: "topological_order d deps = Inr order"
  defines "ns \<equiv> emit_nodes d deps (dependents_of d deps) order"
  shows "map cn_id ns = order" "\<And>n. n \<in> set ns \<Longrightarrow> \<exists>st \<in> set (wd_steps d). node_of_step st n" "wf_graph ns"
proof -
  note o = topological_order_Inr [OF ids dl order]
  have sub: "set order \<subseteq> set (map step_id (wd_steps d))" using o(2) by simp
  note len = emit_nodes_nth(1) [OF ids sub, of deps "dependents_of d deps", folded ns_def]
  note nth = emit_nodes_nth(2) [OF ids sub, of _ deps "dependents_of d deps", folded ns_def]
  show map: "map cn_id ns = order"
    using nth by (intro nth_equalityI) (force simp: len emit_node_def)+
  have dep: "cn_depends_on (ns ! i) = deps_of deps (order ! i)" "cn_topo_order (ns ! i) = i"
    "cn_dependents (ns ! i) = deps_of (dependents_of d deps) (order ! i)" if "i < length ns" for i
    using nth [of i] that by (auto simp: len emit_node_def)
  show "\<exists>st \<in> set (wd_steps d). node_of_step st n" if "n \<in> set ns" for n
  proof -
    from that obtain i where i: "i < length ns" "n = ns ! i" by (auto simp: in_set_conv_nth)
    with nth [of i] len obtain st where st: "st \<in> set (wd_steps d)" "n = emit_node deps (dependents_of d deps) st i"
      by auto
    with dl obtain ds where "deps (step_id st) = Some ds" "distinct ds" "set ds = set (step_depends_on st)"
      unfolding dep_lists_def by blast
    with st show ?thesis by (intro bexI [of _ st]) (simp_all add: node_of_step_def emit_node_def deps_of_def)
  qed
  have take: "cn_id ` set (take i ns) = set (take i order)" for i
    by (metis map set_map take_map)
  have inv: "set (deps_of (dependents_of d deps) k) = {j \<in> set order. k \<in> set (deps_of deps j)}" for k
    using dependents_of_eq [OF dl, of k] o(2) by auto
  have bwd: "cn_id ` {m \<in> set ns. k \<in> set (cn_depends_on m)} = {j \<in> set order. k \<in> set (deps_of deps j)}" for k
  proof -
    have "cn_depends_on m = deps_of deps (cn_id m)" if "m \<in> set ns" for m
      using that dep(1) map by (metis in_set_conv_nth nth_map)
    then show ?thesis using map by force
  qed
  show "wf_graph ns" unfolding wf_graph_def
  proof (intro conjI allI impI ballI)
    show "distinct (map cn_id ns)" using o(1) by (simp add: map ordered_prefix_def)
    show "set (cn_depends_on (ns ! i)) \<subseteq> cn_id ` set (take i ns)" if "i < length ns" for i
      using o(1) that by (simp add: dep take ordered_prefix_def len)
    show "set (cn_dependents n) = cn_id ` {m \<in> set ns. cn_id n \<in> set (cn_depends_on m)}" if "n \<in> set ns" for n
    proof -
      from that obtain i where "i < length ns" "n = ns ! i" by (auto simp: in_set_conv_nth)
      with dep(3) [of i] map have "cn_dependents n = deps_of (dependents_of d deps) (cn_id n)" by auto
      with inv bwd show ?thesis by simp
    qed
  qed (use dep in simp)
qed

lemma compile_graph_facts:
  assumes "compile d = Inr c"
  shows "wf_graph (cw_nodes c)" "mset (map cn_id (cw_nodes c)) = mset (map step_id (wd_steps d))"
    "n \<in> set (cw_nodes c) \<Longrightarrow> \<exists>st \<in> set (wd_steps d). node_of_step st n"
proof -
  from assms obtain ids agent_steps deps order where *:
    "topological_order d deps = Inr order" "distinct (map step_id (wd_steps d))" "dep_lists (wd_steps d) deps"
    "cw_nodes c = emit_nodes d deps (dependents_of d deps) order"
    by (rule compile_Inr)
  note g = emit_nodes_graph [OF *(2,3,1), folded *(4)]
  show "wf_graph (cw_nodes c)" by (rule g(3))
  show "n \<in> set (cw_nodes c) \<Longrightarrow> \<exists>st \<in> set (wd_steps d). node_of_step st n" by (rule g(2))
  show "mset (map cn_id (cw_nodes c)) = mset (map step_id (wd_steps d))"
    using topological_order_Inr [OF *(2,3,1)] *(2) unfolding g(1)
    by (subst set_eq_iff_mset_eq_distinct [symmetric]) (auto simp: ordered_prefix_def)
qed

subsection \<open>Cycles\<close>

lemma compile_Cycle:
  assumes "compile d = Inl (Cycle cs)"
  obtains deps where "distinct (map step_id (wd_steps d))" "dep_lists (wd_steps d) deps"
    "topological_order d deps = Inl (Cycle cs)"
proof -
  have vb: "validate_budget b k \<noteq> Inl (Cycle cs)" for b k by (simp add: validate_budget_def)
  have vi: "check_ids ids sts \<noteq> Inl (Cycle cs)" for ids sts
    by (induction ids sts rule: check_ids.induct) auto
  have sd: "step_deps ids sid ds es \<noteq> Inl (Cycle cs)" for ids sid ds es
    by (induction ids sid ds es rule: step_deps.induct) auto
  have dd: "dedup_deps ids m sts \<noteq> Inl (Cycle cs)" for ids m sts
    by (induction ids m sts rule: dedup_deps.induct) (auto simp: res_bind_Inl_iff sd fun_upd_def)
  have vw: "validate_with_bindings st inputs \<noteq> Inl (Cycle cs)" for st inputs
    by (auto simp: validate_with_bindings_def split: json.splits sum.splits if_splits dest!: for_each_Inl_D)
  have cs1: "check_step inputs k st \<noteq> Inl (Cycle cs)" for inputs k st
    by (auto simp: check_step_def res_bind_Inl_iff res_map_def vw split: bool.splits option.splits if_splits sum.splits
        dest!: for_each_Inl_D)
  have cst: "check_steps inputs k sts \<noteq> Inl (Cycle cs)" for inputs k sts
    by (induction inputs k sts rule: check_steps.induct) (auto simp: res_bind_Inl_iff cs1)
  from assms obtain ids deps where *: "check_ids {} (wd_steps d) = Inr ids"
    "dedup_deps ids (\<lambda>_. None) (wd_steps d) = Inr deps" "topological_order d deps = Inl (Cycle cs)"
    by (auto simp: compile_def res_bind_Inl_iff vb vi dd cst split: if_splits)
  from check_ids_Inr [OF *(1)] have ids: "distinct (map step_id (wd_steps d))" "ids = set (map step_id (wd_steps d))" by auto
  with dedup_deps_Inr [OF *(2) ids(1)] have "dep_lists (wd_steps d) deps" by (simp add: dep_lists_def)
  with ids * that show thesis by blast
qed

text \<open>A set of steps each of which waits for a step of the set: none of them can ever be ordered.\<close>

definition waiting_set :: "workflow_step list \<Rightarrow> string set \<Rightarrow> bool" where
  "waiting_set sts C \<longleftrightarrow> C \<noteq> {} \<and> C \<subseteq> set (map step_id sts)
     \<and> (\<forall>i \<in> C. \<exists>st \<in> set sts. step_id st = i \<and> (\<exists>dep \<in> set (step_depends_on st). dep \<in> C))"

lemma waiting_set_no_rank:
  assumes "waiting_set sts C"
  shows "\<exists>st \<in> set sts. \<exists>dep \<in> set (step_depends_on st). \<not> rank dep < (rank (step_id st) :: nat)"
proof (rule ccontr)
  assume *: "\<not> ?thesis"
  from assms obtain i where "i \<in> C" "\<And>j. rank j < rank i \<Longrightarrow> j \<notin> C"
    unfolding waiting_set_def by (metis ex_in_conv exists_least_iff [of "\<lambda>r. \<exists>i \<in> C. rank i = r"])
  with assms * show False unfolding waiting_set_def by metis
qed

lemma compile_Cycle_waiting:
  assumes "compile d = Inl (Cycle cs)"
  shows "waiting_set (wd_steps d) (set cs)" "sorted cs" "distinct cs"
proof -
  from assms obtain deps where ids: "distinct (map step_id (wd_steps d))" and dl: "dep_lists (wd_steps d) deps"
    and t: "topological_order d deps = Inl (Cycle cs)" by (rule compile_Cycle)
  define order where "order = ready_loop (wd_steps d) deps []"
  from t have cs: "cs = sort (map step_id (filter (\<lambda>st. step_id st \<notin> set order) (wd_steps d)))"
    and len: "length order \<noteq> length (wd_steps d)"
    by (auto simp: topological_order_cases [OF ids dl] order_def Let_def split: if_splits)
  have pre: "ordered_prefix (wd_steps d) deps []" by (simp add: ordered_prefix_def)
  from ready_loop_result [OF this] have o: "ordered_prefix (wd_steps d) deps order"
    and stuck: "length order < length (wd_steps d) \<longrightarrow>
      (\<forall>i \<in> set (map step_id (wd_steps d)). i \<notin> set order \<longrightarrow> \<not> set (deps_of deps i) \<subseteq> set order)"
    unfolding order_def by auto
  have "length order \<le> length (wd_steps d)"
    using o by (metis card_mono distinct_card ids length_map List.finite_set ordered_prefix_def)
  with len have less: "length order < length (wd_steps d)" by simp
  have set_cs: "set cs = set (map step_id (wd_steps d)) - set order" by (auto simp: cs)
  show "sorted cs" by (simp add: cs)
  show "distinct cs" using ids by (simp add: cs distinct_map_filter)
  have "set cs \<noteq> {}"
  proof
    assume "set cs = {}"
    with set_cs have "set (map step_id (wd_steps d)) \<subseteq> set order" by auto
    then have "length (wd_steps d) \<le> length order"
      using ids by (metis card_length card_mono distinct_card length_map List.finite_set order_trans)
    with less show False by simp
  qed
  moreover have "\<exists>st \<in> set (wd_steps d). step_id st = i \<and> (\<exists>dep \<in> set (step_depends_on st). dep \<in> set cs)"
    if i: "i \<in> set cs" for i
  proof -
    from i set_cs obtain st where st: "st \<in> set (wd_steps d)" "step_id st = i" by auto
    from i set_cs stuck less obtain dep where dep: "dep \<in> set (deps_of deps i)" "dep \<notin> set order" by blast
    from dl st obtain ds where ds: "deps i = Some ds" "set ds = set (step_depends_on st)"
      "set ds \<subseteq> set (map step_id (wd_steps d))" unfolding dep_lists_def by blast
    with dep set_cs have "dep \<in> set (step_depends_on st)" "dep \<in> set cs" by (auto simp: deps_of_def)
    with st show ?thesis by blast
  qed
  ultimately show "waiting_set (wd_steps d) (set cs)" using set_cs by (auto simp: waiting_set_def)
qed

subsection \<open>Actions, bindings and references\<close>

lemma check_step_Inr:
  "check_step inputs k st = Inr k' \<Longrightarrow> k' = k + (if step_agent st \<noteq> None then 1 else 0)
     \<and> (step_agent st = None \<longrightarrow> step_tool st \<noteq> None) \<and> validate_with_bindings st inputs = Inr ()"
  by (cases "step_agent st"; cases "step_tool st")
    (auto simp: check_step_def res_bind_Inr_iff res_map_Inr_iff split: if_splits)

lemma check_steps_Inr:
  "check_steps inputs k sts = Inr k' \<Longrightarrow> k' = k + length (filter (\<lambda>st. step_agent st \<noteq> None) sts)
     \<and> (\<forall>st \<in> set sts. validate_with_bindings st inputs = Inr ())"
proof (induction sts arbitrary: k)
  case (Cons st sts)
  then obtain k1 where "check_step inputs k st = Inr k1" "check_steps inputs k1 sts = Inr k'"
    by (auto simp: res_bind_Inr_iff)
  with Cons.IH [of k1] check_step_Inr [of inputs k st k1] show ?case by auto
qed simp

lemma compile_agent_count:
  assumes c: "compile d = Inr c"
  shows "agent_node_count c = length (filter (\<lambda>st. step_agent st \<noteq> None) (wd_steps d))"
proof -
  from c have ids: "distinct (map step_id (wd_steps d))" by (rule compile_Inr)
  define f where "f = (\<lambda>i. \<exists>st \<in> set (wd_steps d). step_id st = i \<and> step_agent st \<noteq> None)"
  have st: "f (step_id st) \<longleftrightarrow> step_agent st \<noteq> None" if "st \<in> set (wd_steps d)" for st
    using that ids unfolding f_def distinct_map inj_on_def by metis
  have n: "f (cn_id n) \<longleftrightarrow> (case cn_action n of Agent _ _ _ \<Rightarrow> True | Tool _ \<Rightarrow> False)" if "n \<in> set (cw_nodes c)" for n
  proof -
    from compile_graph_facts(3) [OF c that] obtain s where s: "s \<in> set (wd_steps d)" "node_of_step s n" by blast
    then have "cn_id n = step_id s" "cn_action n = step_action s" by (simp_all add: node_of_step_def)
    with st [OF s(1)] show ?thesis by (cases "step_agent s") (simp_all add: step_action_def)
  qed
  have "agent_node_count c = length (filter (\<lambda>n. f (cn_id n)) (cw_nodes c))"
    unfolding agent_node_count_def using n by (intro arg_cong [where f = length] filter_cong) auto
  also have "\<dots> = size (filter_mset f (mset (map cn_id (cw_nodes c))))"
    by (simp only: mset_filter [symmetric] size_mset filter_map length_map comp_def)
  also have "\<dots> = size (filter_mset f (mset (map step_id (wd_steps d))))"
    by (simp only: compile_graph_facts(2) [OF c])
  also have "\<dots> = length (filter (\<lambda>st. f (step_id st)) (wd_steps d))"
    by (simp only: mset_filter [symmetric] size_mset filter_map length_map comp_def)
  also have "\<dots> = length (filter (\<lambda>st. step_agent st \<noteq> None) (wd_steps d))"
    using st by (intro arg_cong [where f = length] filter_cong) auto
  finally show ?thesis .
qed

text \<open>The JSON object \<open>inputs\<close> has a value for every input the workflow declares.\<close>

definition inputs_supplied :: "workflow_input btree \<Rightarrow> json \<Rightarrow> bool" where
  "inputs_supplied decl inputs \<longleftrightarrow> (\<forall>name \<in> set (bt_keys decl). json_get inputs name \<noteq> None)"

lemma validated_binding_total:
  assumes "validate_with_bindings st decl = Inr ()" "inputs_supplied decl inputs"
  shows "\<exists>b. bind_with to_text (step_with st) inputs = Inr (JObj b)"
  unfolding bind_with_def
proof (rule bind_entries_total, rule interpolate_total)
  fix k v assume kv: "(k, v) \<in> set (step_with st)"
  show "case v of JStr s \<Rightarrow> \<exists>ps. find_placeholders s = Inr ps
          \<and> (\<forall>p \<in> set ps. json_get inputs (snd (snd p)) \<noteq> None) | _ \<Rightarrow> True"
  proof (cases v)
    case (JStr s)
    from assms(1) kv JStr obtain names where sc: "scan_input_refs s = Inr names"
      and decl: "\<forall>name \<in> set names. map_of decl name \<noteq> None"
      by (fastforce simp: validate_with_bindings_def for_each_Inr_iff split: sum.splits if_splits)
    from sc obtain ps where ps: "find_placeholders s = Inr ps" "names = map (\<lambda>(_, _, n). n) ps"
      by (auto simp: scan_input_refs_def res_map_Inr_iff)
    have "json_get inputs (snd (snd p)) \<noteq> None" if "p \<in> set ps" for p
    proof -
      from that ps(2) have "snd (snd p) \<in> set names" by (force simp: case_prod_beta)
      with decl have "snd (snd p) \<in> set (bt_keys decl)"
        by (auto simp: bt_keys_def map_of_eq_None_iff simp del: not_None_eq)
      with assms(2) show ?thesis by (simp add: inputs_supplied_def)
    qed
    with ps JStr show ?thesis by auto
  qed auto
qed

text \<open>A node all of whose names the registry knows.\<close>

definition resolves :: "workflow_registry \<Rightarrow> compiled_node \<Rightarrow> bool" where
  "resolves reg n \<longleftrightarrow> (case cn_action n of Tool name \<Rightarrow> has_tool reg (normalize_tool_name name)
     | Agent role _ skill \<Rightarrow> has_agent_role reg role \<and> (\<forall>s. skill = Some s \<longrightarrow> has_skill reg s))"

lemma validate_node_resolves: "validate_node_references reg n = Inr () \<longleftrightarrow> resolves reg n"
  by (auto simp: validate_node_references_def resolves_def split: node_action.splits option.splits)

text \<open>A small manifest: a review by an agent, a patch by an agent, then the repository's tests.\<close>

definition example_step :: "string \<Rightarrow> string list \<Rightarrow> workflow_step" where
  "example_step i deps = \<lparr>step_id = i, step_depends_on = deps, step_agent = None, step_tool = Some ''repository.test'',
     step_with = [], step_skill = None, step_workspace = None, step_approval = None, step_retry = None, step_outputs = []\<rparr>"

definition example_agent_step :: "string \<Rightarrow> string list \<Rightarrow> workflow_step" where
  "example_agent_step i deps = (example_step i deps)\<lparr>step_tool := None,
     step_agent := Some \<lparr>ar_role = ''coder'', ar_model_policy = None\<rparr>\<rparr>"

definition example_workflow :: "workflow_step list \<Rightarrow> workflow_definition" where
  "example_workflow sts = \<lparr>schema_version = 1, wd_id = ''demo'', wd_version = 1, wd_description = None,
     wd_inputs = [(''pr'', \<lparr>input_type = ''string'', required = True\<rparr>)],
     wd_budget = \<lparr>maximum_cost_usd = None, maximum_duration_seconds = None, maximum_agents = Some 2\<rparr>,
     wd_steps = sts, wd_orchestration_reason = Some IndependentReview\<rparr>"

definition example_steps :: "workflow_step list" where
  "example_steps = [(example_step ''test'' [''review'', ''patch''])\<lparr>step_with := [(''pr'', JStr ''${{ inputs.pr }}'')]\<rparr>,
     example_agent_step ''patch'' [''review''], example_agent_step ''review'' []]"

definition example_compiled :: compiled_workflow where
  "example_compiled = projr (compile (example_workflow example_steps))"

lemma example_compile: "compile (example_workflow example_steps) = Inr example_compiled"
proof -
  have "\<not> isl (compile (example_workflow example_steps))" by code_simp
  then show ?thesis by (simp add: example_compiled_def)
qed

lemma example_ids: "map cn_id (cw_nodes example_compiled) = [''review'', ''patch'', ''test'']"
  unfolding example_compiled_def by code_simp

subsection \<open>The interface of an ordered graph\<close>

text \<open>
  What the store's scheduler and the driver rely on in the graph they are given: ids identify nodes, and every
  dependency of a node is the id of a node before it. Both facts together give induction along the
  dependencies and a minimal node for every property that fails somewhere.
\<close>

locale topo_graph =
  fixes ns :: "'n list" and nid :: "'n \<Rightarrow> 'i" and ndeps :: "'n \<Rightarrow> 'i list"
  assumes distinct_ids: "distinct (map nid ns)"
    and deps_earlier: "i < length ns \<Longrightarrow> set (ndeps (ns ! i)) \<subseteq> nid ` set (take i ns)"
begin

lemma node_eqI: "n \<in> set ns \<Longrightarrow> m \<in> set ns \<Longrightarrow> nid n = nid m \<Longrightarrow> n = m"
  using distinct_ids by (auto simp: distinct_map inj_on_def)

lemma deps_in_graph: "n \<in> set ns \<Longrightarrow> d \<in> set (ndeps n) \<Longrightarrow> \<exists>m \<in> set ns. nid m = d"
proof -
  assume n: "n \<in> set ns" and d: "d \<in> set (ndeps n)"
  from n obtain i where "i < length ns" "n = ns ! i" by (auto simp: in_set_conv_nth)
  with deps_earlier d have "d \<in> nid ` set (take i ns)" by blast
  then show ?thesis by (auto dest: in_set_takeD)
qed

lemma deps_of_split: "ns = pre @ n # suf \<Longrightarrow> set (ndeps n) \<subseteq> nid ` set pre"
  using deps_earlier [of "length pre"] by simp

lemma topo_induct:
  assumes "n \<in> set ns" and step: "\<And>n. n \<in> set ns \<Longrightarrow> (\<And>m. m \<in> set ns \<Longrightarrow> nid m \<in> set (ndeps n) \<Longrightarrow> P m) \<Longrightarrow> P n"
  shows "P n"
proof -
  have "P (ns ! i)" if "i < length ns" for i
    using that
  proof (induction i rule: less_induct)
    case (less i)
    show ?case
    proof (rule step)
      fix m assume m: "m \<in> set ns" "nid m \<in> set (ndeps (ns ! i))"
      with deps_earlier [OF less.prems] have "nid m \<in> nid ` set (take i ns)" by blast
      then obtain j where j: "j < i" "nid (ns ! j) = nid m"
        using less.prems by (force simp: in_set_conv_nth)
      then have "ns ! j = m" using less.prems m(1) by (intro node_eqI) auto
      with less.IH [OF j(1)] j(1) less.prems show "P m" by simp
    qed (use less.prems in simp)
  qed
  with assms(1) show ?thesis by (auto simp: in_set_conv_nth)
qed

lemma minimal_counterexample:
  assumes "n \<in> set ns" "\<not> P n"
  obtains m where "m \<in> set ns" "\<not> P m" "\<And>k. k \<in> set ns \<Longrightarrow> nid k \<in> set (ndeps m) \<Longrightarrow> P k"
  using topo_induct [OF assms(1), of P] assms(2) by blast

end

text \<open>The nodes of a compiled manifest, none when it does not compile; they implement the interface.\<close>

definition compiled_nodes :: "workflow_definition \<Rightarrow> compiled_node list" where
  "compiled_nodes d = (case compile d of Inr c \<Rightarrow> cw_nodes c | Inl _ \<Rightarrow> [])"

lemma compiled_nodes_Inr: "compile d = Inr c \<Longrightarrow> compiled_nodes d = cw_nodes c"
  by (simp add: compiled_nodes_def)

lemma wf_graph_compiled_nodes: "wf_graph (compiled_nodes d)"
  by (cases "compile d") (auto simp: compiled_nodes_def wf_graph_def [of "[]"] compile_graph_facts(1))

interpretation cg: topo_graph "compiled_nodes d" cn_id cn_depends_on for d
  using wf_graph_compiled_nodes [of d] by unfold_locales (auto simp: wf_graph_def)

subsection \<open>Properties\<close>

text \<open>
  C1: a workflow that compiles is a well-formed graph over exactly the manifest's steps: each step gives one
  node with the step's settings, every node stands after all its dependencies and records its own
  position, and the dependents are the inverse of the dependencies.
\<close>

theorem compile_graph:
  assumes "compile d = Inr c"
  shows "wf_graph (cw_nodes c) \<and> mset (map cn_id (cw_nodes c)) = mset (map step_id (wd_steps d))
    \<and> (\<forall>n \<in> set (cw_nodes c). \<exists>st \<in> set (wd_steps d). node_of_step st n)"
  using compile_graph_facts [OF assms] by blast

theorem compile_graph_witness:
  "wf_graph (cw_nodes example_compiled)
   \<and> mset (map cn_id (cw_nodes example_compiled)) = mset (map step_id (wd_steps (example_workflow example_steps)))
   \<and> (\<exists>st \<in> set (wd_steps (example_workflow example_steps)). node_of_step st (cw_nodes example_compiled ! 2))"
proof -
  have "2 < length (cw_nodes example_compiled)" unfolding example_compiled_def by code_simp
  then have "cw_nodes example_compiled ! 2 \<in> set (cw_nodes example_compiled)" by (rule nth_mem)
  with compile_graph [OF example_compile] show ?thesis by blast
qed

text \<open>
  C2: the counter loop of \<open>topological_order\<close> computes the reference ordering: at each position the first step in
  definition order that is not yet placed and whose dependencies all are. The result is deterministic.
\<close>

theorem compile_order_reference:
  assumes "compile d = Inr c"
  shows "map cn_id (cw_nodes c) = ready_loop (wd_steps d) (\<lambda>i. map_option (\<lambda>st. remdups (step_depends_on st))
           (find (\<lambda>st. step_id st = i) (wd_steps d))) []"
proof -
  from assms obtain ids agent_steps deps order where *:
    "topological_order d deps = Inr order" "distinct (map step_id (wd_steps d))" "dep_lists (wd_steps d) deps"
    "cw_nodes c = emit_nodes d deps (dependents_of d deps) order"
    by (rule compile_Inr)
  have o: "map cn_id (cw_nodes c) = ready_loop (wd_steps d) deps []"
    using emit_nodes_graph(1) [OF *(2,3,1)] *(1) unfolding *(4)
    by (auto simp: topological_order_cases [OF *(2,3)] Let_def split: if_splits)
  show ?thesis unfolding o
  proof (rule ready_loop_cong)
    fix i assume "i \<in> set (map step_id (wd_steps d))"
    then obtain st where st: "st \<in> set (wd_steps d)" "step_id st = i" by auto
    with *(3) obtain ds where "deps i = Some ds" "set ds = set (step_depends_on st)" unfolding dep_lists_def by blast
    moreover have "find (\<lambda>st. step_id st = i) (wd_steps d) = Some st" using find_unique_keyI [OF *(2) st] .
    ultimately show "set (deps_of deps i) = set (deps_of (\<lambda>i. map_option (\<lambda>st. remdups (step_depends_on st))
        (find (\<lambda>st. step_id st = i) (wd_steps d))) i)" by (simp add: deps_of_def)
  qed
qed

theorem compile_order_reference_witness:
  "map cn_id (cw_nodes example_compiled) =
     ready_loop (wd_steps (example_workflow example_steps)) (\<lambda>i. map_option (\<lambda>st. remdups (step_depends_on st))
       (find (\<lambda>st. step_id st = i) (wd_steps (example_workflow example_steps)))) []"
  by (rule compile_order_reference [OF example_compile])

text \<open>
  a reported cycle is real: the listed steps, sorted and without repetition, are steps of the manifest each of
  which depends on a listed step, so no ranking of the steps puts every dependency first.
\<close>

lemma compile_cycle_real:
  assumes "compile d = Inl (Cycle cs)"
  shows "sorted cs \<and> distinct cs \<and> waiting_set (wd_steps d) (set cs)
    \<and> (\<forall>rank. \<exists>st \<in> set (wd_steps d). \<exists>dep \<in> set (step_depends_on st). \<not> rank dep < (rank (step_id st) :: nat))"
  using compile_Cycle_waiting [OF assms] waiting_set_no_rank by blast

text \<open>
  compiling against a registry succeeds exactly when the manifest compiles and every node's tool, role and
  skill resolves, and otherwise reports the error of the first node, in execution order, that does not.
\<close>

lemma compile_with_registry_iff:
  "(compile_with_registry d reg = Inr c \<longleftrightarrow> compile d = Inr c \<and> (\<forall>n \<in> set (cw_nodes c). resolves reg n))
   \<and> (compile d = Inr c \<longrightarrow> (compile_with_registry d reg = Inl e \<longleftrightarrow>
        (\<exists>i < length (cw_nodes c). validate_node_references reg (cw_nodes c ! i) = Inl e
           \<and> (\<forall>j < i. resolves reg (cw_nodes c ! j)))))"
proof -
  have ok: "validate_references reg c = Inr u \<longleftrightarrow> (\<forall>n \<in> set (cw_nodes c). resolves reg n)" for u c
    by (simp add: validate_references_def for_each_Inr_iff validate_node_resolves)
  have err: "validate_references reg c = Inl e \<longleftrightarrow> (\<exists>i < length (cw_nodes c).
      validate_node_references reg (cw_nodes c ! i) = Inl e \<and> (\<forall>j < i. resolves reg (cw_nodes c ! j)))" for c
    unfolding validate_references_def for_each_first_error validate_node_resolves ..
  show ?thesis unfolding err [symmetric]
    by (auto simp: compile_with_registry_def res_bind_Inr_iff res_bind_Inl_iff ok)
qed

text \<open>
  once a workflow compiles, binding any node's \<open>with:\<close> map succeeds on inputs that supply every declared
  name: no malformed placeholder and no unknown input is left for the run to discover.
\<close>

lemma compiled_bindings_total:
  assumes "compile d = Inr c" "n \<in> set (cw_nodes c)" "inputs_supplied (cw_inputs c) inputs"
  shows "\<exists>b. bind_with to_text (cn_with n) inputs = Inr (JObj b)"
proof -
  from assms(1) obtain ids agent_steps deps order where k: "check_steps (wd_inputs d) 0 (wd_steps d) = Inr agent_steps"
    and "cw_inputs c = wd_inputs d" by (rule compile_Inr)
  moreover from compile_graph_facts(3) [OF assms(1,2)] obtain st where "st \<in> set (wd_steps d)" "node_of_step st n" by blast
  ultimately show ?thesis
    using check_steps_Inr [OF k] validated_binding_total [of st "wd_inputs d" inputs to_text] assms(3)
    by (simp add: node_of_step_def)
qed

text \<open>
  the concurrency of a compiled workflow is at least one; it is the declared \<open>maximum_agents\<close> when there is
  one, and a workflow without it has no agent node. Two or more agent nodes come with a stated reason.
\<close>

lemma compiled_concurrency:
  assumes "compile d = Inr c"
  shows "1 \<le> max_concurrency c
    \<and> (case maximum_agents (wd_budget d) of Some a \<Rightarrow> max_concurrency c = unat a
       | None \<Rightarrow> max_concurrency c = 1 \<and> agent_node_count c = 0)
    \<and> (2 \<le> agent_node_count c \<longrightarrow> cw_orchestration_reason c \<noteq> None)"
proof -
  from assms obtain ids agent_steps deps order where *: "check_steps (wd_inputs d) 0 (wd_steps d) = Inr agent_steps"
    "validate_budget (wd_budget d) agent_steps = Inr ()" "cw_budget c = wd_budget d"
    "2 \<le> agent_steps \<longrightarrow> cw_orchestration_reason c \<noteq> None" by (rule compile_Inr)
  from check_steps_Inr [OF *(1)] compile_agent_count [OF assms] have n: "agent_node_count c = agent_steps" by simp
  have m: "max a 1 = a" if "a \<noteq> 0" for a :: u32 using that inc_le [of 0 a] by (simp add: max_absorb1 word_neq_0_conv)
  have pos: "1 \<le> unat a" if "a \<noteq> 0" for a :: u32 using that by (metis One_nat_def Suc_leI unat_gt_0)
  show ?thesis using *(2-4) n m pos
    by (auto simp: validate_budget_def max_concurrency_def split: if_splits option.splits)
qed

text \<open>
  the signature does not separate every pair of graphs. Dependencies enter the hashed bytes without a length
  or an end marker, so a step depending on \<open>a\<close> and \<open>b\<close> and one depending on the single step named
  \<open>a\<close>, byte 0x01, \<open>b\<close> are hashed from the same bytes, whatever the digest and the JSON rendering.
\<close>

lemma signature_dependency_collision:
  "\<exists>d1 d2 c1 c2. compile d1 = Inr c1 \<and> compile d2 = Inr c2
     \<and> map cn_depends_on (cw_nodes c1) \<noteq> map cn_depends_on (cw_nodes c2)
     \<and> (\<forall>sha256_hex sd. signature sha256_hex sd c1 = signature sha256_hex sd c2)"
proof -
  let ?d = "\<lambda>deps. example_workflow [example_step ''a'' [], example_step ''b'' [], example_step [CHR ''a'', CHR 0x01, CHR ''b''] [], example_step ''z'' deps]"
  let ?n = "\<lambda>i deps dependents pos. \<lparr>cn_id = i, cn_action = Tool ''repository.test'', cn_depends_on = deps, cn_dependents = dependents,
     cn_workspace_mode = SharedWorktree, cn_approval = None, cn_retry = \<lparr>attempts = 1, backoff_seconds = 0\<rparr>, cn_outputs = [],
     cn_with = [], cn_topo_order = pos\<rparr>"
  let ?c = "\<lambda>ns. \<lparr>cw_id = ''demo'', cw_version = 1, cw_inputs = [(''pr'', \<lparr>input_type = ''string'', required = True\<rparr>)],
     cw_budget = \<lparr>maximum_cost_usd = None, maximum_duration_seconds = None, maximum_agents = Some 2\<rparr>,
     cw_orchestration_reason = Some IndependentReview, cw_nodes = ns\<rparr>"
  let ?ab = "[CHR ''a'', CHR 0x01, CHR ''b'']"
  let ?n1 = "[?n ''a'' [] [''z''] 0, ?n ''b'' [] [''z''] 1, ?n ?ab [] [] 2, ?n ''z'' [''a'', ''b''] [] 3]"
  let ?n2 = "[?n ''a'' [] [] 0, ?n ''b'' [] [] 1, ?n ?ab [] [''z''] 2, ?n ''z'' [?ab] [] 3]"
  have "compile (?d [''a'', ''b'']) = Inr (?c ?n1)" "compile (?d [?ab]) = Inr (?c ?n2)" by code_simp+
  moreover have "signature sha256_hex sd (?c ?n1) = signature sha256_hex sd (?c ?n2)" for sha256_hex sd
    by (simp add: signature_def signature_bytes_def node_bytes_def deps_bytes_def)
  ultimately show ?thesis by (intro exI [of _ "?d [''a'', ''b'']"] exI [of _ "?d [?ab]"] exI [of _ "?c ?n1"] exI [of _ "?c ?n2"]) simp
qed

end
