(* ===== verification/Resolve.thy ===== *)
theory Resolve
  imports Compile
begin

text \<open>
  The agent-profile set (\<open>crates/workflow/src/resolve.rs\<close>): profiles indexed by the role they fulfil, loaded
  from a directory, and the roles of a compiled workflow no profile fulfils. The file system is an
  argument: the directory listing (each entry a name or a read error) and the contents of a file.
\<close>

datatype agent_profile_set_error =
    ReadDir
  | ReadFile string
  | Profile string agent_profile_error
  | AmbiguousRole string string string

record unresolved_role =
  ur_step :: string
  ur_role :: string

type_synonym agent_profile_set = "agent_profile btree"

definition new_set :: agent_profile_set where
  "new_set = []"

text \<open>\<open>Path::extension\<close> of a file name: what follows the last dot, if something precedes it.\<close>

definition path_extension :: "string \<Rightarrow> string option" where
  "path_extension name =
     (let after = last_segment (CHR ''.'') name;
          before = take (length name - length after - 1) name in
      if name = ''..'' \<or> CHR ''.'' \<notin> set name \<or> before = [] then None else Some after)"

definition insert_profile :: "agent_profile \<Rightarrow> agent_profile_set \<Rightarrow> agent_profile_set_error + agent_profile_set" where
  "insert_profile profile s =
     (let role = fulfilled_role profile in
      case map_of s role of
        Some existing \<Rightarrow> Inl (AmbiguousRole role (ap_id existing) (ap_id profile))
      | None \<Rightarrow> Inr (bt_insert role profile s))"

definition resolve :: "agent_profile_set \<Rightarrow> string \<Rightarrow> agent_profile option" where
  "resolve s role = map_of s role"

definition has_role :: "agent_profile_set \<Rightarrow> string \<Rightarrow> bool" where
  "has_role s role = (map_of s role \<noteq> None)"

definition set_len :: "agent_profile_set \<Rightarrow> nat" where
  "set_len s = length s"

definition set_is_empty :: "agent_profile_set \<Rightarrow> bool" where
  "set_is_empty s = (s = [])"

definition roles :: "agent_profile_set \<Rightarrow> string list" where
  "roles s = bt_keys s"

text \<open>The names of the profiles of a listing, in sorted order; an unreadable entry fails the load.\<close>

fun toml_files :: "(unit + string) list \<Rightarrow> agent_profile_set_error + string list" where
  "toml_files [] = Inr []"
| "toml_files (Inl _ # es) = Inl ReadDir"
| "toml_files (Inr name # es) =
     res_map (\<lambda>fs. if path_extension name = Some ''toml'' then name # fs else fs) (toml_files es)"

fun load_files ::
    "(string \<Rightarrow> agent_profile option) \<Rightarrow> (string \<Rightarrow> string option) \<Rightarrow> string list \<Rightarrow> agent_profile_set
      \<Rightarrow> agent_profile_set_error + agent_profile_set" where
  "load_files toml read_file [] s = Inr s"
| "load_files toml read_file (path # paths) s =
     (case read_file path of
        None \<Rightarrow> Inl (ReadFile path)
      | Some text \<Rightarrow>
          (case parse_agent_profile toml text of
             Inl e \<Rightarrow> Inl (Profile path e)
           | Inr profile \<Rightarrow> res_bind (insert_profile profile s) (load_files toml read_file paths)))"

definition load_dir ::
    "(string \<Rightarrow> agent_profile option) \<Rightarrow> (unit + string) list option \<Rightarrow> (string \<Rightarrow> string option)
      \<Rightarrow> agent_profile_set_error + agent_profile_set" where
  "load_dir toml entries read_file =
     (case entries of
        None \<Rightarrow> Inl ReadDir
      | Some es \<Rightarrow> res_bind (toml_files es) (\<lambda>files. load_files toml read_file (sort files) new_set))"

definition unresolved_roles :: "agent_profile_set \<Rightarrow> compiled_workflow \<Rightarrow> unresolved_role list" where
  "unresolved_roles s c =
     List.map_filter (\<lambda>n. case cn_action n of
         Agent role _ _ \<Rightarrow> if \<not> has_role s role then Some \<lparr>ur_step = cn_id n, ur_role = role\<rparr> else None
       | Tool _ \<Rightarrow> None) (cw_nodes c)"

subsection \<open>Lemmas\<close>

text \<open>The profile files of a listing, and what a file contributes: its parsed profile.\<close>

definition profile_files :: "(unit + string) list \<Rightarrow> string set" where
  "profile_files es = {name. Inr name \<in> set es \<and> path_extension name = Some ''toml''}"

definition profile_of :: "(string \<Rightarrow> agent_profile option) \<Rightarrow> (string \<Rightarrow> string option) \<Rightarrow> string \<Rightarrow> agent_profile option" where
  "profile_of toml read_file path =
     (case read_file path of None \<Rightarrow> None
      | Some text \<Rightarrow> (case parse_agent_profile toml text of Inl _ \<Rightarrow> None | Inr p \<Rightarrow> Some p))"

lemma insert_profile_Inr:
  "insert_profile p s = Inr s' \<longleftrightarrow> map_of s (fulfilled_role p) = None \<and> s' = bt_insert (fulfilled_role p) p s"
  by (auto simp: insert_profile_def Let_def split: option.splits)

text \<open>Every entry is stored under the role its profile fulfils.\<close>

definition role_indexed :: "agent_profile_set \<Rightarrow> bool" where
  "role_indexed s \<longleftrightarrow> bt_wf s \<and> (\<forall>role p. map_of s role = Some p \<longrightarrow> fulfilled_role p = role)"

lemma role_indexed_insert: "role_indexed s \<Longrightarrow> insert_profile p s = Inr s' \<Longrightarrow> role_indexed s'"
  by (auto simp: role_indexed_def insert_profile_Inr split: if_splits)

lemma toml_files_set:
  "toml_files es = Inr fs \<Longrightarrow> set fs = profile_files es"
  by (induction es arbitrary: fs rule: toml_files.induct) (auto simp: profile_files_def res_map_Inr_iff split: if_splits)

lemma load_files_Inr:
  "load_files toml read_file paths s = Inr s' \<Longrightarrow> role_indexed s \<Longrightarrow>
     role_indexed s' \<and> (\<forall>path \<in> set paths. profile_of toml read_file path \<noteq> None)
     \<and> distinct (map (\<lambda>path. map_option fulfilled_role (profile_of toml read_file path)) paths)
     \<and> (\<forall>path \<in> set paths. \<forall>p. profile_of toml read_file path = Some p \<longrightarrow> map_of s (fulfilled_role p) = None)
     \<and> (\<forall>role p. map_of s' role = Some p \<longleftrightarrow> map_of s role = Some p
          \<or> (\<exists>path \<in> set paths. profile_of toml read_file path = Some p \<and> fulfilled_role p = role))"
proof (induction toml read_file paths s rule: load_files.induct)
  case (2 toml read_file path paths s)
  from "2.prems"(1) obtain tx p s1 where p: "read_file path = Some tx" "parse_agent_profile toml tx = Inr p"
    and s1: "insert_profile p s = Inr s1" "load_files toml read_file paths s1 = Inr s'"
    by (auto simp: res_bind_Inr_iff split: option.splits sum.splits)
  from p have po: "profile_of toml read_file path = Some p" by (simp add: profile_of_def)
  from s1(1) have m: "map_of s1 role = (if role = fulfilled_role p then Some p else map_of s role)"
    "map_of s (fulfilled_role p) = None" for role
    by (auto simp: insert_profile_Inr)
  have IH: "role_indexed s' \<and> (\<forall>path \<in> set paths. profile_of toml read_file path \<noteq> None)
     \<and> distinct (map (\<lambda>path. map_option fulfilled_role (profile_of toml read_file path)) paths)
     \<and> (\<forall>path \<in> set paths. \<forall>p. profile_of toml read_file path = Some p \<longrightarrow> map_of s1 (fulfilled_role p) = None)
     \<and> (\<forall>role p. map_of s' role = Some p \<longleftrightarrow> map_of s1 role = Some p
          \<or> (\<exists>path \<in> set paths. profile_of toml read_file path = Some p \<and> fulfilled_role p = role))"
    by (rule "2.IH" [OF p s1(2) role_indexed_insert [OF "2.prems"(2) s1(1)]])
  have other: "fulfilled_role q \<noteq> fulfilled_role p \<and> map_of s (fulfilled_role q) = None"
    if "path' \<in> set paths" "profile_of toml read_file path' = Some q" for path' q
    using IH that m(1) by (metis option.distinct(1))
  then have "map_option fulfilled_role (profile_of toml read_file path)
      \<notin> set (map (\<lambda>path. map_option fulfilled_role (profile_of toml read_file path)) paths)"
    using po by (auto simp: eq_commute [of "Some _"])
  with IH other po m show ?case by auto
qed auto

lemma load_dir_Inr:
  assumes "load_dir toml (Some es) read_file = Inr s"
  shows "role_indexed s"
    "inj_on (\<lambda>name. map_option fulfilled_role (profile_of toml read_file name))
       (profile_files es)" "resolve s role = Some p \<longleftrightarrow>
     (\<exists>name. name \<in> profile_files es
        \<and> profile_of toml read_file name = Some p \<and> fulfilled_role p = role)"
    "name \<in> profile_files es \<Longrightarrow> profile_of toml read_file name \<noteq> None"
proof -
  from assms obtain fs where fs: "toml_files es = Inr fs" and l: "load_files toml read_file (sort fs) [] = Inr s"
    by (auto simp: load_dir_def res_bind_Inr_iff new_set_def)
  have "role_indexed []" by (simp add: role_indexed_def)
  note r = load_files_Inr [OF l this]
  from r show "role_indexed s" by blast
  from r show "inj_on (\<lambda>name. map_option fulfilled_role (profile_of toml read_file name))
       (profile_files es)"
    unfolding toml_files_set [OF fs, symmetric] by (simp add: distinct_map)
  show "resolve s role = Some p \<longleftrightarrow> (\<exists>name. name \<in> profile_files es
        \<and> profile_of toml read_file name = Some p \<and> fulfilled_role p = role)"
    using r toml_files_set [OF fs] by (auto simp: resolve_def)
  show "name \<in> profile_files es \<Longrightarrow> profile_of toml read_file name \<noteq> None"
    using r toml_files_set [OF fs] by (auto simp del: not_None_eq)
qed

lemma map_filter_eq_Nil: "List.map_filter f xs = [] \<longleftrightarrow> (\<forall>x \<in> set xs. f x = None)"
  by (induction xs) (auto simp: List.map_filter_simps split: option.splits)

lemma unresolved_roles_Nil:
  "unresolved_roles s c = [] \<longleftrightarrow> (\<forall>n \<in> set (cw_nodes c). \<forall>role mp sk. cn_action n = Agent role mp sk \<longrightarrow> has_role s role)"
  by (auto simp: unresolved_roles_def map_filter_eq_Nil split: node_action.splits if_splits)

text \<open>A profile for the examples.\<close>

definition example_profile :: "string \<Rightarrow> agent_profile" where
  "example_profile i = \<lparr>ap_schema_version = 1, ap_id = i, ap_name = i, ap_description = None, ap_role = None,
     ap_scope = None, ap_mode = None, ap_autonomy = None, ap_model_policy = None, ap_skills = [], ap_tools = [],
     ap_permissions = \<lparr>filesystem_read = [], filesystem_write = [], commands = [], network = [], delegate_agents = False\<rparr>,
     ap_budget = \<lparr>ab_maximum_cost_usd = None, ab_maximum_duration_seconds = None, ab_maximum_tool_calls = None\<rparr>,
     ap_completion = \<lparr>completion_requires = []\<rparr>\<rparr>"

subsection \<open>Properties\<close>

text \<open>
  a directory that loads gives exactly its profiles: every \<open>.toml\<close> entry parsed, no two entries fulfil the
  same role, and a role resolves to the profile of the file that fulfils it and to nothing else. The workflow
  has no unresolved role exactly when each agent node's role is fulfilled by such a file.
\<close>

lemma load_dir_resolves:
  assumes "load_dir toml (Some es) read_file = Inr s"
  shows "(\<forall>name \<in> profile_files es. profile_of toml read_file name \<noteq> None)
    \<and> inj_on (\<lambda>name. map_option fulfilled_role (profile_of toml read_file name)) (profile_files es)
    \<and> (resolve s role = Some p \<longleftrightarrow> (\<exists>name \<in> profile_files es. profile_of toml read_file name = Some p \<and> fulfilled_role p = role))
    \<and> (unresolved_roles s c = [] \<longleftrightarrow> (\<forall>n \<in> set (cw_nodes c). \<forall>r mp sk. cn_action n = Agent r mp sk \<longrightarrow>
         (\<exists>name \<in> profile_files es. map_option fulfilled_role (profile_of toml read_file name) = Some r)))"
proof -
  have "has_role s r \<longleftrightarrow> (\<exists>name \<in> profile_files es. map_option fulfilled_role (profile_of toml read_file name) = Some r)" for r
    using load_dir_Inr(3) [OF assms(1), of r] by (auto simp: has_role_def resolve_def)
  then have "unresolved_roles s c = [] \<longleftrightarrow> (\<forall>n \<in> set (cw_nodes c). \<forall>r mp sk. cn_action n = Agent r mp sk \<longrightarrow>
         (\<exists>name \<in> profile_files es. map_option fulfilled_role (profile_of toml read_file name) = Some r))"
    unfolding unresolved_roles_Nil by simp
  with load_dir_Inr(2-4) [OF assms(1)] show ?thesis by (intro conjI) auto
qed

end
