(* ===== verification/Store.thy ===== *)
theory Store
  imports Compile "HOL-Library.Sublist"
begin

text \<open>
  The durable workflow store (\<open>crates/workflow/src/store.rs\<close>). The three SQLite tables are lists of rows in insertion
  order, their text columns as the code writes them; every statement of the code is an update or a query of
  these lists, and the primary keys, the unique key and the foreign keys of the schema may refuse an insert
  (\<open>WS_Database\<close>). A transaction that fails leaves the tables as they were. The arguments \<open>now\<close> and \<open>uuid\<close>
  are the clock and the fresh ids the operation draws; \<open>wf_env\<close> holds the packages the store calls.
\<close>

subsection \<open>States and errors\<close>

datatype workflow_store_error =
    WS_Database
  | WS_Serde
  | WS_NotFound string
  | WS_Corrupt string
  | WS_GraphSignatureChanged string string
  | WS_IdempotencyKeyReused string string string
  | WS_IdempotencyOwnerMismatch string

datatype run_state = RPending | RRunning | RPaused | RCompleted | RFailed | RCancelled

fun run_state_str :: "run_state \<Rightarrow> string" where
  "run_state_str RPending = ''pending''"
| "run_state_str RRunning = ''running''"
| "run_state_str RPaused = ''paused''"
| "run_state_str RCompleted = ''completed''"
| "run_state_str RFailed = ''failed''"
| "run_state_str RCancelled = ''cancelled''"

fun run_is_terminal :: "run_state \<Rightarrow> bool" where
  "run_is_terminal RCompleted = True"
| "run_is_terminal RFailed = True"
| "run_is_terminal RCancelled = True"
| "run_is_terminal _ = False"

definition parse_run_state :: "string \<Rightarrow> workflow_store_error + run_state" where
  "parse_run_state s =
     (if s = ''pending'' then Inr RPending
      else if s = ''running'' then Inr RRunning
      else if s = ''paused'' then Inr RPaused
      else if s = ''completed'' then Inr RCompleted
      else if s = ''failed'' then Inr RFailed
      else if s = ''cancelled'' then Inr RCancelled
      else Inl (WS_Corrupt (''run state '' @ s)))"

datatype node_state = NPending | NRunning | NWaitingApproval | NBlocked | NCompleted | NFailed | NSkipped

fun node_state_str :: "node_state \<Rightarrow> string" where
  "node_state_str NPending = ''pending''"
| "node_state_str NRunning = ''running''"
| "node_state_str NWaitingApproval = ''waiting_approval''"
| "node_state_str NBlocked = ''blocked''"
| "node_state_str NCompleted = ''completed''"
| "node_state_str NFailed = ''failed''"
| "node_state_str NSkipped = ''skipped''"

fun node_is_terminal :: "node_state \<Rightarrow> bool" where
  "node_is_terminal NCompleted = True"
| "node_is_terminal NFailed = True"
| "node_is_terminal NSkipped = True"
| "node_is_terminal _ = False"

definition parse_node_state :: "string \<Rightarrow> workflow_store_error + node_state" where
  "parse_node_state s =
     (if s = ''pending'' then Inr NPending
      else if s = ''running'' then Inr NRunning
      else if s = ''waiting_approval'' then Inr NWaitingApproval
      else if s = ''blocked'' then Inr NBlocked
      else if s = ''completed'' then Inr NCompleted
      else if s = ''failed'' then Inr NFailed
      else if s = ''skipped'' then Inr NSkipped
      else Inl (WS_Corrupt (''node state '' @ s)))"

lemma parse_state_str [simp]:
  "parse_run_state (run_state_str r) = Inr r" "parse_node_state (node_state_str n) = Inr n"
  by (cases r; simp add: parse_run_state_def) (cases n; simp add: parse_node_state_def)

lemma state_str_inj [simp]:
  "run_state_str r = run_state_str r' \<longleftrightarrow> r = r'" "node_state_str n = node_state_str n' \<longleftrightarrow> n = n'"
  by (metis parse_state_str(1) sum.inject(2)) (metis parse_state_str(2) sum.inject(2))

subsection \<open>Tables\<close>

record run_row =
  rr_id :: string
  rr_workflow_id :: string
  rr_workflow_version :: u32
  rr_graph_signature :: string
  rr_run_id :: "string option"
  rr_inputs_json :: string
  rr_state :: string
  rr_manifest_yaml :: "string option"
  rr_repository :: "string option"
  rr_owner_uid :: "u32 option"
  rr_created_at :: string
  rr_updated_at :: string

record node_row =
  nr_id :: string
  nr_run :: string
  nr_node_id :: string
  nr_state :: string
  nr_agent_run_id :: "string option"
  nr_attempt :: u32
  nr_cost_json :: "string option"
  nr_topo_order :: nat
  nr_started_at :: "string option"
  nr_ended_at :: "string option"
  nr_error :: "string option"

record checkpoint_row =
  ck_id :: string
  ck_run :: string
  ck_graph_signature :: string
  ck_state_artifact_id :: "string option"
  ck_created_at :: string

record wf_db =
  db_runs :: "run_row list"
  db_nodes :: "node_row list"
  db_checkpoints :: "checkpoint_row list"

definition empty_db :: wf_db where
  "empty_db = \<lparr>db_runs = [], db_nodes = [], db_checkpoints = []\<rparr>"

text \<open>The packages the store calls: JSON text, the hex digest, the YAML parser.\<close>

record wf_env =
  e_serde :: serde
  e_sha256_hex :: "string \<Rightarrow> string"
  e_yaml :: "string \<Rightarrow> workflow_definition option"

definition graph_sig :: "wf_env \<Rightarrow> compiled_workflow \<Rightarrow> string" where
  "graph_sig E c = signature (e_sha256_hex E) (e_serde E) c"

record workflow_run_attribution =
  at_manifest :: "string option"
  at_repository :: "string option"
  at_owner_uid :: u32

record idempotent_run_context =
  ic_manifest :: "string option"
  ic_repository :: "string option"
  ic_owner_uid :: "u32 option"

text \<open>What the queries return.\<close>

record run_record =
  rec_id :: string
  rec_workflow_id :: string
  rec_workflow_version :: u32
  rec_graph_signature :: string
  rec_run_id :: "string option"
  rec_inputs :: json
  rec_state :: run_state

record accepted_request =
  ac_id :: string
  ac_workflow_id :: string
  ac_inputs :: json
  ac_repository :: "string option"
  ac_manifest :: "string option"

record node_record =
  nd_id :: string
  nd_state :: node_state
  nd_agent_run_id :: "string option"
  nd_attempt :: u32
  nd_topo_order :: nat
  nd_cost :: "json option"
  nd_error :: "string option"

record run_snapshot =
  sn_run :: run_record
  sn_nodes :: "node_record list"

record checkpoint =
  cp_id :: string
  cp_graph_signature :: string
  cp_state_artifact_id :: "string option"

record resume_plan =
  rp_snapshot :: run_snapshot
  rp_next_node :: "string option"
  rp_blocked_nodes :: "(string \<times> string) list"
  rp_latest_checkpoint :: "checkpoint option"

subsection \<open>Statements\<close>

definition find_run :: "string \<Rightarrow> wf_db \<Rightarrow> run_row option" where
  "find_run run db = find (\<lambda>r. rr_id r = run) (db_runs db)"

text \<open>\<open>UPDATE workflow_runs SET \<dots> WHERE id = run\<close>, and the same on the nodes of a run.\<close>

definition update_run :: "string \<Rightarrow> (run_row \<Rightarrow> run_row) \<Rightarrow> wf_db \<Rightarrow> wf_db" where
  "update_run run f db = db\<lparr>db_runs := map (\<lambda>r. if rr_id r = run then f r else r) (db_runs db)\<rparr>"

definition touch_run :: "string \<Rightarrow> string \<Rightarrow> wf_db \<Rightarrow> wf_db" where
  "touch_run now run db = update_run run (\<lambda>r. r\<lparr>rr_updated_at := now\<rparr>) db"

definition is_node :: "string \<Rightarrow> string \<Rightarrow> node_row \<Rightarrow> bool" where
  "is_node run node r \<longleftrightarrow> nr_run r = run \<and> nr_node_id r = node"

definition update_nodes :: "(node_row \<Rightarrow> bool) \<Rightarrow> (node_row \<Rightarrow> node_row) \<Rightarrow> wf_db \<Rightarrow> wf_db" where
  "update_nodes P f db = db\<lparr>db_nodes := map (\<lambda>r. if P r then f r else r) (db_nodes db)\<rparr>"

definition insert_run_row :: "run_row \<Rightarrow> wf_db \<Rightarrow> workflow_store_error + wf_db" where
  "insert_run_row row db =
     (if find_run (rr_id row) db \<noteq> None then Inl WS_Database else Inr (db\<lparr>db_runs := db_runs db @ [row]\<rparr>))"

text \<open>\<open>INSERT OR IGNORE\<close>: the count of rows inserted.\<close>

definition insert_run_or_ignore :: "run_row \<Rightarrow> wf_db \<Rightarrow> wf_db \<times> nat" where
  "insert_run_or_ignore row db =
     (if find_run (rr_id row) db \<noteq> None then (db, 0) else (db\<lparr>db_runs := db_runs db @ [row]\<rparr>, 1))"

definition new_node_row :: "string \<Rightarrow> string \<Rightarrow> compiled_node \<Rightarrow> node_row" where
  "new_node_row uid run n =
     \<lparr>nr_id = uid, nr_run = run, nr_node_id = cn_id n, nr_state = ''pending'', nr_agent_run_id = None,
      nr_attempt = 0, nr_cost_json = None, nr_topo_order = cn_topo_order n, nr_started_at = None,
      nr_ended_at = None, nr_error = None\<rparr>"

definition insert_node_row :: "node_row \<Rightarrow> wf_db \<Rightarrow> workflow_store_error + wf_db" where
  "insert_node_row row db =
     (if find_run (nr_run row) db = None
         \<or> (\<exists>r \<in> set (db_nodes db). nr_id r = nr_id row \<or> is_node (nr_run row) (nr_node_id row) r)
      then Inl WS_Database else Inr (db\<lparr>db_nodes := db_nodes db @ [row]\<rparr>))"

fun insert_node_rows :: "(nat \<Rightarrow> string) \<Rightarrow> nat \<Rightarrow> string \<Rightarrow> compiled_node list \<Rightarrow> wf_db \<Rightarrow> workflow_store_error + wf_db" where
  "insert_node_rows uuid k run [] db = Inr db"
| "insert_node_rows uuid k run (n # ns) db =
     res_bind (insert_node_row (new_node_row (uuid k) run n) db) (insert_node_rows uuid (Suc k) run ns)"

subsection \<open>Creating runs\<close>

text \<open>The row both creating statements insert; \<open>create_run\<close> leaves the repository and the owner NULL.\<close>

definition pending_run_row ::
    "wf_env \<Rightarrow> string \<Rightarrow> string \<Rightarrow> compiled_workflow \<Rightarrow> string option \<Rightarrow> json \<Rightarrow> string option \<Rightarrow> string option \<Rightarrow> u32 option \<Rightarrow> run_row" where
  "pending_run_row E now run c run_id inputs mani repo owner =
     \<lparr>rr_id = run, rr_workflow_id = cw_id c, rr_workflow_version = cw_version c, rr_graph_signature = graph_sig E c,
      rr_run_id = run_id, rr_inputs_json = js_to_text (e_serde E) inputs, rr_state = ''pending'',
      rr_manifest_yaml = mani, rr_repository = repo, rr_owner_uid = owner, rr_created_at = now, rr_updated_at = now\<rparr>"

definition create_run ::
    "wf_env \<Rightarrow> string \<Rightarrow> (nat \<Rightarrow> string) \<Rightarrow> compiled_workflow \<Rightarrow> string option \<Rightarrow> json \<Rightarrow> string option \<Rightarrow> wf_db
      \<Rightarrow> workflow_store_error + (wf_db \<times> string)" where
  "create_run E now uuid c run_id inputs mani db =
     (let run = uuid 0 in
      res_bind (insert_run_row (pending_run_row E now run c run_id inputs mani None None) db)
        (\<lambda>db1. res_map (\<lambda>db2. (db2, run)) (insert_node_rows uuid 1 run (cw_nodes c) db1)))"

definition deterministic_run_id :: "wf_env \<Rightarrow> string \<Rightarrow> string" where
  "deterministic_run_id E key = ''wfrun-'' @ take 32 (e_sha256_hex E (''workflow-run'' @ CHR 0x00 # key))"

definition owner_key :: "u32 \<Rightarrow> string \<Rightarrow> string" where
  "owner_key owner key = ''owner:'' @ dec (unat owner) @ '':'' @ key"

definition workflow_manifest_identity :: "wf_env \<Rightarrow> string option \<Rightarrow> string \<Rightarrow> workflow_store_error + string option" where
  "workflow_manifest_identity E mani graph_signature =
     (case mani of
        None \<Rightarrow> Inr None
      | Some m \<Rightarrow>
          (case parse_definition (e_yaml E) m of
             Inl _ \<Rightarrow> Inl (WS_Corrupt ''workflow request manifest cannot be parsed'')
           | Inr d \<Rightarrow>
               (case compile d of
                  Inl _ \<Rightarrow> Inl (WS_Corrupt ''workflow request manifest cannot be compiled'')
                | Inr c \<Rightarrow>
                    if graph_sig E c \<noteq> graph_signature
                    then Inl (WS_Corrupt ''workflow request manifest does not match its compiled graph'')
                    else Inr (Some (definition_digest (e_sha256_hex E) (e_serde E) d)))))"

definition request_bytes :: "string \<Rightarrow> string \<Rightarrow> string option \<Rightarrow> string option \<Rightarrow> string" where
  "request_bytes graph_signature inputs_json repo digest =
     graph_signature @ CHR 0x00 # inputs_json @ hash_opt repo @ hash_opt digest"

definition workflow_request_signature :: "wf_env \<Rightarrow> string \<Rightarrow> string \<Rightarrow> string option \<Rightarrow> string option \<Rightarrow> string" where
  "workflow_request_signature E graph_signature inputs_json repo digest =
     e_sha256_hex E (request_bytes graph_signature inputs_json repo digest)"

text \<open>
  \<open>create_run_idempotent_inner\<close>. The error of a refused duplicate is returned after a commit that changed
  nothing, so an error always means an unchanged database.
\<close>

definition create_run_idempotent_inner ::
    "wf_env \<Rightarrow> string \<Rightarrow> (nat \<Rightarrow> string) \<Rightarrow> compiled_workflow \<Rightarrow> string \<Rightarrow> json \<Rightarrow> idempotent_run_context \<Rightarrow> wf_db
      \<Rightarrow> workflow_store_error + (wf_db \<times> string)" where
  "create_run_idempotent_inner E now uuid c key inputs ctx db =
     (let run = (case ic_owner_uid ctx of
                   None \<Rightarrow> deterministic_run_id E key
                 | Some owner \<Rightarrow> deterministic_run_id E (owner_key owner key));
          sig = graph_sig E c;
          inputs_json = js_to_text (e_serde E) inputs in
      res_bind (workflow_manifest_identity E (ic_manifest ctx) sig) (\<lambda>digest.
      let incoming = workflow_request_signature E sig inputs_json (ic_repository ctx) digest;
          (db1, inserted) = insert_run_or_ignore
            (pending_run_row E now run c None inputs (ic_manifest ctx) (ic_repository ctx) (ic_owner_uid ctx)) db in
      if inserted = 0 then
        (case find_run run db1 of
           None \<Rightarrow> Inl WS_Database
         | Some existing \<Rightarrow>
             if ic_owner_uid ctx \<noteq> None \<and> rr_owner_uid existing \<noteq> ic_owner_uid ctx
             then Inl (WS_IdempotencyOwnerMismatch key)
             else
               res_bind (workflow_manifest_identity E (rr_manifest_yaml existing) (rr_graph_signature existing)) (\<lambda>existing_digest.
               let existing_sig = workflow_request_signature E (rr_graph_signature existing) (rr_inputs_json existing)
                                    (rr_repository existing) existing_digest in
               if existing_sig \<noteq> incoming then Inl (WS_IdempotencyKeyReused key existing_sig incoming)
               else Inr (db1, run)))
      else res_map (\<lambda>db2. (db2, run)) (insert_node_rows uuid 0 run (cw_nodes c) db1)))"

definition create_run_idempotent ::
    "wf_env \<Rightarrow> string \<Rightarrow> (nat \<Rightarrow> string) \<Rightarrow> compiled_workflow \<Rightarrow> string \<Rightarrow> json \<Rightarrow> string option \<Rightarrow> string option \<Rightarrow> wf_db
      \<Rightarrow> workflow_store_error + (wf_db \<times> string)" where
  "create_run_idempotent E now uuid c key inputs mani repo db =
     create_run_idempotent_inner E now uuid c key inputs
       \<lparr>ic_manifest = mani, ic_repository = repo, ic_owner_uid = None\<rparr> db"

definition create_run_idempotent_owned ::
    "wf_env \<Rightarrow> string \<Rightarrow> (nat \<Rightarrow> string) \<Rightarrow> compiled_workflow \<Rightarrow> string \<Rightarrow> json \<Rightarrow> workflow_run_attribution \<Rightarrow> wf_db
      \<Rightarrow> workflow_store_error + (wf_db \<times> string)" where
  "create_run_idempotent_owned E now uuid c key inputs att db =
     create_run_idempotent_inner E now uuid c key inputs
       \<lparr>ic_manifest = at_manifest att, ic_repository = at_repository att, ic_owner_uid = Some (at_owner_uid att)\<rparr> db"

definition accepted_request_owned ::
    "wf_env \<Rightarrow> string \<Rightarrow> u32 \<Rightarrow> wf_db \<Rightarrow> workflow_store_error + accepted_request option" where
  "accepted_request_owned E key owner db =
     (let run = deterministic_run_id E (owner_key owner key) in
      case find_run run db of
        None \<Rightarrow> Inr None
      | Some row \<Rightarrow>
          if rr_owner_uid row \<noteq> Some owner then Inl (WS_IdempotencyOwnerMismatch key)
          else res_map (\<lambda>inputs. Some \<lparr>ac_id = run, ac_workflow_id = rr_workflow_id row, ac_inputs = inputs,
                   ac_repository = rr_repository row, ac_manifest = rr_manifest_yaml row\<rparr>)
                 (ok_or WS_Serde (js_of_text (e_serde E) (rr_inputs_json row))))"

subsection \<open>State transitions\<close>

definition set_run_state :: "string \<Rightarrow> string \<Rightarrow> run_state \<Rightarrow> wf_db \<Rightarrow> workflow_store_error + wf_db" where
  "set_run_state now run st db =
     (if find_run run db = None then Inl (WS_NotFound run)
      else Inr (update_run run (\<lambda>r. r\<lparr>rr_state := run_state_str st, rr_updated_at := now\<rparr>) db))"

text \<open>The conditional update; the count is the number of rows it changed.\<close>

definition set_run_state_if_legal :: "string \<Rightarrow> string \<Rightarrow> run_state list \<Rightarrow> run_state \<Rightarrow> wf_db \<Rightarrow> wf_db \<times> nat" where
  "set_run_state_if_legal now run legal_from st db =
     (if legal_from = [] then (db, 0)
      else
        (let hit = (\<lambda>r. rr_id r = run \<and> rr_state r \<in> run_state_str ` set legal_from) in
         (db\<lparr>db_runs := map (\<lambda>r. if hit r then r\<lparr>rr_state := run_state_str st, rr_updated_at := now\<rparr> else r) (db_runs db)\<rparr>,
          length (filter hit (db_runs db)))))"

text \<open>\<open>COALESCE(a, b)\<close>.\<close>

definition coalesce :: "'a option \<Rightarrow> 'a option \<Rightarrow> 'a option" where
  "coalesce a b = (case a of None \<Rightarrow> b | Some x \<Rightarrow> Some x)"

definition transition_row ::
    "string \<Rightarrow> node_state \<Rightarrow> u32 \<Rightarrow> string option \<Rightarrow> string option \<Rightarrow> string option \<Rightarrow> node_row \<Rightarrow> node_row" where
  "transition_row now st att agent_run_id cost_json err r =
     r\<lparr>nr_state := node_state_str st, nr_attempt := att,
       nr_agent_run_id := coalesce agent_run_id (nr_agent_run_id r),
       nr_cost_json := coalesce cost_json (nr_cost_json r),
       nr_error := (if st = NCompleted then None else coalesce err (nr_error r)),
       nr_started_at := coalesce (nr_started_at r) (if st = NRunning then Some now else None),
       nr_ended_at := (if node_is_terminal st then Some now else None)\<rparr>"

definition transition_node_with_error ::
    "wf_env \<Rightarrow> string \<Rightarrow> string \<Rightarrow> string \<Rightarrow> node_state \<Rightarrow> u32 \<Rightarrow> string option \<Rightarrow> json option \<Rightarrow> string option \<Rightarrow> wf_db
      \<Rightarrow> workflow_store_error + wf_db" where
  "transition_node_with_error E now run node st att agent_run_id cost err db =
     (if \<not> list_ex (is_node run node) (db_nodes db) then Inl (WS_NotFound (run @ ''/'' @ node))
      else Inr (touch_run now run (update_nodes (is_node run node)
        (transition_row now st att agent_run_id (map_option (js_to_text (e_serde E)) cost) err) db)))"

definition transition_node ::
    "wf_env \<Rightarrow> string \<Rightarrow> string \<Rightarrow> string \<Rightarrow> node_state \<Rightarrow> u32 \<Rightarrow> string option \<Rightarrow> json option \<Rightarrow> wf_db
      \<Rightarrow> workflow_store_error + wf_db" where
  "transition_node E now run node st att agent_run_id cost db =
     transition_node_with_error E now run node st att agent_run_id cost None db"

definition record_checkpoint ::
    "string \<Rightarrow> string \<Rightarrow> string \<Rightarrow> string \<Rightarrow> string option \<Rightarrow> wf_db \<Rightarrow> workflow_store_error + (wf_db \<times> string)" where
  "record_checkpoint now uid run sig artifact db =
     (if find_run run db = None \<or> (\<exists>r \<in> set (db_checkpoints db). ck_id r = uid) then Inl WS_Database
      else Inr (db\<lparr>db_checkpoints := db_checkpoints db @
             [\<lparr>ck_id = uid, ck_run = run, ck_graph_signature = sig, ck_state_artifact_id = artifact, ck_created_at = now\<rparr>]\<rparr>, uid))"

definition repository :: "string \<Rightarrow> wf_db \<Rightarrow> string option" where
  "repository run db = Option.bind (find_run run db) rr_repository"

definition manifest :: "string \<Rightarrow> wf_db \<Rightarrow> string option" where
  "manifest run db = Option.bind (find_run run db) rr_manifest_yaml"

definition latest_checkpoint :: "string \<Rightarrow> wf_db \<Rightarrow> checkpoint option" where
  "latest_checkpoint run db =
     (case rev (sort_key (\<lambda>r. (ck_created_at r, ck_id r)) (filter (\<lambda>r. ck_run r = run) (db_checkpoints db))) of
        [] \<Rightarrow> None
      | r # _ \<Rightarrow> Some \<lparr>cp_id = ck_id r, cp_graph_signature = ck_graph_signature r,
                       cp_state_artifact_id = ck_state_artifact_id r\<rparr>)"

definition row_to_run :: "wf_env \<Rightarrow> run_row \<Rightarrow> workflow_store_error + run_record" where
  "row_to_run E r =
     res_bind (ok_or WS_Serde (js_of_text (e_serde E) (rr_inputs_json r))) (\<lambda>inputs.
     res_map (\<lambda>st. \<lparr>rec_id = rr_id r, rec_workflow_id = rr_workflow_id r, rec_workflow_version = rr_workflow_version r,
         rec_graph_signature = rr_graph_signature r, rec_run_id = rr_run_id r, rec_inputs = inputs, rec_state = st\<rparr>)
       (parse_run_state (rr_state r)))"

definition list_incomplete_runs :: "wf_env \<Rightarrow> wf_db \<Rightarrow> workflow_store_error + run_record list" where
  "list_incomplete_runs E db =
     map_res (row_to_run E) (sort_key (\<lambda>r. (rr_created_at r, rr_id r))
       (filter (\<lambda>r. rr_state r \<in> {''pending'', ''running'', ''paused''}) (db_runs db)))"

definition row_to_node :: "wf_env \<Rightarrow> node_row \<Rightarrow> workflow_store_error + node_record" where
  "row_to_node E r =
     res_bind (parse_node_state (nr_state r)) (\<lambda>st.
     res_map (\<lambda>cost. \<lparr>nd_id = nr_node_id r, nd_state = st, nd_agent_run_id = nr_agent_run_id r, nd_attempt = nr_attempt r,
         nd_topo_order = nr_topo_order r, nd_cost = cost, nd_error = nr_error r\<rparr>)
       (case nr_cost_json r of
          None \<Rightarrow> Inr None
        | Some t \<Rightarrow> res_map Some (ok_or WS_Serde (js_of_text (e_serde E) t))))"

definition run_nodes :: "string \<Rightarrow> wf_db \<Rightarrow> node_row list" where
  "run_nodes run db = sort_key (\<lambda>r. (nr_topo_order r, nr_node_id r)) (filter (\<lambda>r. nr_run r = run) (db_nodes db))"

definition snapshot :: "wf_env \<Rightarrow> string \<Rightarrow> wf_db \<Rightarrow> workflow_store_error + run_snapshot option" where
  "snapshot E run db =
     (case find_run run db of
        None \<Rightarrow> Inr None
      | Some row \<Rightarrow>
          res_bind (row_to_run E row) (\<lambda>rec.
          res_map (\<lambda>nodes. Some \<lparr>sn_run = rec, sn_nodes = nodes\<rparr>) (map_res (row_to_node E) (run_nodes run db))))"

subsection \<open>Scheduling\<close>

text \<open>The state of each node of a snapshot, by id.\<close>

definition snap_states :: "run_snapshot \<Rightarrow> string \<rightharpoonup> node_state" where
  "snap_states snap = map_of (rev (map (\<lambda>n. (nd_id n, nd_state n)) (sn_nodes snap)))"

definition ready_node_ids :: "compiled_workflow \<Rightarrow> run_snapshot \<Rightarrow> string list" where
  "ready_node_ids c snap =
     (let states = snap_states snap in
      map cn_id (filter (\<lambda>n. list_all (\<lambda>dep. states dep = Some NCompleted) (cn_depends_on n))
        (filter (\<lambda>n. states (cn_id n) = Some NPending) (cw_nodes c))))"

text \<open>The blocker of a node: a failed or skipped dependency, or what blocks a dependency, the first in order.\<close>

fun find_blocker :: "(string \<rightharpoonup> node_state) \<Rightarrow> (string \<rightharpoonup> string) \<Rightarrow> string list \<Rightarrow> string option" where
  "find_blocker states blocker_of [] = None"
| "find_blocker states blocker_of (dep # deps) =
     (if states dep = Some NFailed \<or> states dep = Some NSkipped then Some dep
      else (case blocker_of dep of
              Some upstream \<Rightarrow> Some upstream
            | None \<Rightarrow> find_blocker states blocker_of deps))"

fun blocked_loop ::
    "(string \<rightharpoonup> node_state) \<Rightarrow> (string \<rightharpoonup> string) \<Rightarrow> compiled_node list \<Rightarrow> (string \<times> string) list" where
  "blocked_loop states blocker_of [] = []"
| "blocked_loop states blocker_of (n # ns) =
     (case find_blocker states blocker_of (cn_depends_on n) of
        None \<Rightarrow> blocked_loop states blocker_of ns
      | Some b \<Rightarrow>
          (if (case states (cn_id n) of Some st \<Rightarrow> \<not> node_is_terminal st | None \<Rightarrow> False)
           then [(cn_id n, b)] else [])
          @ blocked_loop states (blocker_of(cn_id n \<mapsto> b)) ns)"

definition blocked_node_ids :: "compiled_workflow \<Rightarrow> run_snapshot \<Rightarrow> (string \<times> string) list" where
  "blocked_node_ids c snap = blocked_loop (snap_states snap) (\<lambda>_. None) (cw_nodes c)"

text \<open>The snapshot of a run whose stored signature is that of the given graph.\<close>

definition checked_snapshot :: "wf_env \<Rightarrow> string \<Rightarrow> compiled_workflow \<Rightarrow> wf_db \<Rightarrow> workflow_store_error + run_snapshot" where
  "checked_snapshot E run c db =
     res_bind (snapshot E run db) (\<lambda>s.
     res_bind (ok_or (WS_NotFound run) s) (\<lambda>snap.
     if rec_graph_signature (sn_run snap) \<noteq> graph_sig E c
     then Inl (WS_GraphSignatureChanged (rec_graph_signature (sn_run snap)) (graph_sig E c))
     else Inr snap))"

definition ready_nodes :: "wf_env \<Rightarrow> string \<Rightarrow> compiled_workflow \<Rightarrow> wf_db \<Rightarrow> workflow_store_error + string list" where
  "ready_nodes E run c db = res_map (ready_node_ids c) (checked_snapshot E run c db)"

definition store_resume :: "wf_env \<Rightarrow> string \<Rightarrow> compiled_workflow \<Rightarrow> wf_db \<Rightarrow> workflow_store_error + resume_plan" where
  "store_resume E run c db =
     res_map (\<lambda>snap.
       let blocked_nodes = blocked_node_ids c snap in
       \<lparr>rp_snapshot = snap,
        rp_next_node = map_option nd_id (find (\<lambda>n. \<not> node_is_terminal (nd_state n)
                          \<and> nd_id n \<notin> set (map fst blocked_nodes)) (sn_nodes snap)),
        rp_blocked_nodes = blocked_nodes,
        rp_latest_checkpoint = latest_checkpoint run db\<rparr>) (checked_snapshot E run c db)"

text \<open>The walk over the dependent edges; \<open>to_reset\<close> is an ordered set.\<close>

definition walk_ids :: "compiled_workflow \<Rightarrow> string list \<Rightarrow> string set" where
  "walk_ids c queue = set queue \<union> (\<Union>n \<in> set (cw_nodes c). set (cn_dependents n))"

lemma walk_ids_decrease:
  assumes "map_of s cur = None" "set q \<subseteq> walk_ids c (cur # queue)"
  shows "card (walk_ids c q - fst ` set (bt_insert cur () s)) < card (walk_ids c (cur # queue) - fst ` set s)"
proof (rule psubset_card_mono)
  have "cur \<notin> fst ` set s" using assms(1) by (simp add: map_of_eq_None_iff)
  with assms(2) show "walk_ids c q - fst ` set (bt_insert cur () s) \<subset> walk_ids c (cur # queue) - fst ` set s"
    by (auto simp: walk_ids_def)
qed (simp add: walk_ids_def)

function reset_walk :: "compiled_workflow \<Rightarrow> string list \<Rightarrow> unit btree \<Rightarrow> unit btree" where
  "reset_walk c [] to_reset = to_reset"
| "reset_walk c (cur # queue) to_reset =
     (if map_of to_reset cur \<noteq> None then reset_walk c queue to_reset
      else
        (let to_reset' = bt_insert cur () to_reset in
         case cw_node c cur of
           None \<Rightarrow> reset_walk c queue to_reset'
         | Some n \<Rightarrow> reset_walk c (queue @ filter (\<lambda>d. map_of to_reset' d = None) (cn_dependents n)) to_reset'))"
  by pat_completeness auto
termination
proof (relation "measures [\<lambda>(c, q, s). card (walk_ids c q - fst ` set s), \<lambda>(c, q, s). length q]")
  fix c cur queue and s :: "unit btree"
  assume "map_of s cur \<noteq> None"
  then have "cur \<in> fst ` set s" by (metis map_of_eq_None_iff)
  then have "walk_ids c queue - fst ` set s = walk_ids c (cur # queue) - fst ` set s" by (auto simp: walk_ids_def)
  then show "((c, queue, s), (c, cur # queue, s)) \<in> measures [\<lambda>(c, q, s). card (walk_ids c q - fst ` set s), \<lambda>(c, q, s). length q]"
    by simp
next
  fix c cur queue and s x :: "unit btree"
  assume *: "\<not> map_of s cur \<noteq> None" "x = bt_insert cur () s"
  have "set queue \<subseteq> walk_ids c (cur # queue)" by (auto simp: walk_ids_def)
  moreover from *(1) have "map_of s cur = None" by blast
  ultimately show "((c, queue, x), (c, cur # queue, s)) \<in> measures [\<lambda>(c, q, s). card (walk_ids c q - fst ` set s), \<lambda>(c, q, s). length q]"
    using walk_ids_decrease [of s cur queue c queue] *(2) by simp
next
  fix c cur queue n and s x :: "unit btree"
  assume *: "\<not> map_of s cur \<noteq> None" "x = bt_insert cur () s" "cw_node c cur = Some n"
  from find_Some_D [OF *(3) [unfolded cw_node_def]] have "n \<in> set (cw_nodes c)" by simp
  then have "set (queue @ filter (\<lambda>d. map_of x d = None) (cn_dependents n)) \<subseteq> walk_ids c (cur # queue)"
    by (auto simp: walk_ids_def)
  moreover from *(1) have "map_of s cur = None" by blast
  ultimately show "((c, queue @ filter (\<lambda>d. map_of x d = None) (cn_dependents n), x), (c, cur # queue, s))
      \<in> measures [\<lambda>(c, q, s). card (walk_ids c q - fst ` set s), \<lambda>(c, q, s). length q]"
    using walk_ids_decrease [of s cur _ c queue] *(2) by simp
qed simp

declare reset_walk.simps [simp del]

definition reset_row :: "node_row \<Rightarrow> node_row" where
  "reset_row r = r\<lparr>nr_state := ''pending'', nr_attempt := 0, nr_agent_run_id := None, nr_cost_json := None,
     nr_started_at := None, nr_ended_at := None\<rparr>"

definition retry_from_node ::
    "wf_env \<Rightarrow> string \<Rightarrow> string \<Rightarrow> string \<Rightarrow> compiled_workflow \<Rightarrow> wf_db \<Rightarrow> workflow_store_error + (wf_db \<times> string list)" where
  "retry_from_node E now run node c db =
     res_bind (checked_snapshot E run c db) (\<lambda>_.
     if cw_node c node = None then Inl (WS_NotFound (run @ ''/'' @ node))
     else
       (let to_reset = bt_keys (reset_walk c [node] []);
            db1 = fold (\<lambda>i. update_nodes (is_node run i) reset_row) to_reset db in
        Inr (update_run run (\<lambda>r. r\<lparr>rr_state := ''running'', rr_updated_at := now\<rparr>) db1, to_reset)))"

definition reset_blocked_node :: "string \<Rightarrow> string \<Rightarrow> string \<Rightarrow> wf_db \<Rightarrow> workflow_store_error + wf_db" where
  "reset_blocked_node now run node db =
     (let hit = (\<lambda>r. is_node run node r \<and> nr_state r = ''blocked'') in
      if \<not> list_ex hit (db_nodes db) then Inl (WS_NotFound (run @ ''/'' @ node))
      else Inr (touch_run now run (update_nodes hit (\<lambda>r. r\<lparr>nr_state := ''pending'', nr_ended_at := None\<rparr>) db)))"

definition reset_interrupted_node :: "string \<Rightarrow> string \<Rightarrow> string \<Rightarrow> u32 \<Rightarrow> wf_db \<Rightarrow> workflow_store_error + wf_db" where
  "reset_interrupted_node now run node att db =
     (if \<not> list_ex (is_node run node) (db_nodes db) then Inl (WS_NotFound (run @ ''/'' @ node))
      else Inr (touch_run now run (update_nodes (is_node run node)
        (\<lambda>r. r\<lparr>nr_state := ''pending'', nr_attempt := att, nr_agent_run_id := None, nr_cost_json := None,
               nr_ended_at := None\<rparr>) db)))"

definition list_runs_for_repository :: "wf_env \<Rightarrow> string \<Rightarrow> u32 \<Rightarrow> wf_db \<Rightarrow> workflow_store_error + run_record list" where
  "list_runs_for_repository E repo limit db =
     map_res (row_to_run E) (take (unat limit) (rev (sort_key (\<lambda>r. (rr_created_at r, rr_id r))
       (filter (\<lambda>r. rr_repository r = Some repo \<and> rr_workflow_id r \<noteq> ''repository-board'') (db_runs db)))))"

definition ensure_board_run :: "wf_env \<Rightarrow> string \<Rightarrow> string \<Rightarrow> string \<Rightarrow> wf_db \<Rightarrow> wf_db" where
  "ensure_board_run E now board_id repo db =
     fst (insert_run_or_ignore
       \<lparr>rr_id = board_id, rr_workflow_id = ''repository-board'', rr_workflow_version = 1, rr_graph_signature = ''board'',
        rr_run_id = None, rr_inputs_json = js_to_text (e_serde E) (JObj [(''repository'', JStr repo)]),
        rr_state = ''completed'', rr_manifest_yaml = None, rr_repository = Some repo, rr_owner_uid = None,
        rr_created_at = now, rr_updated_at = now\<rparr> db)"

definition skip_pending_nodes :: "string \<Rightarrow> string \<Rightarrow> wf_db \<Rightarrow> wf_db \<times> string list" where
  "skip_pending_nodes now run db =
     (let hit = (\<lambda>r. nr_run r = run \<and> nr_state r = ''pending'');
          skipped = map nr_node_id (sort_key nr_topo_order (filter hit (db_nodes db))) in
      if skipped = [] then (db, skipped)
      else (touch_run now run (update_nodes hit (\<lambda>r. r\<lparr>nr_state := ''skipped'', nr_ended_at := Some now\<rparr>) db), skipped))"

subsection \<open>The tables' invariant\<close>

text \<open>
  Run ids, node row ids and checkpoint ids are unique, a run has one row per node id, node and checkpoint rows belong
  to existing runs, and every stored state is one the code can parse.
\<close>

definition node_key :: "node_row \<Rightarrow> string \<times> string" where
  "node_key r = (nr_run r, nr_node_id r)"

definition db_wf :: "wf_db \<Rightarrow> bool" where
  "db_wf db \<longleftrightarrow> distinct (map rr_id (db_runs db)) \<and> distinct (map nr_id (db_nodes db))
     \<and> distinct (map node_key (db_nodes db)) \<and> distinct (map ck_id (db_checkpoints db))
     \<and> nr_run ` set (db_nodes db) \<union> ck_run ` set (db_checkpoints db) \<subseteq> rr_id ` set (db_runs db)
     \<and> rr_state ` set (db_runs db) \<subseteq> range run_state_str \<and> nr_state ` set (db_nodes db) \<subseteq> range node_state_str"

lemma str_in_range [simp]:
  "run_state_str r \<in> range run_state_str" "node_state_str n \<in> range node_state_str"
  "''pending'' \<in> range run_state_str" "''running'' \<in> range run_state_str" "''completed'' \<in> range run_state_str"
  "''pending'' \<in> range node_state_str" "''skipped'' \<in> range node_state_str"
proof -
  have "run_state_str RPending = ''pending''" "run_state_str RRunning = ''running''" "run_state_str RCompleted = ''completed''"
    "node_state_str NPending = ''pending''" "node_state_str NSkipped = ''skipped''" by simp_all
  then show "''pending'' \<in> range run_state_str" "''running'' \<in> range run_state_str" "''completed'' \<in> range run_state_str"
    "''pending'' \<in> range node_state_str" "''skipped'' \<in> range node_state_str" by (metis rangeI)+
qed auto

lemma map_update_key: "(\<And>r. P r \<Longrightarrow> k (f r) = k r) \<Longrightarrow> map k (map (\<lambda>r. if P r then f r else r) xs) = map k xs"
  by (induction xs) auto

lemma image_update_key: "(\<And>r. P r \<Longrightarrow> k (f r) = k r) \<Longrightarrow> k ` set (map (\<lambda>r. if P r then f r else r) xs) = k ` set xs"
  using map_update_key [of P k f xs] by (metis list.set_map)

lemma db_wf_runs_update:
  assumes "db_wf db" "\<And>r. P r \<Longrightarrow> rr_id (f r) = rr_id r" "\<And>r. P r \<Longrightarrow> rr_state (f r) \<in> range run_state_str \<union> {rr_state r}"
  shows "db_wf (db\<lparr>db_runs := map (\<lambda>r. if P r then f r else r) (db_runs db)\<rparr>)"
proof -
  let ?rs = "map (\<lambda>r. if P r then f r else r) (db_runs db)"
  have "rr_state ` set ?rs \<subseteq> range run_state_str" using assms by (fastforce simp: db_wf_def image_subset_iff)
  with map_update_key [of P rr_id f "db_runs db"] image_update_key [of P rr_id f "db_runs db"] assms
  show ?thesis by (simp add: db_wf_def del: map_map set_map list.set_map)
qed

lemma db_wf_nodes_update:
  assumes "db_wf db" "\<And>r. P r \<Longrightarrow> nr_id (f r) = nr_id r \<and> nr_run (f r) = nr_run r \<and> nr_node_id (f r) = nr_node_id r"
    "\<And>r. P r \<Longrightarrow> nr_state (f r) \<in> range node_state_str"
  shows "db_wf (update_nodes P f db)"
proof -
  let ?ns = "map (\<lambda>r. if P r then f r else r) (db_nodes db)"
  have "nr_state ` set ?ns \<subseteq> range node_state_str" using assms by (fastforce simp: db_wf_def image_subset_iff)
  moreover have "map nr_id ?ns = map nr_id (db_nodes db)" by (rule map_update_key) (use assms(2) in blast)
  moreover have "map node_key ?ns = map node_key (db_nodes db)"
    by (rule map_update_key) (use assms(2) in \<open>simp add: node_key_def\<close>)
  moreover have "nr_run ` set ?ns = nr_run ` set (db_nodes db)" by (rule image_update_key) (use assms(2) in blast)
  ultimately show ?thesis using assms(1) by (simp add: db_wf_def update_nodes_def del: map_map set_map list.set_map)
qed

lemma db_wf_update_run:
  "db_wf db \<Longrightarrow> (\<And>r. rr_id (f r) = rr_id r \<and> rr_state (f r) \<in> range run_state_str \<union> {rr_state r}) \<Longrightarrow> db_wf (update_run run f db)"
  unfolding update_run_def by (rule db_wf_runs_update) auto

lemma db_wf_touch: "db_wf db \<Longrightarrow> db_wf (touch_run now run db)"
  unfolding touch_run_def by (rule db_wf_update_run) auto

lemma find_run_None_iff: "find_run run db = None \<longleftrightarrow> run \<notin> rr_id ` set (db_runs db)"
  by (auto simp: find_run_def find_None_iff)

lemma find_run_Some: "find_run run db = Some r \<Longrightarrow> r \<in> set (db_runs db) \<and> rr_id r = run"
  by (auto simp: find_run_def dest: find_Some_D)

lemma db_wf_find_run: "db_wf db \<Longrightarrow> r \<in> set (db_runs db) \<Longrightarrow> find_run (rr_id r) db = Some r"
  unfolding find_run_def db_wf_def by (simp add: find_unique_key)

lemma db_wf_insert_run:
  "db_wf db \<Longrightarrow> find_run (rr_id row) db = None \<Longrightarrow> rr_state row \<in> range run_state_str \<Longrightarrow> db_wf (db\<lparr>db_runs := db_runs db @ [row]\<rparr>)"
  by (auto simp: db_wf_def find_run_None_iff)

lemma insert_node_row_Inr:
  "insert_node_row row db = Inr db' \<longleftrightarrow> nr_run row \<in> rr_id ` set (db_runs db) \<and> nr_id row \<notin> nr_id ` set (db_nodes db)
     \<and> node_key row \<notin> node_key ` set (db_nodes db) \<and> db' = db\<lparr>db_nodes := db_nodes db @ [row]\<rparr>"
  unfolding insert_node_row_def find_run_None_iff is_node_def node_key_def by (auto simp: image_iff; metis)

lemma insert_node_rows_Inr:
  "insert_node_rows uuid k run ns db = Inr db' \<Longrightarrow>
     (db_wf db \<longrightarrow> db_wf db') \<and> db_runs db' = db_runs db \<and> db_checkpoints db' = db_checkpoints db
     \<and> (\<exists>us. length us = length ns \<and> db_nodes db' = db_nodes db @ map2 (\<lambda>u n. new_node_row u run n) us ns)"
proof (induction ns arbitrary: k db)
  case (Cons n ns)
  from Cons.prems obtain db1 where i: "insert_node_row (new_node_row (uuid k) run n) db = Inr db1"
    and r: "insert_node_rows uuid (Suc k) run ns db1 = Inr db'" by (auto simp: res_bind_Inr_iff)
  from i have "db_wf db \<longrightarrow> db_wf db1"
    by (auto simp: insert_node_row_Inr db_wf_def new_node_row_def)
  moreover from i have "db_runs db1 = db_runs db" "db_checkpoints db1 = db_checkpoints db"
    "db_nodes db1 = db_nodes db @ [new_node_row (uuid k) run n]"
    by (auto simp: insert_node_row_Inr)
  moreover from Cons.IH [OF r] obtain us where "length us = length ns" "db_nodes db' = db_nodes db1 @ map2 (\<lambda>u n. new_node_row u run n) us ns"
    by blast
  ultimately show ?case using Cons.IH [OF r] by (auto intro!: exI [of _ "uuid k # us"])
qed auto

subsection \<open>Steps of the store\<close>

text \<open>One successful operation, with whatever arguments.\<close>

inductive store_step :: "wf_env \<Rightarrow> wf_db \<Rightarrow> wf_db \<Rightarrow> bool" for E where
  create: "create_run E now uuid c run_id inputs mani db = Inr (db', run) \<Longrightarrow> store_step E db db'"
| create_idempotent: "create_run_idempotent_inner E now uuid c key inputs ctx db = Inr (db', run) \<Longrightarrow> store_step E db db'"
| set_state: "set_run_state now run st db = Inr db' \<Longrightarrow> store_step E db db'"
| set_state_if_legal: "set_run_state_if_legal now run legal st db = (db', k) \<Longrightarrow> store_step E db db'"
| transition: "transition_node_with_error E now run node st att agent cost err db = Inr db' \<Longrightarrow> store_step E db db'"
| checkpoint: "record_checkpoint now uid run sig artifact db = Inr (db', i) \<Longrightarrow> store_step E db db'"
| retry: "retry_from_node E now run node c db = Inr (db', ids) \<Longrightarrow> store_step E db db'"
| unblock: "reset_blocked_node now run node db = Inr db' \<Longrightarrow> store_step E db db'"
| uninterrupt: "reset_interrupted_node now run node att db = Inr db' \<Longrightarrow> store_step E db db'"
| board: "store_step E db (ensure_board_run E now board_id repo db)"
| skip: "skip_pending_nodes now run db = (db', ids) \<Longrightarrow> store_step E db db'"

inductive store_reach :: "wf_env \<Rightarrow> wf_db \<Rightarrow> bool" for E where
  init: "store_reach E empty_db"
| step: "store_reach E db \<Longrightarrow> store_step E db db' \<Longrightarrow> store_reach E db'"

text \<open>
  What no operation changes or removes: everything of a run row but its state and update time, the
  identity of a node row, and the checkpoints. New rows are only appended.
\<close>

definition run_identity :: "run_row \<Rightarrow> run_row" where
  "run_identity r = r\<lparr>rr_state := [], rr_updated_at := []\<rparr>"

definition node_identity :: "node_row \<Rightarrow> string \<times> string \<times> string \<times> nat" where
  "node_identity r = (nr_id r, nr_run r, nr_node_id r, nr_topo_order r)"

definition db_extends :: "wf_db \<Rightarrow> wf_db \<Rightarrow> bool" where
  "db_extends db db' \<longleftrightarrow> prefix (map run_identity (db_runs db)) (map run_identity (db_runs db'))
     \<and> prefix (map node_identity (db_nodes db)) (map node_identity (db_nodes db'))
     \<and> prefix (db_checkpoints db) (db_checkpoints db')"

lemma db_extends_refl [simp]: "db_extends db db"
  by (simp add: db_extends_def)

lemma db_extends_trans: "db_extends a b \<Longrightarrow> db_extends b c \<Longrightarrow> db_extends a c"
  unfolding db_extends_def by (meson prefix_order.trans)

lemma db_extends_runs_update:
  "(\<And>r. P r \<Longrightarrow> run_identity (f r) = run_identity r) \<Longrightarrow>
     db_extends db (db\<lparr>db_runs := map (\<lambda>r. if P r then f r else r) (db_runs db)\<rparr>)"
  using map_update_key [of P run_identity f "db_runs db"] by (simp add: db_extends_def del: map_map)

lemma db_extends_update_run: "(\<And>r. run_identity (f r) = run_identity r) \<Longrightarrow> db_extends db (update_run run f db)"
  unfolding update_run_def by (rule db_extends_runs_update) auto

lemma db_extends_touch [simp]: "db_extends db (touch_run now run db)"
  unfolding touch_run_def by (rule db_extends_update_run) (simp add: run_identity_def)

lemma db_extends_update_nodes:
  "(\<And>r. P r \<Longrightarrow> node_identity (f r) = node_identity r) \<Longrightarrow> db_extends db (update_nodes P f db)"
  using map_update_key [of P node_identity f "db_nodes db"] by (simp add: db_extends_def update_nodes_def del: map_map)

lemma db_extends_touch_nodes:
  "(\<And>r. P r \<Longrightarrow> node_identity (f r) = node_identity r) \<Longrightarrow> db_extends db (touch_run now run (update_nodes P f db))"
  using db_extends_trans [OF db_extends_update_nodes db_extends_touch] by blast

lemma db_extends_insert_run: "db_extends db (db\<lparr>db_runs := db_runs db @ [row]\<rparr>)"
  by (simp add: db_extends_def)

lemma db_extends_checkpoint: "db_extends db (db\<lparr>db_checkpoints := db_checkpoints db @ cs\<rparr>)"
  by (simp add: db_extends_def)

lemma db_extends_insert_nodes: "insert_node_rows uuid k run ns db = Inr db' \<Longrightarrow> db_extends db db'"
  using insert_node_rows_Inr [of uuid k run ns db db'] by (auto simp: db_extends_def)

lemma transition_row_identity [simp]:
  "nr_id (transition_row now st att ag cj err r) = nr_id r" "nr_run (transition_row now st att ag cj err r) = nr_run r"
  "nr_node_id (transition_row now st att ag cj err r) = nr_node_id r"
  "nr_state (transition_row now st att ag cj err r) = node_state_str st"
  "nr_topo_order (transition_row now st att ag cj err r) = nr_topo_order r"
  by (simp_all add: transition_row_def)

lemma reset_row_identity [simp]:
  "nr_id (reset_row r) = nr_id r" "nr_run (reset_row r) = nr_run r" "nr_node_id (reset_row r) = nr_node_id r"
  "nr_state (reset_row r) = ''pending''" "nr_topo_order (reset_row r) = nr_topo_order r"
  by (simp_all add: reset_row_def)

lemma fold_update_nodes:
  assumes "\<And>i d. Q d \<Longrightarrow> Q (update_nodes (P i) f d)" "Q db"
  shows "Q (fold (\<lambda>i. update_nodes (P i) f) is db)"
  using assms(2) by (induction "is" arbitrary: db) (auto simp: assms(1))

lemma pending_run_row_sel [simp]:
  "rr_id (pending_run_row E now run c ri inputs mani repo owner) = run"
  "rr_state (pending_run_row E now run c ri inputs mani repo owner) = ''pending''"
  "rr_graph_signature (pending_run_row E now run c ri inputs mani repo owner) = graph_sig E c"
  "rr_manifest_yaml (pending_run_row E now run c ri inputs mani repo owner) = mani"
  "rr_repository (pending_run_row E now run c ri inputs mani repo owner) = repo"
  "rr_owner_uid (pending_run_row E now run c ri inputs mani repo owner) = owner"
  "rr_inputs_json (pending_run_row E now run c ri inputs mani repo owner) = js_to_text (e_serde E) inputs"
  by (simp_all add: pending_run_row_def)

lemma create_run_Inr:
  "create_run E now uuid c run_id inputs mani db = Inr (db', run) \<longleftrightarrow> run = uuid 0 \<and> find_run run db = None
     \<and> insert_node_rows uuid 1 run (cw_nodes c)
         (db\<lparr>db_runs := db_runs db @ [pending_run_row E now run c run_id inputs mani None None]\<rparr>) = Inr db'"
  by (auto simp: create_run_def insert_run_row_def res_bind_Inr_iff res_map_Inr_iff Let_def)

text \<open>The run id of a request, and when an existing run answers it.\<close>

definition request_run_id :: "wf_env \<Rightarrow> string \<Rightarrow> idempotent_run_context \<Rightarrow> string" where
  "request_run_id E key ctx = (case ic_owner_uid ctx of None \<Rightarrow> deterministic_run_id E key
     | Some owner \<Rightarrow> deterministic_run_id E (owner_key owner key))"

text \<open>An idempotent creation either finds an acceptable earlier run or inserts the run and its nodes.\<close>

lemma create_idempotent_Inr:
  assumes "create_run_idempotent_inner E now uuid c key inputs ctx db = Inr (db', run)"
  obtains (existing) r where "run = request_run_id E key ctx" "find_run run db = Some r" "db' = db"
  | (fresh) "run = request_run_id E key ctx" "find_run run db = None"
      "insert_node_rows uuid 0 run (cw_nodes c)
         (db\<lparr>db_runs := db_runs db @ [pending_run_row E now run c None inputs (ic_manifest ctx) (ic_repository ctx) (ic_owner_uid ctx)]\<rparr>) = Inr db'"
proof (cases "find_run (request_run_id E key ctx) db")
  case None
  with assms have r: "run = request_run_id E key ctx" and i: "insert_node_rows uuid 0 run (cw_nodes c)
         (db\<lparr>db_runs := db_runs db @ [pending_run_row E now run c None inputs (ic_manifest ctx) (ic_repository ctx) (ic_owner_uid ctx)]\<rparr>) = Inr db'"
    by (auto simp: create_run_idempotent_inner_def request_run_id_def [symmetric] insert_run_or_ignore_def Let_def
        res_bind_Inr_iff res_map_Inr_iff)
  from fresh [OF r None [folded r] i] show thesis .
next
  case (Some r)
  with assms have "run = request_run_id E key ctx \<and> db' = db"
    by (auto simp: create_run_idempotent_inner_def request_run_id_def [symmetric] insert_run_or_ignore_def Let_def
        res_bind_Inr_iff split: if_splits)
  with Some show thesis by (intro existing) simp_all
qed

lemma store_step_wf: "store_step E db db' \<Longrightarrow> db_wf db \<Longrightarrow> db_wf db'"
proof (induction rule: store_step.induct)
  case (create now uuid c run_id inputs mani db db' run)
  then show ?case using insert_node_rows_Inr db_wf_insert_run by (fastforce simp: create_run_Inr)
next
  case (create_idempotent now uuid c key inputs ctx db db' run)
  from create_idempotent.hyps show ?case
  proof (cases rule: create_idempotent_Inr)
    case fresh
    have "db_wf (db\<lparr>db_runs := db_runs db @ [pending_run_row E now run c None inputs (ic_manifest ctx) (ic_repository ctx) (ic_owner_uid ctx)]\<rparr>)"
      by (rule db_wf_insert_run) (use fresh create_idempotent.prems in auto)
    with insert_node_rows_Inr [OF fresh(3)] show ?thesis by blast
  qed (use create_idempotent in simp)
next
  case (set_state now run st db db')
  then show ?case by (auto simp: set_run_state_def intro!: db_wf_update_run split: if_splits)
next
  case (set_state_if_legal now run legal st db db' k)
  then show ?case
    by (auto simp: set_run_state_if_legal_def Let_def intro!: db_wf_runs_update split: if_splits)
next
  case (transition now run node st att agent cost err db db')
  then show ?case
    by (auto simp: transition_node_with_error_def intro!: db_wf_touch db_wf_nodes_update split: if_splits)
next
  case (checkpoint now uid run sig artifact db db' i)
  then show ?case by (auto simp: record_checkpoint_def find_run_None_iff db_wf_def image_subset_iff split: if_splits)
next
  case (retry now run node c db db' ids)
  then show ?case
    by (auto simp: retry_from_node_def res_bind_Inr_iff Let_def intro!: db_wf_update_run fold_update_nodes [of db_wf]
        db_wf_nodes_update split: if_splits)
next
  case (unblock now run node db db')
  then show ?case by (auto simp: reset_blocked_node_def Let_def intro!: db_wf_touch db_wf_nodes_update split: if_splits)
next
  case (uninterrupt now run node att db db')
  then show ?case by (auto simp: reset_interrupted_node_def intro!: db_wf_touch db_wf_nodes_update split: if_splits)
next
  case (board db now board_id repo)
  then show ?case by (auto simp: ensure_board_run_def insert_run_or_ignore_def intro!: db_wf_insert_run)
next
  case (skip now run db db' ids)
  then show ?case by (auto simp: skip_pending_nodes_def Let_def intro!: db_wf_touch db_wf_nodes_update split: if_splits)
qed

lemma store_step_extends: "store_step E db db' \<Longrightarrow> db_extends db db'"
proof (induction rule: store_step.induct)
  case (create now uuid c run_id inputs mani db db' run)
  from create [unfolded create_run_Inr] show ?case
    by (blast intro: db_extends_trans [OF db_extends_insert_run db_extends_insert_nodes])
next
  case (create_idempotent now uuid c key inputs ctx db db' run)
  then show ?case
  proof (cases rule: create_idempotent_Inr)
    case fresh
    show ?thesis by (rule db_extends_trans [OF db_extends_insert_run db_extends_insert_nodes [OF fresh(3)]])
  qed simp
next
  case (retry now run node c db db' ids)
  have "db_extends db (fold (\<lambda>i. update_nodes (is_node run i) reset_row) is db)" for "is"
    by (rule fold_update_nodes [of "db_extends db"])
      (auto intro!: db_extends_trans [OF _ db_extends_update_nodes] simp: node_identity_def)
  with retry show ?case
    by (auto simp: retry_from_node_def res_bind_Inr_iff Let_def run_identity_def
        intro!: db_extends_trans [OF _ db_extends_update_run] split: if_splits)
qed (auto simp: set_run_state_def set_run_state_if_legal_def transition_node_with_error_def record_checkpoint_def
      reset_blocked_node_def reset_interrupted_node_def ensure_board_run_def insert_run_or_ignore_def
      skip_pending_nodes_def Let_def run_identity_def node_identity_def db_extends_insert_run db_extends_checkpoint
    intro!: db_extends_update_run db_extends_runs_update db_extends_touch_nodes
    split: if_splits)

lemma empty_db_wf [simp]: "db_wf empty_db"
  by (simp add: db_wf_def empty_db_def)

lemma store_reach_wf: "store_reach E db \<Longrightarrow> db_wf db"
  by (induction rule: store_reach.induct) (auto dest: store_step_wf)

lemma store_steps_extend: "(store_step E)\<^sup>*\<^sup>* db db' \<Longrightarrow> db_extends db db'"
  by (induction rule: rtranclp_induct) (auto intro: db_extends_trans store_step_extends)

lemma find_prefix: "prefix xs ys \<Longrightarrow> find P xs = Some x \<Longrightarrow> find P ys = Some x"
  by (auto simp: prefix_def find_Some_iff nth_append)

text \<open>A run of the table keeps its row, up to state and update time, through any number of steps.\<close>

lemma db_extends_find_run:
  assumes "db_extends db db'" "find_run run db = Some r"
  obtains r' where "find_run run db' = Some r'" "run_identity r' = run_identity r"
proof -
  have id: "rr_id (run_identity r) = rr_id r" for r by (simp add: run_identity_def)
  have m: "find (\<lambda>r. rr_id r = run) (map run_identity (db_runs d)) = map_option run_identity (find_run run d)" for d
    by (simp add: find_map id find_run_def)
  from assms(1) have "prefix (map run_identity (db_runs db)) (map run_identity (db_runs db'))"
    by (simp add: db_extends_def)
  moreover have "find (\<lambda>r. rr_id r = run) (map run_identity (db_runs db)) = Some (run_identity r)"
    by (simp add: m assms(2))
  ultimately have "find (\<lambda>r. rr_id r = run) (map run_identity (db_runs db')) = Some (run_identity r)"
    by (rule find_prefix)
  then show thesis unfolding m using that by auto
qed

subsection \<open>The frontier and the blocked nodes\<close>

text \<open>The dependency edges of a graph, and the nodes stranded behind a failed or skipped ancestor.\<close>

definition dep_edges :: "compiled_node list \<Rightarrow> (string \<times> string) set" where
  "dep_edges ns = {(d, cn_id n) |d n. n \<in> set ns \<and> d \<in> set (cn_depends_on n)}"

definition ended_badly :: "(string \<rightharpoonup> node_state) \<Rightarrow> string \<Rightarrow> bool" where
  "ended_badly states b \<longleftrightarrow> states b = Some NFailed \<or> states b = Some NSkipped"

definition blocked_by :: "compiled_node list \<Rightarrow> (string \<rightharpoonup> node_state) \<Rightarrow> string \<Rightarrow> string \<Rightarrow> bool" where
  "blocked_by ns states b i \<longleftrightarrow> ended_badly states b \<and> (b, i) \<in> (dep_edges ns)\<^sup>+"

definition live_state :: "(string \<rightharpoonup> node_state) \<Rightarrow> string \<Rightarrow> bool" where
  "live_state states i \<longleftrightarrow> (case states i of Some st \<Rightarrow> \<not> node_is_terminal st | None \<Rightarrow> False)"

lemma find_blocker_Some:
  "find_blocker states bo deps = Some b \<Longrightarrow> \<exists>d \<in> set deps. (ended_badly states d \<and> b = d) \<or> bo d = Some b"
  by (induction deps) (auto simp: ended_badly_def split: if_splits option.splits)

lemma find_blocker_None:
  "find_blocker states bo deps = None \<Longrightarrow> d \<in> set deps \<Longrightarrow> \<not> ended_badly states d \<and> bo d = None"
  by (induction deps) (auto simp: ended_badly_def split: if_splits option.splits)

context topo_graph
begin

text \<open>A path into a node of the graph ends with one of the node's own dependencies.\<close>

lemma last_edge:
  assumes "(b, nid n) \<in> {(d, nid n) |d n. n \<in> set ns \<and> d \<in> set (ndeps n)}\<^sup>+" "n \<in> set ns"
  shows "\<exists>d \<in> set (ndeps n). b = d \<or> (b, d) \<in> {(d, nid n) |d n. n \<in> set ns \<and> d \<in> set (ndeps n)}\<^sup>+"
  using assms(1)
proof (cases rule: trancl.cases)
  case r_into_trancl
  then obtain m where "m \<in> set ns" "b \<in> set (ndeps m)" "nid n = nid m" by auto
  with node_eqI [OF assms(2)] show ?thesis by blast
next
  case (trancl_into_trancl d)
  then obtain m where "m \<in> set ns" "d \<in> set (ndeps m)" "nid n = nid m" by auto
  with node_eqI [OF assms(2)] trancl_into_trancl(1) show ?thesis by blast
qed

end

lemma blocked_loop_spec:
  assumes g: "topo_graph ns cn_id cn_depends_on" and split: "ns = pre @ suf"
    and sound: "\<And>k b. bo k = Some b \<Longrightarrow> blocked_by ns states b k"
    and complete: "\<And>k b. k \<in> cn_id ` set pre \<Longrightarrow> blocked_by ns states b k \<Longrightarrow> bo k \<noteq> None"
  shows "(\<forall>(i, b) \<in> set (blocked_loop states bo suf). blocked_by ns states b i \<and> live_state states i)
    \<and> (\<forall>n \<in> set suf. \<forall>b. blocked_by ns states b (cn_id n) \<longrightarrow> live_state states (cn_id n) \<longrightarrow>
          cn_id n \<in> fst ` set (blocked_loop states bo suf))"
  using split sound complete
proof (induction suf arbitrary: pre bo)
  case (Cons n suf)
  have n: "n \<in> set ns" using Cons.prems(1) by simp
  have deps: "set (cn_depends_on n) \<subseteq> cn_id ` set pre"
    by (rule topo_graph.deps_of_split [OF g Cons.prems(1)])
  have edge: "(d, cn_id n) \<in> dep_edges ns" if "d \<in> set (cn_depends_on n)" for d
    using that n by (auto simp: dep_edges_def)
  have by_dep: "\<exists>d \<in> set (cn_depends_on n). b = d \<or> (b, d) \<in> (dep_edges ns)\<^sup>+" if "(b, cn_id n) \<in> (dep_edges ns)\<^sup>+" for b
    using topo_graph.last_edge [OF g _ n] that unfolding dep_edges_def by blast
  have split': "ns = (pre @ [n]) @ suf" using Cons.prems(1) by simp
  show ?case
  proof (cases "find_blocker states bo (cn_depends_on n)")
    case None
    have not_blocked: "\<not> blocked_by ns states b (cn_id n)" for b
    proof
      assume b: "blocked_by ns states b (cn_id n)"
      then obtain d where d: "d \<in> set (cn_depends_on n)" "b = d \<or> (b, d) \<in> (dep_edges ns)\<^sup>+"
        using by_dep by (auto simp: blocked_by_def)
      from find_blocker_None [OF None d(1)] b d Cons.prems(3) [of d b] deps
      show False by (auto simp: blocked_by_def)
    qed
    have "(\<forall>(i, b) \<in> set (blocked_loop states bo suf). blocked_by ns states b i \<and> live_state states i)
      \<and> (\<forall>n \<in> set suf. \<forall>b. blocked_by ns states b (cn_id n) \<longrightarrow> live_state states (cn_id n) \<longrightarrow>
          cn_id n \<in> fst ` set (blocked_loop states bo suf))"
      by (rule Cons.IH [OF split' Cons.prems(2)]) (use Cons.prems(3) not_blocked in auto)
    with None not_blocked show ?thesis by simp
  next
    case (Some b)
    from find_blocker_Some [OF Some] Cons.prems(2) edge have b: "blocked_by ns states b (cn_id n)"
      unfolding blocked_by_def by (metis r_into_trancl' trancl.trancl_into_trancl)
    define bo' where "bo' = bo(cn_id n \<mapsto> b)"
    have IH: "(\<forall>(i, b) \<in> set (blocked_loop states bo' suf). blocked_by ns states b i \<and> live_state states i)
      \<and> (\<forall>n \<in> set suf. \<forall>b. blocked_by ns states b (cn_id n) \<longrightarrow> live_state states (cn_id n) \<longrightarrow>
          cn_id n \<in> fst ` set (blocked_loop states bo' suf))"
      by (rule Cons.IH [OF split']) (use Cons.prems(2,3) b in \<open>auto simp: bo'_def split: if_splits\<close>)
    have eq: "blocked_loop states bo (n # suf) =
        (if live_state states (cn_id n) then [(cn_id n, b)] else []) @ blocked_loop states bo' suf"
      using Some by (simp add: bo'_def live_state_def)
    show ?thesis unfolding eq using IH b by auto
  qed
qed simp

text \<open>Blocked and ready nodes of a snapshot, for a graph with the interface's laws.\<close>

lemma blocked_node_ids_iff:
  assumes "topo_graph (cw_nodes c) cn_id cn_depends_on"
  shows "(i, b) \<in> set (blocked_node_ids c snap) \<Longrightarrow>
      blocked_by (cw_nodes c) (snap_states snap) b i \<and> live_state (snap_states snap) i"
    and "n \<in> set (cw_nodes c) \<Longrightarrow> blocked_by (cw_nodes c) (snap_states snap) b (cn_id n) \<Longrightarrow>
      live_state (snap_states snap) (cn_id n) \<Longrightarrow> cn_id n \<in> fst ` set (blocked_node_ids c snap)"
  using blocked_loop_spec [OF assms, of "[]" "cw_nodes c" "\<lambda>_. None" "snap_states snap"]
  by (auto simp: blocked_node_ids_def)

lemma ready_node_ids_iff:
  "i \<in> set (ready_node_ids c snap) \<longleftrightarrow> (\<exists>n \<in> set (cw_nodes c). cn_id n = i \<and> snap_states snap i = Some NPending
     \<and> (\<forall>d \<in> set (cn_depends_on n). snap_states snap d = Some NCompleted))"
  by (auto simp: ready_node_ids_def Let_def list_all_iff)

text \<open>
  When no node is running, waiting or blocked and none is ready, every pending node is stranded: there is
  no deadlock among healthy nodes.
\<close>

lemma pending_not_ready_blocked:
  assumes g: "topo_graph (cw_nodes c) cn_id cn_depends_on"
    and settled: "\<And>n. n \<in> set (cw_nodes c) \<Longrightarrow> snap_states snap (cn_id n) \<in> Some ` {NPending, NCompleted, NFailed, NSkipped}"
    and none: "ready_node_ids c snap = []" and n: "n \<in> set (cw_nodes c)" "snap_states snap (cn_id n) = Some NPending"
  shows "\<exists>b. blocked_by (cw_nodes c) (snap_states snap) b (cn_id n)"
proof (rule ccontr)
  let ?P = "\<lambda>n. snap_states snap (cn_id n) = Some NPending \<longrightarrow> (\<exists>b. blocked_by (cw_nodes c) (snap_states snap) b (cn_id n))"
  assume "\<not> ?thesis"
  with n(2) have "\<not> ?P n" by blast
  with topo_graph.minimal_counterexample [OF g n(1), of ?P] obtain m where m: "m \<in> set (cw_nodes c)" "\<not> ?P m"
    and dep: "\<And>k. k \<in> set (cw_nodes c) \<Longrightarrow> cn_id k \<in> set (cn_depends_on m) \<Longrightarrow> ?P k" by blast
  from none have "cn_id m \<notin> set (ready_node_ids c snap)" by simp
  with m obtain d where d: "d \<in> set (cn_depends_on m)" "snap_states snap d \<noteq> Some NCompleted"
    by (auto simp: ready_node_ids_iff)
  from topo_graph.deps_in_graph [OF g m(1) d(1)] obtain k where k: "k \<in> set (cw_nodes c)" "cn_id k = d" by blast
  have edge: "(d, cn_id m) \<in> dep_edges (cw_nodes c)" using m(1) d(1) by (auto simp: dep_edges_def)
  have "\<exists>b. blocked_by (cw_nodes c) (snap_states snap) b (cn_id m)"
  proof (cases "snap_states snap d = Some NPending")
    case True
    with dep [OF k(1)] k d(1) obtain b where "blocked_by (cw_nodes c) (snap_states snap) b d" by auto
    with edge show ?thesis unfolding blocked_by_def by (meson trancl.trancl_into_trancl)
  next
    case False
    with settled [OF k(1)] k d(2) have "ended_badly (snap_states snap) d" by (auto simp: ended_badly_def)
    with edge show ?thesis unfolding blocked_by_def by blast
  qed
  with m(2) show False by blast
qed

subsection \<open>Retrying from a node\<close>

definition dependents_closed :: "compiled_workflow \<Rightarrow> string set \<Rightarrow> string set \<Rightarrow> bool" where
  "dependents_closed c S T \<longleftrightarrow> (\<forall>k \<in> S. \<forall>n. cw_node c k = Some n \<longrightarrow> set (cn_dependents n) \<subseteq> T)"

text \<open>The walk computes the least set that contains its start and is closed under dependents.\<close>

lemma reset_walk_closure:
  "dependents_closed c (fst ` set s) (fst ` set s \<union> set q) \<Longrightarrow> bt_wf s \<Longrightarrow>
     fst ` set s \<union> set q \<subseteq> fst ` set (reset_walk c q s) \<and> bt_wf (reset_walk c q s)
     \<and> dependents_closed c (fst ` set (reset_walk c q s)) (fst ` set (reset_walk c q s))
     \<and> (\<forall>T. fst ` set s \<union> set q \<subseteq> T \<longrightarrow> dependents_closed c T T \<longrightarrow> fst ` set (reset_walk c q s) \<subseteq> T)"
proof (induction c q s rule: reset_walk.induct)
  case (1 c s)
  then show ?case by (simp add: reset_walk.simps)
next
  case (2 c cur q s)
  show ?case
  proof (cases "map_of s cur")
    case (Some u)
    then have "cur \<in> fst ` set s" by (metis map_of_eq_None_iff option.distinct(1))
    moreover from Some have "reset_walk c (cur # q) s = reset_walk c q s" by (simp add: reset_walk.simps)
    moreover have "fst ` set s \<union> set q \<subseteq> fst ` set (reset_walk c q s) \<and> bt_wf (reset_walk c q s)
     \<and> dependents_closed c (fst ` set (reset_walk c q s)) (fst ` set (reset_walk c q s))
     \<and> (\<forall>T. fst ` set s \<union> set q \<subseteq> T \<longrightarrow> dependents_closed c T T \<longrightarrow> fst ` set (reset_walk c q s) \<subseteq> T)"
      by (rule "2.IH"(1)) (use Some "2.prems" \<open>cur \<in> fst ` set s\<close> in \<open>auto simp: insert_absorb dependents_closed_def\<close>)
    ultimately show ?thesis by auto
  next
    case None
    define q' where "q' = q @ (case cw_node c cur of None \<Rightarrow> [] | Some n \<Rightarrow> filter (\<lambda>d. map_of (bt_insert cur () s) d = None) (cn_dependents n))"
    have eq: "reset_walk c (cur # q) s = reset_walk c q' (bt_insert cur () s)"
      using None by (auto simp: reset_walk.simps q'_def Let_def split: option.splits)
    have keys: "fst ` set (bt_insert cur () s) = insert cur (fst ` set s)" by simp
    have in_q': "set (cn_dependents n) \<subseteq> insert cur (fst ` set s) \<union> set q'" if "cw_node c cur = Some n" for n
      using that by (auto simp: q'_def map_of_eq_None_iff)
    have q'_sub: "set q' \<subseteq> T" if "cur \<in> T" "set q \<subseteq> T" "dependents_closed c T T" for T
      using that by (cases "cw_node c cur") (auto simp: q'_def dependents_closed_def)
    have "dependents_closed c (fst ` set (bt_insert cur () s)) (fst ` set (bt_insert cur () s) \<union> set q')"
      using "2.prems"(1) in_q' unfolding keys dependents_closed_def by (auto simp: q'_def)
    then have IH: "fst ` set (bt_insert cur () s) \<union> set q' \<subseteq> fst ` set (reset_walk c q' (bt_insert cur () s)) \<and> bt_wf (reset_walk c q' (bt_insert cur () s))
     \<and> dependents_closed c (fst ` set (reset_walk c q' (bt_insert cur () s))) (fst ` set (reset_walk c q' (bt_insert cur () s)))
     \<and> (\<forall>T. fst ` set (bt_insert cur () s) \<union> set q' \<subseteq> T \<longrightarrow> dependents_closed c T T \<longrightarrow> fst ` set (reset_walk c q' (bt_insert cur () s)) \<subseteq> T)"
      using "2.IH"(2,3) None "2.prems"(2) by (cases "cw_node c cur") (auto simp: q'_def)
    show ?thesis unfolding eq
      using IH q'_sub by (auto simp: q'_def)
  qed
qed

lemma topo_graph_of_wf: "wf_graph ns \<Longrightarrow> topo_graph ns cn_id cn_depends_on"
  by unfold_locales (auto simp: wf_graph_def)

lemma wf_graph_cw_node: "wf_graph (cw_nodes c) \<Longrightarrow> cw_node c k = Some n \<longleftrightarrow> n \<in> set (cw_nodes c) \<and> cn_id n = k"
  using find_unique_keyI [of cn_id "cw_nodes c" n k] find_Some_D [of "\<lambda>n. cn_id n = k" "cw_nodes c" n]
  by (auto simp: cw_node_def wf_graph_def)

lemma wf_graph_edges:
  assumes "wf_graph (cw_nodes c)"
  shows "(k, m) \<in> dep_edges (cw_nodes c) \<longleftrightarrow> (\<exists>n. cw_node c k = Some n \<and> m \<in> set (cn_dependents n))"
proof -
  have inv: "set (cn_dependents n) = cn_id ` {m \<in> set (cw_nodes c). cn_id n \<in> set (cn_depends_on m)}"
    if "n \<in> set (cw_nodes c)" for n
    using assms that by (simp add: wf_graph_def)
  show ?thesis
  proof
    assume "(k, m) \<in> dep_edges (cw_nodes c)"
    then obtain l where l: "l \<in> set (cw_nodes c)" "m = cn_id l" "k \<in> set (cn_depends_on l)"
      by (auto simp: dep_edges_def)
    with topo_graph.deps_in_graph [OF topo_graph_of_wf [OF assms]] obtain n where "n \<in> set (cw_nodes c)" "cn_id n = k"
      by blast
    with l inv show "\<exists>n. cw_node c k = Some n \<and> m \<in> set (cn_dependents n)"
      by (auto simp: wf_graph_cw_node [OF assms])
  next
    assume "\<exists>n. cw_node c k = Some n \<and> m \<in> set (cn_dependents n)"
    then obtain n where "n \<in> set (cw_nodes c)" "cn_id n = k" "m \<in> set (cn_dependents n)"
      by (auto simp: wf_graph_cw_node [OF assms])
    with inv show "(k, m) \<in> dep_edges (cw_nodes c)" by (auto simp: dep_edges_def)
  qed
qed

lemma reset_walk_downstream:
  assumes "wf_graph (cw_nodes c)"
  shows "set (bt_keys (reset_walk c [node] [])) = {m. (node, m) \<in> (dep_edges (cw_nodes c))\<^sup>*}"
    and "sorted (bt_keys (reset_walk c [node] []))" "distinct (bt_keys (reset_walk c [node] []))"
proof -
  let ?R = "fst ` set (reset_walk c [node] [])"
  have r: "node \<in> ?R" "dependents_closed c ?R ?R" "bt_wf (reset_walk c [node] [])"
    "\<And>T. node \<in> T \<Longrightarrow> dependents_closed c T T \<Longrightarrow> ?R \<subseteq> T"
    using reset_walk_closure [of c "[]" "[node]"] by (auto simp: dependents_closed_def)
  have "m \<in> ?R" if "(node, m) \<in> (dep_edges (cw_nodes c))\<^sup>*" for m
    using that
  proof (induction rule: rtrancl_induct)
    case (step y z)
    with r(2) show ?case by (fastforce simp: wf_graph_edges [OF assms] dependents_closed_def)
  qed (rule r(1))
  moreover have "?R \<subseteq> {m. (node, m) \<in> (dep_edges (cw_nodes c))\<^sup>*}"
  proof (rule r(4))
    show "dependents_closed c {m. (node, m) \<in> (dep_edges (cw_nodes c))\<^sup>*} {m. (node, m) \<in> (dep_edges (cw_nodes c))\<^sup>*}"
      unfolding dependents_closed_def
      by (auto intro: rtrancl_into_rtrancl simp: wf_graph_edges [OF assms])
  qed simp
  ultimately show "set (bt_keys (reset_walk c [node] [])) = {m. (node, m) \<in> (dep_edges (cw_nodes c))\<^sup>*}"
    by (auto simp: bt_keys_def)
  show "sorted (bt_keys (reset_walk c [node] []))" "distinct (bt_keys (reset_walk c [node] []))"
    using r(3) by (auto simp: bt_wf_def bt_keys_def strict_sorted_iff)
qed

lemma reset_row_idem [simp]: "reset_row (reset_row r) = reset_row r"
  by (simp add: reset_row_def)

lemma fold_reset_rows:
  "fold (\<lambda>i. update_nodes (is_node run i) reset_row) ids db =
     db\<lparr>db_nodes := map (\<lambda>r. if nr_run r = run \<and> nr_node_id r \<in> set ids then reset_row r else r) (db_nodes db)\<rparr>"
proof (induction ids arbitrary: db)
  case (Cons i ids)
  show ?case by (simp add: Cons.IH, simp add: update_nodes_def is_node_def)
    (auto intro!: arg_cong [where f = "\<lambda>ns. db\<lparr>db_nodes := ns\<rparr>"])
qed simp

lemma retry_from_node_Inr:
  "retry_from_node E now run node c db = Inr (db', ids) \<longleftrightarrow>
     (\<exists>snap. checked_snapshot E run c db = Inr snap) \<and> cw_node c node \<noteq> None \<and> ids = bt_keys (reset_walk c [node] [])
     \<and> db' = update_run run (\<lambda>r. r\<lparr>rr_state := ''running'', rr_updated_at := now\<rparr>)
         (db\<lparr>db_nodes := map (\<lambda>r. if nr_run r = run \<and> nr_node_id r \<in> set ids then reset_row r else r) (db_nodes db)\<rparr>)"
  by (auto simp: retry_from_node_def res_bind_Inr_iff Let_def fold_reset_rows)

subsection \<open>The run state as a compare-and-set cell\<close>

definition run_state_of :: "wf_db \<Rightarrow> string \<Rightarrow> run_state option" where
  "run_state_of db run =
     (case find_run run db of None \<Rightarrow> None
      | Some r \<Rightarrow> (case parse_run_state (rr_state r) of Inl _ \<Rightarrow> None | Inr st \<Rightarrow> Some st))"

text \<open>
  What the conductor and the driver rely on when they move a run between states: a conditional write applies
  exactly when the current state is one of those it names, changes that run only, and reports whether it applied.
\<close>

locale run_cell =
  fixes state_of :: "'db \<Rightarrow> string \<Rightarrow> run_state option"
    and cas :: "string \<Rightarrow> run_state list \<Rightarrow> run_state \<Rightarrow> 'db \<Rightarrow> 'db \<times> nat"
    and wf :: "'db \<Rightarrow> bool"
  assumes cas_applies: "wf db \<Longrightarrow> state_of db run = Some s \<Longrightarrow> s \<in> set legal \<Longrightarrow> cas run legal st db = (db', k) \<Longrightarrow>
      k = 1 \<and> state_of db' run = Some st"
    and cas_refuses: "wf db \<Longrightarrow> (\<And>s. state_of db run = Some s \<Longrightarrow> s \<notin> set legal) \<Longrightarrow> cas run legal st db = (db, 0)"
    and cas_frame: "wf db \<Longrightarrow> run' \<noteq> run \<Longrightarrow> cas run legal st db = (db', k) \<Longrightarrow> state_of db' run' = state_of db run'"
    and cas_wf: "wf db \<Longrightarrow> cas run legal st db = (db', k) \<Longrightarrow> wf db'"
begin

lemma cas_cases:
  assumes "wf db" "cas run legal st db = (db', k)"
  obtains (applied) s where "state_of db run = Some s" "s \<in> set legal" "k = 1" "state_of db' run = Some st"
  | (refused) "k = 0" "db' = db" "\<And>s. state_of db run = Some s \<Longrightarrow> s \<notin> set legal"
proof (cases "\<exists>s \<in> set legal. state_of db run = Some s")
  case True
  then obtain s where "state_of db run = Some s" "s \<in> set legal" by blast
  with applied cas_applies [OF assms(1) _ _ assms(2)] show thesis by blast
next
  case False
  then have "cas run legal st db = (db, 0)" by (intro cas_refuses [OF assms(1)]) auto
  with assms(2) False show thesis by (intro refused) auto
qed

lemma cas_count: "wf db \<Longrightarrow> cas run legal st db = (db', k) \<Longrightarrow> 0 < k \<longleftrightarrow> (\<exists>s \<in> set legal. state_of db run = Some s)"
  by (erule (1) cas_cases) auto

text \<open>A conditional write that names no terminal state leaves every terminal run as it is.\<close>

lemma cas_keeps_terminal:
  assumes "wf db" "cas run legal st db = (db', k)" "\<And>s. s \<in> set legal \<Longrightarrow> \<not> run_is_terminal s"
    "state_of db r = Some t" "run_is_terminal t"
  shows "state_of db' r = Some t"
  using assms(1,2)
proof (cases rule: cas_cases)
  case (applied s)
  with assms have "r \<noteq> run" by auto
  with cas_frame [OF assms(1) _ assms(2)] assms(4) show ?thesis by simp
qed (use assms in simp)

text \<open>Of two conditional writes racing from the same states, the second is refused.\<close>

lemma cas_race:
  assumes "wf db" "state_of db run = Some s" "s \<in> set legal" "st \<notin> set legal"
    "cas run legal st db = (db1, k1)" "cas run legal st' db1 = (db2, k2)"
  shows "k1 = 1 \<and> k2 = 0 \<and> db2 = db1 \<and> state_of db2 run = Some st"
proof -
  from cas_applies [OF assms(1,2,3,5)] have a: "k1 = 1" "state_of db1 run = Some st" by auto
  from cas_refuses [OF cas_wf [OF assms(1,5)], of run legal st'] a(2) assms(4,6) a show ?thesis by auto
qed

end

lemma find_run_map_if:
  assumes "\<And>r. rr_id (f r) = rr_id r"
  shows "find_run run (db\<lparr>db_runs := map f (db_runs db)\<rparr>) = map_option f (find_run run db)"
  by (simp add: find_run_def find_map assms)

lemma find_run_update:
  assumes "\<And>r. rr_id (f r) = rr_id r"
  shows "find_run run' (update_run run f db) = map_option (\<lambda>r. if rr_id r = run then f r else r) (find_run run' db)"
  unfolding update_run_def by (rule find_run_map_if) (simp add: assms)

lemma find_run_nodes [simp]: "find_run run (db\<lparr>db_nodes := ns\<rparr>) = find_run run db"
  by (simp add: find_run_def)

lemma run_state_of_Some: "db_wf db \<Longrightarrow> find_run run db = Some r \<Longrightarrow> \<exists>s. rr_state r = run_state_str s \<and> run_state_of db run = Some s"
proof -
  assume wf: "db_wf db" and f: "find_run run db = Some r"
  from find_run_Some [OF f] wf obtain s where "rr_state r = run_state_str s" by (auto simp: db_wf_def image_subset_iff)
  with f show ?thesis by (intro exI [of _ s]) (simp add: run_state_of_def)
qed

lemma set_run_state_if_legal_eq:
  assumes "legal \<noteq> []"
  shows "set_run_state_if_legal now run legal st db =
    (db\<lparr>db_runs := map (\<lambda>r. if rr_id r = run \<and> rr_state r \<in> run_state_str ` set legal
        then r\<lparr>rr_state := run_state_str st, rr_updated_at := now\<rparr> else r) (db_runs db)\<rparr>,
     length (filter (\<lambda>r. rr_id r = run \<and> rr_state r \<in> run_state_str ` set legal) (db_runs db)))"
  using assms by (simp add: set_run_state_if_legal_def Let_def)

interpretation rc: run_cell run_state_of "set_run_state_if_legal now" db_wf for now
proof
  fix db run s legal st db' and k :: nat
  assume wf: "db_wf db" and s: "run_state_of db run = Some s" "s \<in> set legal"
    and cas: "set_run_state_if_legal now run legal st db = (db', k)"
  from s(1) obtain r where r: "find_run run db = Some r" by (auto simp: run_state_of_def split: option.splits)
  from run_state_of_Some [OF wf r] s(1) have rs: "rr_state r = run_state_str s" by auto
  from s(2) have ne: "legal \<noteq> []" by auto
  have hit: "rr_id x = run \<and> rr_state x \<in> run_state_str ` set legal \<longleftrightarrow> x = r" if "x \<in> set (db_runs db)" for x
  proof
    assume "x = r"
    then show "rr_id x = run \<and> rr_state x \<in> run_state_str ` set legal" using find_run_Some [OF r] rs s(2) by simp
  next
    assume "rr_id x = run \<and> rr_state x \<in> run_state_str ` set legal"
    then show "x = r" using db_wf_find_run [OF wf that] r by simp
  qed
  have "filter (\<lambda>r. rr_id r = run \<and> rr_state r \<in> run_state_str ` set legal) (db_runs db) = filter (\<lambda>x. x = r) (db_runs db)"
    using hit by (rule filter_cong [OF refl])
  moreover have "distinct (db_runs db)" using wf by (auto simp: db_wf_def distinct_map)
  then have "length (filter (\<lambda>x. x = r) (db_runs db)) = 1"
    using find_run_Some [OF r] by (simp add: distinct_length_filter Collect_conv_if)
  ultimately have "k = 1" using cas by (simp add: set_run_state_if_legal_eq [OF ne])
  moreover have "run_state_of db' run = Some st"
    using cas r rs s(2) find_run_Some [OF r]
    by (auto simp: set_run_state_if_legal_eq [OF ne] run_state_of_def find_run_map_if)
  ultimately show "k = 1 \<and> run_state_of db' run = Some st" by blast
next
  fix db run legal st
  assume wf: "db_wf db" and no: "\<And>s. run_state_of db run = Some s \<Longrightarrow> s \<notin> set legal"
  have hit: "\<not> (rr_id x = run \<and> rr_state x \<in> run_state_str ` set legal)" if "x \<in> set (db_runs db)" for x
    using run_state_of_Some [OF wf db_wf_find_run [OF wf that]] no by auto
  then have "filter (\<lambda>r. rr_id r = run \<and> rr_state r \<in> run_state_str ` set legal) (db_runs db) = []"
    by (simp add: filter_empty_conv)
  moreover have "map (\<lambda>r. if rr_id r = run \<and> rr_state r \<in> run_state_str ` set legal
        then r\<lparr>rr_state := run_state_str st, rr_updated_at := now\<rparr> else r) (db_runs db) = db_runs db"
    by (rule map_idI) (use hit in auto)
  ultimately show "set_run_state_if_legal now run legal st db = (db, 0)"
    by (cases "legal = []") (simp_all only: set_run_state_if_legal_eq, simp_all add: set_run_state_if_legal_def)
next
  fix db run' run legal st db' and k :: nat
  assume "db_wf db" "run' \<noteq> run" "set_run_state_if_legal now run legal st db = (db', k)"
  then show "run_state_of db' run' = run_state_of db run'"
    using find_run_Some [of run' db]
    by (cases "legal = []"; cases "find_run run' db")
      (auto simp: set_run_state_if_legal_eq set_run_state_if_legal_def run_state_of_def find_run_map_if)
next
  fix db run legal st db' and k :: nat
  assume "db_wf db" "set_run_state_if_legal now run legal st db = (db', k)"
  then show "db_wf db'" using store_step_wf store_step.set_state_if_legal by blast
qed

subsection \<open>Idempotent creation\<close>

text \<open>The check of an existing run against an incoming request; it reads only the row's immutable columns.\<close>

definition existing_run_check ::
    "wf_env \<Rightarrow> compiled_workflow \<Rightarrow> string \<Rightarrow> json \<Rightarrow> idempotent_run_context \<Rightarrow> string option \<Rightarrow> run_row \<Rightarrow> workflow_store_error + unit" where
  "existing_run_check E c key inputs ctx digest r =
     (if ic_owner_uid ctx \<noteq> None \<and> rr_owner_uid r \<noteq> ic_owner_uid ctx then Inl (WS_IdempotencyOwnerMismatch key)
      else res_bind (workflow_manifest_identity E (rr_manifest_yaml r) (rr_graph_signature r)) (\<lambda>existing_digest.
        let existing_sig = workflow_request_signature E (rr_graph_signature r) (rr_inputs_json r) (rr_repository r) existing_digest;
            incoming = workflow_request_signature E (graph_sig E c) (js_to_text (e_serde E) inputs) (ic_repository ctx) digest in
        if existing_sig \<noteq> incoming then Inl (WS_IdempotencyKeyReused key existing_sig incoming) else Inr ()))"

lemma create_idempotent_existing:
  assumes "find_run (request_run_id E key ctx) db = Some r"
  shows "create_run_idempotent_inner E now uuid c key inputs ctx db =
    res_bind (workflow_manifest_identity E (ic_manifest ctx) (graph_sig E c)) (\<lambda>digest.
    res_map (\<lambda>_. (db, request_run_id E key ctx)) (existing_run_check E c key inputs ctx digest r))"
  using assms
  by (auto simp: create_run_idempotent_inner_def request_run_id_def [symmetric] insert_run_or_ignore_def
      existing_run_check_def Let_def res_bind_def res_map_def split: sum.splits)

lemma existing_run_check_identity:
  "run_identity r = run_identity r' \<Longrightarrow> existing_run_check E c key inputs ctx digest r = existing_run_check E c key inputs ctx digest r'"
proof -
  assume i: "run_identity r = run_identity r'"
  have "rr_owner_uid r = rr_owner_uid r'" "rr_manifest_yaml r = rr_manifest_yaml r'" "rr_repository r = rr_repository r'"
    "rr_graph_signature r = rr_graph_signature r'" "rr_inputs_json r = rr_inputs_json r'"
    using arg_cong [OF i, of rr_owner_uid] arg_cong [OF i, of rr_manifest_yaml] arg_cong [OF i, of rr_repository]
      arg_cong [OF i, of rr_graph_signature] arg_cong [OF i, of rr_inputs_json] by (simp_all add: run_identity_def)
  then show ?thesis by (simp add: existing_run_check_def)
qed

lemma create_idempotent_digest:
  "create_run_idempotent_inner E now uuid c key inputs ctx db = Inr (db', run) \<Longrightarrow>
     \<exists>digest. workflow_manifest_identity E (ic_manifest ctx) (graph_sig E c) = Inr digest"
  by (auto simp: create_run_idempotent_inner_def Let_def res_bind_Inr_iff)

text \<open>After a creation, the run it returned passes the check of the same request.\<close>

lemma create_idempotent_row:
  assumes cr: "create_run_idempotent_inner E now uuid c key inputs ctx db = Inr (db', run)"
    and digest: "workflow_manifest_identity E (ic_manifest ctx) (graph_sig E c) = Inr digest"
  obtains r where "find_run run db' = Some r" "existing_run_check E c key inputs ctx digest r = Inr ()"
  using cr
proof (cases rule: create_idempotent_Inr)
  case (existing r)
  with cr digest have "existing_run_check E c key inputs ctx digest r = Inr ()"
    by (auto simp: create_idempotent_existing res_map_Inr_iff)
  with existing that show thesis by simp
next
  case fresh
  let ?row = "pending_run_row E now run c None inputs (ic_manifest ctx) (ic_repository ctx) (ic_owner_uid ctx)"
  from insert_node_rows_Inr [OF fresh(3)] have "db_runs db' = db_runs db @ [?row]" by simp
  with fresh(2) have "find_run run db' = Some ?row" by (simp add: find_run_def find_append)
  moreover have "existing_run_check E c key inputs ctx digest ?row = Inr ()"
    using digest by (simp add: existing_run_check_def)
  ultimately show thesis by (rule that)
qed

text \<open>The bytes hashed for a request determine its parts, given that the first two fields are clean texts.\<close>

definition no_byte :: "char \<Rightarrow> string \<Rightarrow> bool" where
  "no_byte b s \<longleftrightarrow> b \<notin> set s"

lemma hash_opt_head: "\<exists>b t. hash_opt x @ u = b # t \<and> (b = CHR 0x00 \<or> b = CHR 0x01)"
  by (cases x) auto

lemma hash_opt_inj:
  assumes "hash_opt x @ u = hash_opt y @ v" "\<And>s. x = Some s \<or> y = Some s \<Longrightarrow> length s < 2 ^ 64"
  shows "x = y \<and> u = v"
proof (cases x)
  case None
  with assms(1) show ?thesis by (cases y) auto
next
  case (Some s)
  with assms(1) obtain t where t: "y = Some t" by (cases y) auto
  with Some assms(1) have eq: "le_bytes 8 (length s) @ s @ u = le_bytes 8 (length t) @ t @ v" by (simp add: hash_field_def)
  then have "le_bytes 8 (length s) = le_bytes 8 (length t)" "s @ u = t @ v" by (simp_all add: append_eq_append_conv)
  moreover have "length s < 256 ^ 8" "length t < 256 ^ 8" using assms(2) [of s] assms(2) [of t] Some t by simp_all
  ultimately have "length s = length t" using le_bytes_inj by blast
  with \<open>s @ u = t @ v\<close> Some t show ?thesis by simp
qed

lemma split_at_first:
  assumes "xs @ b # u = ys @ b' # v" "\<And>x. x \<in> set xs \<union> set ys \<Longrightarrow> \<not> P x" "P b" "P b'"
  shows "xs = ys \<and> b # u = b' # v"
proof -
  have tw: "takeWhile (\<lambda>x. \<not> P x) (zs @ c # w) = zs" if "\<And>x. x \<in> set zs \<Longrightarrow> \<not> P x" "P c" for zs c w
    using that by (simp add: takeWhile_append2)
  have "xs = ys" using tw [of xs b u] tw [of ys b' v] assms by auto
  with assms(1) show ?thesis by simp
qed

lemma request_bytes_inj:
  assumes eq: "request_bytes g i r d = request_bytes g' i' r' d'"
    and "no_byte (CHR 0x00) g" "no_byte (CHR 0x00) g'"
    and "no_byte (CHR 0x00) i" "no_byte (CHR 0x01) i" "no_byte (CHR 0x00) i'" "no_byte (CHR 0x01) i'"
    and len: "\<And>s. r = Some s \<or> r' = Some s \<or> d = Some s \<or> d' = Some s \<Longrightarrow> length s < 2 ^ 64"
  shows "g = g' \<and> i = i' \<and> r = r' \<and> d = d'"
proof -
  from split_at_first [of g "CHR 0x00" "i @ hash_opt r @ hash_opt d" g' "CHR 0x00" "i' @ hash_opt r' @ hash_opt d'" "\<lambda>x. x = CHR 0x00"]
    eq assms(2,3) have g: "g = g'" "i @ hash_opt r @ hash_opt d = i' @ hash_opt r' @ hash_opt d'"
    by (auto simp: request_bytes_def no_byte_def)
  obtain b u where b: "hash_opt r @ hash_opt d = b # u" "b = CHR 0x00 \<or> b = CHR 0x01" using hash_opt_head by blast
  obtain b' u' where b': "hash_opt r' @ hash_opt d' = b' # u'" "b' = CHR 0x00 \<or> b' = CHR 0x01" using hash_opt_head by blast
  from split_at_first [of i b u i' b' u' "\<lambda>x. x = CHR 0x00 \<or> x = CHR 0x01"] g(2) b b' assms(4-7)
  have i: "i = i'" "hash_opt r @ hash_opt d = hash_opt r' @ hash_opt d'" by (auto simp: no_byte_def)
  have "r = r' \<and> hash_opt d = hash_opt d'" by (rule hash_opt_inj [OF i(2)]) (use len in blast)
  moreover have "d = d'" if "hash_opt d = hash_opt d'"
    using hash_opt_inj [of d "[]" d' "[]"] that len by auto
  ultimately show ?thesis using g i by blast
qed

subsection \<open>An example store\<close>

definition env_example :: wf_env where
  "env_example = \<lparr>e_serde = serde_example, e_sha256_hex = filter (\<lambda>b. b \<noteq> CHR 0x00), e_yaml = (\<lambda>_. Some (example_workflow example_steps))\<rparr>"

definition ctx_example :: "u32 option \<Rightarrow> idempotent_run_context" where
  "ctx_example owner = \<lparr>ic_manifest = Some ''m'', ic_repository = None, ic_owner_uid = owner\<rparr>"

definition created_example :: "wf_db \<times> string" where
  "created_example = projr (create_run_idempotent_inner env_example ''t0'' (\<lambda>k. ''u'' @ dec k) example_compiled ''k'' JNull (ctx_example (Some 5)) empty_db)"

abbreviation "db_example \<equiv> fst created_example"
abbreviation "run_example \<equiv> snd created_example"

lemma create_example:
  "create_run_idempotent_inner env_example ''t0'' (\<lambda>k. ''u'' @ dec k) example_compiled ''k'' JNull (ctx_example (Some 5)) empty_db
     = Inr (db_example, run_example)"
proof -
  have "\<not> isl (create_run_idempotent_inner env_example ''t0'' (\<lambda>k. ''u'' @ dec k) example_compiled ''k'' JNull (ctx_example (Some 5)) empty_db)"
    unfolding example_compiled_def by code_simp
  then show ?thesis by (simp add: created_example_def)
qed

lemma db_example_reach: "store_reach env_example db_example"
  by (rule store_reach.step [OF store_reach.init store_step.create_idempotent [OF create_example]])

lemma db_example_row:
  "find_run run_example db_example
     = Some (pending_run_row env_example ''t0'' run_example example_compiled None JNull (Some ''m'') None (Some 5))"
  using create_example
proof (cases rule: create_idempotent_Inr)
  case (existing r)
  then show ?thesis by (simp add: empty_db_def find_run_def)
next
  case fresh
  from insert_node_rows_Inr [OF fresh(3)] show ?thesis by (simp add: empty_db_def find_run_def ctx_example_def)
qed

lemma db_example_state: "run_state_of db_example run_example = Some RPending"
proof -
  have "parse_run_state ''pending'' = Inr RPending" by code_simp
  then show ?thesis by (simp add: run_state_of_def db_example_row)
qed

lemma example_manifest_identity:
  "workflow_manifest_identity env_example (Some ''m'') sig
     = Inr (Some (definition_digest (e_sha256_hex env_example) (e_serde env_example) (example_workflow example_steps)))"
  if "sig = graph_sig env_example example_compiled"
  using that by (simp add: workflow_manifest_identity_def parse_definition_def env_example_def example_compile)

lemma db_example_rows: "map (\<lambda>r. (nr_node_id r, nr_state r)) (db_nodes db_example)
    = [(''review'', ''pending''), (''patch'', ''pending''), (''test'', ''pending'')]"
  unfolding created_example_def example_compiled_def by code_simp

definition snap_example :: "node_state list \<Rightarrow> run_snapshot" where
  "snap_example sts = \<lparr>sn_run = \<lparr>rec_id = ''r'', rec_workflow_id = ''demo'', rec_workflow_version = 1, rec_graph_signature = [],
       rec_run_id = None, rec_inputs = JNull, rec_state = RRunning\<rparr>,
     sn_nodes = map (\<lambda>(i, st). \<lparr>nd_id = i, nd_state = st, nd_agent_run_id = None, nd_attempt = 0, nd_topo_order = 0, nd_cost = None,
       nd_error = None\<rparr>) (zip [''review'', ''patch'', ''test''] sts)\<rparr>"

subsection \<open>Properties\<close>

text \<open>
  C20: on every database the store builds, keys are unique, every node and checkpoint row belongs to a run, and every
  stored state is one the code can parse.
\<close>

theorem store_tables_wf: "store_reach E db \<Longrightarrow> db_wf db"
  by (rule store_reach_wf)

theorem store_tables_wf_witness: "db_wf db_example"
  by (rule store_tables_wf [OF db_example_reach])

text \<open>
  C21: no sequence of operations of the store deletes a row or rewrites what a run was created from: its graph signature, inputs,
  manifest, repository and owner stay, and only its state and update time move. New rows are appended.
\<close>

theorem run_row_immutable:
  assumes "(store_step E)\<^sup>*\<^sup>* db db'" "find_run run db = Some r"
  shows "db_extends db db' \<and> (\<exists>r'. find_run run db' = Some r' \<and> run_identity r' = run_identity r)"
  using store_steps_extend [OF assms(1)] db_extends_find_run [OF store_steps_extend [OF assms(1)] assms(2)] by metis

theorem run_row_immutable_witness:
  "db_extends db_example (fst (skip_pending_nodes ''t1'' run_example db_example))
   \<and> (\<exists>r'. find_run run_example (fst (skip_pending_nodes ''t1'' run_example db_example)) = Some r'
        \<and> run_identity r' = run_identity (the (find_run run_example db_example)))"
proof (rule run_row_immutable)
  show "(store_step env_example)\<^sup>*\<^sup>* db_example (fst (skip_pending_nodes ''t1'' run_example db_example))"
    by (rule r_into_rtranclp, rule store_step.skip) (rule prod.collapse [symmetric])
  show "find_run run_example db_example = Some (the (find_run run_example db_example))" by (simp add: db_example_row)
qed

text \<open>
  C22: a duplicate delivery of a start request is harmless at any later time: whatever operations ran since the first
  delivery, repeating the request returns the same run id and changes nothing.
\<close>

theorem start_idempotent:
  assumes "create_run_idempotent_inner E now uuid c key inputs ctx db = Inr (db1, run)" "(store_step E)\<^sup>*\<^sup>* db1 db2"
  shows "create_run_idempotent_inner E now' uuid' c key inputs ctx db2 = Inr (db2, run)"
proof -
  from create_idempotent_digest [OF assms(1)] obtain digest
    where d: "workflow_manifest_identity E (ic_manifest ctx) (graph_sig E c) = Inr digest" by blast
  from assms(1) d obtain r where r: "find_run run db1 = Some r" "existing_run_check E c key inputs ctx digest r = Inr ()"
    by (rule create_idempotent_row)
  from store_steps_extend [OF assms(2)] r(1) obtain r' where r': "find_run run db2 = Some r'" "run_identity r' = run_identity r"
    by (rule db_extends_find_run)
  from assms(1) have "run = request_run_id E key ctx" by (cases rule: create_idempotent_Inr)
  with r' d r(2) existing_run_check_identity [OF r'(2)] show ?thesis
    by (simp add: create_idempotent_existing)
qed

theorem start_idempotent_witness:
  "create_run_idempotent_inner env_example ''t9'' (\<lambda>k. ''v'' @ dec k) example_compiled ''k'' JNull (ctx_example (Some 5)) db_example
     = Inr (db_example, run_example)"
  by (rule start_idempotent [OF create_example rtranclp.rtrancl_refl])

text \<open>
  a key never adopts a different request. If a start finds an existing run and succeeds, and the digest does not
  collide on the two requests, then that run has the same graph signature, the same inputs text, the same
  repository and the same manifest digest (and the same owner, when the request names one).
\<close>

lemma start_adopts_same_request:
  assumes "create_run_idempotent_inner E now uuid c key inputs ctx db = Inr (db', run)" "find_run run db = Some r"
    and "workflow_manifest_identity E (ic_manifest ctx) (graph_sig E c) = Inr digest"
    and "workflow_manifest_identity E (rr_manifest_yaml r) (rr_graph_signature r) = Inr digest'"
    and inj: "inj_on (e_sha256_hex E) {request_bytes (graph_sig E c) (js_to_text (e_serde E) inputs) (ic_repository ctx) digest,
        request_bytes (rr_graph_signature r) (rr_inputs_json r) (rr_repository r) digest'}"
    and clean: "\<forall>s \<in> {graph_sig E c, rr_graph_signature r, js_to_text (e_serde E) inputs, rr_inputs_json r}. no_byte (CHR 0x00) s"
      "no_byte (CHR 0x01) (js_to_text (e_serde E) inputs)" "no_byte (CHR 0x01) (rr_inputs_json r)"
    and len: "\<forall>v \<in> {ic_repository ctx, digest, rr_repository r, digest'}. \<forall>s \<in> set_option v. length s < 2 ^ 64"
  shows "rr_graph_signature r = graph_sig E c \<and> rr_inputs_json r = js_to_text (e_serde E) inputs
    \<and> rr_repository r = ic_repository ctx \<and> digest' = digest \<and> ic_owner_uid ctx \<in> {None, rr_owner_uid r}"
proof -
  from assms(1) have run: "run = request_run_id E key ctx" by (cases rule: create_idempotent_Inr)
  with assms(1-3) have chk: "existing_run_check E c key inputs ctx digest r = Inr ()"
    by (auto simp: create_idempotent_existing res_map_Inr_iff)
  with assms(4) have eq: "workflow_request_signature E (rr_graph_signature r) (rr_inputs_json r) (rr_repository r) digest'
      = workflow_request_signature E (graph_sig E c) (js_to_text (e_serde E) inputs) (ic_repository ctx) digest"
    and owner: "ic_owner_uid ctx \<in> {None, rr_owner_uid r}"
    by (auto simp: existing_run_check_def Let_def split: if_splits)
  from eq have "request_bytes (rr_graph_signature r) (rr_inputs_json r) (rr_repository r) digest'
      = request_bytes (graph_sig E c) (js_to_text (e_serde E) inputs) (ic_repository ctx) digest"
    unfolding workflow_request_signature_def by (rule inj_onD [OF inj]) simp_all
  then have "rr_graph_signature r = graph_sig E c \<and> rr_inputs_json r = js_to_text (e_serde E) inputs
      \<and> rr_repository r = ic_repository ctx \<and> digest' = digest"
  proof (rule request_bytes_inj)
    fix s assume "rr_repository r = Some s \<or> ic_repository ctx = Some s \<or> digest' = Some s \<or> digest = Some s"
    with len show "length s < 2 ^ 64" by auto
  qed (use clean in simp_all)
  with owner show ?thesis by simp
qed

text \<open>
  retrying from a node resets exactly that node and everything downstream of it in the run, to a fresh pending
  row, leaves every other row alone, and sets the run running; the returned ids are the downstream set, sorted.
\<close>

lemma retry_resets_downstream:
  assumes "compile d = Inr c" "retry_from_node E now run node c db = Inr (db', ids)"
  shows "sorted ids \<and> distinct ids \<and> set ids = {m. (node, m) \<in> (dep_edges (cw_nodes c))\<^sup>*}
    \<and> db_nodes db' = map (\<lambda>r. if nr_run r = run \<and> (node, nr_node_id r) \<in> (dep_edges (cw_nodes c))\<^sup>* then reset_row r else r) (db_nodes db)
    \<and> run_state_of db' run = Some RRunning \<and> (\<forall>run'. run' \<noteq> run \<longrightarrow> find_run run' db' = find_run run' db)"
proof -
  from assms(2) obtain snap where snap: "checked_snapshot E run c db = Inr snap" and ids: "ids = bt_keys (reset_walk c [node] [])"
    and db': "db' = update_run run (\<lambda>r. r\<lparr>rr_state := ''running'', rr_updated_at := now\<rparr>)
         (db\<lparr>db_nodes := map (\<lambda>r. if nr_run r = run \<and> nr_node_id r \<in> set ids then reset_row r else r) (db_nodes db)\<rparr>)"
    by (auto simp: retry_from_node_Inr)
  note w = reset_walk_downstream [OF compile_graph_facts(1) [OF assms(1)], of node, folded ids]
  have f: "find_run run' db' = map_option (\<lambda>r. if rr_id r = run then r\<lparr>rr_state := ''running'', rr_updated_at := now\<rparr> else r) (find_run run' db)" for run'
    by (simp add: db' find_run_update)
  from snap obtain r where r: "find_run run db = Some r"
    by (cases "find_run run db") (auto simp: checked_snapshot_def snapshot_def)
  with f [of run] find_run_Some [OF r] have "run_state_of db' run = Some RRunning"
    by (simp add: run_state_of_def parse_run_state_def)
  moreover have "find_run run' db' = find_run run' db" if "run' \<noteq> run" for run'
    using f [of run'] find_run_Some [of run' db] that by (cases "find_run run' db") auto
  moreover have "db_nodes db' = map (\<lambda>r. if nr_run r = run \<and> (node, nr_node_id r) \<in> (dep_edges (cw_nodes c))\<^sup>* then reset_row r else r) (db_nodes db)"
    using w(1) by (simp add: db' update_run_def)
  ultimately show ?thesis using w by blast
qed

text \<open>
  the blocked list is exact: it names precisely the live nodes with a failed or skipped ancestor, each with such an
  ancestor. When every node is pending or ended and the frontier is empty, every pending node is listed, so a
  run with no ready node and no blocked node has nothing left to do.
\<close>

lemma blocked_nodes_exact:
  assumes "compile d = Inr c" "states = snap_states snap"
  shows "(\<forall>(i, b) \<in> set (blocked_node_ids c snap). blocked_by (cw_nodes c) states b i \<and> live_state states i)
    \<and> (\<forall>n \<in> set (cw_nodes c). cn_id n \<in> fst ` set (blocked_node_ids c snap)
         \<longleftrightarrow> live_state states (cn_id n) \<and> (\<exists>b. blocked_by (cw_nodes c) states b (cn_id n)))
    \<and> ((\<forall>n \<in> set (cw_nodes c). states (cn_id n) \<in> Some ` {NPending, NCompleted, NFailed, NSkipped})
         \<and> ready_node_ids c snap = []
         \<longrightarrow> (\<forall>n \<in> set (cw_nodes c). states (cn_id n) = Some NPending \<longrightarrow> cn_id n \<in> fst ` set (blocked_node_ids c snap)))"
proof -
  have g: "topo_graph (cw_nodes c) cn_id cn_depends_on"
    using cg.topo_graph_axioms [of d] by (simp add: compiled_nodes_Inr [OF assms(1)])
  note b = blocked_node_ids_iff [OF g]
  have iff: "cn_id n \<in> fst ` set (blocked_node_ids c snap) \<longleftrightarrow> live_state states (cn_id n) \<and> (\<exists>b. blocked_by (cw_nodes c) states b (cn_id n))"
    if "n \<in> set (cw_nodes c)" for n
    using b(1) [of "cn_id n"] b(2) [OF that] assms(2) by force
  have "cn_id n \<in> fst ` set (blocked_node_ids c snap)"
    if "\<forall>n \<in> set (cw_nodes c). states (cn_id n) \<in> Some ` {NPending, NCompleted, NFailed, NSkipped}"
      "ready_node_ids c snap = []" "n \<in> set (cw_nodes c)" "states (cn_id n) = Some NPending" for n
    using pending_not_ready_blocked [OF g _ that(2,3)] that iff [OF that(3)] assms(2) by (auto simp: live_state_def)
  with b(1) iff assms(2) show ?thesis by blast
qed

text \<open>
  a conditional state write names the only way in: of two writers racing from the same states the second is
  refused and leaves the first one's state, and a write that names no terminal state cannot move any finished run.
\<close>

lemma racing_state_writes:
  assumes "db_wf db" "run_state_of db run = Some s" "s \<in> set legal" "st \<notin> set legal"
    and "set_run_state_if_legal now run legal st db = (db1, k1)" "set_run_state_if_legal now' run legal st' db1 = (db2, k2)"
  shows "k1 = 1 \<and> k2 = 0 \<and> db2 = db1 \<and> run_state_of db2 run = Some st
    \<and> ((\<forall>s \<in> set legal. \<not> run_is_terminal s) \<longrightarrow>
         (\<forall>r t. run_state_of db r = Some t \<and> run_is_terminal t \<longrightarrow> run_state_of db2 r = Some t))"
proof -
  from rc.cas_applies [OF assms(1-3,5)] have a: "k1 = 1" "run_state_of db1 run = Some st" by auto
  have "set_run_state_if_legal now' run legal st' db1 = (db1, 0)"
    by (rule rc.cas_refuses [OF rc.cas_wf [OF assms(1,5)]]) (use a assms(4) in auto)
  with assms(6) have k: "k2 = 0" "db2 = db1" by auto
  with a rc.cas_keeps_terminal [OF assms(1,5)] show ?thesis by blast
qed

text \<open>
  the owner prefix of a principal-bound key is part of the hashed text, and the unowned path skips the owner
  check: a start without an owner whose key spells \<open>owner:<uid>:<key>\<close> and repeats the request resolves to that
  owner's run instead of being refused or getting a run of its own.
\<close>

lemma unowned_key_adopts_owned_run:
  assumes "create_run_idempotent_owned E now uuid c key inputs \<lparr>at_manifest = mani, at_repository = repo, at_owner_uid = owner\<rparr> db
    = Inr (db1, run)"
  shows "create_run_idempotent E now' uuid' c (owner_key owner key) inputs mani repo db1 = Inr (db1, run)"
proof -
  let ?ctx = "\<lparr>ic_manifest = mani, ic_repository = repo, ic_owner_uid = Some owner\<rparr>"
  let ?ctx' = "\<lparr>ic_manifest = mani, ic_repository = repo, ic_owner_uid = None\<rparr>"
  from assms have cr: "create_run_idempotent_inner E now uuid c key inputs ?ctx db = Inr (db1, run)"
    by (simp add: create_run_idempotent_owned_def)
  from create_idempotent_digest [OF cr] obtain digest
    where d: "workflow_manifest_identity E mani (graph_sig E c) = Inr digest" by auto
  with cr obtain r where r: "find_run run db1 = Some r" "existing_run_check E c key inputs ?ctx digest r = Inr ()"
    using create_idempotent_row [OF cr] by auto
  from cr have run: "run = request_run_id E key ?ctx" by (cases rule: create_idempotent_Inr)
  then have "run = request_run_id E (owner_key owner key) ?ctx'" by (simp add: request_run_id_def)
  moreover from r(2) have "existing_run_check E c (owner_key owner key) inputs ?ctx' digest r = Inr ()"
    by (auto simp: existing_run_check_def Let_def res_bind_Inr_iff split: if_splits)
  ultimately show ?thesis using r(1) d by (simp add: create_run_idempotent_def create_idempotent_existing)
qed

end
