(* ===== verification/Budget.thy ===== *)
theory Budget
  imports Workflow_Model "HOL-Library.Multiset"
begin

text \<open>
  Budget accounting (\<open>crates/workflow/src/budget.rs\<close>): the measured cost of a node, its JSON form, the
  saturating sum of costs, the nested ceilings, and the verdict of charging a cost against them.
  Integers are 64-bit words; the sums and the 80\% test saturate as the code's do.
\<close>

record node_cost =
  wall_time_secs :: u64
  tool_calls :: u64
  cost_micros :: "u64 option"
  tokens :: "u64 option"

definition zero_cost :: node_cost where
  "zero_cost = \<lparr>wall_time_secs = 0, tool_calls = 0, cost_micros = None, tokens = None\<rparr>"

definition put_measured :: "string \<Rightarrow> u64 option \<Rightarrow> json btree \<Rightarrow> json btree" where
  "put_measured k v m = (case v of None \<Rightarrow> m | Some n \<Rightarrow> bt_insert k (json_u64 n) m)"

definition cost_to_json :: "node_cost \<Rightarrow> json" where
  "cost_to_json c = JObj
     (put_measured ''tokens'' (tokens c)
       (put_measured ''cost_micros'' (cost_micros c)
         (bt_insert ''tool_calls'' (json_u64 (tool_calls c))
           (bt_insert ''wall_time_secs'' (json_u64 (wall_time_secs c)) []))))"

definition cost_field :: "json \<Rightarrow> string \<Rightarrow> u64 option" where
  "cost_field v k = Option.bind (json_get v k) as_u64"

definition cost_from_json :: "json \<Rightarrow> node_cost" where
  "cost_from_json v =
     \<lparr>wall_time_secs = (case cost_field v ''wall_time_secs'' of None \<Rightarrow> 0 | Some n \<Rightarrow> n),
      tool_calls = (case cost_field v ''tool_calls'' of None \<Rightarrow> 0 | Some n \<Rightarrow> n),
      cost_micros = cost_field v ''cost_micros'',
      tokens = cost_field v ''tokens''\<rparr>"

fun add_measured_cost :: "u64 option \<Rightarrow> u64 option \<Rightarrow> u64 option" where
  "add_measured_cost None None = None"
| "add_measured_cost (Some x) None = Some x"
| "add_measured_cost None (Some x) = Some x"
| "add_measured_cost (Some x) (Some y) = Some (sat_add x y)"

definition cost_add :: "node_cost \<Rightarrow> node_cost \<Rightarrow> node_cost" where
  "cost_add a b =
     \<lparr>wall_time_secs = sat_add (wall_time_secs a) (wall_time_secs b),
      tool_calls = sat_add (tool_calls a) (tool_calls b),
      cost_micros = add_measured_cost (cost_micros a) (cost_micros b),
      tokens = add_measured_cost (tokens a) (tokens b)\<rparr>"

datatype budget_dimension = WallTime | ToolCalls | Cost

fun dimension_str :: "budget_dimension \<Rightarrow> string" where
  "dimension_str WallTime = ''wall_time_secs''"
| "dimension_str ToolCalls = ''tool_calls''"
| "dimension_str Cost = ''cost_micros''"

datatype budget_scope = ScopeNode | ScopeWorkflow

fun scope_str :: "budget_scope \<Rightarrow> string" where
  "scope_str ScopeNode = ''node''"
| "scope_str ScopeWorkflow = ''workflow''"

text \<open>\<open>BudgetWarning\<close> and \<open>BudgetExceeded\<close> carry the same four fields.\<close>

record budget_event =
  be_dimension :: budget_dimension
  be_scope :: budget_scope
  be_used :: u64
  be_limit :: u64

definition exceeded_reason :: "budget_event \<Rightarrow> string" where
  "exceeded_reason e =
     ''workflow.budget-exceeded: '' @ scope_str (be_scope e) @ '' budget for `'' @
     dimension_str (be_dimension e) @ ''` exceeded ('' @ dec (unat (be_used e)) @ '' used, limit '' @
     dec (unat (be_limit e)) @ '')''"

datatype budget_verdict = Within "budget_event list" | Exceeded budget_event

record budget_limits =
  node_max_wall_secs :: "u64 option"
  node_max_tool_calls :: "u64 option"
  node_max_cost_micros :: "u64 option"
  workflow_max_wall_secs :: "u64 option"
  workflow_max_cost_micros :: "u64 option"

definition usd_to_micros :: "f64 \<Rightarrow> u64" where
  "usd_to_micros usd =
     (if \<not> f64_is_finite usd \<or> f64_nonpos usd then 0
      else f64_as_u64 (f64_round (f64_mul usd (F_Fin 1000000))))"

definition resolve_limits :: "workflow_budget \<Rightarrow> agent_budget option \<Rightarrow> budget_limits" where
  "resolve_limits w n =
     \<lparr>node_max_wall_secs = Option.bind n ab_maximum_duration_seconds,
      node_max_tool_calls = Option.bind n ab_maximum_tool_calls,
      node_max_cost_micros = map_option usd_to_micros (Option.bind n ab_maximum_cost_usd),
      workflow_max_wall_secs = maximum_duration_seconds w,
      workflow_max_cost_micros = map_option usd_to_micros (maximum_cost_usd w)\<rparr>"

definition is_unbounded :: "budget_limits \<Rightarrow> bool" where
  "is_unbounded l \<longleftrightarrow> node_max_wall_secs l = None \<and> node_max_tool_calls l = None
     \<and> node_max_cost_micros l = None \<and> workflow_max_wall_secs l = None \<and> workflow_max_cost_micros l = None"

text \<open>
  \<open>check\<close>: one dimension against one ceiling. The warnings pushed so far go in and come out; \<open>Inl\<close> is
  the breach that ends the charge.
\<close>

definition check :: "budget_scope \<Rightarrow> budget_dimension \<Rightarrow> u64 \<Rightarrow> u64 option \<Rightarrow> budget_event list
    \<Rightarrow> budget_event + budget_event list" where
  "check scope dimension used limit warnings =
     (case limit of
        None \<Rightarrow> Inr warnings
      | Some ceil \<Rightarrow>
          let e = \<lparr>be_dimension = dimension, be_scope = scope, be_used = used, be_limit = ceil\<rparr> in
          if ceil < used then Inl e
          else if 0 < used \<and> sat_mul ceil 4 \<le> sat_mul used 5 then Inr (warnings @ [e])
          else Inr warnings)"

text \<open>The check of a dimension that is charged only when it was measured.\<close>

definition check_measured :: "budget_scope \<Rightarrow> budget_dimension \<Rightarrow> u64 option \<Rightarrow> u64 option \<Rightarrow> budget_event list
    \<Rightarrow> budget_event + budget_event list" where
  "check_measured scope dimension used limit warnings =
     (case used of None \<Rightarrow> Inr warnings | Some u \<Rightarrow> check scope dimension u limit warnings)"

definition charge :: "budget_limits \<Rightarrow> node_cost \<Rightarrow> node_cost \<Rightarrow> budget_verdict" where
  "charge l others node_cost =
     (let totals = cost_add others node_cost in
      case res_bind (check ScopeNode WallTime (wall_time_secs node_cost) (node_max_wall_secs l) []) (\<lambda>w1.
           res_bind (check ScopeNode ToolCalls (tool_calls node_cost) (node_max_tool_calls l) w1) (\<lambda>w2.
           res_bind (check_measured ScopeNode Cost (cost_micros node_cost) (node_max_cost_micros l) w2) (\<lambda>w3.
           res_bind (check ScopeWorkflow WallTime (wall_time_secs totals) (workflow_max_wall_secs l) w3) (\<lambda>w4.
           check_measured ScopeWorkflow Cost (cost_micros totals) (workflow_max_cost_micros l) w4)))) of
        Inl e \<Rightarrow> Exceeded e
      | Inr warnings \<Rightarrow> Within warnings)"

subsection \<open>Costs form a commutative monoid\<close>

lemma add_measured_cost_None [simp]: "add_measured_cost None x = x" "add_measured_cost x None = x"
  by (cases x; simp)+

lemma add_measured_cost_commute: "add_measured_cost x y = add_measured_cost y x"
  by (cases x; cases y) (simp_all add: sat_add_commute)

lemma add_measured_cost_assoc:
  "add_measured_cost (add_measured_cost x y) z = add_measured_cost x (add_measured_cost y z)"
  by (cases x; cases y; cases z) (simp_all add: sat_add_assoc)

interpretation cost: comm_monoid cost_add zero_cost
  by unfold_locales
     (simp_all add: cost_add_def zero_cost_def add_measured_cost_assoc sat_add_assoc,
      simp add: sat_add_commute add_measured_cost_commute)

text \<open>The consumption of a run: the sum of its nodes' costs.\<close>

definition total_cost :: "node_cost list \<Rightarrow> node_cost" where
  "total_cost cs = foldr cost_add cs zero_cost"

lemma total_cost_simps [simp]:
  "total_cost [] = zero_cost" "total_cost (c # cs) = cost_add c (total_cost cs)"
  by (simp_all add: total_cost_def)

lemma total_cost_remove1: "c \<in> set ds \<Longrightarrow> total_cost ds = cost_add c (total_cost (remove1 c ds))"
  by (induction ds) (auto simp: cost.left_commute)

text \<open>The order of the nodes does not matter.\<close>

lemma total_cost_mset: "mset cs = mset ds \<Longrightarrow> total_cost cs = total_cost ds"
proof (induction cs arbitrary: ds)
  case (Cons c cs)
  then have "c \<in> set ds" by (metis list.set_intros(1) set_mset_mset)
  moreover have "mset cs = mset (remove1 c ds)" using Cons.prems by (simp flip: Cons.prems)
  ultimately show ?case using Cons.IH [of "remove1 c ds"] total_cost_remove1 [of c ds] by simp
qed simp

lemma total_cost_append: "total_cost (cs @ ds) = cost_add (total_cost cs) (total_cost ds)"
  by (induction cs) (simp_all add: cost.assoc)

subsection \<open>The verdict against its specification\<close>

text \<open>
  The lines a charge looks at, in order: what was used (if it was measured) and the ceiling (if there
  is one) of each scope and dimension.
\<close>

definition budget_line :: "budget_scope \<Rightarrow> budget_dimension \<Rightarrow> u64 option \<Rightarrow> u64 option \<Rightarrow> budget_event list" where
  "budget_line scope dm used limit =
     (case (used, limit) of
        (Some u, Some m) \<Rightarrow> [\<lparr>be_dimension = dm, be_scope = scope, be_used = u, be_limit = m\<rparr>]
      | _ \<Rightarrow> [])"

definition budget_lines :: "budget_limits \<Rightarrow> node_cost \<Rightarrow> node_cost \<Rightarrow> budget_event list" where
  "budget_lines l others c =
     budget_line ScopeNode WallTime (Some (wall_time_secs c)) (node_max_wall_secs l)
     @ budget_line ScopeNode ToolCalls (Some (tool_calls c)) (node_max_tool_calls l)
     @ budget_line ScopeNode Cost (cost_micros c) (node_max_cost_micros l)
     @ budget_line ScopeWorkflow WallTime (Some (wall_time_secs (cost_add others c))) (workflow_max_wall_secs l)
     @ budget_line ScopeWorkflow Cost (cost_micros (cost_add others c)) (workflow_max_cost_micros l)"

definition over :: "budget_event \<Rightarrow> bool" where
  "over e \<longleftrightarrow> be_limit e < be_used e"

definition near :: "budget_event \<Rightarrow> bool" where
  "near e \<longleftrightarrow> 0 < be_used e \<and> sat_mul (be_limit e) 4 \<le> sat_mul (be_used e) 5"

text \<open>The first line over its ceiling decides; otherwise every line near its ceiling warns.\<close>

definition verdict_of :: "budget_event list \<Rightarrow> budget_verdict" where
  "verdict_of ls = (case find over ls of Some e \<Rightarrow> Exceeded e | None \<Rightarrow> Within (filter near ls))"

text \<open>Checking one dimension is the specification on its line alone.\<close>

lemma check_measured_line:
  "check_measured scope dm used limit ws =
     (case find over (budget_line scope dm used limit) of
        Some e \<Rightarrow> Inl e | None \<Rightarrow> Inr (ws @ filter near (budget_line scope dm used limit)))"
  by (auto simp: check_measured_def check_def budget_line_def over_def near_def Let_def split: option.splits)

lemma check_eq_measured: "check scope dm used limit ws = check_measured scope dm (Some used) limit ws"
  by (simp add: check_measured_def)

lemma charge_refines: "charge l others c = verdict_of (budget_lines l others c)"
  unfolding charge_def verdict_of_def budget_lines_def check_eq_measured check_measured_line
  by (simp add: Let_def find_append split: option.splits)

subsection \<open>Monotonicity\<close>

fun measured_le :: "u64 option \<Rightarrow> u64 option \<Rightarrow> bool" where
  "measured_le None y = True"
| "measured_le (Some x) None = False"
| "measured_le (Some x) (Some y) = (x \<le> y)"

definition cost_le :: "node_cost \<Rightarrow> node_cost \<Rightarrow> bool" where
  "cost_le a b \<longleftrightarrow> wall_time_secs a \<le> wall_time_secs b \<and> tool_calls a \<le> tool_calls b
     \<and> measured_le (cost_micros a) (cost_micros b) \<and> measured_le (tokens a) (tokens b)"

lemma sat_add_mono: "a \<le> a' \<Longrightarrow> b \<le> b' \<Longrightarrow> sat_add a b \<le> sat_add a' b'"
  by (auto simp: word_le_nat_alt unat_sat_add)

lemma sat_add_ge: "a \<le> sat_add a b" "b \<le> sat_add a b"
  using unat_bound64 [of a] unat_bound64 [of b] by (auto simp: word_le_nat_alt unat_sat_add)

lemma measured_le_refl [simp]: "measured_le x x"
  by (cases x) auto

lemma add_measured_mono:
  "measured_le x x' \<Longrightarrow> measured_le y y' \<Longrightarrow> measured_le (add_measured_cost x y) (add_measured_cost x' y')"
  by (cases x; cases y; cases x'; cases y')
     (auto intro: sat_add_mono order.trans sat_add_ge)

lemma cost_add_mono: "cost_le a a' \<Longrightarrow> cost_le b b' \<Longrightarrow> cost_le (cost_add a b) (cost_add a' b')"
  by (simp add: cost_le_def cost_add_def sat_add_mono add_measured_mono)

lemma cost_le_zero [simp]: "cost_le zero_cost c" and cost_le_refl [simp]: "cost_le c c"
  by (simp_all add: cost_le_def zero_cost_def)

text \<open>A line over its ceiling stays over when the costs grow.\<close>

definition line_over :: "budget_scope \<Rightarrow> budget_dimension \<Rightarrow> u64 option \<Rightarrow> u64 option \<Rightarrow> bool" where
  "line_over s d u l \<longleftrightarrow> (\<exists>e \<in> set (budget_line s d u l). over e)"

lemma line_over_mono: "line_over s d u l \<Longrightarrow> measured_le u v \<Longrightarrow> line_over s d v l"
  by (cases u; cases v; cases l) (auto simp: line_over_def budget_line_def over_def)

lemma budget_lines_over_iff:
  "(\<exists>e \<in> set (budget_lines l others c). over e) \<longleftrightarrow>
     line_over ScopeNode WallTime (Some (wall_time_secs c)) (node_max_wall_secs l)
     \<or> line_over ScopeNode ToolCalls (Some (tool_calls c)) (node_max_tool_calls l)
     \<or> line_over ScopeNode Cost (cost_micros c) (node_max_cost_micros l)
     \<or> line_over ScopeWorkflow WallTime (Some (wall_time_secs (cost_add others c))) (workflow_max_wall_secs l)
     \<or> line_over ScopeWorkflow Cost (cost_micros (cost_add others c)) (workflow_max_cost_micros l)"
  unfolding budget_lines_def line_over_def set_append bex_Un ..

lemma budget_lines_over_mono:
  assumes "\<exists>e \<in> set (budget_lines l o1 c). over e" "cost_le o1 o2" "cost_le c d"
  shows "\<exists>e \<in> set (budget_lines l o2 d). over e"
proof -
  have "cost_le (cost_add o1 c) (cost_add o2 d)" by (rule cost_add_mono) fact+
  with assms(3) have "measured_le (Some (wall_time_secs c)) (Some (wall_time_secs d))"
    "measured_le (Some (tool_calls c)) (Some (tool_calls d))"
    "measured_le (cost_micros c) (cost_micros d)"
    "measured_le (Some (wall_time_secs (cost_add o1 c))) (Some (wall_time_secs (cost_add o2 d)))"
    "measured_le (cost_micros (cost_add o1 c)) (cost_micros (cost_add o2 d))"
    by (simp_all add: cost_le_def)
  with assms(1) line_over_mono show ?thesis unfolding budget_lines_over_iff by meson
qed

lemma charge_Exceeded_iff: "(\<exists>e. charge l others c = Exceeded e) \<longleftrightarrow> (\<exists>e \<in> set (budget_lines l others c). over e)"
  by (auto simp: charge_refines verdict_of_def find_None_iff split: option.splits dest: find_Some_D)

subsection \<open>Properties\<close>








text \<open>
  exhaustion is monotone: a charge that exceeds a ceiling still exceeds one when the node or the
  other nodes have spent more, in particular when the pre-gate (a zero cost) already exceeds.
\<close>

lemma charge_exceeded_mono:
  assumes "charge l others c = Exceeded e" "cost_le others others'" "cost_le c c'"
  shows "\<exists>e'. charge l others' c' = Exceeded e'"
proof -
  have "\<exists>e \<in> set (budget_lines l others c). over e"
    using assms(1) by (simp flip: charge_Exceeded_iff)
  from budget_lines_over_mono [OF this assms(2,3)] show ?thesis by (simp add: charge_Exceeded_iff)
qed


definition cost_example :: "u64 \<Rightarrow> node_cost" where
  "cost_example w = \<lparr>wall_time_secs = w, tool_calls = 1, cost_micros = None, tokens = None\<rparr>"

text \<open>
  an unmeasured spend is never charged: when neither the node nor the other nodes reported a cost,
  the cost ceilings have no effect on the verdict.
\<close>

lemma charge_unmeasured_cost:
  assumes "cost_micros others = None" "cost_micros c = None"
  shows "charge l others c = charge (l\<lparr>node_max_cost_micros := n, workflow_max_cost_micros := w\<rparr>) others c"
  using assms by (simp add: charge_refines budget_lines_def cost_add_def budget_line_def)


text \<open>C36: a cost survives the round trip through the node record's JSON, unmeasured dimensions included.\<close>

theorem cost_json_roundtrip: "cost_from_json (cost_to_json c) = c"
  by (cases "cost_micros c"; cases "tokens c")
     (simp_all add: cost_from_json_def cost_to_json_def cost_field_def put_measured_def)

text \<open>
  for a ceiling close to the top of \<open>u64\<close> both products saturate and the test warns although only a
  quarter of the budget is used.
\<close>

lemma warning_threshold_saturates:
  "charge \<lparr>node_max_wall_secs = Some (- 1), node_max_tool_calls = None, node_max_cost_micros = None,
           workflow_max_wall_secs = None, workflow_max_cost_micros = None\<rparr> zero_cost (cost_example (2 ^ 62))
   = Within [\<lparr>be_dimension = WallTime, be_scope = ScopeNode, be_used = 2 ^ 62, be_limit = - 1\<rparr>]
   \<and> 4 * unat ((2 ^ 62) :: u64) < unat (- 1 :: u64) + 4"
  by (simp add: charge_def cost_example_def zero_cost_def cost_add_def check_def check_measured_def
      word_le_nat_alt word_less_nat_alt unat_sat_mul)

text \<open>
  a ceiling of a whole number of dollars is exact in micro-dollars as long as the product is below
  \<open>2 ^ 53\<close> (about nine thousand million dollars): the float product, its rounding and the cast lose nothing.
\<close>

lemma usd_to_micros_exact:
  assumes "n * 1000000 < 2 ^ 53"
  shows "usd_to_micros (F_Fin (of_nat n)) = word_of_nat (n * 1000000)"
proof (cases "n = 0")
  case False
  have m: "f64_of_rat (of_nat n * 1000000) = F_Fin (of_nat (n * 1000000))"
    using f64_of_rat_nat [OF assms] by simp
  have fl: "\<lfloor>(of_nat k :: rat) + 1 / 2\<rfloor> = int k" for k
    by (rule floor_unique) simp_all
  have "usd_to_micros (F_Fin (of_nat n)) = f64_as_u64 (F_Fin (of_nat (n * 1000000)))"
    using False fl [of "n * 1000000"] by (simp add: usd_to_micros_def m)
  also have "\<dots> = word_of_nat (n * 1000000)"
    using False assms floor_of_nat [of "n * 1000000", where 'a = rat] by simp
  finally show ?thesis .
qed (simp add: usd_to_micros_def)

end
