(* ===== verification/Drive.thy ===== *)
theory Drive
  imports Store Budget
begin

text \<open>
  The workflow driver (\<open>crates/workflow/src/drive.rs\<close>) as a step machine over the store's tables. The driver's program
  counter \<open>driver_pc\<close> stands at the awaits of \<open>run_observed\<close>; each node future of a wave is a \<open>task\<close> with the program
  counter of \<open>run_node\<close>. A step is one store operation: of the driver, of one task in flight, or of a concurrent
  command (pause, cancel, resume) or of the executor parking its node. The executor's outcomes are choices of
  the environment, and so are the readings of the clock.
\<close>

subsection \<open>Outcomes, transitions and observers\<close>

datatype node_outcome =
    O_Completed "string option" "json option" "budget_event list"
  | O_Failed string
  | O_Blocked string "json option"

definition outcome_completed :: node_outcome where
  "outcome_completed = O_Completed None None []"

definition outcome_failed :: "string \<Rightarrow> node_outcome" where
  "outcome_failed err = O_Failed err"

definition outcome_blocked :: "string \<Rightarrow> json option \<Rightarrow> node_outcome" where
  "outcome_blocked err cost = O_Blocked err cost"

record node_transition =
  tr_node_id :: string
  tr_state :: node_state
  tr_attempt :: u32
  tr_cost :: "json option"
  tr_error :: "string option"
  tr_warnings :: "budget_event list"

definition new_transition :: "string \<Rightarrow> node_state \<Rightarrow> u32 \<Rightarrow> node_transition" where
  "new_transition i st att =
     \<lparr>tr_node_id = i, tr_state = st, tr_attempt = att, tr_cost = None, tr_error = None, tr_warnings = []\<rparr>"

text \<open>
  The callbacks of \<open>NodeObserver\<close>. An observer is a function on its own state; \<open>()\<close> ignores everything and a pair
  hands each callback to both components.
\<close>

datatype observer_event =
    On_Transition node_transition
  | On_Budget_Warning string budget_event u32
  | On_Attempt_Failed string u32 string
  | On_Recovery_Reset string u32

definition observe_unit :: "observer_event \<Rightarrow> unit \<Rightarrow> unit" where
  "observe_unit e u = u"

definition observe_pair ::
    "(observer_event \<Rightarrow> 'a \<Rightarrow> 'a) \<Rightarrow> (observer_event \<Rightarrow> 'b \<Rightarrow> 'b) \<Rightarrow> observer_event \<Rightarrow> 'a \<times> 'b \<Rightarrow> 'a \<times> 'b" where
  "observe_pair a b e s = (a e (fst s), b e (snd s))"

lemma observe_pair_fold: "fold (observe_pair a b) es (x, y) = (fold a es x, fold b es y)"
  by (induction es arbitrary: x y) (auto simp: observe_pair_def)

subsection \<open>One node\<close>

datatype task_pc =
    T_Load
  | T_Start u32
  | T_Exec u32
  | T_Outcome u32 node_outcome
  | T_Pause
  | T_Sleep u32
  | T_Done "workflow_store_error + unit"

record task =
  tk_node :: compiled_node
  tk_pc :: task_pc

definition max_attempts :: "compiled_node \<Rightarrow> u32" where
  "max_attempts n = max (attempts (cn_retry n)) 1"

text \<open>Continuing after a store write, or ending the task with its error.\<close>

definition after_write ::
    "workflow_store_error + wf_db \<Rightarrow> wf_db \<Rightarrow> task_pc \<Rightarrow> observer_event list \<Rightarrow> task_pc \<times> wf_db \<times> observer_event list" where
  "after_write r db pc es =
     (case r of Inl e \<Rightarrow> (T_Done (Inl e), db, []) | Inr db' \<Rightarrow> (pc, db', es))"

text \<open>
  What the loop of \<open>run_node\<close> records for an outcome. A failed attempt below the limit is reported, recorded as
  the next attempt and slept on before the node runs again; a block pauses the run afterwards.
\<close>

fun record_outcome ::
    "wf_env \<Rightarrow> string \<Rightarrow> string \<Rightarrow> compiled_node \<Rightarrow> u32 \<Rightarrow> node_outcome \<Rightarrow> wf_db \<Rightarrow> task_pc \<times> wf_db \<times> observer_event list" where
  "record_outcome E now run n att (O_Completed agent_run_id cost warnings) db =
     after_write (transition_node E now run (cn_id n) NCompleted att agent_run_id cost db) db (T_Done (Inr ()))
       (On_Transition \<lparr>tr_node_id = cn_id n, tr_state = NCompleted, tr_attempt = att, tr_cost = cost, tr_error = None,
          tr_warnings = warnings\<rparr> # map (\<lambda>w. On_Budget_Warning (cn_id n) w att) warnings)"
| "record_outcome E now run n att (O_Blocked err cost) db =
     after_write (transition_node_with_error E now run (cn_id n) NBlocked att None cost (Some err) db) db T_Pause
       [On_Transition \<lparr>tr_node_id = cn_id n, tr_state = NBlocked, tr_attempt = att, tr_cost = cost, tr_error = Some err,
          tr_warnings = []\<rparr>]"
| "record_outcome E now run n att (O_Failed err) db =
     (if att < max_attempts n then
        (case after_write (transition_node_with_error E now run (cn_id n) NPending (att + 1) None None (Some err) db) db
                (T_Sleep (att + 1)) [] of
           (pc, db', es) \<Rightarrow> (pc, db', On_Attempt_Failed (cn_id n) att err # es))
      else
        after_write (transition_node_with_error E now run (cn_id n) NFailed att None None (Some err) db) db (T_Done (Inr ()))
          [On_Transition \<lparr>tr_node_id = cn_id n, tr_state = NFailed, tr_attempt = att, tr_cost = None, tr_error = Some err,
             tr_warnings = []\<rparr>])"

text \<open>The attempt a node starts at: the persisted one, at least 1.\<close>

definition load_attempt :: "compiled_node \<Rightarrow> run_snapshot option \<Rightarrow> u32" where
  "load_attempt n s =
     max (case Option.bind s (\<lambda>snap. find (\<lambda>r. nd_id r = cn_id n) (sn_nodes snap)) of
            None \<Rightarrow> 0 | Some r \<Rightarrow> nd_attempt r) 1"

text \<open>One step of \<open>run_node\<close>; \<open>oc\<close> is the outcome the executor reports when the step awaits it.\<close>

fun task_step ::
    "wf_env \<Rightarrow> string \<Rightarrow> string \<Rightarrow> node_outcome \<Rightarrow> compiled_node \<Rightarrow> task_pc \<Rightarrow> wf_db \<Rightarrow> task_pc \<times> wf_db \<times> observer_event list" where
  "task_step E now run oc n T_Load db =
     (case snapshot E run db of
        Inl e \<Rightarrow> (T_Done (Inl e), db, [])
      | Inr s \<Rightarrow> (T_Start (load_attempt n s), db, []))"
| "task_step E now run oc n (T_Start att) db =
     after_write (transition_node E now run (cn_id n) NRunning att None None db) db (T_Exec att)
       [On_Transition (new_transition (cn_id n) NRunning att)]"
| "task_step E now run oc n (T_Exec att) db = (T_Outcome att oc, db, [])"
| "task_step E now run oc n (T_Outcome att oc') db = record_outcome E now run n att oc' db"
| "task_step E now run oc n T_Pause db =
     (T_Done (Inr ()), fst (set_run_state_if_legal now run [RRunning] RPaused db), [])"
| "task_step E now run oc n (T_Sleep att) db = (T_Start att, db, [])"
| "task_step E now run oc n (T_Done r) db = (T_Done r, db, [])"

subsection \<open>The driver\<close>

record wave =
  wv_queue :: "string list"
  wv_inflight :: "task list"
  wv_stop :: bool
  wv_error :: "workflow_store_error option"
  wv_halted :: bool

datatype driver_pc =
    D_Start
  | D_Recover "node_record list"
  | D_Begin
  | D_Reread
  | D_Round
  | D_Fill wave
  | D_Await wave
  | D_Check wave
  | D_Final
  | D_Finish run_state
  | D_Done "workflow_store_error + run_state"

text \<open>The reads of the loop: the snapshot of an existing run, and its state.\<close>

definition read_snapshot :: "wf_env \<Rightarrow> string \<Rightarrow> wf_db \<Rightarrow> workflow_store_error + run_snapshot" where
  "read_snapshot E run db = res_bind (snapshot E run db) (ok_or (WS_NotFound run))"

definition read_state :: "wf_env \<Rightarrow> string \<Rightarrow> wf_db \<Rightarrow> workflow_store_error + run_state" where
  "read_state E run db = res_map (\<lambda>s. rec_state (sn_run s)) (read_snapshot E run db)"

definition try_transition_to_running :: "string \<Rightarrow> string \<Rightarrow> wf_db \<Rightarrow> wf_db \<times> bool" where
  "try_transition_to_running now run db =
     (case set_run_state_if_legal now run [RPending, RRunning] RRunning db of (db', affected) \<Rightarrow> (db', 0 < affected))"

text \<open>
  Filling the free slots of a wave from its queue. Every queued id is a node of the graph (\<open>expect\<close> in the code).
\<close>

fun launch :: "compiled_workflow \<Rightarrow> nat \<Rightarrow> string list \<Rightarrow> task list \<Rightarrow> string list \<times> task list" where
  "launch c k [] inflight = ([], inflight)"
| "launch c k (i # queue) inflight =
     (if length inflight < k then
        launch c k queue (case cw_node c i of None \<Rightarrow> inflight | Some n \<Rightarrow> inflight @ [\<lparr>tk_node = n, tk_pc = T_Load\<rparr>])
      else (i # queue, inflight))"

definition fill :: "compiled_workflow \<Rightarrow> wave \<Rightarrow> wave" where
  "fill c w =
     (if wv_stop w then w
      else (case launch c (max_concurrency c) (wv_queue w) (wv_inflight w) of
              (queue, inflight) \<Rightarrow> w\<lparr>wv_queue := queue, wv_inflight := inflight\<rparr>))"

text \<open>On entry: the guard on the signature and the state, then the nodes an earlier drive left unfinished.\<close>

definition drive_start :: "wf_env \<Rightarrow> compiled_workflow \<Rightarrow> string \<Rightarrow> wf_db \<Rightarrow> driver_pc" where
  "drive_start E c run db =
     (case checked_snapshot E run c db of
        Inl e \<Rightarrow> D_Done (Inl e)
      | Inr snap \<Rightarrow>
          if rec_state (sn_run snap) \<in> {RPending, RRunning} then D_Recover (sn_nodes snap)
          else D_Done (Inr (rec_state (sn_run snap))))"

definition recover_node :: "string \<Rightarrow> string \<Rightarrow> node_record \<Rightarrow> wf_db \<Rightarrow> (workflow_store_error + wf_db) option" where
  "recover_node now run n db =
     (case nd_state n of
        NRunning \<Rightarrow> Some (reset_interrupted_node now run (nd_id n) (nd_attempt n) db)
      | NWaitingApproval \<Rightarrow> Some (reset_interrupted_node now run (nd_id n) (nd_attempt n) db)
      | NBlocked \<Rightarrow> Some (reset_blocked_node now run (nd_id n) db)
      | _ \<Rightarrow> None)"

definition drive_recover ::
    "string \<Rightarrow> string \<Rightarrow> node_record \<Rightarrow> node_record list \<Rightarrow> wf_db \<Rightarrow> driver_pc \<times> wf_db \<times> observer_event list" where
  "drive_recover now run n ns db =
     (case recover_node now run n db of
        None \<Rightarrow> (D_Recover ns, db, [])
      | Some (Inl e) \<Rightarrow> (D_Done (Inl e), db, [])
      | Some (Inr db') \<Rightarrow> (D_Recover ns, db', [On_Recovery_Reset (nd_id n) (nd_attempt n)]))"

text \<open>
  The frontier loop: a round reads the run and starts a wave over its ready nodes; the wave fills its free slots, awaits
  one finished node (at position \<open>k\<close>; not enabled while that future is still running), and looks at the run's state.
\<close>

definition drive_round :: "wf_env \<Rightarrow> compiled_workflow \<Rightarrow> string \<Rightarrow> wf_db \<Rightarrow> driver_pc" where
  "drive_round E c run db =
     (case read_snapshot E run db of
        Inl e \<Rightarrow> D_Done (Inl e)
      | Inr snap \<Rightarrow>
          if rec_state (sn_run snap) \<in> {RPaused, RCancelled} then D_Done (Inr (rec_state (sn_run snap)))
          else if ready_node_ids c snap = [] then D_Final
          else D_Fill \<lparr>wv_queue = ready_node_ids c snap, wv_inflight = [], wv_stop = False, wv_error = None, wv_halted = False\<rparr>)"

definition drive_fill :: "compiled_workflow \<Rightarrow> wave \<Rightarrow> driver_pc" where
  "drive_fill c w =
     (let w' = fill c w in
      if wv_inflight w' \<noteq> [] then D_Await w'
      else (case wv_error w' of
              Some e \<Rightarrow> D_Done (Inl e)
            | None \<Rightarrow> if wv_halted w' then D_Reread else D_Round))"

definition drive_await :: "nat \<Rightarrow> wave \<Rightarrow> driver_pc option" where
  "drive_await k w =
     (if k < length (wv_inflight w) then
        (case tk_pc (wv_inflight w ! k) of
           T_Done r \<Rightarrow>
             let w' = w\<lparr>wv_inflight := take k (wv_inflight w) @ drop (Suc k) (wv_inflight w)\<rparr> in
             Some (case r of
                Inl e \<Rightarrow> D_Fill (w'\<lparr>wv_stop := True, wv_error := coalesce (wv_error w) (Some e)\<rparr>)
              | Inr _ \<Rightarrow> D_Check w')
         | _ \<Rightarrow> None)
      else None)"

definition drive_check :: "wf_env \<Rightarrow> string \<Rightarrow> wave \<Rightarrow> wf_db \<Rightarrow> driver_pc" where
  "drive_check E run w db =
     (case read_state E run db of
        Inl e \<Rightarrow> D_Done (Inl e)
      | Inr st \<Rightarrow> if st \<noteq> RRunning then D_Fill (w\<lparr>wv_stop := True, wv_halted := True\<rparr>) else D_Fill w)"

text \<open>Past the frontier: the final state, written only while the run is still running.\<close>

definition drive_final :: "wf_env \<Rightarrow> string \<Rightarrow> wf_db \<Rightarrow> driver_pc" where
  "drive_final E run db =
     (case read_snapshot E run db of
        Inl e \<Rightarrow> D_Done (Inl e)
      | Inr snap \<Rightarrow>
          D_Finish (if list_all (\<lambda>n. nd_state n = NCompleted) (sn_nodes snap) then RCompleted else RFailed))"

definition drive_finish :: "string \<Rightarrow> string \<Rightarrow> run_state \<Rightarrow> wf_db \<Rightarrow> driver_pc \<times> wf_db" where
  "drive_finish now run st db =
     (case set_run_state_if_legal now run [RRunning] st db of
        (db', affected) \<Rightarrow> (if affected = 0 then D_Reread else D_Done (Inr st), db'))"

text \<open>One step of \<open>run_observed\<close>, \<open>None\<close> when it is not enabled.\<close>

fun driver_step ::
    "wf_env \<Rightarrow> compiled_workflow \<Rightarrow> string \<Rightarrow> string \<Rightarrow> nat \<Rightarrow> driver_pc \<Rightarrow> wf_db \<Rightarrow> (driver_pc \<times> wf_db \<times> observer_event list) option" where
  "driver_step E c run now k D_Start db = Some (drive_start E c run db, db, [])"
| "driver_step E c run now k (D_Recover []) db = Some (D_Begin, db, [])"
| "driver_step E c run now k (D_Recover (n # ns)) db = Some (drive_recover now run n ns db)"
| "driver_step E c run now k D_Begin db =
     Some (case try_transition_to_running now run db of
        (db', True) \<Rightarrow> (D_Round, db', []) | (db', False) \<Rightarrow> (D_Reread, db', []))"
| "driver_step E c run now k D_Reread db = Some (D_Done (read_state E run db), db, [])"
| "driver_step E c run now k D_Round db = Some (drive_round E c run db, db, [])"
| "driver_step E c run now k (D_Fill w) db = Some (drive_fill c w, db, [])"
| "driver_step E c run now k (D_Await w) db = map_option (\<lambda>pc. (pc, db, [])) (drive_await k w)"
| "driver_step E c run now k (D_Check w) db = Some (drive_check E run w db, db, [])"
| "driver_step E c run now k D_Final db = Some (drive_final E run db, db, [])"
| "driver_step E c run now k (D_Finish st) db =
     Some (case drive_finish now run st db of (pc, db') \<Rightarrow> (pc, db', []))"
| "driver_step E c run now k (D_Done r) db = None"

subsection \<open>The system\<close>

record sys =
  sy_db :: wf_db
  sy_pc :: driver_pc
  sy_log :: "observer_event list"

text \<open>
  Who moves: the driver; the task at a position of the wave in flight, with the executor's outcome; a client pausing,
  cancelling (the flip, then the drain of the pending nodes) or resuming the run; the executor parking the node
  it runs on an approval, or taking it back.
\<close>

datatype choice =
    Drive string nat
  | Task nat string node_outcome
  | Pause string
  | Cancel string
  | Drain string
  | Resume string
  | Park nat string node_state

fun pc_wave :: "driver_pc \<Rightarrow> wave option" where
  "pc_wave (D_Fill w) = Some w"
| "pc_wave (D_Await w) = Some w"
| "pc_wave (D_Check w) = Some w"
| "pc_wave _ = None"

fun set_wave :: "driver_pc \<Rightarrow> wave \<Rightarrow> driver_pc" where
  "set_wave (D_Fill _) w = D_Fill w"
| "set_wave (D_Await _) w = D_Await w"
| "set_wave (D_Check _) w = D_Check w"
| "set_wave pc w = pc"

text \<open>The task in flight at a position, if it has not finished.\<close>

definition task_active :: "task \<Rightarrow> bool" where
  "task_active t = (case tk_pc t of T_Done _ \<Rightarrow> False | _ \<Rightarrow> True)"

definition active_task :: "driver_pc \<Rightarrow> nat \<Rightarrow> (wave \<times> task) option" where
  "active_task pc k =
     (case pc_wave pc of None \<Rightarrow> None
      | Some w \<Rightarrow>
          if k < length (wv_inflight w) \<and> task_active (wv_inflight w ! k) then Some (w, wv_inflight w ! k) else None)"

fun sys_step :: "wf_env \<Rightarrow> compiled_workflow \<Rightarrow> string \<Rightarrow> choice \<Rightarrow> sys \<Rightarrow> sys option" where
  "sys_step E c run (Drive now k) s =
     map_option (\<lambda>(pc, db, es). \<lparr>sy_db = db, sy_pc = pc, sy_log = sy_log s @ es\<rparr>)
       (driver_step E c run now k (sy_pc s) (sy_db s))"
| "sys_step E c run (Task k now oc) s =
     (case active_task (sy_pc s) k of
        None \<Rightarrow> None
      | Some (w, t) \<Rightarrow>
          (case task_step E now run oc (tk_node t) (tk_pc t) (sy_db s) of
             (pc, db, es) \<Rightarrow>
               Some \<lparr>sy_db = db, sy_pc = set_wave (sy_pc s) (w\<lparr>wv_inflight := (wv_inflight w)[k := t\<lparr>tk_pc := pc\<rparr>]\<rparr>),
                     sy_log = sy_log s @ es\<rparr>))"
| "sys_step E c run (Pause now) s =
     Some (s\<lparr>sy_db := fst (set_run_state_if_legal now run [RPending, RRunning] RPaused (sy_db s))\<rparr>)"
| "sys_step E c run (Cancel now) s =
     Some (s\<lparr>sy_db := fst (set_run_state_if_legal now run [RPending, RRunning, RPaused] RCancelled (sy_db s))\<rparr>)"
| "sys_step E c run (Drain now) s =
     (if run_state_of (sy_db s) run = Some RCancelled
      then Some (s\<lparr>sy_db := fst (skip_pending_nodes now run (sy_db s))\<rparr>) else None)"
| "sys_step E c run (Resume now) s =
     Some (s\<lparr>sy_db := fst (set_run_state_if_legal now run [RPaused] RRunning (sy_db s))\<rparr>)"
| "sys_step E c run (Park k now st) s =
     (case active_task (sy_pc s) k of
        None \<Rightarrow> None
      | Some (w, t) \<Rightarrow>
          (case tk_pc t of
             T_Exec att \<Rightarrow>
               if st = NWaitingApproval \<or> st = NRunning then
                 (case transition_node E now run (cn_id (tk_node t)) st att None None (sy_db s) of
                    Inl _ \<Rightarrow> None | Inr db \<Rightarrow> Some (s\<lparr>sy_db := db\<rparr>))
               else None
           | _ \<Rightarrow> None))"

inductive drive_reach :: "wf_env \<Rightarrow> compiled_workflow \<Rightarrow> string \<Rightarrow> sys \<Rightarrow> sys \<Rightarrow> bool" for E c run s0 where
  init: "drive_reach E c run s0 s0"
| step: "drive_reach E c run s0 s \<Longrightarrow> sys_step E c run ch s = Some s' \<Longrightarrow> drive_reach E c run s0 s'"

text \<open>A given sequence of choices.\<close>

fun sys_run :: "wf_env \<Rightarrow> compiled_workflow \<Rightarrow> string \<Rightarrow> choice list \<Rightarrow> sys \<Rightarrow> sys option" where
  "sys_run E c run [] s = Some s"
| "sys_run E c run (ch # chs) s = (case sys_step E c run ch s of None \<Rightarrow> None | Some s' \<Rightarrow> sys_run E c run chs s')"

text \<open>A run about to be driven.\<close>

definition start_sys :: "wf_db \<Rightarrow> sys" where
  "start_sys db = \<lparr>sy_db = db, sy_pc = D_Start, sy_log = []\<rparr>"

lemma sys_run_reach_from:
  "sys_run E c run chs s = Some s' \<Longrightarrow> drive_reach E c run s0 s \<Longrightarrow> drive_reach E c run s0 s'"
  by (induction chs arbitrary: s) (auto split: option.splits intro: drive_reach.step)

lemma sys_run_reach: "sys_run E c run chs s = Some s' \<Longrightarrow> drive_reach E c run s s'"
  by (rule sys_run_reach_from [OF _ drive_reach.init])

lemma drive_reach_trans: "drive_reach E c run s0 s1 \<Longrightarrow> drive_reach E c run s1 s2 \<Longrightarrow> drive_reach E c run s0 s2"
  by (rotate_tac, induction rule: drive_reach.induct) (auto intro: drive_reach.step)

subsection \<open>What a store operation does to the states\<close>

definition find_node :: "string \<Rightarrow> string \<Rightarrow> wf_db \<Rightarrow> node_row option" where
  "find_node run i db = find (is_node run i) (db_nodes db)"

definition node_state_of :: "wf_db \<Rightarrow> string \<Rightarrow> string \<Rightarrow> node_state option" where
  "node_state_of db run i =
     (case find_node run i db of None \<Rightarrow> None
      | Some r \<Rightarrow> (case parse_node_state (nr_state r) of Inl _ \<Rightarrow> None | Inr st \<Rightarrow> Some st))"

lemma find_node_update:
  assumes "\<And>r. nr_run (f r) = nr_run r \<and> nr_node_id (f r) = nr_node_id r"
  shows "find_node run i (update_nodes P f db) = map_option (\<lambda>r. if P r then f r else r) (find_node run i db)"
proof -
  have "is_node run i (if P r then f r else r) = is_node run i r" for r using assms by (simp add: is_node_def)
  then show ?thesis by (simp add: find_node_def update_nodes_def find_map)
qed

lemma find_node_touch [simp]: "find_node run i (touch_run now run' db) = find_node run i db"
  by (simp add: find_node_def touch_run_def update_run_def)

lemma find_node_Some: "find_node run i db = Some r \<Longrightarrow> r \<in> set (db_nodes db) \<and> nr_run r = run \<and> nr_node_id r = i"
  unfolding find_node_def by (auto simp: is_node_def dest: find_Some_D)

lemma run_state_of_update_nodes [simp]: "run_state_of (update_nodes P f db) r = run_state_of db r"
  by (simp add: run_state_of_def update_nodes_def)

lemma run_state_of_touch [simp]: "run_state_of (touch_run now run db) r = run_state_of db r"
  by (cases "find_run r db") (auto simp: run_state_of_def touch_run_def find_run_update)

lemma node_state_of_cas [simp]: "node_state_of (fst (set_run_state_if_legal now run legal st db)) r i = node_state_of db r i"
  by (simp add: node_state_of_def find_node_def set_run_state_if_legal_def Let_def)

lemma transition_states:
  assumes "transition_node_with_error E now run i st att ag cost err db = Inr db'"
  shows "node_state_of db' r j = (if r = run \<and> j = i then Some st else node_state_of db r j)"
    and "run_state_of db' r = run_state_of db r"
    and "db_wf db \<Longrightarrow> db_wf db'"
proof -
  from assms have db': "db' = touch_run now run (update_nodes (is_node run i)
        (transition_row now st att ag (map_option (js_to_text (e_serde E)) cost) err) db)"
    and ex: "list_ex (is_node run i) (db_nodes db)"
    by (auto simp: transition_node_with_error_def split: if_splits)
  from ex obtain x where x: "find_node run i db = Some x"
    unfolding find_node_def by (cases "find (is_node run i) (db_nodes db)") (auto simp: find_None_iff list_ex_iff)
  show "node_state_of db' r j = (if r = run \<and> j = i then Some st else node_state_of db r j)"
  proof (cases "find_node r j db")
    case None
    with x show ?thesis by (auto simp: db' node_state_of_def find_node_update)
  next
    case (Some y)
    with find_node_Some [OF Some] show ?thesis by (auto simp: db' node_state_of_def find_node_update is_node_def)
  qed
  show "run_state_of db' r = run_state_of db r" by (simp add: db')
  show "db_wf db \<Longrightarrow> db_wf db'" using assms store_step_wf store_step.transition by blast
qed

lemma reset_states:
  assumes "reset_interrupted_node now run i att db = Inr db' \<or> reset_blocked_node now run i db = Inr db'"
  shows "node_state_of db' r j = node_state_of db r j \<or> (r = run \<and> j = i \<and> node_state_of db' r j = Some NPending)"
    and "run_state_of db' r = run_state_of db r"
    and "db_wf db \<Longrightarrow> db_wf db'"
proof -
  show "run_state_of db' r = run_state_of db r"
    using assms by (auto simp: reset_interrupted_node_def reset_blocked_node_def Let_def split: if_splits)
  show "db_wf db \<Longrightarrow> db_wf db'"
    using assms store_step_wf store_step.uninterrupt store_step.unblock by blast
  have p: "parse_node_state ''pending'' = Inr NPending" by (simp add: parse_node_state_def)
  show "node_state_of db' r j = node_state_of db r j \<or> (r = run \<and> j = i \<and> node_state_of db' r j = Some NPending)"
    using assms
    by (cases "find_node r j db")
      (auto simp: reset_interrupted_node_def reset_blocked_node_def Let_def node_state_of_def find_node_update p is_node_def
        dest: find_node_Some split: if_splits)
qed

lemma skip_states:
  assumes "skip_pending_nodes now run db = (db', ids)"
  shows "node_state_of db' r j = node_state_of db r j \<or> (node_state_of db r j = Some NPending \<and> node_state_of db' r j = Some NSkipped)"
    and "run_state_of db' r = run_state_of db r" and "db_wf db \<Longrightarrow> db_wf db'"
proof -
  show "run_state_of db' r = run_state_of db r"
    using assms by (auto simp: skip_pending_nodes_def Let_def split: if_splits)
  show "db_wf db \<Longrightarrow> db_wf db'" using assms store_step_wf store_step.skip by blast
  have p: "parse_node_state ''pending'' = Inr NPending" "parse_node_state ''skipped'' = Inr NSkipped"
    by (simp_all add: parse_node_state_def)
  show "node_state_of db' r j = node_state_of db r j \<or> (node_state_of db r j = Some NPending \<and> node_state_of db' r j = Some NSkipped)"
    using assms by (cases "find_node r j db") (auto simp: skip_pending_nodes_def Let_def node_state_of_def find_node_update p split: if_splits)
qed

subsection \<open>What a snapshot shows\<close>

lemma row_to_node_Inr:
  "row_to_node E r = Inr n \<Longrightarrow> nd_id n = nr_node_id r \<and> parse_node_state (nr_state r) = Inr (nd_state n) \<and> nd_attempt n = nr_attempt r"
  by (auto simp: row_to_node_def res_bind_Inr_iff res_map_Inr_iff)

lemma row_to_run_Inr: "row_to_run E r = Inr rec \<Longrightarrow> parse_run_state (rr_state r) = Inr (rec_state rec) \<and> rec_graph_signature rec = rr_graph_signature r"
  by (auto simp: row_to_run_def res_bind_Inr_iff res_map_Inr_iff)

lemma db_wf_find_node: "db_wf db \<Longrightarrow> r \<in> set (db_nodes db) \<Longrightarrow> find_node (nr_run r) (nr_node_id r) db = Some r"
proof -
  assume wf: "db_wf db" and r: "r \<in> set (db_nodes db)"
  have "(\<lambda>x. node_key x = node_key r) = is_node (nr_run r) (nr_node_id r)"
    by (auto simp: node_key_def is_node_def)
  with find_unique_key [of node_key "db_nodes db" r] wf r show ?thesis by (simp add: find_node_def db_wf_def)
qed

lemma set_run_nodes: "set (run_nodes run db) = {r \<in> set (db_nodes db). nr_run r = run}"
  by (auto simp: run_nodes_def)

lemma distinct_run_nodes: "db_wf db \<Longrightarrow> distinct (map nr_node_id (run_nodes run db))"
proof -
  assume "db_wf db"
  then have "distinct (db_nodes db)" "inj_on node_key (set (db_nodes db))" by (auto simp: db_wf_def distinct_map)
  then have "distinct (run_nodes run db)" "inj_on nr_node_id (set (run_nodes run db))"
    by (auto simp: run_nodes_def inj_on_def node_key_def)
  then show ?thesis by (simp add: distinct_map)
qed

lemma snapshot_Inr:
  assumes wf: "db_wf db" and snap: "snapshot E run db = Inr (Some snap)"
  shows "run_state_of db run = Some (rec_state (sn_run snap))"
    and "distinct (map nd_id (sn_nodes snap))"
    and "n \<in> set (sn_nodes snap) \<Longrightarrow> \<exists>r. find_node run (nd_id n) db = Some r \<and> nd_attempt n = nr_attempt r \<and> node_state_of db run (nd_id n) = Some (nd_state n)"
    and "find_node run i db = Some r \<Longrightarrow> \<exists>n \<in> set (sn_nodes snap). nd_id n = i"
    and "snap_states snap i = node_state_of db run i"
proof -
  from snap obtain row rec where row: "find_run run db = Some row" "row_to_run E row = Inr rec" "sn_run snap = rec"
    and l: "list_all2 (\<lambda>r n. row_to_node E r = Inr n) (run_nodes run db) (sn_nodes snap)"
    by (auto simp: snapshot_def res_bind_Inr_iff res_map_Inr_iff map_res_Inr_iff split: option.splits)
  show "run_state_of db run = Some (rec_state (sn_run snap))"
    using row row_to_run_Inr [OF row(2)] by (simp add: run_state_of_def)
  have ids: "map nd_id (sn_nodes snap) = map nr_node_id (run_nodes run db)"
    using l by (induction rule: list_all2_induct) (auto dest: row_to_node_Inr)
  show dist: "distinct (map nd_id (sn_nodes snap))" unfolding ids by (rule distinct_run_nodes [OF wf])
  show st: "\<exists>r. find_node run (nd_id n) db = Some r \<and> nd_attempt n = nr_attempt r \<and> node_state_of db run (nd_id n) = Some (nd_state n)"
    if "n \<in> set (sn_nodes snap)" for n
  proof -
    from that obtain i where i: "i < length (sn_nodes snap)" "n = sn_nodes snap ! i" by (auto simp: in_set_conv_nth)
    with l have r: "run_nodes run db ! i \<in> set (run_nodes run db)" "row_to_node E (run_nodes run db ! i) = Inr n"
      by (simp_all add: list_all2_conv_all_nth)
    define r where "r = run_nodes run db ! i"
    note r = r [folded r_def]
    then have "find_node run (nd_id n) db = Some r"
      using db_wf_find_node [OF wf, of r] row_to_node_Inr [OF r(2)] by (auto simp: set_run_nodes)
    with row_to_node_Inr [OF r(2)] show ?thesis by (simp add: node_state_of_def)
  qed
  show ex: "\<exists>n \<in> set (sn_nodes snap). nd_id n = i" if "find_node run i db = Some r" for r i
  proof -
    from find_node_Some [OF that] have "i \<in> set (map nr_node_id (run_nodes run db))" by (auto simp: set_run_nodes)
    then show ?thesis unfolding ids [symmetric] by auto
  qed
  show "snap_states snap i = node_state_of db run i"
  proof (cases "find_node run i db")
    case None
    then have "i \<notin> set (map nd_id (sn_nodes snap))" by (auto dest!: st)
    then have "snap_states snap i = None" by (auto simp: snap_states_def map_of_eq_None_iff)
    with None show ?thesis by (simp add: node_state_of_def)
  next
    case (Some r)
    from ex [OF Some] obtain n where n: "n \<in> set (sn_nodes snap)" "nd_id n = i" by blast
    have "map fst (rev (map (\<lambda>n. (nd_id n, nd_state n)) (sn_nodes snap))) = rev (map nd_id (sn_nodes snap))"
      by (simp add: rev_map comp_def)
    then have "distinct (map fst (rev (map (\<lambda>n. (nd_id n, nd_state n)) (sn_nodes snap))))"
      using dist by (simp only: distinct_rev)
    moreover have "(i, nd_state n) \<in> set (rev (map (\<lambda>n. (nd_id n, nd_state n)) (sn_nodes snap)))" using n by auto
    ultimately have "snap_states snap i = Some (nd_state n)" unfolding snap_states_def by (rule map_of_is_SomeI)
    with st [OF n(1)] n(2) show ?thesis by auto
  qed
qed

lemma read_snapshot_Inr: "read_snapshot E run db = Inr snap \<longleftrightarrow> snapshot E run db = Inr (Some snap)"
  by (auto simp: read_snapshot_def res_bind_Inr_iff)

lemma checked_snapshot_Inr: "checked_snapshot E run c db = Inr snap \<Longrightarrow> snapshot E run db = Inr (Some snap)"
  by (auto simp: checked_snapshot_def res_bind_Inr_iff split: if_splits)

lemma read_state_Inr: "db_wf db \<Longrightarrow> read_state E run db = Inr st \<Longrightarrow> run_state_of db run = Some st"
  using snapshot_Inr(1) by (fastforce simp: read_state_def res_map_Inr_iff read_snapshot_Inr)

end
