(* ===== verification/Drive_Safety.thy ===== *)
theory Drive_Safety
  imports Drive
begin

text \<open>
  What the driver guarantees over every interleaving of its own steps, of the node tasks in flight and of the concurrent
  lifecycle commands: invariants of the system of \<open>Drive\<close> by rule induction on its reachable states.
\<close>

subsection \<open>The completed nodes\<close>

definition completed_in :: "wf_db \<Rightarrow> string \<Rightarrow> string set" where
  "completed_in db run = {i. node_state_of db run i = Some NCompleted}"

definition all_completed :: "wf_db \<Rightarrow> string \<Rightarrow> bool" where
  "all_completed db run \<longleftrightarrow> (\<forall>i. node_state_of db run i \<in> {None, Some NCompleted})"

text \<open>A node that may run: not completed, and every node it depends on is.\<close>

definition runnable :: "compiled_workflow \<Rightarrow> string set \<Rightarrow> string \<Rightarrow> bool" where
  "runnable c done_ids i \<longleftrightarrow>
     i \<notin> done_ids \<and> (\<exists>n \<in> set (cw_nodes c). cn_id n = i \<and> set (cn_depends_on n) \<subseteq> done_ids)"

lemma runnable_insert: "runnable c C i \<Longrightarrow> i \<noteq> k \<Longrightarrow> runnable c (insert k C) i"
  by (auto simp: runnable_def)

lemma completed_in_cas [simp]: "completed_in (fst (set_run_state_if_legal now run legal st db)) r = completed_in db r"
  by (simp add: completed_in_def)

lemma db_wf_cas [simp]: "db_wf db \<Longrightarrow> db_wf (fst (set_run_state_if_legal now run legal st db))"
  using rc.cas_wf by (metis prod.collapse)

lemma completed_in_skip: "completed_in (fst (skip_pending_nodes now run db)) r = completed_in db r"
proof -
  obtain db' ids where s: "skip_pending_nodes now run db = (db', ids)" by force
  have "node_state_of db' r j = Some NCompleted \<longleftrightarrow> node_state_of db r j = Some NCompleted" for j
    using skip_states(1) [OF s, of r j] by auto
  with s show ?thesis by (simp add: completed_in_def)
qed

lemma db_wf_skip: "db_wf db \<Longrightarrow> db_wf (fst (skip_pending_nodes now run db))"
  using skip_states(3) by (metis prod.collapse)

lemma run_state_skip [simp]: "run_state_of (fst (skip_pending_nodes now run db)) r = run_state_of db r"
  using skip_states(2) by (metis prod.collapse)

lemma completed_in_transition:
  assumes "transition_node_with_error E now run i st att ag cost err db = Inr db'"
  shows "completed_in db' run = (if st = NCompleted then insert i (completed_in db run) else completed_in db run - {i})"
  using transition_states(1) [OF assms, of run] by (auto simp: completed_in_def)

subsection \<open>Steps of a task\<close>

abbreviation task_id :: "task \<Rightarrow> string" where
  "task_id t \<equiv> cn_id (tk_node t)"

text \<open>
  A task only writes its own node's row, and completes that node exactly when it ends without an error in the
  state \<open>Completed\<close>.
\<close>

lemma after_write_cases:
  assumes "after_write r db pc es = (pc', db', es')"
  obtains (failed) e where "r = Inl e" "pc' = T_Done (Inl e)" "db' = db" "es' = []"
  | (written) "r = Inr db'" "pc' = pc" "es' = es"
  using assms by (auto simp: after_write_def split: sum.splits)

lemma transition_eq: "transition_node E now run i st att ag cost db = transition_node_with_error E now run i st att ag cost None db"
  by (simp add: transition_node_def)

text \<open>The node and attempt an event reports as started.\<close>

fun running_of :: "observer_event \<Rightarrow> (string \<times> u32) option" where
  "running_of (On_Transition tr) = (if tr_state tr = NRunning then Some (tr_node_id tr, tr_attempt tr) else None)"
| "running_of _ = None"

lemma record_outcome_cases:
  assumes "record_outcome E now run n att oc db = (pc', db', es)"
  obtains st a ag cost err pc1 es0 es1 where
    "after_write (transition_node_with_error E now run (cn_id n) st a ag cost err db) db pc1 es0 = (pc', db', es1)"
    "(st, a, pc1) \<in> {(NCompleted, att, T_Done (Inr ())), (NBlocked, att, T_Pause), (NFailed, att, T_Done (Inr ()))}
     \<or> st = NPending \<and> att < max_attempts n \<and> a = att + 1 \<and> pc1 = T_Sleep (att + 1)"
    "\<forall>e \<in> set es. running_of e = None"
proof (cases oc)
  case (O_Completed ag cost ws)
  with assms have w: "after_write (transition_node_with_error E now run (cn_id n) NCompleted att ag cost None db) db (T_Done (Inr ()))
       (On_Transition \<lparr>tr_node_id = cn_id n, tr_state = NCompleted, tr_attempt = att, tr_cost = cost, tr_error = None,
          tr_warnings = ws\<rparr> # map (\<lambda>w. On_Budget_Warning (cn_id n) w att) ws) = (pc', db', es)" by (simp add: transition_eq)
  from w show thesis by (rule that) (use w in \<open>auto elim!: after_write_cases\<close>)
next
  case (O_Blocked err cost)
  with assms have w: "after_write (transition_node_with_error E now run (cn_id n) NBlocked att None cost (Some err) db) db T_Pause
       [On_Transition \<lparr>tr_node_id = cn_id n, tr_state = NBlocked, tr_attempt = att, tr_cost = cost, tr_error = Some err,
          tr_warnings = []\<rparr>] = (pc', db', es)" by simp
  from w show thesis by (rule that) (use w in \<open>auto elim!: after_write_cases\<close>)
next
  case (O_Failed err)
  show thesis
  proof (cases "att < max_attempts n")
    case True
    with assms O_Failed obtain es1 where w: "after_write (transition_node_with_error E now run (cn_id n) NPending (att + 1) None None (Some err) db) db
       (T_Sleep (att + 1)) [] = (pc', db', es1)" "es = On_Attempt_Failed (cn_id n) att err # es1" by (auto split: prod.splits)
    from w(1) show thesis by (rule that) (use True w in \<open>auto elim!: after_write_cases\<close>)
  next
    case False
    with assms O_Failed have w: "after_write (transition_node_with_error E now run (cn_id n) NFailed att None None (Some err) db) db (T_Done (Inr ()))
      [On_Transition \<lparr>tr_node_id = cn_id n, tr_state = NFailed, tr_attempt = att, tr_cost = None, tr_error = Some err,
         tr_warnings = []\<rparr>] = (pc', db', es)" by simp
    from w show thesis by (rule that) (use w in \<open>auto elim!: after_write_cases\<close>)
  qed
qed

lemma task_start_write:
  assumes "task_step E now run oc n (T_Start att) db = (pc', db', es)"
  shows "after_write (transition_node_with_error E now run (cn_id n) NRunning att None None None db) db (T_Exec att)
      [On_Transition (new_transition (cn_id n) NRunning att)] = (pc', db', es)"
  using assms by (simp add: transition_eq)

lemma record_outcome_effect:
  assumes "record_outcome E now run n att oc db = (pc', db', es)"
  shows "(db_wf db \<longrightarrow> db_wf db') \<and> run_state_of db' = run_state_of db
    \<and> (cn_id n \<notin> completed_in db run \<longrightarrow> completed_in db' run = completed_in db run
         \<or> pc' = T_Done (Inr ()) \<and> completed_in db' run = insert (cn_id n) (completed_in db run))"
  using assms
proof (cases rule: record_outcome_cases)
  case (1 st a ag cost err pc1 es0 es1)
  from 1(1) show ?thesis
  proof (cases rule: after_write_cases)
    case written
    from transition_states(2,3) [OF written(1)] completed_in_transition [OF written(1)] 1(2) written(2)
    show ?thesis by (auto simp: fun_eq_iff)
  qed auto
qed

lemma task_step_effect:
  assumes "task_step E now run oc n pc db = (pc', db', es)" "db_wf db"
  shows "db_wf db' \<and> (\<forall>r t. run_state_of db r = Some t \<and> run_is_terminal t \<longrightarrow> run_state_of db' r = Some t)
    \<and> (run_state_of db' run = Some RCompleted \<longrightarrow> run_state_of db run = Some RCompleted)
    \<and> (cn_id n \<notin> completed_in db run \<longrightarrow> completed_in db' run = completed_in db run
         \<or> pc' = T_Done (Inr ()) \<and> completed_in db' run = insert (cn_id n) (completed_in db run))"
proof (cases pc)
  case (T_Start att)
  from task_start_write [OF assms(1) [unfolded T_Start]] show ?thesis
  proof (cases rule: after_write_cases)
    case written
    from transition_states(2,3) [OF written(1)] completed_in_transition [OF written(1)] assms(2)
    show ?thesis by simp
  qed (use assms in simp)
next
  case (T_Outcome att oc')
  with record_outcome_effect [of E now run n att oc' db pc' db' es] assms show ?thesis by simp
next
  case T_Pause
  with assms(1) have db': "db' = fst (set_run_state_if_legal now run [RRunning] RPaused db)" by simp
  obtain k where cas: "set_run_state_if_legal now run [RRunning] RPaused db = (db', k)" by (metis db' prod.collapse)
  from rc.cas_keeps_terminal [OF assms(2) cas] have "run_state_of db r = Some t \<Longrightarrow> run_is_terminal t \<Longrightarrow> run_state_of db' r = Some t" for r t
    by simp
  moreover from assms(2) cas have "run_state_of db' run = Some RCompleted \<longrightarrow> run_state_of db run = Some RCompleted"
    by (rule rc.cas_cases) auto
  moreover have "db_wf db'" "completed_in db' run = completed_in db run" using assms(2) by (simp_all add: db')
  ultimately show ?thesis by blast
qed (use assms in \<open>auto split: sum.splits\<close>)

subsection \<open>Waves\<close>

definition wave_ok :: "compiled_workflow \<Rightarrow> string set \<Rightarrow> wave \<Rightarrow> bool" where
  "wave_ok c done_ids w \<longleftrightarrow> length (wv_inflight w) \<le> max_concurrency c
     \<and> distinct (wv_queue w @ map task_id (wv_inflight w))
     \<and> (\<forall>i \<in> set (wv_queue w). runnable c done_ids i)
     \<and> (\<forall>t \<in> set (wv_inflight w). tk_node t \<in> set (cw_nodes c) \<and> (task_active t \<longrightarrow> runnable c done_ids (task_id t)))"

definition new_task :: "compiled_workflow \<Rightarrow> string \<Rightarrow> task" where
  "new_task c i = \<lparr>tk_node = the (cw_node c i), tk_pc = T_Load\<rparr>"

lemma launch_split:
  assumes "launch c k queue inflight = (queue', inflight')" "\<forall>i \<in> set queue. cw_node c i \<noteq> None"
  shows "\<exists>started. queue = started @ queue' \<and> inflight' = inflight @ map (new_task c) started
    \<and> length inflight' \<le> max k (length inflight) \<and> (queue' = [] \<or> k \<le> length inflight')"
  using assms
proof (induction c k queue inflight rule: launch.induct)
  case (2 c k i queue inflight)
  show ?case
  proof (cases "length inflight < k")
    case True
    from "2.prems"(2) obtain n where n: "cw_node c i = Some n" by auto
    with True "2.prems"(1) have "launch c k queue (inflight @ [new_task c i]) = (queue', inflight')" by (simp add: new_task_def)
    with "2.IH" True n "2.prems"(2) obtain st where "queue = st @ queue'" "inflight' = (inflight @ [new_task c i]) @ map (new_task c) st"
      "length inflight' \<le> max k (length (inflight @ [new_task c i]))" "queue' = [] \<or> k \<le> length inflight'"
      by (auto simp: new_task_def)
    with True show ?thesis by (intro exI [of _ "i # st"]) auto
  qed (use "2.prems" in auto)
qed auto

lemma runnable_node:
  assumes "wf_graph (cw_nodes c)" "runnable c C i"
  shows "\<exists>n. cw_node c i = Some n \<and> n \<in> set (cw_nodes c) \<and> cn_id n = i"
  using assms wf_graph_cw_node [OF assms(1), of i] by (auto simp: runnable_def)

lemma new_task_sel:
  assumes "wf_graph (cw_nodes c)" "runnable c C i"
  shows "task_id (new_task c i) = i \<and> tk_node (new_task c i) \<in> set (cw_nodes c) \<and> task_active (new_task c i)"
  using runnable_node [OF assms] by (auto simp: new_task_def task_active_def)

lemma wave_ok_fill:
  assumes wf: "wf_graph (cw_nodes c)" and ok: "wave_ok c C w"
  shows "wave_ok c C (fill c w)"
proof (cases "wv_stop w")
  case False
  obtain queue inflight where l: "launch c (max_concurrency c) (wv_queue w) (wv_inflight w) = (queue, inflight)" by force
  have "\<forall>i \<in> set (wv_queue w). cw_node c i \<noteq> None"
    using ok runnable_node [OF wf] by (fastforce simp: wave_ok_def)
  from launch_split [OF l this] ok obtain st where st: "wv_queue w = st @ queue" "inflight = wv_inflight w @ map (new_task c) st"
    "length inflight \<le> max_concurrency c" by (auto simp: wave_ok_def)
  have sel: "task_id (new_task c i) = i \<and> tk_node (new_task c i) \<in> set (cw_nodes c) \<and> task_active (new_task c i)" if "i \<in> set st" for i
    using ok st(1) that by (intro new_task_sel [OF wf]) (auto simp: wave_ok_def)
  then have "map task_id (map (new_task c) st) = st" by (simp add: map_idI)
  then have "distinct (queue @ map task_id inflight)" using ok st(1,2) by (auto simp: wave_ok_def)
  moreover have "runnable c C i" if "i \<in> set st" for i using ok st(1) that by (auto simp: wave_ok_def)
  moreover have "fill c w = w\<lparr>wv_queue := queue, wv_inflight := inflight\<rparr>" using False l by (simp add: fill_def)
  ultimately show ?thesis using ok st sel by (auto simp: wave_ok_def)
qed (use ok in \<open>simp add: fill_def\<close>)

lemma wave_ok_set_task:
  assumes "wave_ok c C w" "k < length (wv_inflight w)" "t = wv_inflight w ! k" "task_active t"
    and C': "C' = C \<or> pc = T_Done (Inr ()) \<and> C' = insert (task_id t) C"
  shows "wave_ok c C' (w\<lparr>wv_inflight := (wv_inflight w)[k := t\<lparr>tk_pc := pc\<rparr>]\<rparr>)"
proof -
  let ?fl = "(wv_inflight w)[k := t\<lparr>tk_pc := pc\<rparr>]"
  have ids: "map task_id ?fl = map task_id (wv_inflight w)"
    using assms(2,3) by (simp add: map_update list_update_same_conv)
  have t: "t \<in> set (wv_inflight w)" using assms(2,3) by simp
  have dist: "distinct (wv_queue w @ map task_id (wv_inflight w))" using assms(1) by (simp add: wave_ok_def)
  have q: "runnable c C' i" if "i \<in> set (wv_queue w)" for i
  proof -
    have "i \<noteq> task_id t" using dist that t by auto
    moreover have "runnable c C i" using assms(1) that by (simp add: wave_ok_def)
    ultimately show ?thesis using C' runnable_insert by auto
  qed
  have fl: "tk_node x \<in> set (cw_nodes c) \<and> (task_active x \<longrightarrow> runnable c C' (task_id x))" if x: "x \<in> set ?fl" for x
  proof -
    from x obtain j where j: "j < length (wv_inflight w)" "x = ?fl ! j" by (auto simp: in_set_conv_nth)
    show ?thesis
    proof (cases "j = k")
      case True
      then have "x = t\<lparr>tk_pc := pc\<rparr>" using j by simp
      moreover have "tk_node t \<in> set (cw_nodes c) \<and> runnable c C (task_id t)" using assms(1,4) t unfolding wave_ok_def by blast
      ultimately show ?thesis using C' by (auto simp: task_active_def)
    next
      case False
      then have x: "x = wv_inflight w ! j" using j by simp
      have "map task_id (wv_inflight w) ! j \<noteq> map task_id (wv_inflight w) ! k"
        using dist j(1) assms(2) False by (simp add: nth_eq_iff_index_eq del: nth_map)
      then have "task_id x \<noteq> task_id t" using x j(1) assms(2,3) by simp
      moreover have "tk_node x \<in> set (cw_nodes c) \<and> (task_active x \<longrightarrow> runnable c C (task_id x))"
        using assms(1) x j(1) unfolding wave_ok_def by (metis nth_mem)
      ultimately show ?thesis using C' runnable_insert by auto
    qed
  qed
  show ?thesis using assms(1) ids dist q fl unfolding wave_ok_def by simp
qed

lemma ready_distinct: "wf_graph (cw_nodes c) \<Longrightarrow> distinct (ready_node_ids c snap)"
  by (auto simp: wf_graph_def ready_node_ids_def Let_def distinct_map intro: inj_on_subset)

lemma ready_runnable:
  assumes "db_wf db" "snapshot E run db = Inr (Some snap)" "i \<in> set (ready_node_ids c snap)"
  shows "runnable c (completed_in db run) i"
  using assms(3) snapshot_Inr(5) [OF assms(1,2)] by (auto simp: ready_node_ids_iff runnable_def completed_in_def)

lemma wave_ok_round:
  assumes "wf_graph (cw_nodes c)" "db_wf db" "drive_round E c run db = pc" "pc_wave pc = Some w"
  shows "wave_ok c (completed_in db run) w"
  using assms ready_distinct [OF assms(1)] ready_runnable [OF assms(2)]
  by (auto simp: drive_round_def wave_ok_def read_snapshot_Inr split: sum.splits if_splits)

lemma wave_ok_await:
  assumes "wave_ok c C w" "drive_await k w = Some pc" "pc_wave pc = Some w'"
  shows "wave_ok c C w'"
proof -
  let ?fl = "take k (wv_inflight w) @ drop (Suc k) (wv_inflight w)"
  have sub: "set ?fl \<subseteq> set (wv_inflight w)" using set_take_subset set_drop_subset by fastforce
  from assms(2) have k: "k < length (wv_inflight w)" by (auto simp: drive_await_def split: if_splits)
  have eq: "wv_inflight w = take k (wv_inflight w) @ wv_inflight w ! k # drop (Suc k) (wv_inflight w)" using k by (rule id_take_nth_drop)
  have "distinct (wv_queue w @ map task_id (take k (wv_inflight w) @ wv_inflight w ! k # drop (Suc k) (wv_inflight w)))"
    using assms(1) eq by (simp add: wave_ok_def)
  then have dist: "distinct (wv_queue w @ map task_id ?fl)" by auto
  have "wv_inflight w' = ?fl \<and> wv_queue w' = wv_queue w"
    using assms(2,3) by (auto simp: drive_await_def Let_def split: if_splits task_pc.splits sum.splits)
  with assms(1) dist sub k show ?thesis by (auto simp: wave_ok_def)
qed

subsection \<open>The invariant of a drive\<close>

definition drive_inv :: "compiled_workflow \<Rightarrow> string \<Rightarrow> sys \<Rightarrow> bool" where
  "drive_inv c run s \<longleftrightarrow> db_wf (sy_db s)
     \<and> (\<forall>w. pc_wave (sy_pc s) = Some w \<longrightarrow> wave_ok c (completed_in (sy_db s) run) w)
     \<and> (\<forall>w. sy_pc s = D_Await w \<longrightarrow> wv_inflight w \<noteq> [])
     \<and> (sy_pc s = D_Finish RCompleted \<longrightarrow> all_completed (sy_db s) run)
     \<and> (run_state_of (sy_db s) run = Some RCompleted \<longrightarrow> all_completed (sy_db s) run \<and> (\<exists>r. sy_pc s = D_Done r))"

text \<open>The effect of a driver's step on the tables, and what its new program counter promises.\<close>

lemma recover_node_effect:
  assumes "recover_node now run n db = Some (Inr db')" "db_wf db"
  shows "db_wf db' \<and> run_state_of db' = run_state_of db"
proof -
  have "reset_interrupted_node now run (nd_id n) (nd_attempt n) db = Inr db' \<or> reset_blocked_node now run (nd_id n) db = Inr db'"
    using assms(1) by (auto simp: recover_node_def split: node_state.splits)
  from reset_states(2,3) [OF this] assms(2) show ?thesis by (auto simp: fun_eq_iff)
qed

lemma all_completed_snapshot:
  assumes "db_wf db" "snapshot E run db = Inr (Some snap)" "list_all (\<lambda>n. nd_state n = NCompleted) (sn_nodes snap)"
  shows "all_completed db run"
proof -
  have "node_state_of db run i \<in> {None, Some NCompleted}" for i
  proof (cases "find_node run i db")
    case (Some r)
    from snapshot_Inr(4) [OF assms(1,2) Some] obtain n where "n \<in> set (sn_nodes snap)" "nd_id n = i" by blast
    with snapshot_Inr(3) [OF assms(1,2), of n] assms(3) show ?thesis by (auto simp: list_all_iff)
  qed (simp add: node_state_of_def)
  then show ?thesis by (simp add: all_completed_def)
qed

lemma all_completed_cas [simp]: "all_completed (fst (set_run_state_if_legal now run legal st db)) r = all_completed db r"
  by (simp add: all_completed_def)

lemma cas_completed:
  assumes "db_wf db" "set_run_state_if_legal now run legal st db = (db', k)" "run_state_of db' run = Some RCompleted"
  shows "run_state_of db run = Some RCompleted \<or> (st = RCompleted \<and> 0 < k)"
  using assms(1,2) by (rule rc.cas_cases) (use assms(3) in auto)

lemma drive_inv_idle:
  assumes "db_wf db" "run_state_of db run \<noteq> Some RCompleted" "pc_wave pc = None" "pc \<noteq> D_Finish RCompleted"
  shows "drive_inv c run \<lparr>sy_db = db, sy_pc = pc, sy_log = es\<rparr>"
  using assms by (auto simp: drive_inv_def)

lemma drive_inv_returned:
  assumes "db_wf db" "run_state_of db run = Some RCompleted \<Longrightarrow> all_completed db run"
  shows "drive_inv c run \<lparr>sy_db = db, sy_pc = D_Done r, sy_log = es\<rparr>"
  using assms by (auto simp: drive_inv_def)

lemma drive_inv_wave:
  assumes "db_wf db" "run_state_of db run \<noteq> Some RCompleted" "pc_wave pc = Some w" "wave_ok c (completed_in db run) w"
    "\<And>w. pc = D_Await w \<Longrightarrow> wv_inflight w \<noteq> []"
  shows "drive_inv c run \<lparr>sy_db = db, sy_pc = pc, sy_log = es\<rparr>"
  using assms by (auto simp: drive_inv_def)

lemma driver_step_inv:
  assumes wf: "wf_graph (cw_nodes c)" and inv: "drive_inv c run \<lparr>sy_db = db, sy_pc = pc, sy_log = es0\<rparr>"
    and step: "driver_step E c run now k pc db = Some (pc', db', es)"
  shows "drive_inv c run \<lparr>sy_db = db', sy_pc = pc', sy_log = es1\<rparr>"
proof -
  from inv have db: "db_wf db" by (simp add: drive_inv_def)
  have ok: "wave_ok c (completed_in db run) w" if "pc_wave pc = Some w" for w using inv that by (simp add: drive_inv_def)
  have nc: "run_state_of db run \<noteq> Some RCompleted" using inv step by (cases pc) (auto simp: drive_inv_def)
  show ?thesis
  proof (cases pc)
    case D_Start
    with step db nc show ?thesis by (auto simp: drive_start_def intro!: drive_inv_idle split: sum.splits if_splits)
  next
    case (D_Recover ns)
    show ?thesis
    proof (cases ns)
      case (Cons n ms)
      with D_Recover step have r: "drive_recover now run n ms db = (pc', db', es)" by simp
      then show ?thesis
        using db nc recover_node_effect [of now run n db]
        by (auto simp: drive_recover_def intro!: drive_inv_idle split: option.splits sum.splits)
    qed (use D_Recover step db nc in \<open>auto intro!: drive_inv_idle\<close>)
  next
    case D_Begin
    obtain db1 j where cas: "set_run_state_if_legal now run [RPending, RRunning] RRunning db = (db1, j)" by force
    from cas_completed [OF db cas] rc.cas_wf [OF db cas] nc
    have "db_wf db1" "run_state_of db1 run \<noteq> Some RCompleted" by auto
    with D_Begin step cas show ?thesis
      by (auto simp: try_transition_to_running_def intro!: drive_inv_idle split: bool.splits)
  next
    case D_Round
    with step have pc': "drive_round E c run db = pc'" "db' = db" by auto
    show ?thesis
    proof (cases "pc_wave pc'")
      case None
      with pc' db nc show ?thesis
        by (auto intro!: drive_inv_idle) (auto simp: drive_round_def split: sum.splits if_splits)
    next
      case (Some w)
      from wave_ok_round [OF wf db pc'(1) Some] show ?thesis
        unfolding pc'(2) by (rule drive_inv_wave [OF db nc Some])
          (use pc'(1) in \<open>auto simp: drive_round_def split: sum.splits if_splits\<close>)
    qed
  next
    case (D_Fill w)
    with wave_ok_fill [OF wf ok] have "wave_ok c (completed_in db run) (fill c w)" by simp
    with D_Fill step db nc show ?thesis
      by (auto simp: drive_fill_def Let_def drive_inv_def split: if_splits option.splits)
  next
    case (D_Await w)
    with step obtain aw: "drive_await k w = Some pc'" "db' = db" by auto
    then obtain w' where w': "pc_wave pc' = Some w'" "\<And>v. pc' \<noteq> D_Await v"
      by (auto simp: drive_await_def Let_def split: if_splits task_pc.splits sum.splits)
    from wave_ok_await [OF ok aw(1) w'(1)] D_Await w' db nc show ?thesis
      unfolding aw(2) by (intro drive_inv_wave) auto
  next
    case (D_Check w)
    with ok have "wave_ok c (completed_in db run) w" by simp
    then have "wave_ok c (completed_in db run) (w\<lparr>wv_stop := True, wv_halted := True\<rparr>)" by (simp add: wave_ok_def)
    with ok D_Check step db nc show ?thesis
      by (auto simp: drive_check_def drive_inv_def split: sum.splits if_splits)
  next
    case D_Final
    show ?thesis
    proof (cases "read_snapshot E run db")
      case (Inr snap)
      with all_completed_snapshot [OF db] D_Final step db nc show ?thesis
        by (auto simp: drive_final_def drive_inv_def read_snapshot_Inr split: if_splits)
    qed (use D_Final step db nc in \<open>auto simp: drive_final_def intro!: drive_inv_idle\<close>)
  next
    case (D_Finish st)
    obtain db1 j where cas: "set_run_state_if_legal now run [RRunning] st db = (db1, j)" by force
    have all: "all_completed db1 run" if "st = RCompleted"
    proof -
      have "all_completed db1 run = all_completed db run" using all_completed_cas cas by (metis fst_conv)
      with inv D_Finish that show ?thesis by (simp add: drive_inv_def)
    qed
    from cas_completed [OF db cas] nc all have "run_state_of db1 run = Some RCompleted \<Longrightarrow> all_completed db1 run" by blast
    moreover have "j = 0 \<Longrightarrow> run_state_of db1 run \<noteq> Some RCompleted" using cas_completed [OF db cas] nc by auto
    ultimately show ?thesis using D_Finish step cas rc.cas_wf [OF db cas]
      by (auto simp: drive_finish_def intro!: drive_inv_idle drive_inv_returned split: if_splits)
  qed (use step db nc in \<open>auto intro!: drive_inv_idle\<close>)
qed

lemma active_task_Some:
  assumes "active_task pc k = Some (w, t)"
  shows "pc_wave pc = Some w \<and> k < length (wv_inflight w) \<and> t = wv_inflight w ! k \<and> task_active t"
  using assms by (auto simp: active_task_def split: option.splits if_splits task_pc.splits)

lemma set_wave_sel:
  assumes "pc_wave pc = Some w"
  shows "pc_wave (set_wave pc w') = Some w'" "set_wave pc w' = D_Await v \<longleftrightarrow> v = w' \<and> (\<exists>u. pc = D_Await u)"
    "pc \<noteq> D_Finish st" "set_wave pc w' \<noteq> D_Finish st" "pc \<noteq> D_Done r" "set_wave pc w' \<noteq> D_Done r"
  using assms by (cases pc; auto)+

lemma drive_inv_cas:
  assumes "drive_inv c run s" "st \<noteq> RCompleted"
  shows "drive_inv c run (s\<lparr>sy_db := fst (set_run_state_if_legal now run legal st (sy_db s))\<rparr>)"
proof -
  obtain db' k where cas: "set_run_state_if_legal now run legal st (sy_db s) = (db', k)" by force
  from assms(1) have "db_wf (sy_db s)" by (simp add: drive_inv_def)
  from cas_completed [OF this cas] rc.cas_wf [OF this cas] assms(2)
  have "run_state_of db' run = Some RCompleted \<Longrightarrow> run_state_of (sy_db s) run = Some RCompleted" "db_wf db'" by auto
  moreover have "completed_in db' run = completed_in (sy_db s) run" "all_completed db' run = all_completed (sy_db s) run"
    using completed_in_cas all_completed_cas cas by (metis fst_conv)+
  ultimately show ?thesis using assms(1) by (simp add: cas drive_inv_def)
qed

lemma task_active_runnable:
  assumes "drive_inv c run s" "active_task (sy_pc s) k = Some (w, t)"
  shows "runnable c (completed_in (sy_db s) run) (task_id t)" "tk_node t \<in> set (cw_nodes c)"
  using assms active_task_Some [OF assms(2)] unfolding drive_inv_def wave_ok_def by (metis nth_mem)+

lemma sys_step_inv:
  assumes wf: "wf_graph (cw_nodes c)" and inv: "drive_inv c run s" and step: "sys_step E c run ch s = Some s'"
  shows "drive_inv c run s'"
proof -
  from inv have db: "db_wf (sy_db s)" by (simp add: drive_inv_def)
  show ?thesis
  proof (cases ch)
    case (Drive now k)
    with step obtain pc' db' es where d: "driver_step E c run now k (sy_pc s) (sy_db s) = Some (pc', db', es)"
      and s': "s' = \<lparr>sy_db = db', sy_pc = pc', sy_log = sy_log s @ es\<rparr>" by auto
    have "\<lparr>sy_db = sy_db s, sy_pc = sy_pc s, sy_log = sy_log s\<rparr> = s" by simp
    with driver_step_inv [OF wf _ d, of "sy_log s" "sy_log s @ es"] inv show ?thesis by (simp add: s')
  next
    case (Task k now oc)
    with step obtain w t where at: "active_task (sy_pc s) k = Some (w, t)" by (auto split: option.splits)
    obtain pc' db' es where ts: "task_step E now run oc (tk_node t) (tk_pc t) (sy_db s) = (pc', db', es)" by (metis prod_cases3)
    let ?w = "w\<lparr>wv_inflight := (wv_inflight w)[k := t\<lparr>tk_pc := pc'\<rparr>]\<rparr>"
    from step Task at ts have s': "s' = \<lparr>sy_db = db', sy_pc = set_wave (sy_pc s) ?w, sy_log = sy_log s @ es\<rparr>" by simp
    note a = active_task_Some [OF at]
    from task_active_runnable [OF inv at] have "task_id t \<notin> completed_in (sy_db s) run" by (simp add: runnable_def)
    with task_step_effect [OF ts db] have eff: "db_wf db'" "run_state_of db' run = Some RCompleted \<longrightarrow> run_state_of (sy_db s) run = Some RCompleted"
      "completed_in db' run = completed_in (sy_db s) run
        \<or> pc' = T_Done (Inr ()) \<and> completed_in db' run = insert (task_id t) (completed_in (sy_db s) run)" by blast+
    have nc: "run_state_of (sy_db s) run \<noteq> Some RCompleted" using inv a by (cases "sy_pc s") (auto simp: drive_inv_def)
    have "wave_ok c (completed_in (sy_db s) run) w" using inv a by (simp add: drive_inv_def)
    then have "wave_ok c (completed_in db' run) ?w" by (rule wave_ok_set_task) (use a eff in blast)+
    then show ?thesis unfolding s'
      by (rule drive_inv_wave [rotated 3]) (use eff nc a in \<open>auto simp: set_wave_sel\<close>)
  next
    case (Drain now)
    with step have s': "s' = s\<lparr>sy_db := fst (skip_pending_nodes now run (sy_db s))\<rparr>"
      and rs: "run_state_of (sy_db s) run = Some RCancelled" by (auto split: if_splits)
    obtain db' ids where sk: "skip_pending_nodes now run (sy_db s) = (db', ids)" by force
    have "node_state_of db' run i \<in> {None, Some NCompleted}" if "node_state_of (sy_db s) run i \<in> {None, Some NCompleted}" for i
      using that skip_states(1) [OF sk, of run i] by auto
    then have "all_completed db' run" if "all_completed (sy_db s) run" using that by (simp add: all_completed_def)
    with inv db_wf_skip [OF db, of now run] completed_in_skip [of now run "sy_db s" run] rs run_state_skip [of now run "sy_db s" run]
    show ?thesis by (simp add: s' sk drive_inv_def)
  next
    case (Park k now st)
    with step obtain w t att db' where at: "active_task (sy_pc s) k = Some (w, t)" and st: "st \<noteq> NCompleted"
      and tr: "transition_node_with_error E now run (task_id t) st att None None None (sy_db s) = Inr db'"
      and s': "s' = s\<lparr>sy_db := db'\<rparr>"
      by (auto simp: transition_eq split: option.splits task_pc.splits if_splits sum.splits)
    from task_active_runnable [OF inv at] have "completed_in db' run = completed_in (sy_db s) run"
      using completed_in_transition [OF tr] st by (simp add: runnable_def)
    moreover have "pc_wave (sy_pc s) = Some w" using active_task_Some [OF at] by simp
    then have "sy_pc s \<noteq> D_Finish x" "sy_pc s \<noteq> D_Done r" for x r by (auto simp: set_wave_sel)
    ultimately show ?thesis using inv transition_states(2,3) [OF tr] by (simp add: s' drive_inv_def)
  qed (use step in \<open>auto intro!: drive_inv_cas [OF inv]\<close>)
qed

lemma drive_inv_start: "db_wf db \<Longrightarrow> run_state_of db run \<noteq> Some RCompleted \<Longrightarrow> drive_inv c run (start_sys db)"
  by (simp add: drive_inv_def start_sys_def)

lemma drive_reach_inv:
  assumes "drive_reach E c run (start_sys db) s" "wf_graph (cw_nodes c)" "db_wf db" "run_state_of db run \<noteq> Some RCompleted"
  shows "drive_inv c run s"
  using assms(1) by induction (use assms(2-) drive_inv_start sys_step_inv in blast)+

subsection \<open>Finished runs\<close>

text \<open>No step moves a finished run, and a finished state the driver returns is the stored one.\<close>

lemma cas_terminal:
  assumes "db_wf db" "\<forall>s \<in> set legal. \<not> run_is_terminal s" "run_state_of db r = Some t" "run_is_terminal t"
  shows "run_state_of (fst (set_run_state_if_legal now run legal st db)) r = Some t"
  using rc.cas_keeps_terminal [OF assms(1) prod.collapse [symmetric] _ assms(3,4)] assms(2) by blast

lemma driver_step_terminal:
  assumes "driver_step E c run now k pc db = Some (pc', db', es)" "db_wf db"
  shows "db_wf db' \<and> (\<forall>r t. run_state_of db r = Some t \<and> run_is_terminal t \<longrightarrow> run_state_of db' r = Some t)"
proof -
  have cas: "db_wf d \<and> (\<forall>r t. run_state_of db r = Some t \<and> run_is_terminal t \<longrightarrow> run_state_of d r = Some t)"
    if "set_run_state_if_legal now run legal st db = (d, j)" "\<forall>s \<in> set legal. \<not> run_is_terminal s" for d j legal st
    using cas_terminal [OF assms(2) that(2), of _ _ now run st] db_wf_cas [OF assms(2), of now run legal st] that(1) by simp
  show ?thesis
  proof (cases pc)
    case (D_Recover ns)
    then show ?thesis
      using assms recover_node_effect [of now run "hd ns" db]
      by (cases ns) (auto simp: drive_recover_def split: option.splits sum.splits)
  next
    case D_Begin
    then show ?thesis using assms(1)
      by (auto simp: try_transition_to_running_def split: prod.splits bool.splits dest!: cas)
  next
    case (D_Finish st)
    then show ?thesis using assms(1) by (auto simp: drive_finish_def split: prod.splits if_splits dest!: cas)
  qed (use assms in auto)
qed

lemma sys_step_terminal:
  assumes "sys_step E c run ch s = Some s'" "db_wf (sy_db s)"
  shows "db_wf (sy_db s') \<and> (\<forall>r t. run_state_of (sy_db s) r = Some t \<and> run_is_terminal t \<longrightarrow> run_state_of (sy_db s') r = Some t)"
proof (cases ch)
  case (Drive now k)
  with assms driver_step_terminal show ?thesis by (auto; blast)
next
  case (Task k now oc)
  with assms show ?thesis
    using task_step_effect [OF _ assms(2)] by (auto split: option.splits prod.splits; blast)
next
  case (Park k now st)
  with assms(1) obtain i att db' where "transition_node_with_error E now run i st att None None None (sy_db s) = Inr db'"
    "s' = s\<lparr>sy_db := db'\<rparr>"
    by (auto simp: transition_eq split: option.splits task_pc.splits if_splits sum.splits)
  with transition_states(2,3) assms(2) show ?thesis by auto
next
  case (Drain now)
  with assms db_wf_skip show ?thesis by (auto split: if_splits)
qed (use assms in \<open>auto simp: cas_terminal\<close>)

lemma driver_returns_stored:
  assumes "driver_step E c run now k pc db = Some (D_Done (Inr st), db', es)" "db_wf db"
  shows "run_state_of db' run = Some st"
proof (cases pc)
  case D_Start
  with assms snapshot_Inr(1) [OF assms(2)] show ?thesis
    by (auto simp: drive_start_def dest!: checked_snapshot_Inr split: sum.splits if_splits)
next
  case (D_Recover ns)
  with assms show ?thesis by (cases ns) (auto simp: drive_recover_def split: option.splits sum.splits)
next
  case D_Round
  with assms snapshot_Inr(1) [OF assms(2)] show ?thesis
    by (auto simp: drive_round_def read_snapshot_Inr split: sum.splits if_splits)
next
  case (D_Finish f)
  obtain d j where cas: "set_run_state_if_legal now run [RRunning] f db = (d, j)" by force
  with D_Finish assms(1) have j: "j \<noteq> 0" "db' = d" "f = st" by (auto simp: drive_finish_def split: if_splits)
  show ?thesis using assms(2) cas by (rule rc.cas_cases) (use j in auto)
qed (use assms read_state_Inr [OF assms(2)] in
  \<open>auto simp: try_transition_to_running_def drive_fill_def drive_await_def drive_check_def drive_final_def Let_def
     split: prod.splits bool.splits if_splits option.splits task_pc.splits sum.splits\<close>)

lemma drive_reach_terminal:
  assumes "drive_reach E c run s0 s" "db_wf (sy_db s0)" "run_state_of (sy_db s0) r = Some t" "run_is_terminal t"
  shows "db_wf (sy_db s) \<and> run_state_of (sy_db s) r = Some t"
  using assms(1) by induction (use assms(2-) sys_step_terminal in blast)+

lemma drive_reach_returned:
  assumes "drive_reach E c run (start_sys db) s" "db_wf db"
  shows "db_wf (sy_db s) \<and> (\<forall>st. sy_pc s = D_Done (Inr st) \<and> run_is_terminal st \<longrightarrow> run_state_of (sy_db s) run = Some st)"
  using assms(1)
proof induction
  case (step s ch s')
  have db: "db_wf (sy_db s)" using step.IH by blast
  show ?case
  proof (intro conjI allI impI)
    show "db_wf (sy_db s')" using sys_step_terminal [OF step.hyps(2) db] by blast
    fix st
    assume st: "sy_pc s' = D_Done (Inr st) \<and> run_is_terminal st"
    show "run_state_of (sy_db s') run = Some st"
    proof (cases "sy_pc s = D_Done (Inr st)")
      case True
      with step.IH st sys_step_terminal [OF step.hyps(2) db] show ?thesis by blast
    next
      case False
      with step.hyps(2) st have "\<exists>now k. ch = Drive now k"
        by (cases ch) (auto dest!: active_task_Some simp: set_wave_sel split: option.splits if_splits task_pc.splits sum.splits prod.splits)
      with step.hyps(2) st driver_returns_stored [OF _ db] show ?thesis by auto
    qed
  qed
qed (use assms(2) in \<open>simp add: start_sys_def\<close>)

subsection \<open>An example run\<close>

text \<open>A workflow of one agent node with two attempts, a stored run of it, and the steps up to the node's first task step.\<close>

definition retry_workflow :: workflow_definition where
  "retry_workflow = example_workflow [(example_agent_step ''a'' [])\<lparr>step_retry := Some \<lparr>attempts = 2, backoff_seconds = 5\<rparr>\<rparr>]"

definition retry_compiled :: compiled_workflow where
  "retry_compiled = projr (compile retry_workflow)"

definition retry_created :: "wf_db \<times> string" where
  "retry_created = projr (create_run env_example ''t0'' (\<lambda>k. ''u'' @ dec k) retry_compiled None JNull (Some ''m'') empty_db)"

abbreviation "retry_db \<equiv> fst retry_created"

definition drive_to_task :: "choice list" where
  "drive_to_task = replicate 6 (Drive ''t1'' 0)"

definition fail_once :: "choice list" where
  "fail_once = replicate 4 (Task 0 ''t2'' (O_Failed ''boom''))"

definition complete_and_finish :: "choice list" where
  "complete_and_finish = replicate 4 (Task 0 ''t3'' outcome_completed) @ replicate 6 (Drive ''t4'' 0)"

definition retry_sys :: "choice list \<Rightarrow> sys" where
  "retry_sys chs = the (sys_run env_example retry_compiled ''u0'' chs (start_sys retry_db))"

lemma retry_compile: "compile retry_workflow = Inr retry_compiled"
proof -
  have "\<not> isl (compile retry_workflow)" by code_simp
  then show ?thesis by (simp add: retry_compiled_def)
qed

lemma retry_db_wf: "db_wf retry_db" and retry_db_pending: "run_state_of retry_db ''u0'' = Some RPending"
proof -
  have "\<not> isl (create_run env_example ''t0'' (\<lambda>k. ''u'' @ dec k) retry_compiled None JNull (Some ''m'') empty_db)" by code_simp
  then have "create_run env_example ''t0'' (\<lambda>k. ''u'' @ dec k) retry_compiled None JNull (Some ''m'') empty_db = Inr (retry_db, snd retry_created)"
    by (simp add: retry_created_def)
  from store_reach_wf [OF store_reach.step [OF store_reach.init store_step.create [OF this]]] show "db_wf retry_db" .
  show "run_state_of retry_db ''u0'' = Some RPending" by code_simp
qed

lemma retry_sys_reach:
  assumes "sys_run env_example retry_compiled ''u0'' chs (start_sys retry_db) \<noteq> None"
  shows "drive_reach env_example retry_compiled ''u0'' (start_sys retry_db) (retry_sys chs)"
  using assms by (auto simp: retry_sys_def intro: sys_run_reach)

lemma retry_exec_reach: "drive_reach env_example retry_compiled ''u0'' (start_sys retry_db) (retry_sys (drive_to_task @ fail_once))"
  by (rule retry_sys_reach) code_simp

lemma retry_done_reach:
  "drive_reach env_example retry_compiled ''u0'' (start_sys retry_db) (retry_sys (drive_to_task @ complete_and_finish))"
  by (rule retry_sys_reach) code_simp

text \<open>The same run cancelled while its node waits for the second attempt, and two more steps of that node's task.\<close>

definition cancelled_sys :: sys where
  "cancelled_sys = retry_sys (drive_to_task @ fail_once @ [Cancel ''t5'', Drain ''t6''])"

definition cancelled_later :: sys where
  "cancelled_later = the (sys_run env_example retry_compiled ''u0'' (replicate 2 (Task 0 ''t7'' outcome_completed)) cancelled_sys)"

lemma cancelled_reach: "drive_reach env_example retry_compiled ''u0'' (start_sys retry_db) cancelled_sys"
  unfolding cancelled_sys_def by (rule retry_sys_reach) code_simp

lemma cancelled_later_reach: "drive_reach env_example retry_compiled ''u0'' cancelled_sys cancelled_later"
proof -
  have "sys_run env_example retry_compiled ''u0'' (replicate 2 (Task 0 ''t7'' outcome_completed)) cancelled_sys \<noteq> None" by code_simp
  then show ?thesis unfolding cancelled_later_def by (auto intro: sys_run_reach)
qed

lemma cancelled_state: "run_state_of (sy_db cancelled_sys) ''u0'' = Some RCancelled"
  by code_simp

subsection \<open>Properties\<close>

text \<open>
  C3: in every state a drive of a compiled workflow reaches, whatever the executor, the clock and concurrent pauses,
  cancels and resumes do, at most \<open>max_concurrency\<close> nodes are in flight, no node is in flight twice, and every
  node that is still being run is not completed and depends on completed nodes only.
\<close>

theorem wave_safe:
  assumes "compile d = Inr c" "drive_reach E c run (start_sys db) s" "db_wf db" "run_state_of db run \<noteq> Some RCompleted"
    and "pc_wave (sy_pc s) = Some w"
  shows "length (wv_inflight w) \<le> max_concurrency c \<and> distinct (map (\<lambda>t. cn_id (tk_node t)) (wv_inflight w))
    \<and> (\<forall>t \<in> set (wv_inflight w). task_active t \<longrightarrow> node_state_of (sy_db s) run (cn_id (tk_node t)) \<noteq> Some NCompleted
         \<and> (\<forall>dep \<in> set (cn_depends_on (tk_node t)). node_state_of (sy_db s) run dep = Some NCompleted))"
proof -
  from compile_graph_facts [OF assms(1)] have wf: "wf_graph (cw_nodes c)" by blast
  have ok: "wave_ok c (completed_in (sy_db s) run) w"
    using drive_reach_inv [OF assms(2) wf assms(3,4)] assms(5) by (simp add: drive_inv_def)
  have "set (cn_depends_on (tk_node t)) \<subseteq> completed_in (sy_db s) run"
    if "t \<in> set (wv_inflight w)" "task_active t" for t
  proof -
    from ok that have t: "tk_node t \<in> set (cw_nodes c)" "runnable c (completed_in (sy_db s) run) (task_id t)"
      by (auto simp: wave_ok_def)
    then obtain n where n: "n \<in> set (cw_nodes c)" "cn_id n = task_id t" "set (cn_depends_on n) \<subseteq> completed_in (sy_db s) run"
      by (auto simp: runnable_def)
    moreover have "n = tk_node t" using wf t(1) n(1,2) by (auto simp: wf_graph_def distinct_map inj_on_def)
    ultimately show ?thesis by simp
  qed
  with ok show ?thesis by (auto simp: wave_ok_def runnable_def completed_in_def)
qed

theorem wave_safe_witness:
  "length (wv_inflight (the (pc_wave (sy_pc (retry_sys (drive_to_task @ fail_once)))))) \<le> max_concurrency retry_compiled
   \<and> map (\<lambda>t. cn_id (tk_node t)) (wv_inflight (the (pc_wave (sy_pc (retry_sys (drive_to_task @ fail_once)))))) = [''a'']"
proof
  have "pc_wave (sy_pc (retry_sys (drive_to_task @ fail_once))) \<noteq> None" by code_simp
  then have "pc_wave (sy_pc (retry_sys (drive_to_task @ fail_once))) = Some (the (pc_wave (sy_pc (retry_sys (drive_to_task @ fail_once)))))"
    by simp
  from wave_safe [OF retry_compile retry_exec_reach retry_db_wf _ this] retry_db_pending
  show "length (wv_inflight (the (pc_wave (sy_pc (retry_sys (drive_to_task @ fail_once)))))) \<le> max_concurrency retry_compiled" by simp
  show "map (\<lambda>t. cn_id (tk_node t)) (wv_inflight (the (pc_wave (sy_pc (retry_sys (drive_to_task @ fail_once)))))) = [''a'']" by code_simp
qed

text \<open>
  C4: a run is stored as \<open>Completed\<close> only when every one of its nodes is: no interleaving of the driver with node
  tasks, pauses, cancels and resumes reports a run complete while work remains undone.
\<close>

theorem completed_run_all_nodes:
  assumes "compile d = Inr c" "drive_reach E c run (start_sys db) s" "db_wf db" "run_state_of db run \<noteq> Some RCompleted"
    and "run_state_of (sy_db s) run = Some RCompleted"
  shows "\<forall>r \<in> set (db_nodes (sy_db s)). nr_run r = run \<longrightarrow> parse_node_state (nr_state r) = Inr NCompleted"
proof (intro ballI impI)
  fix r assume r: "r \<in> set (db_nodes (sy_db s))" "nr_run r = run"
  from compile_graph_facts [OF assms(1)] have wf: "wf_graph (cw_nodes c)" by blast
  note inv = drive_reach_inv [OF assms(2) wf assms(3,4)]
  then have db: "db_wf (sy_db s)" and "all_completed (sy_db s) run" using assms(5) by (simp_all add: drive_inv_def)
  moreover from r db obtain st where "nr_state r = node_state_str st" by (auto simp: db_wf_def)
  ultimately show "parse_node_state (nr_state r) = Inr NCompleted"
    using db_wf_find_node [OF db r(1)] r(2) by (auto simp: all_completed_def node_state_of_def dest!: spec [of _ "nr_node_id r"])
qed

theorem completed_run_all_nodes_witness:
  "\<exists>r. db_nodes (sy_db (retry_sys (drive_to_task @ complete_and_finish))) = [r] \<and> parse_node_state (nr_state r) = Inr NCompleted"
proof -
  let ?s = "retry_sys (drive_to_task @ complete_and_finish)"
  have "map nr_run (db_nodes (sy_db ?s)) = [''u0'']" by code_simp
  then obtain r where r: "db_nodes (sy_db ?s) = [r]" "nr_run r = ''u0''" by auto
  have "run_state_of (sy_db ?s) ''u0'' = Some RCompleted" by code_simp
  with completed_run_all_nodes [OF retry_compile retry_done_reach retry_db_wf] retry_db_pending r show ?thesis by simp
qed

text \<open>
  C5: a finished run stays finished: no step of a driver, of a node task or of a concurrent pause, cancel or resume
  moves a completed, failed or cancelled run, this run or another. So an accepted cancel is never reverted, and a finished
  state that the driver returns is the stored one.
\<close>

theorem finished_stays_finished:
  assumes "db_wf db" "drive_reach E c run (start_sys db) s0" "drive_reach E c run s0 s"
  shows "(run_state_of (sy_db s0) r = Some t \<and> run_is_terminal t \<longrightarrow> run_state_of (sy_db s) r = Some t)
    \<and> (sy_pc s0 = D_Done (Inr st) \<and> run_is_terminal st \<longrightarrow> run_state_of (sy_db s) run = Some st)"
  using drive_reach_returned [OF assms(2,1)] drive_reach_terminal [OF assms(3)] by blast

theorem finished_stays_finished_witness: "run_state_of (sy_db cancelled_later) ''u0'' = Some RCancelled"
  using finished_stays_finished [OF retry_db_wf cancelled_reach cancelled_later_reach, of "''u0''" RCancelled] cancelled_state
  by simp

text \<open>
  C38: a cancelled run can still execute a node it reported as skipped. A failed attempt stores the node as \<open>Pending\<close>
  for the time of its backoff; a cancel in that window marks it \<open>Skipped\<close>, and its task then runs it again.
\<close>

theorem skipped_node_runs:
  "\<exists>s1 s2. drive_reach env_example retry_compiled ''u0'' (start_sys retry_db) s1
     \<and> run_state_of (sy_db s1) ''u0'' = Some RCancelled \<and> node_state_of (sy_db s1) ''u0'' ''a'' = Some NSkipped
     \<and> drive_reach env_example retry_compiled ''u0'' s1 s2
     \<and> run_state_of (sy_db s2) ''u0'' = Some RCancelled \<and> node_state_of (sy_db s2) ''u0'' ''a'' = Some NRunning
     \<and> sy_log s2 = sy_log s1 @ [On_Transition (new_transition ''a'' NRunning 2)]"
proof (intro exI conjI)
  show "node_state_of (sy_db cancelled_sys) ''u0'' ''a'' = Some NSkipped" by code_simp
  show "run_state_of (sy_db cancelled_later) ''u0'' = Some RCancelled" by code_simp
  show "node_state_of (sy_db cancelled_later) ''u0'' ''a'' = Some NRunning" by code_simp
  show "sy_log cancelled_later = sy_log cancelled_sys @ [On_Transition (new_transition ''a'' NRunning 2)]" by code_simp
qed (fact cancelled_reach cancelled_state cancelled_later_reach)+

end
