(* ===== verification/Drive_Progress.thy ===== *)
theory Drive_Progress
  imports Drive_Safety
begin

text \<open>
  Termination and liveness of a drive: a potential that every step of the driver and of a node task lowers and no
  concurrent command raises, so a drive takes a bounded number of steps, and a driver that has not returned always has a
  step to take.
\<close>

subsection \<open>Settled tasks and stopped waves\<close>

text \<open>A task that ended, or is about to pause the run, left its node in a state the frontier does not pick up again.\<close>

definition settled :: "wf_db \<Rightarrow> string \<Rightarrow> task \<Rightarrow> bool" where
  "settled db run t \<longleftrightarrow> (tk_pc t = T_Pause \<or> tk_pc t = T_Done (Inr ()) \<longrightarrow> node_state_of db run (task_id t) \<noteq> Some NPending)"

definition wave_settled :: "wf_db \<Rightarrow> string \<Rightarrow> wave \<Rightarrow> bool" where
  "wave_settled db run w \<longleftrightarrow> (\<forall>t \<in> set (wv_inflight w). settled db run t)
     \<and> (wv_stop w \<longrightarrow> wv_error w \<noteq> None \<or> wv_halted w)"

definition progress_inv :: "compiled_workflow \<Rightarrow> string \<Rightarrow> sys \<Rightarrow> bool" where
  "progress_inv c run s \<longleftrightarrow> drive_inv c run s \<and> (\<forall>w. pc_wave (sy_pc s) = Some w \<longrightarrow> wave_settled (sy_db s) run w)"

lemma task_step_settled:
  assumes "task_step E now run oc n pc db = (pc', db', es)" "\<forall>r. pc \<noteq> T_Done r" "settled db run \<lparr>tk_node = n, tk_pc = pc\<rparr>"
  shows "settled db' run \<lparr>tk_node = n, tk_pc = pc'\<rparr> \<and> (\<forall>j. j \<noteq> cn_id n \<longrightarrow> node_state_of db' run j = node_state_of db run j)"
proof -
  have w: "settled db' run \<lparr>tk_node = n, tk_pc = pc'\<rparr> \<and> (\<forall>j. j \<noteq> cn_id n \<longrightarrow> node_state_of db' run j = node_state_of db run j)"
    if "after_write (transition_node_with_error E now run (cn_id n) st a ag cost err db) db pc1 es0 = (pc', db', es1)"
      "st = NPending \<longrightarrow> pc1 \<noteq> T_Pause \<and> pc1 \<noteq> T_Done (Inr ())" for st a ag cost err pc1 es0 es1
    using that(1)
  proof (cases rule: after_write_cases)
    case written
    with transition_states(1) [OF written(1)] that(2) show ?thesis by (auto simp: settled_def)
  qed (simp add: settled_def)
  show ?thesis
  proof (cases pc)
    case (T_Outcome att oc')
    with assms(1) have "record_outcome E now run n att oc' db = (pc', db', es)" by simp
    then show ?thesis by (cases rule: record_outcome_cases) (erule w, auto)
  next
    case (T_Start att)
    from task_start_write [OF assms(1) [unfolded T_Start]] show ?thesis by (rule w) simp
  qed (use assms in \<open>auto simp: settled_def split: sum.splits\<close>)
qed

lemma task_active_iff: "task_active t \<longleftrightarrow> (\<forall>r. tk_pc t \<noteq> T_Done r)"
  by (auto simp: task_active_def split: task_pc.splits)

lemma settled_other: "node_state_of db' run (task_id t) = node_state_of db run (task_id t) \<Longrightarrow> settled db' run t = settled db run t"
  by (simp add: settled_def)

lemma wave_settled_same:
  assumes "wave_settled db run w" "wv_inflight w' = wv_inflight w" "wv_stop w' = wv_stop w" "wv_error w' = wv_error w"
    "wv_halted w' = wv_halted w" "\<And>j. node_state_of db' run j = Some NPending \<Longrightarrow> node_state_of db run j = Some NPending"
  shows "wave_settled db' run w'"
  using assms by (auto simp: wave_settled_def settled_def)

lemma wave_settled_fill:
  assumes "wf_graph (cw_nodes c)" "wave_ok c C w" "wave_settled db run w"
  shows "wave_settled db run (fill c w)"
proof (cases "wv_stop w")
  case False
  obtain queue inflight where l: "launch c (max_concurrency c) (wv_queue w) (wv_inflight w) = (queue, inflight)" by force
  have "\<forall>i \<in> set (wv_queue w). cw_node c i \<noteq> None"
    using assms(2) runnable_node [OF assms(1)] by (fastforce simp: wave_ok_def)
  from launch_split [OF l this] obtain st where "inflight = wv_inflight w @ map (new_task c) st" by blast
  moreover have "fill c w = w\<lparr>wv_queue := queue, wv_inflight := inflight\<rparr>" using False l by (simp add: fill_def)
  ultimately show ?thesis using assms(3) by (auto simp: wave_settled_def settled_def new_task_def)
qed (use assms in \<open>simp add: fill_def\<close>)

lemma wave_settled_await:
  assumes "wave_settled db run w" "drive_await k w = Some pc" "pc_wave pc = Some w'"
  shows "wave_settled db run w'"
proof -
  have sub: "set (take k (wv_inflight w) @ drop (Suc k) (wv_inflight w)) \<subseteq> set (wv_inflight w)"
    using set_take_subset set_drop_subset by fastforce
  from assms(2,3) have "wv_inflight w' = take k (wv_inflight w) @ drop (Suc k) (wv_inflight w)
      \<and> (wv_stop w' \<longrightarrow> wv_error w' \<noteq> None \<or> wv_stop w \<and> wv_halted w' = wv_halted w \<and> wv_error w' = wv_error w)"
    by (auto simp: drive_await_def Let_def coalesce_def split: if_splits task_pc.splits sum.splits option.splits)
  with sub assms(1) show ?thesis by (auto simp: wave_settled_def)
qed

lemma driver_step_settled:
  assumes wf: "wf_graph (cw_nodes c)" and inv: "progress_inv c run \<lparr>sy_db = db, sy_pc = pc, sy_log = es0\<rparr>"
    and step: "driver_step E c run now k pc db = Some (pc', db', es)" and w': "pc_wave pc' = Some w'"
  shows "wave_settled db' run w'"
proof -
  have ok: "wave_ok c (completed_in db run) w" "wave_settled db run w" if "pc_wave pc = Some w" for w
    using inv that by (simp_all add: progress_inv_def drive_inv_def)
  show ?thesis
  proof (cases pc)
    case (D_Recover ns)
    with step w' show ?thesis by (cases ns) (auto simp: drive_recover_def split: option.splits sum.splits)
  next
    case D_Round
    with step w' show ?thesis by (auto simp: drive_round_def wave_settled_def split: sum.splits if_splits)
  next
    case (D_Fill w)
    with step w' wave_settled_fill [OF wf ok] show ?thesis
      by (auto simp: drive_fill_def Let_def split: if_splits option.splits)
  next
    case (D_Await w)
    with step w' wave_settled_await [OF ok(2)] show ?thesis by auto
  next
    case (D_Check w)
    with ok have "wave_settled db run w" "wave_settled db run (w\<lparr>wv_stop := True, wv_halted := True\<rparr>)" by (auto simp: wave_settled_def)
    with D_Check step w' show ?thesis by (auto simp: drive_check_def split: sum.splits if_splits)
  qed (use step w' in \<open>auto simp: drive_start_def try_transition_to_running_def drive_final_def drive_finish_def
      split: sum.splits if_splits prod.splits bool.splits\<close>)
qed

lemma task_step_wave_settled:
  assumes ok: "wave_ok c C w" and st: "wave_settled db run w" and k: "k < length (wv_inflight w)" "t = wv_inflight w ! k" "task_active t"
    and ts: "task_step E now run oc (tk_node t) (tk_pc t) db = (pc', db', es)"
  shows "wave_settled db' run (w\<lparr>wv_inflight := (wv_inflight w)[k := t\<lparr>tk_pc := pc'\<rparr>]\<rparr>)"
proof -
  have t: "t \<in> set (wv_inflight w)" using k by simp
  have te: "\<lparr>tk_node = tk_node t, tk_pc = p\<rparr> = t\<lparr>tk_pc := p\<rparr>" for p by simp
  have "\<lparr>tk_node = tk_node t, tk_pc = tk_pc t\<rparr> = t" by simp
  with st t have "settled db run \<lparr>tk_node = tk_node t, tk_pc = tk_pc t\<rparr>" unfolding wave_settled_def by metis
  then have own: "settled db' run (t\<lparr>tk_pc := pc'\<rparr>)" and oth: "\<And>j. j \<noteq> task_id t \<Longrightarrow> node_state_of db' run j = node_state_of db run j"
    using task_step_settled [OF ts] k(3) unfolding te by (auto simp: task_active_iff)
  have "settled db' run x" if x: "x \<in> set ((wv_inflight w)[k := t\<lparr>tk_pc := pc'\<rparr>])" for x
  proof -
    from x obtain j where j: "j < length (wv_inflight w)" "x = (wv_inflight w)[k := t\<lparr>tk_pc := pc'\<rparr>] ! j" by (auto simp: in_set_conv_nth)
    show ?thesis
    proof (cases "j = k")
      case False
      then have x: "x = wv_inflight w ! j" using j by simp
      have "distinct (map task_id (wv_inflight w))" using ok by (simp add: wave_ok_def)
      then have "map task_id (wv_inflight w) ! j \<noteq> map task_id (wv_inflight w) ! k"
        using j(1) k(1) False by (simp add: nth_eq_iff_index_eq del: nth_map)
      then have "task_id x \<noteq> task_id t" using x j(1) k by simp
      with st x j(1) settled_other [OF oth] show ?thesis by (simp add: wave_settled_def)
    qed (use own j in simp)
  qed
  with st show ?thesis by (simp add: wave_settled_def)
qed

lemma sys_step_progress_inv:
  assumes wf: "wf_graph (cw_nodes c)" and inv: "progress_inv c run s" and step: "sys_step E c run ch s = Some s'"
  shows "progress_inv c run s'"
proof -
  have dinv: "drive_inv c run s" and st: "\<And>w. pc_wave (sy_pc s) = Some w \<Longrightarrow> wave_settled (sy_db s) run w"
    using inv by (simp_all add: progress_inv_def)
  have "wave_settled (sy_db s') run w'" if w': "pc_wave (sy_pc s') = Some w'" for w'
  proof (cases ch)
    case (Drive now k)
    with step obtain pc' db' es where d: "driver_step E c run now k (sy_pc s) (sy_db s) = Some (pc', db', es)"
      and s': "s' = \<lparr>sy_db = db', sy_pc = pc', sy_log = sy_log s @ es\<rparr>" by auto
    have "\<lparr>sy_db = sy_db s, sy_pc = sy_pc s, sy_log = sy_log s\<rparr> = s" by simp
    with driver_step_settled [OF wf _ d, of "sy_log s"] inv w' show ?thesis by (simp add: s')
  next
    case (Task k now oc)
    with step obtain w t where at: "active_task (sy_pc s) k = Some (w, t)" by (auto split: option.splits)
    obtain pc' db' es where ts: "task_step E now run oc (tk_node t) (tk_pc t) (sy_db s) = (pc', db', es)" by (metis prod_cases3)
    note a = active_task_Some [OF at]
    with step Task at ts w' have "sy_db s' = db'" "w' = w\<lparr>wv_inflight := (wv_inflight w)[k := t\<lparr>tk_pc := pc'\<rparr>]\<rparr>"
      by (auto simp: set_wave_sel)
    moreover have "wave_ok c (completed_in (sy_db s) run) w" using dinv a by (simp add: drive_inv_def)
    ultimately show ?thesis using task_step_wave_settled [OF _ st _ _ _ ts] a by blast
  next
    case (Drain now)
    then show ?thesis
      using step w' skip_states(1) [OF prod.collapse [symmetric], of now run "sy_db s" run]
      by (auto intro!: wave_settled_same [OF st] split: if_splits) (metis node_state.distinct(11) option.inject)
  next
    case (Park k now nst)
    with step obtain w t att db' where at: "active_task (sy_pc s) k = Some (w, t)" and nst: "nst \<noteq> NPending"
      and tr: "transition_node_with_error E now run (task_id t) nst att None None None (sy_db s) = Inr db'"
      and s': "s' = s\<lparr>sy_db := db'\<rparr>"
      by (auto simp: transition_eq split: option.splits task_pc.splits if_splits sum.splits)
    then show ?thesis using w' transition_states(1) [OF tr] by (auto intro!: wave_settled_same [OF st] split: if_splits)
  qed (use step w' in \<open>auto intro!: wave_settled_same [OF st]\<close>)
  with sys_step_inv [OF wf dinv step] show ?thesis by (simp add: progress_inv_def)
qed

lemma drive_reach_progress_inv:
  assumes "drive_reach E c run (start_sys db) s" "wf_graph (cw_nodes c)" "db_wf db" "run_state_of db run \<noteq> Some RCompleted"
  shows "progress_inv c run s"
  using assms(1)
proof induction
  case init
  show ?case using drive_inv_start [OF assms(3,4)] by (simp add: progress_inv_def start_sys_def)
next
  case (step s ch s')
  then show ?case using sys_step_progress_inv [OF assms(2)] by blast
qed

subsection \<open>The potential\<close>

text \<open>Steps a task still takes at most: four for each attempt left.\<close>

fun task_rank :: "compiled_node \<Rightarrow> task_pc \<Rightarrow> nat" where
  "task_rank n T_Load = 4 * unat (max_attempts n) + 5"
| "task_rank n (T_Start a) = 4 * (unat (max_attempts n) - unat a) + 4"
| "task_rank n (T_Exec a) = 4 * (unat (max_attempts n) - unat a) + 3"
| "task_rank n (T_Outcome a oc) = 4 * (unat (max_attempts n) - unat a) + 2"
| "task_rank n T_Pause = 1"
| "task_rank n (T_Sleep a) = 4 * (unat (max_attempts n) - unat a) + 5"
| "task_rank n (T_Done r) = 0"

lemma unat_succ_below: "a < (m :: u32) \<Longrightarrow> unat (a + 1) = unat a + 1"
proof -
  assume "a < m"
  then have "a \<noteq> - 1" using word_n1_ge [of m] by auto
  then have "1 + a \<noteq> 0" by (metis add_diff_cancel_left' diff_0)
  from unatSuc [OF this] show ?thesis by (simp add: add.commute)
qed

lemma task_step_rank:
  assumes "task_step E now run oc n pc db = (pc', db', es)" "\<forall>r. pc \<noteq> T_Done r"
  shows "task_rank n pc' < task_rank n pc"
proof (cases pc)
  case (T_Outcome a oc')
  with assms(1) have "record_outcome E now run n a oc' db = (pc', db', es)" by simp
  then show ?thesis
  proof (cases rule: record_outcome_cases)
    case (1 st a' ag cost err pc1 es0 es1)
    have "unat (a + 1) = unat a + 1 \<and> unat a < unat (max_attempts n)" if "a < max_attempts n"
      using unat_succ_below [OF that] that by (simp add: word_less_nat_alt)
    with 1(2) T_Outcome have "task_rank n pc1 < task_rank n pc" by auto
    moreover from 1(1) have "pc' = pc1 \<or> task_rank n pc' = 0" by (cases rule: after_write_cases) auto
    ultimately show ?thesis by auto
  qed
qed (use assms in \<open>auto elim: after_write_cases split: sum.splits\<close>)

definition task_of :: "wave \<Rightarrow> string \<Rightarrow> task option" where
  "task_of w i = find (\<lambda>t. task_id t = i) (wv_inflight w)"

lemma task_of_Some: "distinct (map task_id (wv_inflight w)) \<Longrightarrow> task_of w i = Some t \<longleftrightarrow> t \<in> set (wv_inflight w) \<and> task_id t = i"
  using find_unique_keyI [of task_id "wv_inflight w" t i] find_Some_D [of "\<lambda>t. task_id t = i" "wv_inflight w" t]
  by (auto simp: task_of_def)

lemma task_of_None: "task_of w i = None \<longleftrightarrow> i \<notin> task_id ` set (wv_inflight w)"
  by (auto simp: task_of_def find_None_iff)

lemma task_of_cong: "wv_inflight w' = wv_inflight w \<Longrightarrow> task_of w' = task_of w"
  by (simp add: task_of_def fun_eq_iff)

lemma find_update_other: "\<not> P x \<Longrightarrow> k < length xs \<Longrightarrow> \<not> P (xs ! k) \<Longrightarrow> find P (xs[k := x]) = find P xs"
  by (induction xs arbitrary: k) (auto split: nat.splits)

lemma task_of_update:
  assumes "distinct (map task_id (wv_inflight w))" "k < length (wv_inflight w)" "t = wv_inflight w ! k"
  shows "task_of (w\<lparr>wv_inflight := (wv_inflight w)[k := t\<lparr>tk_pc := pc\<rparr>]\<rparr>) i = (if i = task_id t then Some (t\<lparr>tk_pc := pc\<rparr>) else task_of w i)"
proof -
  let ?fl = "(wv_inflight w)[k := t\<lparr>tk_pc := pc\<rparr>]" and ?w = "w\<lparr>wv_inflight := (wv_inflight w)[k := t\<lparr>tk_pc := pc\<rparr>]\<rparr>"
  have ids: "map task_id ?fl = map task_id (wv_inflight w)" using assms(2,3) by (simp add: map_update list_update_same_conv)
  then have d: "distinct (map task_id (wv_inflight ?w))" using assms(1) by simp
  show ?thesis
  proof (cases "i = task_id t")
    case True
    then have "t\<lparr>tk_pc := pc\<rparr> \<in> set (wv_inflight ?w) \<and> task_id (t\<lparr>tk_pc := pc\<rparr>) = i"
      using assms(2) by (simp add: set_update_memI)
    then show ?thesis using True task_of_Some [OF d] by simp
  next
    case False
    then have "find (\<lambda>t. task_id t = i) ?fl = find (\<lambda>t. task_id t = i) (wv_inflight w)"
      using assms(2,3) by (intro find_update_other) auto
    then show ?thesis using False by (simp add: task_of_def)
  qed
qed

text \<open>The steps a node may still cause, by the program counter of the driver.\<close>

definition node_full :: "compiled_node \<Rightarrow> nat" where
  "node_full n = 4 * unat (max_attempts n) + 10"

definition wave_potential :: "(string \<Rightarrow> bool) \<Rightarrow> wave \<Rightarrow> compiled_node \<Rightarrow> nat" where
  "wave_potential pend w n =
     (case task_of w (cn_id n) of
        Some t \<Rightarrow> 3 + task_rank n (tk_pc t)
      | None \<Rightarrow>
          if cn_id n \<in> set (wv_queue w) then 4 * unat (max_attempts n) + 8
          else if wv_error w = None \<and> pend (cn_id n) then node_full n else 0)"

fun pc_potential :: "(string \<Rightarrow> bool) \<Rightarrow> driver_pc \<Rightarrow> compiled_node \<Rightarrow> nat" where
  "pc_potential pend D_Start n = node_full n"
| "pc_potential pend (D_Recover ns) n = node_full n"
| "pc_potential pend D_Begin n = node_full n"
| "pc_potential pend D_Round n = (if pend (cn_id n) then node_full n else 0)"
| "pc_potential pend (D_Fill w) n = wave_potential pend w n"
| "pc_potential pend (D_Await w) n = wave_potential pend w n"
| "pc_potential pend (D_Check w) n = wave_potential pend w n"
| "pc_potential pend _ n = 0"

fun pc_offset :: "nat \<Rightarrow> driver_pc \<Rightarrow> nat" where
  "pc_offset rows D_Start = 7 + rows"
| "pc_offset rows (D_Recover ns) = 6 + length ns"
| "pc_offset rows D_Begin = 5"
| "pc_offset rows D_Round = 4"
| "pc_offset rows (D_Fill w) = 5"
| "pc_offset rows (D_Await w) = 4"
| "pc_offset rows (D_Check w) = 6"
| "pc_offset rows D_Final = 3"
| "pc_offset rows (D_Finish st) = 2"
| "pc_offset rows D_Reread = 1"
| "pc_offset rows (D_Done r) = 0"

abbreviation pending_in :: "wf_db \<Rightarrow> string \<Rightarrow> string \<Rightarrow> bool" where
  "pending_in db run \<equiv> \<lambda>i. node_state_of db run i = Some NPending"

definition potential :: "compiled_workflow \<Rightarrow> string \<Rightarrow> wf_db \<Rightarrow> driver_pc \<Rightarrow> nat" where
  "potential c run db pc =
     (\<Sum>n \<in> set (cw_nodes c). pc_potential (pending_in db run) pc n) + pc_offset (length (run_nodes run db)) pc"

lemma sum_drop_at:
  fixes f g :: "'a \<Rightarrow> nat"
  assumes "finite A" "\<And>x. x \<in> A \<Longrightarrow> f x \<le> g x" "a \<in> A" "f a + d \<le> g a"
  shows "sum f A + d \<le> sum g A"
proof -
  have "sum f (A - {a}) \<le> sum g (A - {a})" by (rule sum_mono) (use assms(2) in simp)
  then show ?thesis using assms(1,3,4) by (simp add: sum.remove)
qed

lemma wave_potential_mono:
  assumes "\<And>i. task_of w i = None \<Longrightarrow> pend' i \<Longrightarrow> pend i"
  shows "wave_potential pend' w n \<le> wave_potential pend w n"
  using assms by (auto simp: wave_potential_def split: option.splits)

lemma pc_potential_mono: "(\<And>i. pend' i \<Longrightarrow> pend i) \<Longrightarrow> pc_potential pend' pc n \<le> pc_potential pend pc n"
  by (cases pc) (auto intro: wave_potential_mono)

lemma pc_potential_wave: "pc_wave pc = Some w \<Longrightarrow> pc_potential pend pc n = wave_potential pend w n"
  by (cases pc) auto

lemma pc_offset_set_wave: "pc_wave pc = Some w \<Longrightarrow> pc_offset rows (set_wave pc w') = pc_offset rows' pc"
  by (cases pc) auto

lemma drive_round_wave:
  assumes "pc_wave (drive_round E c run db) = Some w"
  shows "\<exists>snap. snapshot E run db = Inr (Some snap) \<and> ready_node_ids c snap \<noteq> [] \<and> drive_round E c run db =
    D_Fill \<lparr>wv_queue = ready_node_ids c snap, wv_inflight = [], wv_stop = False, wv_error = None, wv_halted = False\<rparr>"
proof (cases "read_snapshot E run db")
  case (Inr snap)
  then have "snapshot E run db = Inr (Some snap)" by (simp add: read_snapshot_Inr)
  with Inr assms show ?thesis by (intro exI [of _ snap]) (auto simp: drive_round_def split: if_splits)
qed (use assms in \<open>simp add: drive_round_def\<close>)

lemma wave_potential_round:
  assumes "queue \<noteq> []" "\<And>i. i \<in> set queue \<Longrightarrow> pend i \<and> (\<exists>n \<in> set (cw_nodes c). cn_id n = i)"
  shows "(\<Sum>n \<in> set (cw_nodes c). wave_potential pend \<lparr>wv_queue = queue, wv_inflight = [], wv_stop = st, wv_error = None, wv_halted = h\<rparr> n) + 2
    \<le> (\<Sum>n \<in> set (cw_nodes c). if pend (cn_id n) then node_full n else 0)"
proof -
  from assms have "hd queue \<in> set queue" by simp
  with assms(2) obtain a where a: "a \<in> set (cw_nodes c)" "cn_id a \<in> set queue" by metis
  show ?thesis by (rule sum_drop_at [OF _ _ a(1)]) (use a(2) assms(2) in \<open>auto simp: wave_potential_def task_of_def node_full_def\<close>)
qed

lemma wave_potential_fill:
  assumes wf: "wf_graph (cw_nodes c)" and ok: "wave_ok c C w" and n: "n \<in> set (cw_nodes c)"
  shows "wave_potential pend (fill c w) n = wave_potential pend w n"
proof (cases "wv_stop w")
  case False
  obtain queue inflight where l: "launch c (max_concurrency c) (wv_queue w) (wv_inflight w) = (queue, inflight)" by force
  have "\<forall>i \<in> set (wv_queue w). cw_node c i \<noteq> None" using ok runnable_node [OF wf] by (fastforce simp: wave_ok_def)
  from launch_split [OF l this] obtain st where st: "wv_queue w = st @ queue" "inflight = wv_inflight w @ map (new_task c) st" by blast
  have fw: "fill c w = w\<lparr>wv_queue := queue, wv_inflight := inflight\<rparr>" using False l by (simp add: fill_def)
  have sel: "task_id (new_task c i) = i" if "i \<in> set st" for i
    using new_task_sel [OF wf, of C i] ok st(1) that by (auto simp: wave_ok_def)
  have "find (\<lambda>t. task_id t = cn_id n) (map (new_task c) st) = (if cn_id n \<in> set st then Some (new_task c (cn_id n)) else None)"
    using sel by (induction st) auto
  moreover have "cn_id n \<in> set st \<Longrightarrow> task_of w (cn_id n) = None \<and> cn_id n \<notin> set queue"
    using ok st(1) by (auto simp: wave_ok_def task_of_None)
  ultimately show ?thesis
    by (auto simp: wave_potential_def fw task_of_def st find_append new_task_def split: option.splits)
qed (simp add: fill_def)

lemma max_concurrency_pos: "1 \<le> max_concurrency c"
  by (auto simp: max_concurrency_def max_def word_le_nat_alt split: option.splits)

lemma fill_exhausts:
  assumes wf: "wf_graph (cw_nodes c)" and ok: "wave_ok c C w" and "wv_inflight (fill c w) = []" "\<not> wv_stop w"
  shows "wv_queue (fill c w) = []"
proof -
  obtain queue inflight where l: "launch c (max_concurrency c) (wv_queue w) (wv_inflight w) = (queue, inflight)" by force
  have "\<forall>i \<in> set (wv_queue w). cw_node c i \<noteq> None" using ok runnable_node [OF wf] by (fastforce simp: wave_ok_def)
  from launch_split [OF l this] assms(3-) l max_concurrency_pos [of c] show ?thesis by (auto simp: fill_def)
qed

text \<open>Awaiting a finished task takes its node out of the wave, and its node does not come back.\<close>

lemma await_removes:
  assumes ok: "wave_ok c C w" and st: "wave_settled db run w" and aw: "drive_await k w = Some pc" "pc_wave pc = Some w'"
  shows "wv_queue w' = wv_queue w" and "wv_error w' = None \<Longrightarrow> wv_error w = None"
    and "k < length (wv_inflight w) \<and> \<not> task_active (wv_inflight w ! k) \<and> task_of w (task_id (wv_inflight w ! k)) = Some (wv_inflight w ! k)
      \<and> task_of w' (task_id (wv_inflight w ! k)) = None \<and> task_id (wv_inflight w ! k) \<notin> set (wv_queue w')
      \<and> (wv_error w' = None \<longrightarrow> \<not> pending_in db run (task_id (wv_inflight w ! k)))"
    and "i \<noteq> task_id (wv_inflight w ! k) \<Longrightarrow> task_of w' i = task_of w i"
proof -
  let ?t = "wv_inflight w ! k"
  from aw obtain r where k: "k < length (wv_inflight w)" and r: "tk_pc ?t = T_Done r"
    by (auto simp: drive_await_def split: if_splits task_pc.splits)
  have w': "wv_inflight w' = take k (wv_inflight w) @ drop (Suc k) (wv_inflight w)" "wv_queue w' = wv_queue w"
    "wv_error w' = None \<Longrightarrow> wv_error w = None \<and> r = Inr ()"
    using aw r by (auto simp: drive_await_def Let_def coalesce_def split: if_splits task_pc.splits sum.splits option.splits)
  show "wv_queue w' = wv_queue w" "wv_error w' = None \<Longrightarrow> wv_error w = None" using w' by blast+
  have t: "?t \<in> set (wv_inflight w)" using k by simp
  have d: "distinct (wv_queue w @ map task_id (wv_inflight w))" "distinct (map task_id (wv_inflight w))" using ok by (simp_all add: wave_ok_def)
  have eq: "wv_inflight w = take k (wv_inflight w) @ ?t # drop (Suc k) (wv_inflight w)" using k by (rule id_take_nth_drop)
  have "distinct (map task_id (take k (wv_inflight w) @ ?t # drop (Suc k) (wv_inflight w)))" using d(2) eq by simp
  then have "task_of w' (task_id ?t) = None" by (auto simp: task_of_None w')
  moreover have "task_of w (task_id ?t) = Some ?t" using t task_of_Some [OF d(2)] by blast
  moreover have "task_id ?t \<notin> set (wv_queue w')" using d(1) t by (auto simp: w')
  moreover have "wv_error w' = None \<longrightarrow> \<not> pending_in db run (task_id ?t)"
    using st t r w'(3) by (auto simp: wave_settled_def settled_def)
  moreover have "\<not> task_active ?t" using r by (simp add: task_active_iff)
  ultimately show "k < length (wv_inflight w) \<and> \<not> task_active ?t \<and> task_of w (task_id ?t) = Some ?t
      \<and> task_of w' (task_id ?t) = None \<and> task_id ?t \<notin> set (wv_queue w')
      \<and> (wv_error w' = None \<longrightarrow> \<not> pending_in db run (task_id ?t))" using k by blast
  show "task_of w' i = task_of w i" if "i \<noteq> task_id ?t"
  proof -
    have "find (\<lambda>t. task_id t = i) (take k (wv_inflight w) @ ?t # drop (Suc k) (wv_inflight w)) = find (\<lambda>t. task_id t = i) (wv_inflight w')"
      using not_sym [OF that] by (simp add: w' find_append split: option.split)
    then show ?thesis using eq by (simp add: task_of_def)
  qed
qed

lemma wave_potential_await:
  assumes ok: "wave_ok c C w" and st: "wave_settled db run w" and aw: "drive_await k w = Some pc" "pc_wave pc = Some w'"
  shows "(\<Sum>n \<in> set (cw_nodes c). wave_potential (pending_in db run) w' n) + 3 \<le> (\<Sum>n \<in> set (cw_nodes c). wave_potential (pending_in db run) w n)"
proof -
  let ?t = "wv_inflight w ! k"
  note rem = await_removes(1-3) [OF ok st aw]
  have node: "tk_node ?t \<in> set (cw_nodes c)" using ok rem(3) by (simp add: wave_ok_def)
  show ?thesis
  proof (rule sum_drop_at [OF _ _ node])
    show "wave_potential (pending_in db run) w' (tk_node ?t) + 3 \<le> wave_potential (pending_in db run) w (tk_node ?t)"
      using rem by (auto simp: wave_potential_def)
  next
    fix n assume "n \<in> set (cw_nodes c)"
    show "wave_potential (pending_in db run) w' n \<le> wave_potential (pending_in db run) w n"
    proof (cases "cn_id n = task_id ?t")
      case True
      then show ?thesis using rem by (auto simp: wave_potential_def)
    next
      case False
      then show ?thesis using await_removes(4) [OF ok st aw False] rem by (auto simp: wave_potential_def split: option.splits)
    qed
  qed simp
qed

lemma driver_step_potential:
  assumes wf: "wf_graph (cw_nodes c)" and inv: "progress_inv c run \<lparr>sy_db = db, sy_pc = pc, sy_log = es0\<rparr>"
    and step: "driver_step E c run now k pc db = Some (pc', db', es)"
  shows "potential c run db' pc' < potential c run db pc"
proof -
  have db: "db_wf db" using inv by (simp add: progress_inv_def drive_inv_def)
  have ok: "wave_ok c (completed_in db run) w" "wave_settled db run w" if "pc_wave pc = Some w" for w
    using inv that by (simp_all add: progress_inv_def drive_inv_def)
  have pend_le: "(\<Sum>n \<in> set (cw_nodes c). if pend (cn_id n) then node_full n else 0) \<le> (\<Sum>n \<in> set (cw_nodes c). node_full n)" for pend
    by (rule sum_mono) simp
  show ?thesis
  proof (cases pc)
    case D_Start
    have "length (sn_nodes snap) = length (run_nodes run db)" if "checked_snapshot E run c db = Inr snap" for snap
      using checked_snapshot_Inr [OF that]
      by (auto simp: snapshot_def res_bind_Inr_iff res_map_Inr_iff map_res_Inr_iff split: option.splits dest: list_all2_lengthD)
    with D_Start step show ?thesis by (auto simp: drive_start_def potential_def split: sum.splits if_splits)
  next
    case (D_Recover ns)
    with step show ?thesis
      by (cases ns) (auto simp: drive_recover_def potential_def split: option.splits sum.splits)
  next
    case D_Begin
    with step show ?thesis using pend_le [of "pending_in db' run"]
      by (auto simp: potential_def split: prod.splits bool.splits)
  next
    case D_Round
    show ?thesis
    proof (cases "pc_wave pc'")
      case None
      with D_Round step show ?thesis by (auto simp: drive_round_def potential_def split: sum.splits if_splits)
    next
      case (Some w)
      from D_Round step have d: "pc' = drive_round E c run db" "db' = db" by auto
      from drive_round_wave [OF Some [unfolded d(1)]] obtain snap where s: "snapshot E run db = Inr (Some snap)" "ready_node_ids c snap \<noteq> []"
        "pc' = D_Fill \<lparr>wv_queue = ready_node_ids c snap, wv_inflight = [], wv_stop = False, wv_error = None, wv_halted = False\<rparr>"
        unfolding d(1) by blast
      have "pending_in db run i \<and> (\<exists>n \<in> set (cw_nodes c). cn_id n = i)" if "i \<in> set (ready_node_ids c snap)" for i
        using that snapshot_Inr(5) [OF db s(1), of i] by (auto simp: ready_node_ids_iff)
      from wave_potential_round [OF s(2) this, where st = False and h = False] D_Round s(3) d(2) show ?thesis by (simp add: potential_def)
    qed
  next
    case (D_Fill w)
    note w = ok [unfolded D_Fill, simplified]
    have eq: "(\<Sum>n \<in> set (cw_nodes c). wave_potential pend (fill c w) n) = (\<Sum>n \<in> set (cw_nodes c). wave_potential pend w n)" for pend
      using wave_potential_fill [OF wf w(1)] by (intro sum.cong) auto
    show ?thesis
    proof (cases "wv_inflight (fill c w) = [] \<and> wv_error (fill c w) = None \<and> \<not> wv_halted (fill c w)")
      case True
      have flags: "wv_error (fill c w) = wv_error w" "wv_halted (fill c w) = wv_halted w" by (simp_all add: fill_def split: prod.splits)
      then have "\<not> wv_stop w" using True w(2) by (auto simp: wave_settled_def)
      with fill_exhausts [OF wf w(1)] True have "wv_queue (fill c w) = []" by blast
      then have z: "wave_potential pend (fill c w) n = (if pend (cn_id n) then node_full n else 0)" for pend n
        using True by (simp add: wave_potential_def task_of_def)
      have "pc' = D_Round" "db' = db" using D_Fill step True by (simp_all add: drive_fill_def Let_def)
      then show ?thesis unfolding potential_def D_Fill by (simp add: eq [symmetric] z)
    next
      case False
      then have "pc' = D_Await (fill c w) \<or> pc' = D_Reread \<or> (\<exists>r. pc' = D_Done r)" "db' = db"
        using D_Fill step by (auto simp: drive_fill_def Let_def split: if_splits option.splits)
      then show ?thesis unfolding potential_def D_Fill using eq by auto
    qed
  next
    case (D_Await w)
    with step obtain aw: "drive_await k w = Some pc'" "db' = db" by auto
    then obtain w' where w': "pc_wave pc' = Some w'" and off: "pc_offset (length (run_nodes run db)) pc' \<le> 6"
      by (auto simp: drive_await_def Let_def split: if_splits task_pc.splits sum.splits)
    from wave_potential_await [OF ok(1) ok(2) aw(1) w'] D_Await aw(2) off show ?thesis
      by (simp add: potential_def pc_potential_wave [OF w'])
  next
    case (D_Check w)
    moreover have "wave_potential pend (w\<lparr>wv_stop := True, wv_halted := True\<rparr>) n = wave_potential pend w n" for pend n
      by (auto simp: wave_potential_def task_of_def split: option.split)
    ultimately show ?thesis using step by (auto simp: drive_check_def potential_def split: sum.splits if_splits)
  qed (use step in \<open>auto simp: potential_def drive_final_def drive_finish_def split: sum.splits prod.splits if_splits\<close>)
qed

lemma task_step_potential:
  assumes ok: "wave_ok c C w" and st: "wave_settled db run w" and k: "k < length (wv_inflight w)" "t = wv_inflight w ! k" "task_active t"
    and ts: "task_step E now run oc (tk_node t) (tk_pc t) db = (pc', db', es)" and wf: "wf_graph (cw_nodes c)"
  shows "(\<Sum>n \<in> set (cw_nodes c). wave_potential (pending_in db' run) (w\<lparr>wv_inflight := (wv_inflight w)[k := t\<lparr>tk_pc := pc'\<rparr>]\<rparr>) n) + 1
    \<le> (\<Sum>n \<in> set (cw_nodes c). wave_potential (pending_in db run) w n)"
proof -
  let ?w = "w\<lparr>wv_inflight := (wv_inflight w)[k := t\<lparr>tk_pc := pc'\<rparr>]\<rparr>"
  have t: "t \<in> set (wv_inflight w)" using k by simp
  then have node: "tk_node t \<in> set (cw_nodes c)" using ok by (simp add: wave_ok_def)
  have d: "distinct (map task_id (wv_inflight w))" using ok by (simp add: wave_ok_def)
  note to = task_of_update [OF d k(1,2)]
  have own: "task_of w (task_id t) = Some t" using t task_of_Some [OF d] by blast
  have te: "\<lparr>tk_node = tk_node t, tk_pc = tk_pc t\<rparr> = t" by simp
  from st t have "settled db run \<lparr>tk_node = tk_node t, tk_pc = tk_pc t\<rparr>" unfolding wave_settled_def te by metis
  then have oth: "node_state_of db' run j = node_state_of db run j" if "j \<noteq> task_id t" for j
    using task_step_settled [OF ts] k(3) that by (auto simp: task_active_iff)
  have rank: "task_rank (tk_node t) pc' < task_rank (tk_node t) (tk_pc t)"
    using task_step_rank [OF ts] k(3) by (simp add: task_active_iff)
  show ?thesis
  proof (rule sum_drop_at [OF _ _ node])
    show "wave_potential (pending_in db' run) ?w (tk_node t) + 1 \<le> wave_potential (pending_in db run) w (tk_node t)"
      using own to rank by (simp add: wave_potential_def)
  next
    fix n assume n: "n \<in> set (cw_nodes c)"
    show "wave_potential (pending_in db' run) ?w n \<le> wave_potential (pending_in db run) w n"
    proof (cases "cn_id n = task_id t")
      case True
      then have "n = tk_node t" using wf n node by (auto simp: wf_graph_def distinct_map inj_on_def)
      then show ?thesis using own to rank by (simp add: wave_potential_def)
    next
      case False
      then show ?thesis using to oth by (auto simp: wave_potential_def split: option.split)
    qed
  qed simp
qed

lemma length_run_nodes_update:
  "(\<And>r. nr_run (f r) = nr_run r) \<Longrightarrow> length (run_nodes run (update_nodes P f db)) = length (run_nodes run db)"
proof -
  assume f: "\<And>r. nr_run (f r) = nr_run r"
  have "length (filter (\<lambda>r. nr_run r = run) (map (\<lambda>r. if P r then f r else r) xs)) = length (filter (\<lambda>r. nr_run r = run) xs)" for xs
    by (induction xs) (auto simp: f)
  then show ?thesis by (simp add: run_nodes_def update_nodes_def)
qed

lemma run_nodes_touch [simp]: "run_nodes run (touch_run now r db) = run_nodes run db"
  by (simp add: run_nodes_def touch_run_def update_run_def)

lemma length_run_nodes_skip [simp]: "length (run_nodes run (fst (skip_pending_nodes now r db))) = length (run_nodes run db)"
  by (simp add: skip_pending_nodes_def Let_def length_run_nodes_update)

lemma run_nodes_cas [simp]: "run_nodes run (fst (set_run_state_if_legal now r legal st db)) = run_nodes run db"
  by (simp add: run_nodes_def set_run_state_if_legal_def Let_def)

text \<open>Steps of the driver and of its tasks, as opposed to those of its environment.\<close>

fun is_progress :: "choice \<Rightarrow> bool" where
  "is_progress (Drive now k) = True"
| "is_progress (Task k now oc) = True"
| "is_progress _ = False"

lemma sys_step_potential:
  assumes wf: "wf_graph (cw_nodes c)" and inv: "progress_inv c run s"
    and step: "sys_step E c run ch s = Some s'"
  shows "potential c run (sy_db s') (sy_pc s') + (if is_progress ch then 1 else 0) \<le> potential c run (sy_db s) (sy_pc s)"
proof (cases ch)
  case (Drive now k)
  with step obtain pc' db' es where d: "driver_step E c run now k (sy_pc s) (sy_db s) = Some (pc', db', es)"
    and s': "s' = \<lparr>sy_db = db', sy_pc = pc', sy_log = sy_log s @ es\<rparr>" by auto
  have "\<lparr>sy_db = sy_db s, sy_pc = sy_pc s, sy_log = sy_log s\<rparr> = s" by simp
  with driver_step_potential [OF wf _ d, of "sy_log s"] inv Drive show ?thesis by (simp add: s')
next
  case (Task k now oc)
  with step obtain w t where at: "active_task (sy_pc s) k = Some (w, t)" by (auto split: option.splits)
  obtain pc' db' es where ts: "task_step E now run oc (tk_node t) (tk_pc t) (sy_db s) = (pc', db', es)" by (metis prod_cases3)
  note a = active_task_Some [OF at]
  let ?w = "w\<lparr>wv_inflight := (wv_inflight w)[k := t\<lparr>tk_pc := pc'\<rparr>]\<rparr>"
  from step Task at ts have s': "s' = \<lparr>sy_db = db', sy_pc = set_wave (sy_pc s) ?w, sy_log = sy_log s @ es\<rparr>" by simp
  have "wave_ok c (completed_in (sy_db s) run) w" "wave_settled (sy_db s) run w"
    using inv a by (simp_all add: progress_inv_def drive_inv_def)
  then have "(\<Sum>n \<in> set (cw_nodes c). wave_potential (pending_in db' run) ?w n) + 1
      \<le> (\<Sum>n \<in> set (cw_nodes c). wave_potential (pending_in (sy_db s) run) w n)"
    by (rule task_step_potential) (use a ts wf in auto)
  moreover have "pc_wave (sy_pc s) = Some w" using a by blast
  ultimately show ?thesis
    using pc_offset_set_wave [of "sy_pc s" w "length (run_nodes run db')" ?w "length (run_nodes run (sy_db s))"]
      pc_potential_wave [of "sy_pc s" w "pending_in (sy_db s) run"]
      pc_potential_wave [of "set_wave (sy_pc s) ?w" ?w "pending_in db' run"] set_wave_sel(1) [of "sy_pc s" w ?w]
    by (simp add: potential_def s' Task)
next
  case (Drain now)
  with step have s': "s' = s\<lparr>sy_db := fst (skip_pending_nodes now run (sy_db s))\<rparr>" by (auto split: if_splits)
  have "pending_in (fst (skip_pending_nodes now run (sy_db s))) run i \<Longrightarrow> pending_in (sy_db s) run i" for i
    using skip_states(1) [OF prod.collapse [symmetric], of now run "sy_db s" run i] by auto
  then have "(\<Sum>n \<in> set (cw_nodes c). pc_potential (pending_in (fst (skip_pending_nodes now run (sy_db s))) run) (sy_pc s) n)
      \<le> (\<Sum>n \<in> set (cw_nodes c). pc_potential (pending_in (sy_db s) run) (sy_pc s) n)"
    by (intro sum_mono pc_potential_mono)
  then show ?thesis by (simp add: potential_def s' Drain)
next
  case (Park k now nst)
  with step obtain w t att db' where at: "active_task (sy_pc s) k = Some (w, t)"
    and tr: "transition_node_with_error E now run (task_id t) nst att None None None (sy_db s) = Inr db'"
    and s': "s' = s\<lparr>sy_db := db'\<rparr>"
    by (auto simp: transition_eq split: option.splits task_pc.splits if_splits sum.splits)
  note a = active_task_Some [OF at]
  then have "task_of w (task_id t) \<noteq> None" by (auto simp: task_of_None)
  then have "wave_potential (pending_in db' run) w n \<le> wave_potential (pending_in (sy_db s) run) w n" for n
    using transition_states(1) [OF tr, of run] by (intro wave_potential_mono) (auto split: if_splits)
  then have "(\<Sum>n \<in> set (cw_nodes c). wave_potential (pending_in db' run) w n) \<le> (\<Sum>n \<in> set (cw_nodes c). wave_potential (pending_in (sy_db s) run) w n)"
    by (intro sum_mono)
  moreover have "pc_offset rows (sy_pc s) = pc_offset rows' (sy_pc s)" for rows rows' using a by (cases "sy_pc s") auto
  ultimately show ?thesis
    using a by (simp add: potential_def s' Park pc_potential_wave) (metis add_le_mono order_refl)
qed (use step in \<open>auto simp: potential_def\<close>)

lemma sys_run_potential:
  assumes "wf_graph (cw_nodes c)" "progress_inv c run s" "sys_run E c run chs s = Some s'"
  shows "length (filter is_progress chs) + potential c run (sy_db s') (sy_pc s') \<le> potential c run (sy_db s) (sy_pc s)"
  using assms(2,3)
proof (induction chs arbitrary: s)
  case (Cons ch chs)
  from Cons.prems(2) obtain s1 where s1: "sys_step E c run ch s = Some s1" "sys_run E c run chs s1 = Some s'" by (auto split: option.splits)
  from Cons.IH [OF sys_step_progress_inv [OF assms(1) Cons.prems(1) s1(1)] s1(2)]
    sys_step_potential [OF assms(1) Cons.prems(1) s1(1)] show ?case by auto
qed simp

lemma potential_start:
  assumes "wf_graph (cw_nodes c)"
  shows "potential c run db D_Start = sum_list (map node_full (cw_nodes c)) + 7 + length (run_nodes run db)"
  using assms by (simp add: potential_def wf_graph_def sum_list_distinct_conv_sum_set distinct_map)

text \<open>The driver is never stuck: it has returned, or it or one of its tasks can move.\<close>

lemma drive_enabled:
  assumes "drive_inv c run s" "\<And>r. sy_pc s \<noteq> D_Done r"
  shows "\<exists>ch s'. (ch = Drive now 0 \<or> ch = Task 0 now oc) \<and> sys_step E c run ch s = Some s'"
proof (cases "\<exists>w. sy_pc s = D_Await w \<and> task_active (wv_inflight w ! 0)")
  case True
  then obtain w where w: "sy_pc s = D_Await w" "task_active (wv_inflight w ! 0)" by blast
  with assms(1) have "active_task (sy_pc s) 0 = Some (w, wv_inflight w ! 0)" by (simp add: active_task_def drive_inv_def)
  then have "sys_step E c run (Task 0 now oc) s \<noteq> None" by (simp split: prod.splits)
  then show ?thesis by blast
next
  case False
  have "driver_step E c run now 0 (sy_pc s) (sy_db s) \<noteq> None"
  proof (cases "sy_pc s")
    case (D_Recover ns)
    then show ?thesis by (cases ns) simp_all
  next
    case (D_Await w)
    with False assms(1) show ?thesis by (auto simp: drive_await_def drive_inv_def task_active_iff Let_def)
  qed (use assms(2) in auto)
  then have "sys_step E c run (Drive now 0) s \<noteq> None" by simp
  then show ?thesis by blast
qed

lemma drive_finishes:
  assumes "wf_graph (cw_nodes c)" "progress_inv c run s"
  shows "\<exists>chs s' r. set chs \<subseteq> {Drive now 0, Task 0 now oc} \<and> sys_run E c run chs s = Some s' \<and> sy_pc s' = D_Done r"
  using assms(2)
proof (induction "potential c run (sy_db s) (sy_pc s)" arbitrary: s rule: less_induct)
  case less
  show ?case
  proof (cases "\<exists>r. sy_pc s = D_Done r")
    case True
    then show ?thesis by (intro exI [of _ "[]"]) auto
  next
    case False
    from less.prems have "drive_inv c run s" by (simp add: progress_inv_def)
    from drive_enabled [OF this] False obtain ch s1 where ch: "ch = Drive now 0 \<or> ch = Task 0 now oc" "sys_step E c run ch s = Some s1" by metis
    from ch(1) have "is_progress ch" by auto
    with sys_step_potential [OF assms(1) less.prems ch(2)]
    have "potential c run (sy_db s1) (sy_pc s1) < potential c run (sy_db s) (sy_pc s)" by simp
    from less.hyps [OF this sys_step_progress_inv [OF assms(1) less.prems ch(2)]] obtain chs s' r where
      "set chs \<subseteq> {Drive now 0, Task 0 now oc}" "sys_run E c run chs s1 = Some s'" "sy_pc s' = D_Done r" by blast
    with ch show ?thesis by (intro exI [of _ "ch # chs"] exI [of _ s'] exI [of _ r]) auto
  qed
qed

subsection \<open>Properties\<close>

text \<open>
  C16: a drive takes a bounded number of steps. However the driver, the node tasks and the environment interleave, and
  whatever the executor reports, the driver and its tasks together take at most ten steps and four for each
  allowed attempt of every node, one for each stored row of the run, and seven. Pauses, cancels, resumes and
  parked nodes do not extend the bound.
\<close>

theorem drive_step_bound:
  assumes "compile d = Inr c" "db_wf db" "run_state_of db run \<noteq> Some RCompleted" "sys_run E c run chs (start_sys db) = Some s"
  shows "length (filter is_progress chs)
    \<le> sum_list (map (\<lambda>n. 4 * unat (max_attempts n) + 10) (cw_nodes c)) + 7 + length (run_nodes run db)"
proof -
  from compile_graph_facts [OF assms(1)] have wf: "wf_graph (cw_nodes c)" by blast
  have "progress_inv c run (start_sys db)" using drive_inv_start [OF assms(2,3)] by (simp add: progress_inv_def start_sys_def)
  moreover have "node_full = (\<lambda>n. 4 * unat (max_attempts n) + 10)" by (simp add: node_full_def fun_eq_iff)
  ultimately show ?thesis
    using sys_run_potential [OF wf _ assms(4)] potential_start [OF wf, of run db] by (simp add: start_sys_def)
qed

theorem drive_step_bound_witness:
  "length (filter is_progress (drive_to_task @ fail_once @ [Cancel ''t5'', Drain ''t6'']))
    \<le> sum_list (map (\<lambda>n. 4 * unat (max_attempts n) + 10) (cw_nodes retry_compiled)) + 7 + length (run_nodes ''u0'' retry_db)"
proof -
  have "sys_run env_example retry_compiled ''u0'' (drive_to_task @ fail_once @ [Cancel ''t5'', Drain ''t6'']) (start_sys retry_db) \<noteq> None"
    by code_simp
  then obtain s where "sys_run env_example retry_compiled ''u0'' (drive_to_task @ fail_once @ [Cancel ''t5'', Drain ''t6'']) (start_sys retry_db) = Some s"
    by blast
  from drive_step_bound [OF retry_compile retry_db_wf _ this] retry_db_pending show ?thesis by simp
qed

text \<open>
  C17: a drive always returns. From every state it reaches, for every answer of the executor, there is a next step of the
  driver or of a task as long as it has not returned, and taking such steps leads to its return.
\<close>

theorem drive_returns:
  assumes "compile d = Inr c" "db_wf db" "run_state_of db run \<noteq> Some RCompleted" "drive_reach E c run (start_sys db) s"
  shows "((\<exists>r. sy_pc s = D_Done r) \<or> (\<exists>ch s'. is_progress ch \<and> sys_step E c run ch s = Some s'))
    \<and> (\<exists>chs s' r. set chs \<subseteq> {Drive now 0, Task 0 now oc} \<and> sys_run E c run chs s = Some s' \<and> sy_pc s' = D_Done r)"
proof -
  from compile_graph_facts [OF assms(1)] have wf: "wf_graph (cw_nodes c)" by blast
  note inv = drive_reach_progress_inv [OF assms(4) wf assms(2,3)]
  then have "drive_inv c run s" by (simp add: progress_inv_def)
  from drive_enabled [OF this, of now oc E] have "(\<exists>r. sy_pc s = D_Done r) \<or> (\<exists>ch s'. is_progress ch \<and> sys_step E c run ch s = Some s')"
    by (metis is_progress.simps(1,2))
  with drive_finishes [OF wf inv] show ?thesis by blast
qed

theorem drive_returns_witness:
  "\<exists>chs s' r. set chs \<subseteq> {Drive ''t9'' 0, Task 0 ''t9'' (O_Failed ''x'')}
     \<and> sys_run env_example retry_compiled ''u0'' chs cancelled_sys = Some s' \<and> sy_pc s' = D_Done r"
  using drive_returns [OF retry_compile retry_db_wf _ cancelled_reach] retry_db_pending by simp

end
