(* ===== verification/Drive_Attempts.thy ===== *)
theory Drive_Attempts
  imports Drive_Progress
begin

text \<open>
  Attempts: within one drive no attempt of a node is executed twice, and none beyond the node's retry policy, whatever the
  interleaving. The attempt counter is kept in the node's row, so a later drive continues it.
\<close>

subsection \<open>The stored attempts\<close>

definition attempt_of :: "wf_db \<Rightarrow> string \<Rightarrow> string \<Rightarrow> u32 option" where
  "attempt_of db run i = map_option nr_attempt (find_node run i db)"

lemma attempt_of_update:
  assumes "\<And>r. nr_run (f r) = nr_run r \<and> nr_node_id (f r) = nr_node_id r"
  shows "attempt_of (update_nodes P f db) run i = map_option (\<lambda>r. nr_attempt (if P r then f r else r)) (find_node run i db)"
  by (simp add: attempt_of_def find_node_update [OF assms] option.map_comp comp_def)

lemma attempt_of_touch [simp]: "attempt_of (touch_run now run db) r i = attempt_of db r i"
  by (simp add: attempt_of_def)

lemma attempt_of_cas [simp]: "attempt_of (fst (set_run_state_if_legal now run legal st db)) r i = attempt_of db r i"
  by (simp add: attempt_of_def find_node_def set_run_state_if_legal_def Let_def)

lemma attempt_of_transition:
  assumes "transition_node_with_error E now run i st att ag cost err db = Inr db'" "attempt_of db' r j = Some a"
  shows "if r = run \<and> j = i then a = att else attempt_of db r j = Some a"
proof -
  from assms(1) have "db' = touch_run now run (update_nodes (is_node run i)
        (transition_row now st att ag (map_option (js_to_text (e_serde E)) cost) err) db)"
    by (auto simp: transition_node_with_error_def split: if_splits)
  with assms(2) show ?thesis
    using find_node_Some [of r j db]
    by (cases "find_node r j db") (auto simp: attempt_of_update attempt_of_def [of db] is_node_def transition_row_def split: if_splits)
qed

lemma attempt_of_recover:
  assumes "recover_node now run n db = Some (Inr db')" "attempt_of db' r j = Some a"
  shows "attempt_of db r j = Some a \<or> r = run \<and> j = nd_id n \<and> a = nd_attempt n"
proof -
  have "reset_interrupted_node now run (nd_id n) (nd_attempt n) db = Inr db' \<or> reset_blocked_node now run (nd_id n) db = Inr db'"
    using assms(1) by (auto simp: recover_node_def split: node_state.splits)
  with assms(2) show ?thesis
    using find_node_Some [of r j db]
    by (cases "find_node r j db")
      (auto simp: reset_interrupted_node_def reset_blocked_node_def Let_def attempt_of_update attempt_of_def [of db] is_node_def split: if_splits)
qed

lemma attempt_of_skip: "attempt_of (fst (skip_pending_nodes now run db)) r j = attempt_of db r j"
  by (cases "find_node r j db") (auto simp: skip_pending_nodes_def Let_def attempt_of_update attempt_of_def [of db])

text \<open>Every stored attempt of the run is within its node's policy.\<close>

definition attempts_ok :: "compiled_workflow \<Rightarrow> string \<Rightarrow> wf_db \<Rightarrow> bool" where
  "attempts_ok c run db \<longleftrightarrow> (\<forall>n \<in> set (cw_nodes c). \<forall>a. attempt_of db run (cn_id n) = Some a \<longrightarrow> a \<le> max_attempts n)"

fun pc_attempt :: "task_pc \<Rightarrow> u32 option" where
  "pc_attempt (T_Start a) = Some a"
| "pc_attempt (T_Exec a) = Some a"
| "pc_attempt (T_Outcome a oc) = Some a"
| "pc_attempt (T_Sleep a) = Some a"
| "pc_attempt pc = None"

definition task_bounded :: "task \<Rightarrow> bool" where
  "task_bounded t \<longleftrightarrow> (\<forall>a. pc_attempt (tk_pc t) = Some a \<longrightarrow> 1 \<le> a \<and> a \<le> max_attempts (tk_node t))"

lemma max_attempts_pos: "1 \<le> max_attempts n"
  by (simp add: max_attempts_def)

lemma load_attempt_bounded:
  assumes "db_wf db" "attempts_ok c run db" "snapshot E run db = Inr s" "n \<in> set (cw_nodes c)"
  shows "1 \<le> load_attempt n s \<and> load_attempt n s \<le> max_attempts n"
proof -
  have "nd_attempt r \<le> max_attempts n" if "s = Some snap" "find (\<lambda>r. nd_id r = cn_id n) (sn_nodes snap) = Some r" for snap r
  proof -
    from find_Some_D [OF that(2)] have r: "r \<in> set (sn_nodes snap)" "nd_id r = cn_id n" by auto
    from snapshot_Inr(3) [OF assms(1) assms(3) [unfolded that(1)] r(1)] r(2)
    have "attempt_of db run (cn_id n) = Some (nd_attempt r)" by (auto simp: attempt_of_def)
    with assms(2,4) show ?thesis by (auto simp: attempts_ok_def)
  qed
  then show ?thesis using max_attempts_pos [of n]
    by (auto simp: load_attempt_def max_def split: option.splits Option.bind_splits)
qed

lemma attempts_ok_transition:
  assumes "transition_node_with_error E now run (cn_id n) st att ag cost err db = Inr db'" "attempts_ok c run db"
    "wf_graph (cw_nodes c)" "n \<in> set (cw_nodes c)" "att \<le> max_attempts n"
  shows "attempts_ok c run db'"
  unfolding attempts_ok_def
proof (intro ballI allI impI)
  fix m a assume m: "m \<in> set (cw_nodes c)" "attempt_of db' run (cn_id m) = Some a"
  show "a \<le> max_attempts m"
  proof (cases "cn_id m = cn_id n")
    case True
    then have "m = n" using assms(3,4) m(1) by (auto simp: wf_graph_def distinct_map inj_on_def)
    then show ?thesis using attempt_of_transition [OF assms(1) m(2)] assms(5) by simp
  next
    case False
    then show ?thesis using attempt_of_transition [OF assms(1) m(2)] assms(2) m(1) by (auto simp: attempts_ok_def)
  qed
qed

lemma task_step_bounded:
  assumes ts: "task_step E now run oc n pc db = (pc', db', es)" and db: "db_wf db" "attempts_ok c run db" "wf_graph (cw_nodes c)"
    and n: "n \<in> set (cw_nodes c)" and b: "task_bounded \<lparr>tk_node = n, tk_pc = pc\<rparr>"
  shows "attempts_ok c run db' \<and> task_bounded \<lparr>tk_node = n, tk_pc = pc'\<rparr>"
proof -
  have w: "attempts_ok c run db' \<and> task_bounded \<lparr>tk_node = n, tk_pc = pc'\<rparr>"
    if "after_write (transition_node_with_error E now run (cn_id n) st a ag cost err db) db pc1 es0 = (pc', db', es1)"
      "a \<le> max_attempts n" "task_bounded \<lparr>tk_node = n, tk_pc = pc1\<rparr>" for st a ag cost err pc1 es0 es1
    using that(1)
  proof (cases rule: after_write_cases)
    case written
    with attempts_ok_transition [OF written(1) db(2,3) n that(2)] that(3) show ?thesis by simp
  qed (use db in \<open>simp add: task_bounded_def\<close>)
  show ?thesis
  proof (cases pc)
    case T_Load
    with ts db load_attempt_bounded [OF db(1,2) _ n] show ?thesis by (auto simp: task_bounded_def split: sum.splits)
  next
    case (T_Start a)
    from task_start_write [OF ts [unfolded T_Start]] show ?thesis by (rule w) (use b T_Start in \<open>simp_all add: task_bounded_def\<close>)
  next
    case (T_Outcome a oc')
    with ts have "record_outcome E now run n a oc' db = (pc', db', es)" by simp
    then show ?thesis
    proof (cases rule: record_outcome_cases)
      case (1 st a' ag cost err pc1 es0 es1)
      have a: "1 \<le> a" "a \<le> max_attempts n" using b T_Outcome by (simp_all add: task_bounded_def)
      have "1 \<le> a + 1 \<and> a + 1 \<le> max_attempts n" if "a < max_attempts n"
        using unat_succ_below [OF that] that by (simp add: word_le_nat_alt word_less_nat_alt)
      with 1(2) a have "a' \<le> max_attempts n" "task_bounded \<lparr>tk_node = n, tk_pc = pc1\<rparr>" by (auto simp: task_bounded_def)
      with w [OF 1(1)] show ?thesis by blast
    qed
  next
    case T_Pause
    with ts have "db' = fst (set_run_state_if_legal now run [RRunning] RPaused db)" "pc' = T_Done (Inr ())" by auto
    with db show ?thesis by (simp add: attempts_ok_def task_bounded_def)
  qed (use ts db b in \<open>auto simp: task_bounded_def\<close>)
qed

definition attempts_inv :: "compiled_workflow \<Rightarrow> string \<Rightarrow> sys \<Rightarrow> bool" where
  "attempts_inv c run s \<longleftrightarrow> attempts_ok c run (sy_db s)
     \<and> (\<forall>ns. sy_pc s = D_Recover ns \<longrightarrow> (\<forall>r \<in> set ns. \<forall>n \<in> set (cw_nodes c). cn_id n = nd_id r \<longrightarrow> nd_attempt r \<le> max_attempts n))
     \<and> (\<forall>w. pc_wave (sy_pc s) = Some w \<longrightarrow> (\<forall>t \<in> set (wv_inflight w). task_bounded t))"

lemma driver_step_attempts:
  assumes wf: "wf_graph (cw_nodes c)" and inv: "drive_inv c run \<lparr>sy_db = db, sy_pc = pc, sy_log = es0\<rparr>"
    and att: "attempts_inv c run \<lparr>sy_db = db, sy_pc = pc, sy_log = es0\<rparr>"
    and step: "driver_step E c run now k pc db = Some (pc', db', es)"
  shows "attempts_inv c run \<lparr>sy_db = db', sy_pc = pc', sy_log = es1\<rparr>"
proof -
  have db: "db_wf db" using inv by (simp add: drive_inv_def)
  have ok: "attempts_ok c run db" using att by (simp add: attempts_inv_def)
  have tb: "task_bounded t" if "pc_wave pc = Some w" "t \<in> set (wv_inflight w)" for w t using att that by (simp add: attempts_inv_def)
  show ?thesis
  proof (cases pc)
    case D_Start
    have "nd_attempt r \<le> max_attempts n" if "checked_snapshot E run c db = Inr snap" "r \<in> set (sn_nodes snap)" "n \<in> set (cw_nodes c)" "cn_id n = nd_id r"
      for snap r n
    proof -
      from snapshot_Inr(3) [OF db checked_snapshot_Inr [OF that(1)] that(2)] that(4)
      have "attempt_of db run (cn_id n) = Some (nd_attempt r)" by (auto simp: attempt_of_def)
      with ok that(3) show ?thesis by (auto simp: attempts_ok_def)
    qed
    with D_Start step ok show ?thesis by (auto simp: drive_start_def attempts_inv_def split: sum.splits if_splits)
  next
    case (D_Recover ns)
    show ?thesis
    proof (cases ns)
      case (Cons n ms)
      have "attempts_ok c run d" if "recover_node now run n db = Some (Inr d)" for d
        using attempt_of_recover [OF that] ok att D_Recover Cons by (fastforce simp: attempts_ok_def attempts_inv_def)
      with D_Recover Cons step ok att show ?thesis
        by (auto simp: drive_recover_def attempts_inv_def split: option.splits sum.splits)
    qed (use D_Recover step ok in \<open>auto simp: attempts_inv_def\<close>)
  next
    case D_Begin
    have "attempts_ok c run (fst (set_run_state_if_legal now run [RPending, RRunning] RRunning db))" using ok by (simp add: attempts_ok_def)
    with D_Begin step show ?thesis
      by (auto simp: try_transition_to_running_def attempts_inv_def split: prod.splits bool.splits)
  next
    case D_Round
    with step ok show ?thesis by (auto simp: drive_round_def attempts_inv_def split: sum.splits if_splits)
  next
    case (D_Fill w)
    have "wave_ok c (completed_in db run) w" using inv D_Fill by (simp add: drive_inv_def)
    then have q: "\<forall>i \<in> set (wv_queue w). cw_node c i \<noteq> None" using runnable_node [OF wf] by (fastforce simp: wave_ok_def)
    obtain queue inflight where l: "launch c (max_concurrency c) (wv_queue w) (wv_inflight w) = (queue, inflight)" by force
    from launch_split [OF l q] obtain st where "inflight = wv_inflight w @ map (new_task c) st" by blast
    with l have "set (wv_inflight (fill c w)) \<subseteq> set (wv_inflight w) \<union> new_task c ` set st" by (simp add: fill_def)
    moreover have "task_bounded (new_task c i)" for i by (simp add: task_bounded_def new_task_def)
    ultimately have "\<forall>t \<in> set (wv_inflight (fill c w)). task_bounded t" using tb D_Fill by auto
    with D_Fill step ok show ?thesis by (auto simp: drive_fill_def Let_def attempts_inv_def split: if_splits option.splits)
  next
    case (D_Await w)
    have sub: "set (take k (wv_inflight w) @ drop (Suc k) (wv_inflight w)) \<subseteq> set (wv_inflight w)"
      using set_take_subset set_drop_subset by fastforce
    have "task_bounded t" if "t \<in> set (take k (wv_inflight w)) \<union> set (drop (Suc k) (wv_inflight w))" for t
      using tb [of w t] D_Await sub that by auto
    with D_Await step ok show ?thesis
      by (auto simp: drive_await_def Let_def attempts_inv_def split: if_splits task_pc.splits sum.splits)
  next
    case (D_Check w)
    with tb have "\<forall>t \<in> set (wv_inflight w). task_bounded t" by simp
    with D_Check step ok show ?thesis by (auto simp: drive_check_def attempts_inv_def split: sum.splits if_splits)
  next
    case (D_Finish st)
    have "attempts_ok c run (fst (set_run_state_if_legal now run [RRunning] st db))" using ok by (simp add: attempts_ok_def)
    with D_Finish step show ?thesis by (auto simp: drive_finish_def attempts_inv_def split: prod.splits if_splits)
  qed (use step ok in \<open>auto simp: attempts_inv_def drive_final_def split: sum.splits\<close>)
qed

lemma sys_step_attempts:
  assumes wf: "wf_graph (cw_nodes c)" and inv: "drive_inv c run s" and att: "attempts_inv c run s"
    and step: "sys_step E c run ch s = Some s'"
  shows "attempts_inv c run s'"
proof -
  have db: "db_wf (sy_db s)" using inv by (simp add: drive_inv_def)
  have ok: "attempts_ok c run (sy_db s)" using att by (simp add: attempts_inv_def)
  show ?thesis
  proof (cases ch)
    case (Drive now k)
    with step obtain pc' db' es where d: "driver_step E c run now k (sy_pc s) (sy_db s) = Some (pc', db', es)"
      and s': "s' = \<lparr>sy_db = db', sy_pc = pc', sy_log = sy_log s @ es\<rparr>" by auto
    have "\<lparr>sy_db = sy_db s, sy_pc = sy_pc s, sy_log = sy_log s\<rparr> = s" by simp
    with driver_step_attempts [OF wf _ _ d, of "sy_log s" "sy_log s @ es"] inv att show ?thesis by (simp add: s')
  next
    case (Task k now oc)
    with step obtain w t where at: "active_task (sy_pc s) k = Some (w, t)" by (auto split: option.splits)
    obtain pc' db' es where ts: "task_step E now run oc (tk_node t) (tk_pc t) (sy_db s) = (pc', db', es)" by (metis prod_cases3)
    note a = active_task_Some [OF at]
    let ?w = "w\<lparr>wv_inflight := (wv_inflight w)[k := t\<lparr>tk_pc := pc'\<rparr>]\<rparr>"
    from step Task at ts have s': "s' = \<lparr>sy_db = db', sy_pc = set_wave (sy_pc s) ?w, sy_log = sy_log s @ es\<rparr>" by simp
    have te: "\<lparr>tk_node = tk_node t, tk_pc = tk_pc t\<rparr> = t" "\<lparr>tk_node = tk_node t, tk_pc = pc'\<rparr> = t\<lparr>tk_pc := pc'\<rparr>" by simp_all
    have tb: "\<forall>t \<in> set (wv_inflight w). task_bounded t" using att a by (simp add: attempts_inv_def)
    moreover have "t \<in> set (wv_inflight w)" using a by simp
    ultimately have "task_bounded \<lparr>tk_node = tk_node t, tk_pc = tk_pc t\<rparr>" unfolding te by blast
    from task_step_bounded [OF ts db ok wf task_active_runnable(2) [OF inv at] this]
    have "attempts_ok c run db'" "task_bounded (t\<lparr>tk_pc := pc'\<rparr>)" unfolding te by blast+
    moreover from this(2) tb have "\<forall>t \<in> set (wv_inflight ?w). task_bounded t" by (auto dest!: set_update_subset_insert [THEN subsetD])
    moreover have "set_wave (sy_pc s) ?w \<noteq> D_Recover ns" for ns using a by (cases "sy_pc s") auto
    ultimately show ?thesis using a set_wave_sel(1) [of "sy_pc s" w ?w] by (simp add: s' attempts_inv_def)
  next
    case (Drain now)
    with step att attempt_of_skip show ?thesis by (auto simp: attempts_inv_def attempts_ok_def split: if_splits)
  next
    case (Park k now nst)
    with step obtain w t a db' where at: "active_task (sy_pc s) k = Some (w, t)" and ex: "tk_pc t = T_Exec a"
      and tr: "transition_node_with_error E now run (task_id t) nst a None None None (sy_db s) = Inr db'"
      and s': "s' = s\<lparr>sy_db := db'\<rparr>"
      by (auto simp: transition_eq split: option.splits task_pc.splits if_splits sum.splits)
    have "task_bounded t" using att active_task_Some [OF at] by (auto simp: attempts_inv_def)
    then have "a \<le> max_attempts (tk_node t)" using ex by (simp add: task_bounded_def)
    from attempts_ok_transition [OF tr ok wf task_active_runnable(2) [OF inv at] this] att show ?thesis by (simp add: s' attempts_inv_def)
  qed (use step att in \<open>auto simp: attempts_inv_def attempts_ok_def\<close>)
qed

subsection \<open>Started attempts\<close>

definition started :: "observer_event list \<Rightarrow> (string \<times> u32) list" where
  "started es = List.map_filter running_of es"

lemma started_append [simp]: "started (xs @ ys) = started xs @ started ys"
  by (simp add: started_def List.map_filter_def)

lemma started_none: "\<forall>e \<in> set es. running_of e = None \<Longrightarrow> started es = []"
  by (simp add: started_def List.map_filter_def filter_empty_conv)

text \<open>An attempt that lies behind a task, behind a node of a wave and behind the driver: it is not started again.\<close>

fun attempt_used :: "task_pc \<Rightarrow> u32 \<Rightarrow> bool" where
  "attempt_used T_Load a = False"
| "attempt_used (T_Start b) a = (a < b)"
| "attempt_used (T_Exec b) a = (a \<le> b)"
| "attempt_used (T_Outcome b oc) a = (a \<le> b)"
| "attempt_used (T_Sleep b) a = (a < b)"
| "attempt_used T_Pause a = True"
| "attempt_used (T_Done r) a = True"

definition wave_used :: "(string \<Rightarrow> bool) \<Rightarrow> wave \<Rightarrow> string \<Rightarrow> u32 \<Rightarrow> bool" where
  "wave_used pend w i a \<longleftrightarrow> (case task_of w i of Some t \<Rightarrow> attempt_used (tk_pc t) a
     | None \<Rightarrow> i \<notin> set (wv_queue w) \<and> (wv_error w = None \<longrightarrow> \<not> pend i))"

fun pc_used :: "(string \<Rightarrow> bool) \<Rightarrow> driver_pc \<Rightarrow> string \<Rightarrow> u32 \<Rightarrow> bool" where
  "pc_used pend D_Start i a = False"
| "pc_used pend (D_Recover ns) i a = False"
| "pc_used pend D_Begin i a = False"
| "pc_used pend D_Round i a = (\<not> pend i)"
| "pc_used pend (D_Fill w) i a = wave_used pend w i a"
| "pc_used pend (D_Await w) i a = wave_used pend w i a"
| "pc_used pend (D_Check w) i a = wave_used pend w i a"
| "pc_used pend _ i a = True"

definition log_inv :: "compiled_workflow \<Rightarrow> string \<Rightarrow> sys \<Rightarrow> bool" where
  "log_inv c run s \<longleftrightarrow> distinct (started (sy_log s))
     \<and> (\<forall>(i, a) \<in> set (started (sy_log s)). pc_used (pending_in (sy_db s) run) (sy_pc s) i a
          \<and> (\<exists>n \<in> set (cw_nodes c). cn_id n = i \<and> 1 \<le> a \<and> a \<le> max_attempts n))"

lemma task_step_used:
  assumes "task_step E now run oc n pc db = (pc', db', es)" "attempt_used pc a"
  shows "attempt_used pc' a"
proof (cases pc)
  case (T_Start b)
  from task_start_write [OF assms(1) [unfolded T_Start]] show ?thesis
    by (cases rule: after_write_cases) (use assms(2) T_Start in auto)
next
  case (T_Outcome b oc')
  with assms(1) have "record_outcome E now run n b oc' db = (pc', db', es)" by simp
  then show ?thesis
  proof (cases rule: record_outcome_cases)
    case (1 st a' ag cost err pc1 es0 es1)
    have "a < b + 1" if "b < max_attempts n"
      using unat_succ_below [OF that] assms(2) T_Outcome by (simp add: word_le_nat_alt word_less_nat_alt)
    with 1(2) have "attempt_used pc1 a" by auto
    with 1(1) show ?thesis by (auto elim: after_write_cases)
  qed
qed (use assms in \<open>auto split: sum.splits\<close>)

lemma task_step_started:
  assumes "task_step E now run oc n pc db = (pc', db', es)"
  shows "started es = [] \<or> (\<exists>a. pc = T_Start a \<and> pc' = T_Exec a \<and> started es = [(cn_id n, a)])"
proof (cases pc)
  case (T_Start b)
  from task_start_write [OF assms [unfolded T_Start]] show ?thesis
    by (cases rule: after_write_cases) (use T_Start in \<open>auto simp: started_def List.map_filter_def new_transition_def\<close>)
next
  case (T_Outcome b oc')
  with assms have "record_outcome E now run n b oc' db = (pc', db', es)" by simp
  then show ?thesis by (cases rule: record_outcome_cases) (auto dest: started_none)
qed (use assms in \<open>auto simp: started_def split: sum.splits\<close>)

lemma pc_used_wave: "pc_wave pc = Some w \<Longrightarrow> pc_used pend pc i a = wave_used pend w i a"
  by (cases pc) auto

lemma wave_used_fill:
  assumes wf: "wf_graph (cw_nodes c)" and ok: "wave_ok c C w" and used: "wave_used pend w i a"
  shows "wave_used pend (fill c w) i a"
proof (cases "wv_stop w")
  case False
  obtain queue inflight where l: "launch c (max_concurrency c) (wv_queue w) (wv_inflight w) = (queue, inflight)" by force
  have "\<forall>i \<in> set (wv_queue w). cw_node c i \<noteq> None" using ok runnable_node [OF wf] by (fastforce simp: wave_ok_def)
  from launch_split [OF l this] obtain st where st: "wv_queue w = st @ queue" "inflight = wv_inflight w @ map (new_task c) st" by blast
  have fw: "fill c w = w\<lparr>wv_queue := queue, wv_inflight := inflight\<rparr>" using False l by (simp add: fill_def)
  have sel: "task_id (new_task c j) = j" if "j \<in> set st" for j
    using new_task_sel [OF wf, of C j] ok st(1) that by (auto simp: wave_ok_def)
  have "find (\<lambda>t. task_id t = i) (map (new_task c) st) = None" if "i \<notin> set st"
    using sel that by (induction st) auto
  then show ?thesis using used by (auto simp: wave_used_def fw task_of_def st find_append split: option.splits)
qed (use used in \<open>simp add: fill_def\<close>)

lemma wave_used_await:
  assumes ok: "wave_ok c C w" and st: "wave_settled db run w" and aw: "drive_await k w = Some pc" "pc_wave pc = Some w'"
    and used: "wave_used (pending_in db run) w i a"
  shows "wave_used (pending_in db run) w' i a"
proof (cases "i = task_id (wv_inflight w ! k)")
  case True
  note await_removes [OF ok st aw]
  with True show ?thesis by (auto simp: wave_used_def)
next
  case False
  from await_removes(1-3) [OF ok st aw] await_removes(4) [OF ok st aw False] used show ?thesis
    by (auto simp: wave_used_def split: option.splits)
qed

lemma driver_step_used:
  assumes wf: "wf_graph (cw_nodes c)" and inv: "progress_inv c run \<lparr>sy_db = db, sy_pc = pc, sy_log = es0\<rparr>"
    and step: "driver_step E c run now k pc db = Some (pc', db', es)" and used: "pc_used (pending_in db run) pc i a"
  shows "pc_used (pending_in db' run) pc' i a"
proof -
  have db: "db_wf db" using inv by (simp add: progress_inv_def drive_inv_def)
  have ok: "wave_ok c (completed_in db run) w" "wave_settled db run w" if "pc_wave pc = Some w" for w
    using inv that by (simp_all add: progress_inv_def drive_inv_def)
  show ?thesis
  proof (cases pc)
    case D_Round
    from D_Round step have d: "pc' = drive_round E c run db" "db' = db" by auto
    show ?thesis
    proof (cases "pc_wave pc'")
      case None
      then show ?thesis using d by (auto simp: drive_round_def split: sum.splits if_splits)
    next
      case (Some w)
      from drive_round_wave [OF Some [unfolded d(1)]] obtain snap where s: "snapshot E run db = Inr (Some snap)"
        "pc' = D_Fill \<lparr>wv_queue = ready_node_ids c snap, wv_inflight = [], wv_stop = False, wv_error = None, wv_halted = False\<rparr>"
        unfolding d(1) by blast
      have "i \<notin> set (ready_node_ids c snap)" using used D_Round snapshot_Inr(5) [OF db s(1), of i] by (auto simp: ready_node_ids_iff)
      with s(2) used D_Round d(2) show ?thesis by (simp add: wave_used_def task_of_def)
    qed
  next
    case (D_Fill w)
    note w = ok [unfolded D_Fill, simplified]
    have u: "wave_used (pending_in db run) (fill c w) i a" using wave_used_fill [OF wf w(1)] used D_Fill by simp
    show ?thesis
    proof (cases "wv_inflight (fill c w) = [] \<and> wv_error (fill c w) = None \<and> \<not> wv_halted (fill c w)")
      case True
      with u have "\<not> pending_in db run i" by (simp add: wave_used_def task_of_def)
      with D_Fill step True show ?thesis by (simp add: drive_fill_def Let_def)
    next
      case False
      then have "pc' = D_Await (fill c w) \<or> pc' = D_Reread \<or> (\<exists>r. pc' = D_Done r)" "db' = db"
        using D_Fill step by (auto simp: drive_fill_def Let_def split: if_splits option.splits)
      with u show ?thesis by auto
    qed
  next
    case (D_Await w)
    with step obtain aw: "drive_await k w = Some pc'" "db' = db" by auto
    then obtain w' where w': "pc_wave pc' = Some w'"
      by (auto simp: drive_await_def Let_def split: if_splits task_pc.splits sum.splits)
    from wave_used_await [OF ok(1) ok(2) aw(1) w'] D_Await used show ?thesis by (simp add: aw(2) pc_used_wave [OF w'])
  next
    case (D_Check w)
    moreover have "wave_used pend (w\<lparr>wv_stop := True, wv_halted := True\<rparr>) i a = wave_used pend w i a" for pend
      by (auto simp: wave_used_def task_of_def split: option.split)
    ultimately show ?thesis using step used by (auto simp: drive_check_def split: sum.splits if_splits)
  qed (use step used in \<open>auto simp: drive_final_def drive_finish_def split: sum.splits prod.splits if_splits\<close>)
qed

lemma driver_step_started: "driver_step E c run now k pc db = Some (pc', db', es) \<Longrightarrow> started es = []"
  by (cases pc; cases "case pc of D_Recover ns \<Rightarrow> ns | _ \<Rightarrow> []")
    (auto simp: started_def List.map_filter_def drive_recover_def split: option.splits sum.splits prod.splits bool.splits)

lemma wave_used_mono: "wave_used pend w i a \<Longrightarrow> (\<And>j. task_of w j = None \<Longrightarrow> pend' j \<Longrightarrow> pend j) \<Longrightarrow> wave_used pend' w i a"
  by (auto simp: wave_used_def split: option.splits)

lemma pc_used_mono: "pc_used pend pc i a \<Longrightarrow> (\<And>j. pend' j \<Longrightarrow> pend j) \<Longrightarrow> pc_used pend' pc i a"
  by (cases pc) (auto intro: wave_used_mono)

text \<open>A task's step moves past the attempts behind it and starts none of them.\<close>

lemma task_step_log:
  assumes inv: "progress_inv c run s" and at: "active_task (sy_pc s) k = Some (w, t)"
    and ts: "task_step E now run oc (tk_node t) (tk_pc t) (sy_db s) = (pc', db', es)"
    and w': "w' = w\<lparr>wv_inflight := (wv_inflight w)[k := t\<lparr>tk_pc := pc'\<rparr>]\<rparr>"
    and used: "pc_used (pending_in (sy_db s) run) (sy_pc s) i a"
  shows "wave_used (pending_in db' run) w' i a \<and> (i, a) \<notin> set (started es)"
proof -
  note a = active_task_Some [OF at]
  have ok: "wave_ok c (completed_in (sy_db s) run) w" "wave_settled (sy_db s) run w" using inv a by (simp_all add: progress_inv_def drive_inv_def)
  have d: "distinct (map task_id (wv_inflight w))" using ok(1) by (simp add: wave_ok_def)
  have t: "t \<in> set (wv_inflight w)" using a by simp
  then have own: "task_of w (task_id t) = Some t" using task_of_Some [OF d] by blast
  have to: "task_of w' j = (if j = task_id t then Some (t\<lparr>tk_pc := pc'\<rparr>) else task_of w j)" for j
    unfolding w' using task_of_update [OF d] a by blast
  have te: "\<lparr>tk_node = tk_node t, tk_pc = tk_pc t\<rparr> = t" by simp
  from ok(2) t have "settled (sy_db s) run \<lparr>tk_node = tk_node t, tk_pc = tk_pc t\<rparr>" unfolding wave_settled_def te by metis
  then have oth: "node_state_of db' run j = node_state_of (sy_db s) run j" if "j \<noteq> task_id t" for j
    using task_step_settled [OF ts] a that by (auto simp: task_active_iff)
  have u: "wave_used (pending_in (sy_db s) run) w i a" using used a pc_used_wave by blast
  show ?thesis
  proof (cases "i = task_id t")
    case True
    with u own have "attempt_used (tk_pc t) a" by (simp add: wave_used_def)
    with task_step_used [OF ts] task_step_started [OF ts] True to show ?thesis by (auto simp: wave_used_def)
  next
    case False
    have "wave_used (pending_in db' run) w' i a"
      using u oth [OF False] to [of i] False by (auto simp: wave_used_def w' split: option.splits)
    with task_step_started [OF ts] False show ?thesis by auto
  qed
qed

lemma task_step_new_start:
  assumes inv: "progress_inv c run s" and att: "attempts_inv c run s" and at: "active_task (sy_pc s) k = Some (w, t)"
    and ts: "task_step E now run oc (tk_node t) (tk_pc t) (sy_db s) = (pc', db', es)"
    and w': "w' = w\<lparr>wv_inflight := (wv_inflight w)[k := t\<lparr>tk_pc := pc'\<rparr>]\<rparr>" and new: "(i, a) \<in> set (started es)"
  shows "started es = [(i, a)] \<and> wave_used pend w' i a \<and> (\<exists>n \<in> set (cw_nodes c). cn_id n = i \<and> 1 \<le> a \<and> a \<le> max_attempts n)"
proof -
  note act = active_task_Some [OF at]
  from task_step_started [OF ts] new have e: "tk_pc t = T_Start a" "pc' = T_Exec a" "started es = [(i, a)]" "i = task_id t" by auto
  have dinv: "drive_inv c run s" using inv by (simp add: progress_inv_def)
  have "task_bounded t" using att act by (auto simp: attempts_inv_def)
  then have "1 \<le> a" "a \<le> max_attempts (tk_node t)" using e by (simp_all add: task_bounded_def)
  moreover have "distinct (map task_id (wv_inflight w))" using dinv act by (auto simp: drive_inv_def wave_ok_def)
  then have "task_of w' (task_id t) = Some (t\<lparr>tk_pc := pc'\<rparr>)" unfolding w' using task_of_update act by simp
  ultimately show ?thesis using e task_active_runnable(2) [OF dinv at] by (auto simp: wave_used_def)
qed

lemma sys_step_log:
  assumes wf: "wf_graph (cw_nodes c)" and inv: "progress_inv c run s" and att: "attempts_inv c run s" and log: "log_inv c run s"
    and step: "sys_step E c run ch s = Some s'"
  shows "log_inv c run s'"
proof -
  have env: "log_inv c run (s\<lparr>sy_db := db'\<rparr>)"
    if "\<And>i a. pc_used (pending_in (sy_db s) run) (sy_pc s) i a \<Longrightarrow> pc_used (pending_in db' run) (sy_pc s) i a" for db'
    using log that by (auto simp: log_inv_def)
  show ?thesis
  proof (cases ch)
    case (Drive now k)
    with step obtain pc' db' es where d: "driver_step E c run now k (sy_pc s) (sy_db s) = Some (pc', db', es)"
      and s': "s' = \<lparr>sy_db = db', sy_pc = pc', sy_log = sy_log s @ es\<rparr>" by auto
    have "\<lparr>sy_db = sy_db s, sy_pc = sy_pc s, sy_log = sy_log s\<rparr> = s" by simp
    with driver_step_used [OF wf _ d, of "sy_log s"] inv log driver_step_started [OF d] show ?thesis by (auto simp: s' log_inv_def)
  next
    case (Task k now oc)
    with step obtain w t where at: "active_task (sy_pc s) k = Some (w, t)" by (auto split: option.splits)
    obtain pc' db' es where ts: "task_step E now run oc (tk_node t) (tk_pc t) (sy_db s) = (pc', db', es)" by (metis prod_cases3)
    define w' where "w' = w\<lparr>wv_inflight := (wv_inflight w)[k := t\<lparr>tk_pc := pc'\<rparr>]\<rparr>"
    from step Task at ts have s': "s' = \<lparr>sy_db = db', sy_pc = set_wave (sy_pc s) w', sy_log = sy_log s @ es\<rparr>" by (simp add: w'_def)
    have pw: "pc_wave (set_wave (sy_pc s) w') = Some w'" using active_task_Some [OF at] set_wave_sel(1) by blast
    note old = task_step_log [OF inv at ts w'_def] and new = task_step_new_start [OF inv att at ts w'_def]
    have "distinct (started es)" using task_step_started [OF ts] by auto
    with log old new show ?thesis unfolding s' log_inv_def by (fastforce simp: pc_used_wave [OF pw])
  next
    case (Drain now)
    with step have s': "s' = s\<lparr>sy_db := fst (skip_pending_nodes now run (sy_db s))\<rparr>" by (auto split: if_splits)
    have "pending_in (fst (skip_pending_nodes now run (sy_db s))) run j \<Longrightarrow> pending_in (sy_db s) run j" for j
      using skip_states(1) [OF prod.collapse [symmetric], of now run "sy_db s" run j] by auto
    then show ?thesis unfolding s' by (intro env) (erule pc_used_mono)
  next
    case (Park k now nst)
    with step obtain w t att db' where at: "active_task (sy_pc s) k = Some (w, t)"
      and tr: "transition_node_with_error E now run (task_id t) nst att None None None (sy_db s) = Inr db'"
      and s': "s' = s\<lparr>sy_db := db'\<rparr>"
      by (auto simp: transition_eq split: option.splits task_pc.splits if_splits sum.splits)
    note a = active_task_Some [OF at]
    then have "task_of w (task_id t) \<noteq> None" by (auto simp: task_of_None)
    then have "wave_used (pending_in db' run) w i b" if "wave_used (pending_in (sy_db s) run) w i b" for i b
      using that transition_states(1) [OF tr, of run] by (elim wave_used_mono) (auto split: if_splits)
    then show ?thesis unfolding s' using a by (intro env) (simp add: pc_used_wave)
  qed (use step env in auto)
qed

lemma drive_reach_log:
  assumes "drive_reach E c run (start_sys db) s" "wf_graph (cw_nodes c)" "db_wf db" "run_state_of db run \<noteq> Some RCompleted" "attempts_ok c run db"
  shows "attempts_inv c run s \<and> log_inv c run s"
  using assms(1)
proof induction
  case init
  show ?case using assms(5) by (simp add: attempts_inv_def log_inv_def start_sys_def started_def)
next
  case (step s ch s')
  from drive_reach_progress_inv [OF step.hyps(1) assms(2-4)] have "progress_inv c run s" .
  moreover from this have "drive_inv c run s" by (simp add: progress_inv_def)
  ultimately show ?case
    using sys_step_attempts [OF assms(2) _ _ step.hyps(2)] sys_step_log [OF assms(2) _ _ _ step.hyps(2)] step.IH by blast
qed

subsection \<open>Properties\<close>

text \<open>
  C18: the executor never runs the same attempt of a node twice in a drive, nor an attempt beyond the node's retry
  policy: the attempts the driver reports as started are distinct and lie between 1 and \<open>max_attempts\<close>, provided the
  stored attempts did; and the stored attempts stay within the policy, so this holds again in the next drive.
\<close>

theorem attempts_executed_once:
  assumes "compile d = Inr c" "drive_reach E c run (start_sys db) s" "db_wf db" "run_state_of db run \<noteq> Some RCompleted" "attempts_ok c run db"
  shows "distinct (started (sy_log s)) \<and> attempts_ok c run (sy_db s)
    \<and> (\<forall>(i, a) \<in> set (started (sy_log s)). \<exists>n \<in> set (cw_nodes c). cn_id n = i \<and> 1 \<le> a \<and> a \<le> max_attempts n)"
proof -
  from compile_graph_facts [OF assms(1)] have "wf_graph (cw_nodes c)" by blast
  from drive_reach_log [OF assms(2) this assms(3-5)] show ?thesis by (auto simp: attempts_inv_def log_inv_def)
qed

theorem attempts_executed_once_witness:
  "distinct (started (sy_log cancelled_later)) \<and> started (sy_log cancelled_later) = [(''a'', 1), (''a'', 2)]"
proof -
  have "list_all (\<lambda>r. nr_attempt r = 0) (db_nodes retry_db)" by code_simp
  then have "attempts_ok retry_compiled ''u0'' retry_db"
    by (auto simp: attempts_ok_def attempt_of_def list_all_iff dest!: find_node_Some)
  moreover have "drive_reach env_example retry_compiled ''u0'' (start_sys retry_db) cancelled_later"
    using cancelled_reach cancelled_later_reach by (rule drive_reach_trans)
  ultimately have "distinct (started (sy_log cancelled_later))"
    using attempts_executed_once [OF retry_compile _ retry_db_wf] retry_db_pending by simp
  moreover have "started (sy_log cancelled_later) = [(''a'', 1), (''a'', 2)]" by code_simp
  ultimately show ?thesis by blast
qed

end
