(* ===== verification/Conductor.thy ===== *)
theory Conductor
  imports Drive_Progress
begin

text \<open>
  The conductor (\<open>crates/workflow/src/conductor.rs\<close>): the lifecycle commands on stored runs (pause, cancel, resume, retry),
  driving a run from its stored manifest, and the recovery pass over the incomplete runs at startup. A drive is a
  sequence of choices of the system of \<open>Drive\<close>, given as an argument: it fixes the interleaving, the executor's outcomes
  and the concurrent commands. A sequence that does not end with the driver's return gives no result.
\<close>

subsection \<open>Errors and reports\<close>

datatype conductor_error =
    CE_Store workflow_store_error
  | CE_NoManifest string
  | CE_Compile workflow_error
  | CE_NotFound string
  | CE_IllegalTransition string string

record recovery_report =
  considered :: nat
  driven :: nat
  left_paused :: nat
  skipped_no_manifest :: nat
  skipped_uncompilable :: nat
  signature_changed :: nat
  errored :: nat

definition empty_report :: recovery_report where
  "empty_report = \<lparr>considered = 0, driven = 0, left_paused = 0, skipped_no_manifest = 0, skipped_uncompilable = 0,
     signature_changed = 0, errored = 0\<rparr>"

definition lift_store :: "workflow_store_error + 'a \<Rightarrow> conductor_error + 'a" where
  "lift_store r = (case r of Inl e \<Rightarrow> Inl (CE_Store e) | Inr x \<Rightarrow> Inr x)"

lemma lift_store_simps [simp]: "lift_store (Inl e) = Inl (CE_Store e)" "lift_store (Inr x) = Inr x"
  by (simp_all add: lift_store_def)

subsection \<open>Lifecycle commands\<close>

definition recompile :: "wf_env \<Rightarrow> string \<Rightarrow> wf_db \<Rightarrow> conductor_error + compiled_workflow" where
  "recompile E run db =
     res_bind (lift_store (snapshot E run db)) (\<lambda>s.
     if s = None then Inl (CE_NotFound run)
     else
       res_bind (ok_or (CE_NoManifest run) (manifest run db)) (\<lambda>y.
       case compile_yaml (e_yaml E) y of Inl e \<Rightarrow> Inl (CE_Compile e) | Inr c \<Rightarrow> Inr c))"

definition conductor_state :: "wf_env \<Rightarrow> string \<Rightarrow> wf_db \<Rightarrow> conductor_error + run_state" where
  "conductor_state E run db =
     res_bind (lift_store (snapshot E run db)) (\<lambda>s. ok_or (CE_NotFound run) (map_option (\<lambda>snap. rec_state (sn_run snap)) s))"

definition pause :: "wf_env \<Rightarrow> string \<Rightarrow> string \<Rightarrow> wf_db \<Rightarrow> wf_db \<times> (conductor_error + unit)" where
  "pause E now run db =
     (case set_run_state_if_legal now run [RPending, RRunning] RPaused db of
        (db', moved) \<Rightarrow>
          (db', if 0 < moved then Inr ()
                else res_bind (conductor_state E run db') (\<lambda>st.
                  if st = RPaused then Inr () else Inl (CE_IllegalTransition ''paused'' (run_state_str st)))))"

definition cancel :: "wf_env \<Rightarrow> string \<Rightarrow> string \<Rightarrow> wf_db \<Rightarrow> wf_db \<times> (conductor_error + string list)" where
  "cancel E now run db =
     (case set_run_state_if_legal now run [RPending, RRunning, RPaused] RCancelled db of
        (db', moved) \<Rightarrow>
          if 0 < moved then (case skip_pending_nodes now run db' of (db'', ids) \<Rightarrow> (db'', Inr ids))
          else (db', res_bind (conductor_state E run db') (\<lambda>st.
                  if st = RCancelled then Inr [] else Inl (CE_IllegalTransition ''cancelled'' (run_state_str st)))))"

definition prepare_resume :: "wf_env \<Rightarrow> string \<Rightarrow> string \<Rightarrow> wf_db \<Rightarrow> wf_db \<times> (conductor_error + unit)" where
  "prepare_resume E now run db =
     (case set_run_state_if_legal now run [RPaused] RRunning db of
        (db', moved) \<Rightarrow>
          (db', if 0 < moved then Inr ()
                else res_bind (conductor_state E run db') (\<lambda>st. Inl (CE_IllegalTransition ''resumed'' (run_state_str st)))))"

definition prepare_retry :: "wf_env \<Rightarrow> string \<Rightarrow> string \<Rightarrow> string \<Rightarrow> wf_db \<Rightarrow> wf_db \<times> (conductor_error + unit)" where
  "prepare_retry E now run node db =
     (case res_bind (recompile E run db) (\<lambda>c. lift_store (retry_from_node E now run node c db)) of
        Inl e \<Rightarrow> (db, Inl e) | Inr (db', ids) \<Rightarrow> (db', Inr ()))"

subsection \<open>Driving\<close>

definition conductor_drive ::
    "wf_env \<Rightarrow> choice list \<Rightarrow> string \<Rightarrow> wf_db \<Rightarrow> (wf_db \<times> observer_event list \<times> (conductor_error + run_state)) option" where
  "conductor_drive E chs run db =
     (case recompile E run db of
        Inl e \<Rightarrow> Some (db, [], Inl e)
      | Inr c \<Rightarrow>
          (case sys_run E c run chs (start_sys db) of
             None \<Rightarrow> None
           | Some s \<Rightarrow> (case sy_pc s of D_Done r \<Rightarrow> Some (sy_db s, sy_log s, lift_store r) | _ \<Rightarrow> None)))"

definition conductor_resume ::
    "wf_env \<Rightarrow> string \<Rightarrow> choice list \<Rightarrow> string \<Rightarrow> wf_db \<Rightarrow> (wf_db \<times> observer_event list \<times> (conductor_error + run_state)) option" where
  "conductor_resume E now chs run db =
     (case prepare_resume E now run db of
        (db', Inl e) \<Rightarrow> Some (db', [], Inl e) | (db', Inr _) \<Rightarrow> conductor_drive E chs run db')"

definition retry_from ::
    "wf_env \<Rightarrow> string \<Rightarrow> choice list \<Rightarrow> string \<Rightarrow> string \<Rightarrow> wf_db \<Rightarrow> (wf_db \<times> observer_event list \<times> (conductor_error + run_state)) option" where
  "retry_from E now chs run node db =
     (case prepare_retry E now run node db of
        (db', Inl e) \<Rightarrow> Some (db', [], Inl e) | (db', Inr _) \<Rightarrow> conductor_drive E chs run db')"

subsection \<open>Recovery\<close>

text \<open>
  The count a failed drive goes to, and whether the run is then marked failed. The write is unconditional; \<open>late\<close> is what
  concurrent commands did to the tables between the drive and that write.
\<close>

fun count_failure :: "conductor_error \<Rightarrow> recovery_report \<Rightarrow> recovery_report \<times> bool" where
  "count_failure (CE_NoManifest r) rep = (rep\<lparr>skipped_no_manifest := skipped_no_manifest rep + 1\<rparr>, True)"
| "count_failure (CE_Compile e) rep = (rep\<lparr>skipped_uncompilable := skipped_uncompilable rep + 1\<rparr>, True)"
| "count_failure (CE_Store (WS_GraphSignatureChanged x y)) rep = (rep\<lparr>signature_changed := signature_changed rep + 1\<rparr>, True)"
| "count_failure e rep = (rep\<lparr>errored := errored rep + 1\<rparr>, False)"

definition recover_run ::
    "wf_env \<Rightarrow> string \<Rightarrow> (string \<Rightarrow> choice list) \<Rightarrow> (string \<Rightarrow> wf_db \<Rightarrow> wf_db) \<Rightarrow> run_record \<Rightarrow> wf_db \<Rightarrow> recovery_report
      \<Rightarrow> (wf_db \<times> (conductor_error + recovery_report)) option" where
  "recover_run E now sched late rec db rep0 =
     (let rep = rep0\<lparr>considered := considered rep0 + 1\<rparr> in
      if rec_state rec = RPaused then Some (db, Inr (rep\<lparr>left_paused := left_paused rep + 1\<rparr>))
      else
        (case conductor_drive E (sched (rec_id rec)) (rec_id rec) db of
           None \<Rightarrow> None
         | Some (db1, _, Inr _) \<Rightarrow> Some (db1, Inr (rep\<lparr>driven := driven rep + 1\<rparr>))
         | Some (db1, _, Inl e) \<Rightarrow>
             (case count_failure e rep of
                (rep', False) \<Rightarrow> Some (db1, Inr rep')
              | (rep', True) \<Rightarrow>
                  let db2 = late (rec_id rec) db1 in
                  (case set_run_state now (rec_id rec) RFailed db2 of
                     Inl err \<Rightarrow> Some (db2, Inl (CE_Store err))
                   | Inr db3 \<Rightarrow> Some (db3, Inr rep')))))"

fun recover_loop ::
    "wf_env \<Rightarrow> string \<Rightarrow> (string \<Rightarrow> choice list) \<Rightarrow> (string \<Rightarrow> wf_db \<Rightarrow> wf_db) \<Rightarrow> run_record list \<Rightarrow> wf_db \<Rightarrow> recovery_report
      \<Rightarrow> (wf_db \<times> (conductor_error + recovery_report)) option" where
  "recover_loop E now sched late [] db rep = Some (db, Inr rep)"
| "recover_loop E now sched late (r # rs) db rep =
     (case recover_run E now sched late r db rep of
        None \<Rightarrow> None
      | Some (db', Inl e) \<Rightarrow> Some (db', Inl e)
      | Some (db', Inr rep') \<Rightarrow> recover_loop E now sched late rs db' rep')"

definition recover_incomplete ::
    "wf_env \<Rightarrow> string \<Rightarrow> (string \<Rightarrow> choice list) \<Rightarrow> (string \<Rightarrow> wf_db \<Rightarrow> wf_db) \<Rightarrow> wf_db
      \<Rightarrow> (wf_db \<times> (conductor_error + recovery_report)) option" where
  "recover_incomplete E now sched late db =
     (case list_incomplete_runs E db of
        Inl e \<Rightarrow> Some (db, Inl (CE_Store e))
      | Inr runs \<Rightarrow> recover_loop E now sched late runs db empty_report)"

subsection \<open>Commands and the run's state\<close>

lemma conductor_state_snapshot: "snapshot E run db = Inr (Some snap) \<Longrightarrow> conductor_state E run db = Inr (rec_state (sn_run snap))"
  by (simp add: conductor_state_def)

text \<open>A conditional write either moves the run or leaves the tables alone.\<close>

lemma cas_moves:
  assumes "db_wf db" "run_state_of db run = Some st"
  shows "if st \<in> set legal then \<exists>db'. set_run_state_if_legal now run legal new db = (db', 1) \<and> run_state_of db' run = Some new \<and> db_wf db'
    else set_run_state_if_legal now run legal new db = (db, 0)"
proof (cases "st \<in> set legal")
  case True
  obtain db' k where c: "set_run_state_if_legal now run legal new db = (db', k)" by force
  with rc.cas_applies [OF assms True c] rc.cas_wf [OF assms(1) c] True show ?thesis by simp
next
  case False
  with rc.cas_refuses [OF assms(1), of run legal now new] assms(2) show ?thesis by simp
qed

lemma skip_leaves_none_pending:
  assumes "skip_pending_nodes now run db = (db', ids)" "r \<in> set (db_nodes db')" "nr_run r = run"
  shows "nr_state r \<noteq> ''pending''"
proof -
  define hit where "hit = (\<lambda>r :: node_row. nr_run r = run \<and> nr_state r = ''pending'')"
  show ?thesis
  proof (cases "filter hit (db_nodes db) = []")
    case True
    with assms(1) have "db' = db" by (simp add: skip_pending_nodes_def Let_def hit_def)
    with True assms(2,3) show ?thesis by (auto simp: filter_empty_conv hit_def)
  next
    case False
    then have "sort_key nr_topo_order (filter hit (db_nodes db)) \<noteq> []" by (metis length_0_conv length_sort)
    with assms(1) have "db' = touch_run now run (update_nodes hit (\<lambda>r. r\<lparr>nr_state := ''skipped'', nr_ended_at := Some now\<rparr>) db)"
      by (simp add: skip_pending_nodes_def Let_def hit_def)
    then have "db_nodes db' = map (\<lambda>r. if hit r then r\<lparr>nr_state := ''skipped'', nr_ended_at := Some now\<rparr> else r) (db_nodes db)"
      by (simp add: touch_run_def update_run_def update_nodes_def)
    with assms(2) have "r \<in> (\<lambda>r. if hit r then r\<lparr>nr_state := ''skipped'', nr_ended_at := Some now\<rparr> else r) ` set (db_nodes db)"
      by (simp only: set_map)
    then obtain x where x: "r = (if hit x then x\<lparr>nr_state := ''skipped'', nr_ended_at := Some now\<rparr> else x)" by (rule imageE)
    show ?thesis
    proof (cases "hit x")
      case True
      with x have "nr_state r = ''skipped''" by simp
      then show ?thesis by simp
    next
      case False
      with x assms(3) show ?thesis unfolding hit_def by metis
    qed
  qed
qed

lemma pause_table:
  assumes "db_wf db" "snapshot E run db = Inr (Some snap)"
  shows "case rec_state (sn_run snap) of
      RPending \<Rightarrow> \<exists>db'. pause E now run db = (db', Inr ()) \<and> run_state_of db' run = Some RPaused
    | RRunning \<Rightarrow> \<exists>db'. pause E now run db = (db', Inr ()) \<and> run_state_of db' run = Some RPaused
    | RPaused \<Rightarrow> pause E now run db = (db, Inr ())
    | st \<Rightarrow> pause E now run db = (db, Inl (CE_IllegalTransition ''paused'' (run_state_str st)))"
  using cas_moves [OF assms(1) snapshot_Inr(1) [OF assms], of "[RPending, RRunning]" now RPaused] conductor_state_snapshot [OF assms(2)]
  by (cases "rec_state (sn_run snap)") (auto simp: pause_def)

lemma cancel_table:
  assumes "db_wf db" "snapshot E run db = Inr (Some snap)"
  shows "case rec_state (sn_run snap) of
      RCompleted \<Rightarrow> cancel E now run db = (db, Inl (CE_IllegalTransition ''cancelled'' ''completed''))
    | RFailed \<Rightarrow> cancel E now run db = (db, Inl (CE_IllegalTransition ''cancelled'' ''failed''))
    | RCancelled \<Rightarrow> cancel E now run db = (db, Inr [])
    | st \<Rightarrow> \<exists>db' ids. cancel E now run db = (db', Inr ids) \<and> run_state_of db' run = Some RCancelled
        \<and> (\<forall>r \<in> set (db_nodes db'). nr_run r = run \<longrightarrow> nr_state r \<noteq> ''pending'')"
proof -
  have go: "\<exists>db' ids. cancel E now run db = (db', Inr ids) \<and> run_state_of db' run = Some RCancelled
      \<and> (\<forall>r \<in> set (db_nodes db'). nr_run r = run \<longrightarrow> nr_state r \<noteq> ''pending'')"
    if "set_run_state_if_legal now run [RPending, RRunning, RPaused] RCancelled db = (db1, 1)" "run_state_of db1 run = Some RCancelled" for db1
  proof -
    obtain db' ids where s: "skip_pending_nodes now run db1 = (db', ids)" by force
    with that skip_states(2) [OF s, of run] skip_leaves_none_pending [OF s] show ?thesis by (auto simp: cancel_def)
  qed
  have stay: "cancel E now run db = (db, if rec_state (sn_run snap) = RCancelled then Inr []
        else Inl (CE_IllegalTransition ''cancelled'' (run_state_str (rec_state (sn_run snap)))))"
    if "set_run_state_if_legal now run [RPending, RRunning, RPaused] RCancelled db = (db, 0)"
    using that conductor_state_snapshot [OF assms(2)] by (simp add: cancel_def)
  show ?thesis
    using cas_moves [OF assms(1) snapshot_Inr(1) [OF assms], of "[RPending, RRunning, RPaused]" now RCancelled] go stay
    by (cases "rec_state (sn_run snap)") auto
qed

lemma resume_table:
  assumes "db_wf db" "snapshot E run db = Inr (Some snap)"
  shows "if rec_state (sn_run snap) = RPaused
    then \<exists>db'. prepare_resume E now run db = (db', Inr ()) \<and> run_state_of db' run = Some RRunning
    else prepare_resume E now run db = (db, Inl (CE_IllegalTransition ''resumed'' (run_state_str (rec_state (sn_run snap)))))"
  using cas_moves [OF assms(1) snapshot_Inr(1) [OF assms], of "[RPaused]" now RRunning] conductor_state_snapshot [OF assms(2)]
  by (auto simp: prepare_resume_def)

subsection \<open>Frames\<close>

text \<open>Driving a run leaves the state of every other run as it is.\<close>

lemma cas_frame:
  assumes "db_wf db" "r \<noteq> run"
  shows "run_state_of (fst (set_run_state_if_legal now run legal st db)) r = run_state_of db r"
  using rc.cas_frame [OF assms(1,2) prod.collapse [symmetric]] .

lemma task_step_frame:
  assumes "task_step E now run oc n pc db = (pc', db', es)" "db_wf db" "r \<noteq> run"
  shows "run_state_of db' r = run_state_of db r"
proof (cases pc)
  case (T_Start att)
  from task_start_write [OF assms(1) [unfolded T_Start]] show ?thesis
    by (cases rule: after_write_cases) (auto dest: transition_states(2))
next
  case (T_Outcome att oc')
  with assms(1) record_outcome_effect [of E now run n att oc' db pc' db' es] show ?thesis by simp
qed (use assms cas_frame in \<open>auto split: sum.splits\<close>)

lemma driver_step_frame:
  assumes "driver_step E c run now k pc db = Some (pc', db', es)" "db_wf db" "r \<noteq> run"
  shows "run_state_of db' r = run_state_of db r"
proof (cases pc)
  case (D_Recover ns)
  with assms show ?thesis
    using recover_node_effect [of now run "hd ns" db]
    by (cases ns) (auto simp: drive_recover_def split: option.splits sum.splits)
next
  case D_Begin
  with assms(1) cas_frame [OF assms(2,3), of now "[RPending, RRunning]" RRunning] show ?thesis
    by (auto simp: try_transition_to_running_def split: prod.splits bool.splits)
next
  case (D_Finish st)
  with assms(1) cas_frame [OF assms(2,3), of now "[RRunning]" st] show ?thesis
    by (auto simp: drive_finish_def split: prod.splits if_splits)
qed (use assms in auto)

lemma sys_step_frame:
  assumes "sys_step E c run ch s = Some s'" "db_wf (sy_db s)" "r \<noteq> run"
  shows "run_state_of (sy_db s') r = run_state_of (sy_db s) r"
proof (cases ch)
  case (Drive now k)
  with assms driver_step_frame show ?thesis by fastforce
next
  case (Task k now oc)
  with assms task_step_frame show ?thesis by (fastforce split: option.splits prod.splits)
next
  case (Park k now st)
  with assms(1) obtain i att db' where "transition_node_with_error E now run i st att None None None (sy_db s) = Inr db'" "s' = s\<lparr>sy_db := db'\<rparr>"
    by (auto simp: transition_eq split: option.splits task_pc.splits if_splits sum.splits)
  with transition_states(2) show ?thesis by auto
qed (use assms cas_frame in \<open>auto split: if_splits\<close>)

lemma sys_run_frame:
  assumes "sys_run E c run chs s = Some s'" "db_wf (sy_db s)"
  shows "db_wf (sy_db s') \<and> (\<forall>r. r \<noteq> run \<longrightarrow> run_state_of (sy_db s') r = run_state_of (sy_db s) r)"
  using assms
proof (induction chs arbitrary: s)
  case (Cons ch chs)
  then obtain s1 where s1: "sys_step E c run ch s = Some s1" "sys_run E c run chs s1 = Some s'" by (auto split: option.splits)
  with Cons.IH [OF s1(2)] sys_step_terminal [OF s1(1) Cons.prems(2)] sys_step_frame [OF s1(1) Cons.prems(2)] show ?case by simp
qed simp

lemma conductor_drive_frame:
  assumes "conductor_drive E chs run db = Some (db', es, res)" "db_wf db"
  shows "db_wf db' \<and> (\<forall>r. r \<noteq> run \<longrightarrow> run_state_of db' r = run_state_of db r)"
  using assms sys_run_frame [of E _ run chs "start_sys db"]
  by (auto simp: conductor_drive_def start_sys_def split: sum.splits option.splits driver_pc.splits)

subsection \<open>The recovery pass\<close>

definition report_sum :: "recovery_report \<Rightarrow> nat" where
  "report_sum rep = driven rep + left_paused rep + skipped_no_manifest rep + skipped_uncompilable rep + signature_changed rep + errored rep"

text \<open>What concurrent commands may do before the failure is written: the tables stay well-formed and other runs keep their states.\<close>

definition late_ok :: "(string \<Rightarrow> wf_db \<Rightarrow> wf_db) \<Rightarrow> bool" where
  "late_ok late \<longleftrightarrow> (\<forall>run db. db_wf db \<longrightarrow> db_wf (late run db) \<and> (\<forall>r. r \<noteq> run \<longrightarrow> run_state_of (late run db) r = run_state_of db r))"

lemma count_failure_sum:
  assumes "count_failure e rep = (rep', b)"
  shows "considered rep' = considered rep \<and> report_sum rep' = report_sum rep + 1 \<and> left_paused rep' = left_paused rep"
  using assms by (cases "(e, rep)" rule: count_failure.cases) (auto simp: report_sum_def)

lemma set_run_state_frame:
  assumes "set_run_state now run st db = Inr db'" "db_wf db"
  shows "db_wf db' \<and> (\<forall>r. r \<noteq> run \<longrightarrow> run_state_of db' r = run_state_of db r) \<and> run_state_of db' run = Some st"
proof -
  have "db_wf db'" using assms store_step_wf store_step.set_state by blast
  from assms(1) obtain row where row: "find_run run db = Some row"
    and db': "db' = update_run run (\<lambda>r. r\<lparr>rr_state := run_state_str st, rr_updated_at := now\<rparr>) db"
    by (auto simp: set_run_state_def split: if_splits)
  have "run_state_of db' r = run_state_of db r" if "r \<noteq> run" for r
    using that find_run_Some [of r db] by (cases "find_run r db") (auto simp: db' run_state_of_def find_run_update)
  moreover have "run_state_of db' run = Some st"
    using row find_run_Some [OF row] by (simp add: db' run_state_of_def find_run_update)
  ultimately show ?thesis using \<open>db_wf db'\<close> by blast
qed

lemma recover_run_effect:
  assumes "recover_run E now sched late rec db rep = Some (db', Inr rep')" "db_wf db" "late_ok late"
  shows "db_wf db' \<and> considered rep' = considered rep + 1 \<and> report_sum rep' = report_sum rep + 1
    \<and> left_paused rep' = left_paused rep + (if rec_state rec = RPaused then 1 else 0)
    \<and> (\<forall>r. r \<noteq> rec_id rec \<or> rec_state rec = RPaused \<longrightarrow> run_state_of db' r = run_state_of db r)"
proof (cases "rec_state rec = RPaused")
  case True
  with assms show ?thesis by (auto simp: recover_run_def report_sum_def)
next
  case False
  with assms(1) obtain db1 es res where d: "conductor_drive E (sched (rec_id rec)) (rec_id rec) db = Some (db1, es, res)"
    by (cases "conductor_drive E (sched (rec_id rec)) (rec_id rec) db") (auto simp: recover_run_def Let_def)
  note fr = conductor_drive_frame [OF d assms(2)]
  show ?thesis
  proof (cases res)
    case (Inr st)
    with assms(1) False d fr show ?thesis by (auto simp: recover_run_def report_sum_def)
  next
    case (Inl e)
    obtain rep1 b where cf: "count_failure e (rep\<lparr>considered := considered rep + 1\<rparr>) = (rep1, b)" by force
    have sum: "report_sum (rep\<lparr>considered := considered rep + 1\<rparr>) = report_sum rep" by (simp add: report_sum_def)
    show ?thesis
    proof (cases b)
      case True
      with assms(1) False d Inl cf have "set_run_state now (rec_id rec) RFailed (late (rec_id rec) db1) = Inr db'" "rep' = rep1"
        by (auto simp: recover_run_def Let_def split: sum.splits)
      moreover have "db_wf (late (rec_id rec) db1)" "\<And>r. r \<noteq> rec_id rec \<Longrightarrow> run_state_of (late (rec_id rec) db1) r = run_state_of db1 r"
        using assms(3) fr by (auto simp: late_ok_def)
      ultimately show ?thesis using set_run_state_frame fr count_failure_sum [OF cf] sum False by auto
    next
      case b: False
      with assms(1) False d Inl cf have "db' = db1" "rep' = rep1" by (auto simp: recover_run_def)
      with fr count_failure_sum [OF cf] sum False show ?thesis by auto
    qed
  qed
qed

lemma recover_loop_effect:
  assumes "recover_loop E now sched late runs db rep = Some (db', Inr rep')" "db_wf db" "late_ok late"
  shows "db_wf db' \<and> considered rep' = considered rep + length runs \<and> report_sum rep' = report_sum rep + length runs
    \<and> left_paused rep' = left_paused rep + length (filter (\<lambda>r. rec_state r = RPaused) runs)
    \<and> (\<forall>r. (\<forall>rec \<in> set runs. rec_id rec = r \<longrightarrow> rec_state rec = RPaused) \<longrightarrow> run_state_of db' r = run_state_of db r)"
  using assms(1,2)
proof (induction runs arbitrary: db rep)
  case (Cons rec runs)
  from Cons.prems(1) obtain db1 rep1 where 1: "recover_run E now sched late rec db rep = Some (db1, Inr rep1)"
    "recover_loop E now sched late runs db1 rep1 = Some (db', Inr rep')" by (auto split: option.splits sum.splits)
  from recover_run_effect [OF 1(1) Cons.prems(2) assms(3)] Cons.IH [OF 1(2)] show ?case by auto
qed auto

lemma list_incomplete_runs_Inr:
  assumes "db_wf db" "list_incomplete_runs E db = Inr runs" "rec \<in> set runs"
  shows "run_state_of db (rec_id rec) = Some (rec_state rec) \<and> rec_state rec \<in> {RPending, RRunning, RPaused}"
proof -
  define rows where "rows = sort_key (\<lambda>r. (rr_created_at r, rr_id r)) (filter (\<lambda>r. rr_state r \<in> {''pending'', ''running'', ''paused''}) (db_runs db))"
  from assms(2) have l: "list_all2 (\<lambda>r n. row_to_run E r = Inr n) rows runs"
    unfolding list_incomplete_runs_def map_res_Inr_iff rows_def .
  from assms(3) obtain i where i: "i < length runs" "rec = runs ! i" by (auto simp: in_set_conv_nth)
  with l have "rows ! i \<in> set rows" "row_to_run E (rows ! i) = Inr rec" by (simp_all add: list_all2_conv_all_nth)
  then obtain row where row: "row \<in> set rows" "row_to_run E row = Inr rec" by blast
  then have mem: "row \<in> set (db_runs db)" and st: "rr_state row \<in> {''pending'', ''running'', ''paused''}"
    unfolding rows_def set_sort set_filter by blast+
  have id: "rec_id rec = rr_id row" using row(2) by (auto simp: row_to_run_def res_bind_Inr_iff res_map_Inr_iff)
  have p: "parse_run_state (rr_state row) = Inr (rec_state rec)" using row_to_run_Inr [OF row(2)] by simp
  have str: "parse_run_state ''pending'' = Inr RPending" "parse_run_state ''running'' = Inr RRunning" "parse_run_state ''paused'' = Inr RPaused"
    by code_simp+
  from st consider "rr_state row = ''pending''" | "rr_state row = ''running''" | "rr_state row = ''paused''" by blast
  then have "Inr (rec_state rec) \<in> {Inr RPending, Inr RRunning, Inr RPaused :: workflow_store_error + run_state}"
    unfolding p [symmetric] by cases (simp_all only: str insert_iff simp_thms)
  then have "rec_state rec \<in> {RPending, RRunning, RPaused}" by simp
  with p id db_wf_find_run [OF assms(1) mem] show ?thesis by (simp add: run_state_of_def)
qed

subsection \<open>A drive without concurrent commands\<close>

text \<open>What the run's state is at each point of a drive that only its driver and tasks move.\<close>

fun undisturbed :: "run_state option \<Rightarrow> driver_pc \<Rightarrow> bool" where
  "undisturbed st D_Start = True"
| "undisturbed st (D_Recover ns) = (st \<in> {Some RPending, Some RRunning})"
| "undisturbed st D_Begin = (st \<in> {Some RPending, Some RRunning})"
| "undisturbed st D_Round = (st \<in> {Some RRunning, Some RPaused})"
| "undisturbed st (D_Fill w) = (st = Some RPaused \<or> st = Some RRunning \<and> \<not> wv_halted w)"
| "undisturbed st (D_Await w) = (st = Some RPaused \<or> st = Some RRunning \<and> \<not> wv_halted w)"
| "undisturbed st (D_Check w) = (st = Some RPaused \<or> st = Some RRunning \<and> \<not> wv_halted w)"
| "undisturbed st D_Final = (st = Some RRunning)"
| "undisturbed st (D_Finish f) = (st = Some RRunning \<and> f \<in> {RCompleted, RFailed})"
| "undisturbed st D_Reread = (st = Some RPaused)"
| "undisturbed st (D_Done r) = (case r of Inl e \<Rightarrow> True | Inr t \<Rightarrow> t \<noteq> RPending \<and> t \<noteq> RRunning \<and> st = Some t)"

lemma undisturbed_wave: "pc_wave pc = Some w \<Longrightarrow> undisturbed st pc = (st = Some RPaused \<or> st = Some RRunning \<and> \<not> wv_halted w)"
  by (cases pc) auto

lemma driver_step_undisturbed:
  assumes "driver_step E c run now k pc db = Some (pc', db', es)" "db_wf db" "undisturbed (run_state_of db run) pc"
  shows "undisturbed (run_state_of db' run) pc'"
proof (cases pc)
  case D_Start
  with assms show ?thesis
    using snapshot_Inr(1) [OF assms(2)]
    by (auto simp: drive_start_def dest!: checked_snapshot_Inr split: sum.splits if_splits)
next
  case (D_Recover ns)
  with assms show ?thesis
    using recover_node_effect [of now run "hd ns" db]
    by (cases ns) (auto simp: drive_recover_def split: option.splits sum.splits)
next
  case D_Begin
  with assms have st: "run_state_of db run \<in> {Some RPending, Some RRunning}" by simp
  then obtain st0 where "run_state_of db run = Some st0" "st0 \<in> set [RPending, RRunning]" by auto
  with cas_moves [OF assms(2) this(1), of "[RPending, RRunning]" now RRunning] obtain db1 where
    "set_run_state_if_legal now run [RPending, RRunning] RRunning db = (db1, 1)" "run_state_of db1 run = Some RRunning" by auto
  with D_Begin assms(1) show ?thesis by (auto simp: try_transition_to_running_def)
next
  case D_Round
  with assms(1) have d: "pc' = drive_round E c run db" "db' = db" by auto
  show ?thesis
  proof (cases "read_snapshot E run db")
    case (Inr snap)
    then have "run_state_of db run = Some (rec_state (sn_run snap))" using snapshot_Inr(1) [OF assms(2)] by (simp add: read_snapshot_Inr)
    with D_Round assms(3) d Inr show ?thesis by (auto simp: drive_round_def)
  qed (use d in \<open>simp add: drive_round_def\<close>)
next
  case (D_Fill w)
  have "wv_halted (fill c w) = wv_halted w" by (simp add: fill_def split: prod.splits)
  with D_Fill assms show ?thesis by (auto simp: drive_fill_def Let_def split: if_splits option.splits)
next
  case (D_Await w)
  with assms show ?thesis by (auto simp: drive_await_def Let_def split: if_splits task_pc.splits sum.splits)
next
  case (D_Check w)
  with assms read_state_Inr [OF assms(2)] show ?thesis by (auto simp: drive_check_def split: sum.splits if_splits)
next
  case D_Final
  with assms show ?thesis by (auto simp: drive_final_def split: sum.splits)
next
  case (D_Finish f)
  with assms(3) have "run_state_of db run = Some RRunning" "f \<in> {RCompleted, RFailed}" by simp_all
  with cas_moves [OF assms(2) this(1), of "[RRunning]" now f] D_Finish assms(1) show ?thesis by (auto simp: drive_finish_def)
next
  case D_Reread
  with assms read_state_Inr [OF assms(2)] show ?thesis by (auto split: sum.splits)
qed (use assms in auto)

lemma task_step_run_state:
  assumes "task_step E now run oc n pc db = (pc', db', es)" "db_wf db"
  shows "run_state_of db' run = run_state_of db run \<or> run_state_of db run = Some RRunning \<and> run_state_of db' run = Some RPaused"
proof (cases pc)
  case (T_Start att)
  from task_start_write [OF assms(1) [unfolded T_Start]] show ?thesis
    by (cases rule: after_write_cases) (auto dest: transition_states(2))
next
  case (T_Outcome att oc')
  with assms(1) record_outcome_effect [of E now run n att oc' db pc' db' es] show ?thesis by simp
next
  case T_Pause
  with assms(1) have db': "db' = fst (set_run_state_if_legal now run [RRunning] RPaused db)" by auto
  obtain k where "set_run_state_if_legal now run [RRunning] RPaused db = (db', k)" by (metis db' prod.collapse)
  with assms(2) show ?thesis by (rule rc.cas_cases) auto
qed (use assms in \<open>auto split: sum.splits\<close>)

lemma sys_step_undisturbed:
  assumes "sys_step E c run ch s = Some s'" "is_progress ch" "db_wf (sy_db s)" "undisturbed (run_state_of (sy_db s) run) (sy_pc s)"
  shows "undisturbed (run_state_of (sy_db s') run) (sy_pc s')"
proof (cases ch)
  case (Drive now k)
  with assms driver_step_undisturbed show ?thesis by fastforce
next
  case (Task k now oc)
  with assms(1) obtain w t where at: "active_task (sy_pc s) k = Some (w, t)" by (auto split: option.splits)
  obtain pc' db' es where ts: "task_step E now run oc (tk_node t) (tk_pc t) (sy_db s) = (pc', db', es)" by (metis prod_cases3)
  let ?w = "w\<lparr>wv_inflight := (wv_inflight w)[k := t\<lparr>tk_pc := pc'\<rparr>]\<rparr>"
  from assms(1) Task at ts have s': "s' = \<lparr>sy_db = db', sy_pc = set_wave (sy_pc s) ?w, sy_log = sy_log s @ es\<rparr>" by simp
  have pw: "pc_wave (sy_pc s) = Some w" using active_task_Some [OF at] by blast
  with assms(4) task_step_run_state [OF ts assms(3)] set_wave_sel(1) [OF pw, of ?w] show ?thesis
    by (auto simp: s' undisturbed_wave)
qed (use assms(2) in auto)

lemma sys_run_undisturbed:
  assumes "sys_run E c run chs s = Some s'" "\<forall>ch \<in> set chs. is_progress ch" "db_wf (sy_db s)" "undisturbed (run_state_of (sy_db s) run) (sy_pc s)"
  shows "undisturbed (run_state_of (sy_db s') run) (sy_pc s')"
  using assms
proof (induction chs arbitrary: s)
  case (Cons ch chs)
  then obtain s1 where s1: "sys_step E c run ch s = Some s1" "sys_run E c run chs s1 = Some s'" by (auto split: option.splits)
  with Cons.IH [OF s1(2)] sys_step_terminal [OF s1(1) Cons.prems(3)] sys_step_undisturbed [OF s1(1) _ Cons.prems(3,4)] Cons.prems(2)
  show ?case by simp
qed simp

lemma recompile_Inr:
  assumes "recompile E run db = Inr c"
  shows "\<exists>d. compile d = Inr c"
proof -
  from assms obtain y where "(case compile_yaml (e_yaml E) y of Inl e \<Rightarrow> Inl (CE_Compile e) | Inr c \<Rightarrow> Inr c) = Inr c"
    by (auto simp: recompile_def res_bind_Inr_iff split: if_splits)
  then have "compile_yaml (e_yaml E) y = Inr c" by (cases "compile_yaml (e_yaml E) y") simp_all
  then obtain d where "lift_compile (compile d) = Inr c" by (auto simp: compile_yaml_def res_bind_Inr_iff)
  then have "compile d = Inr c" by (cases "compile d") (simp_all add: lift_compile_def)
  then show ?thesis by blast
qed

lemma undisturbed_drive:
  assumes "conductor_drive E chs run db = Some (db', es, Inr st)" "\<forall>ch \<in> set chs. is_progress ch" "db_wf db"
  shows "st \<in> {RPaused, RCompleted, RFailed, RCancelled} \<and> run_state_of db' run = Some st"
proof -
  from assms(1) obtain c s where s: "sys_run E c run chs (start_sys db) = Some s" "sy_pc s = D_Done (Inr st)" "db' = sy_db s"
    by (auto simp: conductor_drive_def lift_store_def split: sum.splits option.splits driver_pc.splits)
  from sys_run_undisturbed [OF s(1) assms(2)] assms(3) s(2,3) show ?thesis by (cases st) (auto simp: start_sys_def)
qed

subsection \<open>An example\<close>

text \<open>The one-node run of \<open>Drive_Safety\<close> driven to its end, with a reader that finds its manifest.\<close>

definition retry_env :: wf_env where
  "retry_env = env_example\<lparr>e_yaml := (\<lambda>_. Some retry_workflow)\<rparr>"

definition retry_driven :: wf_db where
  "retry_driven = fst (the (conductor_drive retry_env (drive_to_task @ complete_and_finish) ''u0'' retry_db))"

text \<open>A stored run without a manifest, and a cancel of it.\<close>

definition orphan_db :: wf_db where
  "orphan_db = fst (projr (create_run env_example ''t0'' (\<lambda>k. ''u'' @ dec k) retry_compiled None JNull None empty_db))"

definition late_cancel :: "string \<Rightarrow> wf_db \<Rightarrow> wf_db" where
  "late_cancel run db = fst (cancel env_example ''t3'' run db)"

definition orphan_recovered :: "wf_db \<times> (conductor_error + recovery_report)" where
  "orphan_recovered = the (recover_incomplete env_example ''t4'' (\<lambda>_. []) late_cancel orphan_db)"

lemma orphan_db_wf: "db_wf orphan_db"
proof -
  have "\<not> isl (create_run env_example ''t0'' (\<lambda>k. ''u'' @ dec k) retry_compiled None JNull None empty_db)" by code_simp
  then obtain run where "create_run env_example ''t0'' (\<lambda>k. ''u'' @ dec k) retry_compiled None JNull None empty_db = Inr (orphan_db, run)"
    unfolding orphan_db_def by (cases "create_run env_example ''t0'' (\<lambda>k. ''u'' @ dec k) retry_compiled None JNull None empty_db") auto
  from store_reach_wf [OF store_reach.step [OF store_reach.init store_step.create [OF this]]] show ?thesis .
qed

lemma orphan_snapshot: "\<exists>snap. snapshot env_example ''u0'' orphan_db = Inr (Some snap) \<and> rec_state (sn_run snap) = RPending"
proof -
  have "case snapshot env_example ''u0'' orphan_db of Inr (Some snap) \<Rightarrow> rec_state (sn_run snap) = RPending | _ \<Rightarrow> False" by code_simp
  then show ?thesis by (auto split: sum.splits option.splits)
qed

lemma orphan_recover:
  "recover_incomplete env_example ''t4'' (\<lambda>_. []) late_cancel orphan_db
     = Some (fst orphan_recovered, Inr (empty_report\<lparr>considered := 1, skipped_no_manifest := 1\<rparr>))"
proof -
  have "map_option snd (recover_incomplete env_example ''t4'' (\<lambda>_. []) late_cancel orphan_db)
      = Some (Inr (empty_report\<lparr>considered := 1, skipped_no_manifest := 1\<rparr>))" by code_simp
  then show ?thesis unfolding orphan_recovered_def by auto
qed

lemma late_cancel_ok: "late_ok late_cancel"
proof -
  have "db_wf (late_cancel run db) \<and> (\<forall>r. r \<noteq> run \<longrightarrow> run_state_of (late_cancel run db) r = run_state_of db r)" if "db_wf db" for run db
  proof -
    obtain db1 k where c: "set_run_state_if_legal ''t3'' run [RPending, RRunning, RPaused] RCancelled db = (db1, k)" by force
    have "db_wf db1" "\<And>r. r \<noteq> run \<Longrightarrow> run_state_of db1 r = run_state_of db r"
      using rc.cas_wf [OF that c] rc.cas_frame [OF that _ c] by blast+
    with db_wf_skip show ?thesis unfolding late_cancel_def cancel_def c by (auto split: prod.splits) (metis fst_conv db_wf_skip run_state_skip)+
  qed
  then show ?thesis by (simp add: late_ok_def)
qed

subsection \<open>Properties\<close>

text \<open>
  C19: the lifecycle commands allow exactly the documented moves. Pause takes a pending or running run to paused, is a no-op
  on a paused one; cancel takes a pending, running or paused run to cancelled and leaves none of its nodes pending, and is
  a no-op on a cancelled one; resume takes only a paused run to running. Every other case is refused with the
  run's actual state and changes nothing.
\<close>

theorem lifecycle_commands:
  assumes "db_wf db" "snapshot E run db = Inr (Some snap)" "st = rec_state (sn_run snap)"
  shows "(case pause E now run db of
        (db', Inr _) \<Rightarrow> st \<in> {RPending, RRunning, RPaused} \<and> run_state_of db' run = Some RPaused
      | (db', Inl e) \<Rightarrow> run_is_terminal st \<and> db' = db \<and> e = CE_IllegalTransition ''paused'' (run_state_str st))
    \<and> (case cancel E now run db of
        (db', Inr ids) \<Rightarrow> st \<in> {RPending, RRunning, RPaused, RCancelled} \<and> run_state_of db' run = Some RCancelled
          \<and> (if st = RCancelled then db' = db \<and> ids = [] else list_all (\<lambda>r. nr_run r = run \<longrightarrow> nr_state r \<noteq> ''pending'') (db_nodes db'))
      | (db', Inl e) \<Rightarrow> st \<in> {RCompleted, RFailed} \<and> db' = db \<and> e = CE_IllegalTransition ''cancelled'' (run_state_str st))
    \<and> (case prepare_resume E now run db of
        (db', Inr _) \<Rightarrow> st = RPaused \<and> run_state_of db' run = Some RRunning
      | (db', Inl e) \<Rightarrow> st \<noteq> RPaused \<and> db' = db \<and> e = CE_IllegalTransition ''resumed'' (run_state_str st))"
proof (intro conjI)
  note rs = snapshot_Inr(1) [OF assms(1,2), folded assms(3)]
  show "case pause E now run db of
        (db', Inr _) \<Rightarrow> st \<in> {RPending, RRunning, RPaused} \<and> run_state_of db' run = Some RPaused
      | (db', Inl e) \<Rightarrow> run_is_terminal st \<and> db' = db \<and> e = CE_IllegalTransition ''paused'' (run_state_str st)"
    using pause_table [OF assms(1,2), folded assms(3), of now] rs by (cases st) auto
  show "case cancel E now run db of
        (db', Inr ids) \<Rightarrow> st \<in> {RPending, RRunning, RPaused, RCancelled} \<and> run_state_of db' run = Some RCancelled
          \<and> (if st = RCancelled then db' = db \<and> ids = [] else list_all (\<lambda>r. nr_run r = run \<longrightarrow> nr_state r \<noteq> ''pending'') (db_nodes db'))
      | (db', Inl e) \<Rightarrow> st \<in> {RCompleted, RFailed} \<and> db' = db \<and> e = CE_IllegalTransition ''cancelled'' (run_state_str st)"
    using cancel_table [OF assms(1,2), folded assms(3), of now] rs by (cases st) (auto simp: list_all_iff)
  show "case prepare_resume E now run db of
        (db', Inr _) \<Rightarrow> st = RPaused \<and> run_state_of db' run = Some RRunning
      | (db', Inl e) \<Rightarrow> st \<noteq> RPaused \<and> db' = db \<and> e = CE_IllegalTransition ''resumed'' (run_state_str st)"
    using resume_table [OF assms(1,2), folded assms(3), of now] by (auto split: if_splits)
qed

theorem lifecycle_commands_witness:
  "case pause env_example ''t1'' ''u0'' orphan_db of
      (db', Inr _) \<Rightarrow> RPending \<in> {RPending, RRunning, RPaused} \<and> run_state_of db' ''u0'' = Some RPaused
    | (db', Inl e) \<Rightarrow> run_is_terminal RPending \<and> db' = orphan_db \<and> e = CE_IllegalTransition ''paused'' (run_state_str RPending)"
proof -
  from orphan_snapshot obtain snap where s: "snapshot env_example ''u0'' orphan_db = Inr (Some snap)" "RPending = rec_state (sn_run snap)" by metis
  show ?thesis by (rule lifecycle_commands [OF orphan_db_wf s, THEN conjunct1])
qed

text \<open>
  without concurrent commands a drive of a stored run always returns, and what it returns, unless an error, is the
  stored state of the run, which is then finished or paused: never a run left pending or running with nobody to drive it.
\<close>

lemma drive_settles:
  assumes "db_wf db" "run_state_of db run \<noteq> Some RCompleted"
  shows "(\<exists>chs. list_all is_progress chs \<and> conductor_drive E chs run db \<noteq> None)
    \<and> (\<forall>chs db' es st. list_all is_progress chs \<and> conductor_drive E chs run db = Some (db', es, Inr st) \<longrightarrow>
         st \<in> {RPaused, RCompleted, RFailed, RCancelled} \<and> run_state_of db' run = Some st)"
proof (intro conjI allI impI)
  show "\<exists>chs. list_all is_progress chs \<and> conductor_drive E chs run db \<noteq> None"
  proof (cases "recompile E run db")
    case (Inl e)
    then show ?thesis by (intro exI [of _ "[]"]) (simp add: conductor_drive_def)
  next
    case (Inr c)
    from recompile_Inr [OF Inr] obtain d where "compile d = Inr c" by blast
    with compile_graph_facts have "wf_graph (cw_nodes c)" by blast
    moreover from drive_inv_start [OF assms] have "progress_inv c run (start_sys db)" by (simp add: progress_inv_def start_sys_def)
    ultimately obtain chs s r where "set chs \<subseteq> {Drive [] 0, Task 0 [] outcome_completed}" "sys_run E c run chs (start_sys db) = Some s"
      "sy_pc s = D_Done r" using drive_finishes by metis
    with Inr show ?thesis by (intro exI [of _ chs]) (auto simp: conductor_drive_def list_all_iff)
  qed
next
  fix chs db' es st
  assume a: "list_all is_progress chs \<and> conductor_drive E chs run db = Some (db', es, Inr st)"
  then have "\<forall>ch \<in> set chs. is_progress ch" by (simp add: list_all_iff)
  from undisturbed_drive [OF conjunct2 [OF a] this assms(1)]
  show "st \<in> {RPaused, RCompleted, RFailed, RCancelled}" "run_state_of db' run = Some st" by blast+
qed

text \<open>
  the recovery pass accounts for every incomplete run exactly once: the counts of its report add up to the runs
  considered, which are all incomplete ones; paused runs are left paused, and finished runs are not touched.
\<close>

lemma recovery_accounts:
  assumes "db_wf db" "late_ok late" "recover_incomplete E now sched late db = Some (db', Inr rep)"
  shows "(\<exists>runs. list_incomplete_runs E db = Inr runs \<and> considered rep = length runs
        \<and> left_paused rep = length (filter (\<lambda>r. rec_state r = RPaused) runs))
    \<and> considered rep = driven rep + left_paused rep + skipped_no_manifest rep + skipped_uncompilable rep + signature_changed rep + errored rep
    \<and> (\<forall>r st. run_state_of db r = Some st \<and> (st = RPaused \<or> run_is_terminal st) \<longrightarrow> run_state_of db' r = Some st)"
proof -
  from assms(3) obtain runs where runs: "list_incomplete_runs E db = Inr runs"
    "recover_loop E now sched late runs db empty_report = Some (db', Inr rep)" by (auto simp: recover_incomplete_def split: sum.splits)
  note eff = recover_loop_effect [OF runs(2) assms(1,2)]
  have "run_state_of db' r = Some st" if "run_state_of db r = Some st" "st = RPaused \<or> run_is_terminal st" for r st
  proof -
    have "rec_state rec = RPaused" if "rec \<in> set runs" "rec_id rec = r" for rec
      using list_incomplete_runs_Inr [OF assms(1) runs(1) that(1)] that(2) \<open>run_state_of db r = Some st\<close> \<open>st = RPaused \<or> run_is_terminal st\<close>
      by auto
    with eff that(1) show ?thesis by simp
  qed
  with eff runs(1) show ?thesis by (auto simp: empty_report_def report_sum_def)
qed

text \<open>
  the recovery pass can revert an accepted cancel. Marking a run that cannot be recompiled as failed is an unconditional
  write: a cancel that commits between the failed drive and that write is answered with success and then overwritten.
\<close>

lemma recovery_overwrites_cancel:
  "snd (cancel env_example ''t3'' ''u0'' orphan_db) = Inr [''a'']
   \<and> run_state_of (late_cancel ''u0'' orphan_db) ''u0'' = Some RCancelled
   \<and> (\<exists>db' rep. recover_incomplete env_example ''t4'' (\<lambda>_. []) late_cancel orphan_db = Some (db', Inr rep)
        \<and> run_state_of db' ''u0'' = Some RFailed)"
proof (intro conjI)
  show "snd (cancel env_example ''t3'' ''u0'' orphan_db) = Inr [''a'']" by code_simp
  show "run_state_of (late_cancel ''u0'' orphan_db) ''u0'' = Some RCancelled" by code_simp
  have "run_state_of (fst orphan_recovered) ''u0'' = Some RFailed" by code_simp
  with orphan_recover show "\<exists>db' rep. recover_incomplete env_example ''t4'' (\<lambda>_. []) late_cancel orphan_db = Some (db', Inr rep)
      \<and> run_state_of db' ''u0'' = Some RFailed" by blast
qed

end
