(* ===== verification/Ordering.thy ===== *)
theory Ordering
  imports F64
begin

text \<open>
  \<open>std::cmp::Ordering\<close> and what the router builds on it: \<open>then_with\<close>, \<open>Iterator::max_by\<close> (the last of
  the greatest elements), \<open>Iterator::min_by\<close> (the first of the least), \<open>rposition\<close>, the comparison of
  strings, and the comparison and arithmetic of floats beyond the product of the theory F64.

  The locale \<open>preorder_cmp\<close> is what a comparison function owes to \<open>max_by\<close> and \<open>min_by\<close>, and
  \<open>keyed_cmp\<close> what it owes for the choice to be independent of the order of the candidates.
\<close>

datatype ordering = Less | Equal | Greater

fun reverse_ord :: "ordering \<Rightarrow> ordering" where
  "reverse_ord Less = Greater"
| "reverse_ord Equal = Equal"
| "reverse_ord Greater = Less"

definition then_with :: "ordering \<Rightarrow> ordering \<Rightarrow> ordering" where
  "then_with a b = (if a = Equal then b else a)"

definition lin_cmp :: "'a :: linorder \<Rightarrow> 'a \<Rightarrow> ordering" where
  "lin_cmp a b = (if a < b then Less else if a = b then Equal else Greater)"

fun max_by :: "('a \<Rightarrow> 'a \<Rightarrow> ordering) \<Rightarrow> 'a list \<Rightarrow> 'a option" where
  "max_by c [] = None"
| "max_by c (x # xs) = Some (fold (\<lambda>y m. if c m y = Greater then m else y) xs x)"

fun min_by :: "('a \<Rightarrow> 'a \<Rightarrow> ordering) \<Rightarrow> 'a list \<Rightarrow> 'a option" where
  "min_by c [] = None"
| "min_by c (x # xs) = Some (fold (\<lambda>y m. if c m y = Greater then y else m) xs x)"

fun rposition :: "('a \<Rightarrow> bool) \<Rightarrow> 'a list \<Rightarrow> nat option" where
  "rposition P [] = None"
| "rposition P (x # xs) =
     (case rposition P xs of Some i \<Rightarrow> Some (Suc i) | None \<Rightarrow> if P x then Some 0 else None)"

subsection \<open>Floats\<close>

text \<open>
  \<open>partial_cmp\<close> is \<open>None\<close> when a side is a NaN; the router then takes \<open>Ordering::Equal\<close>. The relational
  operators are false of a NaN. A \<open>u64\<close> is converted to the nearest double.
\<close>

fun f64_partial_cmp :: "f64 \<Rightarrow> f64 \<Rightarrow> ordering option" where
  "f64_partial_cmp (F_Fin p) (F_Fin q) = Some (lin_cmp p q)"
| "f64_partial_cmp (F_Inf s) (F_Inf t) = Some (if s = t then Equal else if s then Less else Greater)"
| "f64_partial_cmp (F_Inf s) (F_Fin q) = Some (if s then Less else Greater)"
| "f64_partial_cmp (F_Fin q) (F_Inf s) = Some (if s then Greater else Less)"
| "f64_partial_cmp _ _ = None"

definition f64_cmp_or_equal :: "f64 \<Rightarrow> f64 \<Rightarrow> ordering" where
  "f64_cmp_or_equal a b = (case f64_partial_cmp a b of None \<Rightarrow> Equal | Some r \<Rightarrow> r)"

definition f64_ge :: "f64 \<Rightarrow> f64 \<Rightarrow> bool" where
  "f64_ge a b \<longleftrightarrow> f64_partial_cmp a b \<in> {Some Equal, Some Greater}"

definition f64_lt :: "f64 \<Rightarrow> f64 \<Rightarrow> bool" where
  "f64_lt a b \<longleftrightarrow> f64_partial_cmp a b = Some Less"

definition f64_eq :: "f64 \<Rightarrow> f64 \<Rightarrow> bool" where
  "f64_eq a b \<longleftrightarrow> f64_partial_cmp a b = Some Equal"

fun f64_neg :: "f64 \<Rightarrow> f64" where
  "f64_neg F_NaN = F_NaN"
| "f64_neg (F_Inf s) = F_Inf (\<not> s)"
| "f64_neg (F_Fin q) = F_Fin (- q)"

fun f64_add :: "f64 \<Rightarrow> f64 \<Rightarrow> f64" where
  "f64_add (F_Fin p) (F_Fin q) = f64_of_rat (p + q)"
| "f64_add (F_Inf s) (F_Inf t) = (if s = t then F_Inf s else F_NaN)"
| "f64_add (F_Inf s) (F_Fin _) = F_Inf s"
| "f64_add (F_Fin _) (F_Inf s) = F_Inf s"
| "f64_add _ _ = F_NaN"

definition f64_sub :: "f64 \<Rightarrow> f64 \<Rightarrow> f64" where
  "f64_sub a b = f64_add a (f64_neg b)"

text \<open>\<open>x / d\<close> for a positive constant \<open>d\<close>: the only divisors of the modelled code are literals.\<close>

fun f64_div_pos :: "f64 \<Rightarrow> rat \<Rightarrow> f64" where
  "f64_div_pos (F_Fin p) d = f64_of_rat (p / d)"
| "f64_div_pos x d = x"

definition f64_of_u64 :: "u64 \<Rightarrow> f64" where
  "f64_of_u64 w = f64_of_rat (of_nat (unat w))"

subsection \<open>Contracts of a comparison function\<close>

locale preorder_cmp =
  fixes c :: "'a \<Rightarrow> 'a \<Rightarrow> ordering" and S :: "'a set"
  assumes flip: "a \<in> S \<Longrightarrow> b \<in> S \<Longrightarrow> c b a = reverse_ord (c a b)"
    and le_trans: "a \<in> S \<Longrightarrow> b \<in> S \<Longrightarrow> d \<in> S \<Longrightarrow> c a b \<noteq> Greater \<Longrightarrow> c b d \<noteq> Greater \<Longrightarrow> c a d \<noteq> Greater"
begin

lemma self_equal: "a \<in> S \<Longrightarrow> c a a = Equal"
  using flip [of a a] by (cases "c a a") auto

lemma le_total: "a \<in> S \<Longrightarrow> b \<in> S \<Longrightarrow> c a b = Greater \<Longrightarrow> c b a \<noteq> Greater"
  using flip [of a b] by (cases "c a b") auto

lemma fold_max:
  assumes "x \<in> S" "set xs \<subseteq> S" "m = fold (\<lambda>y m. if c m y = Greater then m else y) xs x"
  shows "m \<in> insert x (set xs) \<and> (\<forall>y \<in> insert x (set xs). c y m \<noteq> Greater)"
  using assms
proof (induction xs arbitrary: x)
  case (Cons z xs)
  define w where "w = (if c x z = Greater then x else z)"
  have w: "w \<in> S" "c x w \<noteq> Greater" "c z w \<noteq> Greater" "w \<in> {x, z}"
    using Cons.prems(1,2) self_equal le_total by (auto simp: w_def)
  have IH: "m \<in> insert w (set xs)" "\<forall>y \<in> insert w (set xs). c y m \<noteq> Greater"
    using Cons.IH [of w] Cons.prems w(1) by (auto simp: w_def)
  then have mS: "m \<in> S" using w(1) Cons.prems(2) by auto
  have "c x m \<noteq> Greater" "c z m \<noteq> Greater"
    using le_trans [OF _ w(1) mS] w IH(2) Cons.prems(1,2) by auto
  with IH w(4) show ?case by auto
qed (simp add: self_equal)

lemma max_by_greatest:
  assumes "set xs \<subseteq> S" "max_by c xs = Some m"
  shows "m \<in> set xs \<and> (\<forall>y \<in> set xs. c y m \<noteq> Greater)"
proof (cases xs)
  case (Cons x ys)
  then show ?thesis using fold_max [of x ys m] assms by simp
qed (use assms in simp)

lemma fold_min:
  assumes "x \<in> S" "set xs \<subseteq> S" "m = fold (\<lambda>y m. if c m y = Greater then y else m) xs x"
  shows "m \<in> insert x (set xs) \<and> (\<forall>y \<in> insert x (set xs). c m y \<noteq> Greater)"
  using assms
proof (induction xs arbitrary: x)
  case (Cons z xs)
  define w where "w = (if c x z = Greater then z else x)"
  have w: "w \<in> S" "c w x \<noteq> Greater" "c w z \<noteq> Greater" "w \<in> {x, z}"
    using Cons.prems(1,2) self_equal le_total by (auto simp: w_def)
  have IH: "m \<in> insert w (set xs)" "\<forall>y \<in> insert w (set xs). c m y \<noteq> Greater"
    using Cons.IH [of w] Cons.prems w(1) by (auto simp: w_def)
  then have mS: "m \<in> S" using w(1) Cons.prems(2) by auto
  have "c m x \<noteq> Greater" "c m z \<noteq> Greater"
    using le_trans [OF mS w(1)] w IH(2) Cons.prems(1,2) by auto
  with IH w(4) show ?case by auto
qed (simp add: self_equal)

lemma min_by_least:
  assumes "set xs \<subseteq> S" "min_by c xs = Some m"
  shows "m \<in> set xs \<and> (\<forall>y \<in> set xs. c m y \<noteq> Greater)"
proof (cases xs)
  case (Cons x ys)
  then show ?thesis using fold_min [of x ys m] assms by simp
qed (use assms in simp)

end

text \<open>A comparison whose ties share a key: among candidates with distinct keys the choice is unique.\<close>

locale keyed_cmp = preorder_cmp c S for c :: "'a \<Rightarrow> 'a \<Rightarrow> ordering" and S +
  fixes key :: "'a \<Rightarrow> 'k"
  assumes tie_key: "a \<in> S \<Longrightarrow> b \<in> S \<Longrightarrow> c a b = Equal \<Longrightarrow> key a = key b"
begin

lemma le_antisym: "a \<in> S \<Longrightarrow> b \<in> S \<Longrightarrow> c a b \<noteq> Greater \<Longrightarrow> c b a \<noteq> Greater \<Longrightarrow> key a = key b"
  using flip [of a b] by (cases "c a b") (auto intro: tie_key)

lemma max_by_order_independent:
  assumes "set xs \<subseteq> S" "set ys = set xs" "inj_on key (set xs)"
  shows "max_by c ys = max_by c xs"
proof (cases "max_by c xs")
  case None
  then have "xs = []" by (cases xs) auto
  with assms show ?thesis by simp
next
  case (Some m)
  then have "xs \<noteq> []" by auto
  with assms(2) obtain n where n: "max_by c ys = Some n" by (cases ys) auto
  have "m \<in> set xs" "n \<in> set xs" "c n m \<noteq> Greater" "c m n \<noteq> Greater"
    using max_by_greatest [OF _ Some] max_by_greatest [OF _ n] assms by auto
  with assms have "m = n" using le_antisym [of m n] by (auto simp: inj_on_def)
  with Some n show ?thesis by simp
qed

lemma min_by_order_independent:
  assumes "set xs \<subseteq> S" "set ys = set xs" "inj_on key (set xs)"
  shows "min_by c ys = min_by c xs"
proof (cases "min_by c xs")
  case None
  then have "xs = []" by (cases xs) auto
  with assms show ?thesis by simp
next
  case (Some m)
  then have "xs \<noteq> []" by auto
  with assms(2) obtain n where n: "min_by c ys = Some n" by (cases ys) auto
  have "m \<in> set xs" "n \<in> set xs" "c n m \<noteq> Greater" "c m n \<noteq> Greater"
    using min_by_least [OF _ Some] min_by_least [OF _ n] assms by auto
  with assms have "m = n" using le_antisym [of m n] by (auto simp: inj_on_def)
  with Some n show ?thesis by simp
qed

end

subsection \<open>Building comparisons\<close>

lemma preorder_cmp_mono: "preorder_cmp c S \<Longrightarrow> T \<subseteq> S \<Longrightarrow> preorder_cmp c T"
  by (rule preorder_cmp.intro) (blast intro: preorder_cmp.flip, blast dest: preorder_cmp.le_trans)

lemma preorder_cmp_converse: "preorder_cmp c S \<Longrightarrow> preorder_cmp (\<lambda>a b. c b a) S"
  by (rule preorder_cmp.intro) (blast intro: preorder_cmp.flip, blast dest: preorder_cmp.le_trans)

lemma preorder_cmp_image: "preorder_cmp c T \<Longrightarrow> f ` S \<subseteq> T \<Longrightarrow> preorder_cmp (\<lambda>a b. c (f a) (f b)) S"
  by (rule preorder_cmp.intro)
    (blast intro: preorder_cmp.flip, meson image_subset_iff preorder_cmp.le_trans)

lemma preorder_cmp_then:
  assumes "preorder_cmp c S" "preorder_cmp d S"
  shows "preorder_cmp (\<lambda>a b. then_with (c a b) (d a b)) S"
proof
  fix a b assume S: "a \<in> S" "b \<in> S"
  show "then_with (c b a) (d b a) = reverse_ord (then_with (c a b) (d a b))"
    using preorder_cmp.flip [OF assms(1) S] preorder_cmp.flip [OF assms(2) S]
    by (cases "c a b") (simp_all add: then_with_def)
next
  fix a b e assume S: "a \<in> S" "b \<in> S" "e \<in> S"
    and le: "then_with (c a b) (d a b) \<noteq> Greater" "then_with (c b e) (d b e) \<noteq> Greater"
  have cle: "c a b \<noteq> Greater" "c b e \<noteq> Greater" using le by (auto simp: then_with_def split: if_splits)
  then have ae: "c a e \<noteq> Greater" using preorder_cmp.le_trans [OF assms(1) S] by blast
  show "then_with (c a e) (d a e) \<noteq> Greater"
  proof (cases "c a e = Equal")
    case True
    then have ea: "c e a \<noteq> Greater" using preorder_cmp.flip [OF assms(1) S(1,3)] by simp
    have "c b a \<noteq> Greater" using preorder_cmp.le_trans [OF assms(1) S(2,3,1) cle(2) ea] .
    then have ab: "c a b = Equal" using cle(1) preorder_cmp.flip [OF assms(1) S(1,2)] by (cases "c a b") auto
    have "c e b \<noteq> Greater" using preorder_cmp.le_trans [OF assms(1) S(3,1,2) ea cle(1)] .
    then have "c b e = Equal" using cle(2) preorder_cmp.flip [OF assms(1) S(2,3)] by (cases "c b e") auto
    with ab le have "d a b \<noteq> Greater" "d b e \<noteq> Greater" by (auto simp: then_with_def)
    then show ?thesis using preorder_cmp.le_trans [OF assms(2) S] True by (simp add: then_with_def)
  next
    case False
    with ae show ?thesis by (simp add: then_with_def)
  qed
qed

lemma lin_cmp_simps [simp]:
  "lin_cmp a b = Less \<longleftrightarrow> a < b" "lin_cmp a b = Equal \<longleftrightarrow> a = b" "lin_cmp a b = Greater \<longleftrightarrow> b < a"
  by (auto simp: lin_cmp_def)

lemma lin_cmp_preorder: "preorder_cmp lin_cmp UNIV"
  by (rule preorder_cmp.intro) (auto simp: lin_cmp_def split: if_splits)

lemma f64_cmp_flip: "f64_cmp_or_equal b a = reverse_ord (f64_cmp_or_equal a b)"
  by (cases a; cases b) (auto simp: f64_cmp_or_equal_def lin_cmp_def)

lemma f64_cmp_preorder: "preorder_cmp f64_cmp_or_equal (- {F_NaN})"
proof
  fix a b d :: f64
  assume "a \<in> - {F_NaN}" "b \<in> - {F_NaN}" "d \<in> - {F_NaN}"
    and "f64_cmp_or_equal a b \<noteq> Greater" "f64_cmp_or_equal b d \<noteq> Greater"
  then show "f64_cmp_or_equal a d \<noteq> Greater"
    by (cases a; cases b; cases d) (auto simp: f64_cmp_or_equal_def split: if_splits)
qed (rule f64_cmp_flip)

lemma f64_le_cmp:
  "a \<noteq> F_NaN \<Longrightarrow> b \<noteq> F_NaN \<Longrightarrow> f64_ge b a \<longleftrightarrow> f64_cmp_or_equal a b \<noteq> Greater"
  by (cases a; cases b) (auto simp: f64_ge_def f64_cmp_or_equal_def)

subsection \<open>Positions\<close>

lemma max_by_None_iff: "max_by c xs = None \<longleftrightarrow> xs = []"
  by (cases xs) auto

lemma min_by_None_iff: "min_by c xs = None \<longleftrightarrow> xs = []"
  by (cases xs) auto

lemma fold_choice_in:
  "(\<And>y m. f y m = y \<or> f y m = m) \<Longrightarrow> fold f xs x \<in> insert x (set xs)"
proof (induction xs arbitrary: x)
  case (Cons z xs)
  from Cons.IH [OF Cons.prems, of "f z x"] Cons.prems [of z x] show ?case by auto
qed simp

lemma max_by_in: "max_by c xs = Some m \<Longrightarrow> m \<in> set xs"
proof (cases xs)
  case (Cons x ys)
  have "fold (\<lambda>y m. if c m y = Greater then m else y) ys x \<in> insert x (set ys)"
    by (rule fold_choice_in) simp
  moreover assume "max_by c xs = Some m"
  ultimately show ?thesis using Cons by simp
qed simp

lemma min_by_in: "min_by c xs = Some m \<Longrightarrow> m \<in> set xs"
proof (cases xs)
  case (Cons x ys)
  have "fold (\<lambda>y m. if c m y = Greater then y else m) ys x \<in> insert x (set ys)"
    by (rule fold_choice_in) simp
  moreover assume "min_by c xs = Some m"
  ultimately show ?thesis using Cons by simp
qed simp

lemma rposition_None: "rposition P xs = None \<longleftrightarrow> (\<forall>x \<in> set xs. \<not> P x)"
  by (induction xs) (auto split: option.splits)

lemma rposition_Some:
  "rposition P xs = Some i \<longleftrightarrow> i < length xs \<and> P (xs ! i) \<and> (\<forall>j < length xs. i < j \<longrightarrow> \<not> P (xs ! j))"
proof (induction xs arbitrary: i)
  case (Cons x xs)
  show ?case
  proof (cases "rposition P xs")
    case None
    then have "\<forall>j < length xs. \<not> P (xs ! j)" by (auto simp: rposition_None)
    with None show ?thesis by (cases i) (auto simp: All_less_Suc2 nth_Cons')
  next
    case (Some k)
    with Cons.IH [of k] have k: "k < length xs" "P (xs ! k)" "\<forall>j < length xs. k < j \<longrightarrow> \<not> P (xs ! j)" by auto
    show ?thesis
    proof (cases i)
      case 0
      with Some k show ?thesis by (auto simp: All_less_Suc2)
    next
      case (Suc i')
      with Some Cons.IH [of i'] show ?thesis by (auto simp: All_less_Suc2)
    qed
  qed
qed simp

lemma rposition_last: "rposition P xs = Some i \<Longrightarrow> i < j \<Longrightarrow> j < length xs \<Longrightarrow> \<not> P (xs ! j)"
  by (simp add: rposition_Some)

end
