(* ===== verification/Routing.thy ===== *)
theory Routing
  imports Ordering Rust_Str
begin

text \<open>
  The model router (\<open>crates/routing\<close>): capabilities and what a task node requires of them
  (\<open>capability.rs\<close>), the rule-based task classifier (\<open>classify.rs\<close>), model profiles (\<open>profile.rs\<close>), the
  versioned policy and its validation (\<open>policy.rs\<close>), the router with its hard filters, utility and
  escalation (\<open>router.rs\<close>), and the evaluation arms with the release gate (\<open>arms.rs\<close>). The
  classification lattice is the one of \<open>crates/protocol/src/artifact.rs\<close>.

  Every operation is a function of its arguments: the crate keeps no state. The sum of the two token
  estimates is the wrapping sum of a release build. \<open>char::is_alphanumeric\<close> is a Unicode table and is
  the parameter \<open>alnum\<close> of the keyword splitter, applied to the UTF-8 bytes of one character.
\<close>

subsection \<open>Data classification\<close>

datatype data_classification = Public | Internal | Confidential | Secret | Unknown

fun rank :: "data_classification \<Rightarrow> nat" where
  "rank Public = 0"
| "rank Internal = 1"
| "rank Confidential = 2"
| "rank Secret = 3"
| "rank Unknown = 4"

text \<open>The order the program compares classifications by is the order of their ranks.\<close>

lemma rank_inj [simp]: "rank a = rank b \<longleftrightarrow> a = b"
  by (cases a; cases b) auto

instantiation data_classification :: linorder
begin

definition less_eq_data_classification :: "data_classification \<Rightarrow> data_classification \<Rightarrow> bool" where
  "less_eq_data_classification a b \<longleftrightarrow> rank a \<le> rank b"

definition less_data_classification :: "data_classification \<Rightarrow> data_classification \<Rightarrow> bool" where
  "less_data_classification a b \<longleftrightarrow> rank a < rank b"

instance
  by standard (auto simp: less_eq_data_classification_def less_data_classification_def)

end

definition allowed_off_device :: "data_classification \<Rightarrow> data_classification \<Rightarrow> bool" where
  "allowed_off_device cls max_off_device \<longleftrightarrow>
     (if max_off_device = Unknown then False else rank cls \<le> rank max_off_device)"

fun classification_debug :: "data_classification \<Rightarrow> string" where
  "classification_debug Public = ''Public''"
| "classification_debug Internal = ''Internal''"
| "classification_debug Confidential = ''Confidential''"
| "classification_debug Secret = ''Secret''"
| "classification_debug Unknown = ''Unknown''"

subsection \<open>Capabilities\<close>

datatype tool_call_support = TC_None | TC_Single | TC_Parallel

definition can_call_tools :: "tool_call_support \<Rightarrow> bool" where
  "can_call_tools t \<longleftrightarrow> t \<noteq> TC_None"

definition can_call_parallel :: "tool_call_support \<Rightarrow> bool" where
  "can_call_parallel t \<longleftrightarrow> t = TC_Parallel"

datatype structured_output_support = SO_None | SO_JsonMode | SO_Strict

definition is_supported :: "structured_output_support \<Rightarrow> bool" where
  "is_supported s \<longleftrightarrow> s \<noteq> SO_None"

record model_capabilities =
  mc_streaming :: bool
  mc_tools :: tool_call_support
  mc_parallel_tools :: bool
  mc_structured_output :: structured_output_support
  mc_vision :: bool
  mc_audio_input :: bool
  mc_embeddings :: bool
  mc_prompt_caching :: bool
  mc_reasoning_controls :: bool
  mc_context_tokens :: "u64 option"
  mc_output_tokens :: "u64 option"

record required_capabilities =
  rq_tools :: bool
  rq_parallel_tools :: bool
  rq_structured_output :: bool
  rq_vision :: bool
  rq_audio_input :: bool
  rq_min_context_tokens :: u64
  rq_min_output_tokens :: u64

definition satisfies :: "model_capabilities \<Rightarrow> required_capabilities \<Rightarrow> bool" where
  "satisfies c q =
     (if rq_tools q \<and> \<not> can_call_tools (mc_tools c) then False
      else if rq_parallel_tools q \<and> \<not> (mc_parallel_tools c \<and> can_call_parallel (mc_tools c)) then False
      else if rq_structured_output q \<and> \<not> is_supported (mc_structured_output c) then False
      else if rq_vision q \<and> \<not> mc_vision c then False
      else if rq_audio_input q \<and> \<not> mc_audio_input c then False
      else if (case mc_context_tokens c of Some ctx \<Rightarrow> ctx < rq_min_context_tokens q | None \<Rightarrow> False) then False
      else if (case mc_output_tokens c of Some out \<Rightarrow> out < rq_min_output_tokens q | None \<Rightarrow> False) then False
      else True)"

subsection \<open>The task classifier\<close>

datatype task_class =
    FailingTestDiagnosis | SmallBugFix | RegressionTestAddition | ArchitectureExplanation | DocUpdate
  | PrFeedbackResponse | CiDiagnosis | SafeRefactor | General

fun task_class_str :: "task_class \<Rightarrow> string" where
  "task_class_str FailingTestDiagnosis = ''failing-test-diagnosis''"
| "task_class_str SmallBugFix = ''small-bug-fix''"
| "task_class_str RegressionTestAddition = ''regression-test-addition''"
| "task_class_str ArchitectureExplanation = ''architecture-explanation''"
| "task_class_str DocUpdate = ''doc-update''"
| "task_class_str PrFeedbackResponse = ''pr-feedback-response''"
| "task_class_str CiDiagnosis = ''ci-diagnosis''"
| "task_class_str SafeRefactor = ''safe-refactor''"
| "task_class_str General = ''general''"

record task_signals =
  ts_mode :: string
  ts_node_kind :: string
  ts_input_tokens :: u64
  ts_keywords :: "string list"

text \<open>The characters of a string, each as its UTF-8 bytes: a leading byte and its continuation bytes.\<close>

fun utf8_chars :: "string \<Rightarrow> string list" where
  "utf8_chars [] = []"
| "utf8_chars (b # s) =
     (case utf8_chars s of
        [] \<Rightarrow> [[b]]
      | c # cs \<Rightarrow> if is_continuation (hd c) then (b # c) # cs else [b] # c # cs)"

text \<open>\<open>str::split(pred)\<close>: the pieces between the separating characters.\<close>

fun split_chars :: "(string \<Rightarrow> bool) \<Rightarrow> string list \<Rightarrow> string list" where
  "split_chars P [] = [[]]"
| "split_chars P (c # cs) =
     (if P c then [] # split_chars P cs
      else (case split_chars P cs of [] \<Rightarrow> [c] | p # ps \<Rightarrow> (c @ p) # ps))"

definition ascii_lower :: "char \<Rightarrow> char" where
  "ascii_lower c = (let n = of_char c :: nat in if 65 \<le> n \<and> n \<le> 90 then char_of (n + 32) else c)"

definition to_ascii_lowercase :: "string \<Rightarrow> string" where
  "to_ascii_lowercase s = map ascii_lower s"

definition from_objective :: "(string \<Rightarrow> bool) \<Rightarrow> string \<Rightarrow> string \<Rightarrow> u64 \<Rightarrow> string \<Rightarrow> task_signals" where
  "from_objective alnum mode node_kind input_tokens objective =
     \<lparr> ts_mode = mode, ts_node_kind = node_kind, ts_input_tokens = input_tokens,
       ts_keywords = map to_ascii_lowercase
         (filter (\<lambda>p. p \<noteq> []) (split_chars (\<lambda>c. \<not> alnum c) (utf8_chars objective))) \<rparr>"

definition has_kw :: "task_signals \<Rightarrow> string \<Rightarrow> bool" where
  "has_kw s kw \<longleftrightarrow> kw \<in> set (ts_keywords s)"

definition has_any :: "task_signals \<Rightarrow> string list \<Rightarrow> bool" where
  "has_any s kws \<longleftrightarrow> list_ex (has_kw s) kws"

definition classify_class :: "task_signals \<Rightarrow> task_class" where
  "classify_class s =
     (if (ts_node_kind s = ''github'' \<or> has_any s [''ci'', ''check'', ''workflow'', ''pipeline''])
         \<and> has_any s [''fail'', ''failing'', ''failed'', ''red'', ''broken'', ''repair''] then CiDiagnosis
      else if has_any s [''test'', ''tests'']
         \<and> has_any s [''fail'', ''failing'', ''failed'', ''diagnose'', ''flaky''] then FailingTestDiagnosis
      else if has_any s [''test'', ''tests'', ''regression'']
         \<and> has_any s [''add'', ''write'', ''cover'', ''new''] then RegressionTestAddition
      else if has_any s [''pr'', ''review'', ''comment'', ''feedback'', ''reviewer''] then PrFeedbackResponse
      else if has_any s [''doc'', ''docs'', ''documentation'', ''readme'', ''changelog'', ''comment'']
         \<or> ts_node_kind s = ''doc'' then DocUpdate
      else if has_any s [''explain'', ''architecture'', ''design'', ''overview'', ''how'']
         \<and> (ts_mode s = ''explore'' \<or> ts_mode s = ''review'' \<or> ts_mode s = []) then ArchitectureExplanation
      else if has_any s [''refactor'', ''rename'', ''extract'', ''cleanup'', ''tidy'', ''simplify''] then SafeRefactor
      else if has_any s [''fix'', ''bug'', ''patch'', ''repair''] then SmallBugFix
      else General)"

definition RULE_CLASSIFIER_VERSION :: string where
  "RULE_CLASSIFIER_VERSION = ''rules/1''"

record classification =
  cl_class :: task_class
  cl_version :: string

definition classify :: "task_signals \<Rightarrow> classification" where
  "classify s = \<lparr> cl_class = classify_class s, cl_version = RULE_CLASSIFIER_VERSION \<rparr>"

subsection \<open>Model profiles\<close>

type_synonym model_id = string

datatype model_location = Local | Hosted

record model_performance =
  pf_reliability :: f64
  pf_cost_per_1k_tokens_usd :: f64
  pf_latency_ms_p50 :: f64
  pf_task_class_success :: "f64 btree"
  pf_failure_patterns :: "string list"

definition predicted_success :: "model_performance \<Rightarrow> task_class \<Rightarrow> f64" where
  "predicted_success p cls =
     (case map_of (pf_task_class_success p) (task_class_str cls) of
        Some r \<Rightarrow> r | None \<Rightarrow> pf_reliability p)"

definition failure_probability :: "model_performance \<Rightarrow> task_class \<Rightarrow> f64" where
  "failure_probability p cls = f64_sub (F_Fin 1) (predicted_success p cls)"

datatype edit_protocol = StructuredPatch | WholeFile | ArchitectImplementer

fun edit_protocol_debug :: "edit_protocol \<Rightarrow> string" where
  "edit_protocol_debug StructuredPatch = ''StructuredPatch''"
| "edit_protocol_debug WholeFile = ''WholeFile''"
| "edit_protocol_debug ArchitectImplementer = ''ArchitectImplementer''"

datatype schema_repair_policy = SR_None | SR_Reprompt | SR_LocalRepair

record model_execution_profile =
  ep_preferred_tool_count :: u64
  ep_edit_protocol :: edit_protocol
  ep_context_layout :: string
  ep_reasoning_budget :: "u32 option"
  ep_schema_repair :: schema_repair_policy

definition default_execution :: model_execution_profile where
  "default_execution =
     \<lparr> ep_preferred_tool_count = 8, ep_edit_protocol = StructuredPatch,
       ep_context_layout = ''system-context-history'', ep_reasoning_budget = None,
       ep_schema_repair = SR_Reprompt \<rparr>"

record local_bench =
  lb_tokens_per_second :: f64
  lb_time_to_first_token_ms :: f64
  lb_warmup_ms :: f64
  lb_memory_mb :: u64
  lb_context_limit :: u64
  lb_structured_output_reliability :: f64
  lb_tool_call_accuracy :: f64
  lb_coding_eval_score :: f64

record model_profile =
  mp_id :: model_id
  mp_location :: model_location
  mp_capabilities :: model_capabilities
  mp_performance :: model_performance
  mp_execution :: model_execution_profile
  mp_bench :: "local_bench option"

definition is_local :: "model_profile \<Rightarrow> bool" where
  "is_local m \<longleftrightarrow> mp_location m = Local"

definition expected_cost_usd :: "model_profile \<Rightarrow> u64 \<Rightarrow> f64" where
  "expected_cost_usd m total_tokens =
     f64_mul (pf_cost_per_1k_tokens_usd (mp_performance m)) (f64_div_pos (f64_of_u64 total_tokens) 1000)"

subsection \<open>The routing policy\<close>

record lambdas =
  l_cost :: f64
  l_latency :: f64
  l_privacy :: f64
  l_failure :: f64

definition default_lambdas :: lambdas where
  "default_lambdas =
     \<lparr> l_cost = F_Fin 1, l_latency = f64_of_rat (5 / 100), l_privacy = F_Fin (1 / 2), l_failure = F_Fin (1 / 2) \<rparr>"

record routing_policy =
  rp_name :: string
  rp_version :: u32
  rp_lambdas :: lambdas
  rp_quality_threshold :: f64
  rp_escalation_chain :: "model_id list"
  rp_max_off_device :: data_classification

datatype policy_error =
    NonFiniteWeight string f64
  | NegativeWeight string f64
  | NonFiniteThreshold f64
  | ThresholdOutOfRange f64
  | DuplicateModelInChain model_id
  | UnknownOffDeviceCeiling

definition registry_key :: "routing_policy \<Rightarrow> string" where
  "registry_key p = ''router/'' @ rp_name p @ ''/'' @ dec (unat (rp_version p))"

definition hosted_allows :: "routing_policy \<Rightarrow> data_classification \<Rightarrow> bool" where
  "hosted_allows p cls \<longleftrightarrow>
     rp_max_off_device p \<noteq> Unknown \<and> cls \<noteq> Unknown \<and> allowed_off_device cls (rp_max_off_device p)"

definition check_weight :: "string \<times> f64 \<Rightarrow> policy_error + unit" where
  "check_weight fv = (case fv of (field, value) \<Rightarrow>
     if \<not> f64_is_finite value then Inl (NonFiniteWeight field value)
     else if f64_lt value (F_Fin 0) then Inl (NegativeWeight field value)
     else Inr ())"

fun check_chain :: "model_id set \<Rightarrow> model_id list \<Rightarrow> policy_error + unit" where
  "check_chain seen [] = Inr ()"
| "check_chain seen (m # ms) =
     (if m \<in> seen then Inl (DuplicateModelInChain m) else check_chain (insert m seen) ms)"

definition validate_policy :: "routing_policy \<Rightarrow> policy_error + unit" where
  "validate_policy p =
     (if rp_max_off_device p = Unknown then Inl UnknownOffDeviceCeiling
      else res_bind (for_each check_weight
             [(''cost'', l_cost (rp_lambdas p)), (''latency'', l_latency (rp_lambdas p)),
              (''privacy'', l_privacy (rp_lambdas p)), (''failure'', l_failure (rp_lambdas p))]) (\<lambda>_.
      let t = rp_quality_threshold p in
      if \<not> f64_is_finite t then Inl (NonFiniteThreshold t)
      else if \<not> (f64_ge t (F_Fin 0) \<and> f64_ge (F_Fin 1) t) then Inl (ThresholdOutOfRange t)
      else check_chain {} (rp_escalation_chain p)))"

text \<open>\<open>TryFrom<RoutingPolicyWire>\<close>: the wire shape has the policy's own fields.\<close>

definition policy_try_from :: "routing_policy \<Rightarrow> policy_error + routing_policy" where
  "policy_try_from wire = res_bind (validate_policy wire) (\<lambda>_. Inr wire)"

definition balanced :: routing_policy where
  "balanced =
     \<lparr> rp_name = ''balanced'', rp_version = 1, rp_lambdas = default_lambdas,
       rp_quality_threshold = f64_of_rat (7 / 10), rp_escalation_chain = [],
       rp_max_off_device = Confidential \<rparr>"

subsection \<open>The router\<close>

record task_node =
  tn_classification :: classification
  tn_required :: required_capabilities
  tn_data_classification :: data_classification
  tn_estimated_input_tokens :: u64
  tn_estimated_output_tokens :: u64

definition total_tokens :: "task_node \<Rightarrow> u64" where
  "total_tokens n = tn_estimated_input_tokens n + tn_estimated_output_tokens n"

definition node_class :: "task_node \<Rightarrow> task_class" where
  "node_class n = cl_class (tn_classification n)"

datatype selection_reason =
    HighestUtilityAboveThreshold | BestEffortBelowThreshold | Escalated
  | StaticStrongest | StaticCheapest | LocalFirst

record routing_decision =
  rd_model :: model_id
  rd_task_class :: task_class
  rd_classifier_version :: string
  rd_policy_key :: string
  rd_predicted_success :: f64
  rd_expected_cost_usd :: f64
  rd_expected_latency_ms :: f64
  rd_utility :: f64
  rd_reason :: selection_reason

record routing_transition =
  rt_from :: model_id
  rt_to :: model_id
  rt_reason :: string
  rt_context_transformation :: string
  rt_cost_impact_usd :: f64
  rt_artifacts_preserved :: "bool option"

datatype routing_error =
    NoEligibleModel string
  | EscalationExhausted model_id
  | NotInChain model_id

record router =
  ro_models :: "model_profile list"
  ro_policy :: routing_policy

definition predicted :: "task_node \<Rightarrow> model_profile \<Rightarrow> f64" where
  "predicted n m = predicted_success (mp_performance m) (node_class n)"

definition passes_classification :: "router \<Rightarrow> model_profile \<Rightarrow> task_node \<Rightarrow> bool" where
  "passes_classification r m n \<longleftrightarrow> is_local m \<or> hosted_allows (ro_policy r) (tn_data_classification n)"

definition find_model :: "router \<Rightarrow> model_id \<Rightarrow> model_profile option" where
  "find_model r i = find (\<lambda>m. mp_id m = i) (ro_models r)"

definition model_passes_classification :: "router \<Rightarrow> model_id \<Rightarrow> task_node \<Rightarrow> bool" where
  "model_passes_classification r i n =
     (case find_model r i of None \<Rightarrow> False | Some m \<Rightarrow> passes_classification r m n)"

definition is_eligible :: "router \<Rightarrow> task_node \<Rightarrow> model_profile \<Rightarrow> bool" where
  "is_eligible r n m =
     (let price = pf_cost_per_1k_tokens_usd (mp_performance m) in
      if \<not> passes_classification r m n then False
      else if \<not> f64_is_finite price \<or> f64_lt price (F_Fin 0)
              \<or> (\<not> is_local m \<and> f64_eq price (F_Fin 0)) then False
      else satisfies (mp_capabilities m)
             ((tn_required n)
                \<lparr> rq_min_context_tokens := max (rq_min_context_tokens (tn_required n)) (total_tokens n),
                  rq_min_output_tokens :=
                    max (rq_min_output_tokens (tn_required n)) (tn_estimated_output_tokens n) \<rparr>))"

definition eligible :: "router \<Rightarrow> task_node \<Rightarrow> model_profile list" where
  "eligible r n = filter (is_eligible r n) (ro_models r)"

definition privacy_risk :: "model_profile \<Rightarrow> task_node \<Rightarrow> f64" where
  "privacy_risk m n =
     (if is_local m then F_Fin 0
      else f64_div_pos (F_Fin (of_nat (rank (tn_data_classification n)))) (of_nat (rank Unknown)))"

definition utility :: "router \<Rightarrow> task_node \<Rightarrow> model_profile \<Rightarrow> f64" where
  "utility r n m =
     (let l = rp_lambdas (ro_policy r);
          cost = expected_cost_usd m (total_tokens n);
          latency_s = f64_div_pos (pf_latency_ms_p50 (mp_performance m)) 1000;
          privacy = privacy_risk m n;
          failure = failure_probability (mp_performance m) (node_class n)
      in f64_sub (f64_sub (f64_sub (f64_sub (predicted n m)
           (f64_mul (l_cost l) cost))
           (f64_mul (l_latency l) latency_s))
           (f64_mul (l_privacy l) privacy))
           (f64_mul (l_failure l) failure))"

definition cost_cmp :: "task_node \<Rightarrow> model_profile \<Rightarrow> model_profile \<Rightarrow> ordering" where
  "cost_cmp n a b =
     then_with (then_with
       (f64_cmp_or_equal (expected_cost_usd a (total_tokens n)) (expected_cost_usd b (total_tokens n)))
       (f64_cmp_or_equal (predicted n b) (predicted n a)))
       (lin_cmp (mp_id a) (mp_id b))"

definition cheapest :: "model_profile list \<Rightarrow> task_node \<Rightarrow> model_profile option" where
  "cheapest candidates n = min_by (cost_cmp n) candidates"

definition predicted_cmp :: "task_node \<Rightarrow> model_profile \<Rightarrow> model_profile \<Rightarrow> ordering" where
  "predicted_cmp n a b =
     then_with (f64_cmp_or_equal (predicted n a) (predicted n b)) (lin_cmp (mp_id b) (mp_id a))"

definition best_predicted :: "model_profile list \<Rightarrow> task_node \<Rightarrow> model_profile option" where
  "best_predicted candidates n = max_by (predicted_cmp n) candidates"

definition utility_cmp :: "router \<Rightarrow> task_node \<Rightarrow> model_profile \<Rightarrow> model_profile \<Rightarrow> ordering" where
  "utility_cmp r n a b =
     then_with (then_with
       (f64_cmp_or_equal (utility r n a) (utility r n b))
       (f64_cmp_or_equal (predicted n a) (predicted n b)))
       (lin_cmp (mp_id b) (mp_id a))"

definition best_utility :: "router \<Rightarrow> model_profile list \<Rightarrow> task_node \<Rightarrow> model_profile option" where
  "best_utility r candidates n = max_by (utility_cmp r n) candidates"

definition decide :: "router \<Rightarrow> model_profile \<Rightarrow> task_node \<Rightarrow> selection_reason \<Rightarrow> routing_decision" where
  "decide r m n reason =
     \<lparr> rd_model = mp_id m, rd_task_class = node_class n,
       rd_classifier_version = cl_version (tn_classification n),
       rd_policy_key = registry_key (ro_policy r),
       rd_predicted_success = predicted n m,
       rd_expected_cost_usd = expected_cost_usd m (total_tokens n),
       rd_expected_latency_ms = pf_latency_ms_p50 (mp_performance m),
       rd_utility = utility r n m,
       rd_reason = reason \<rparr>"

definition ineligibility_reason :: "router \<Rightarrow> task_node \<Rightarrow> string" where
  "ineligibility_reason r n =
     (if ro_models r = [] then ''no models are configured''
      else if \<not> hosted_allows (ro_policy r) (tn_data_classification n) \<and> \<not> list_ex is_local (ro_models r) then
        ''data classified '' @ classification_debug (tn_data_classification n)
          @ '' may not leave the device and no local model is available''
      else ''no model satisfies privacy, measured-price, capability, and size requirements'')"

definition above_threshold :: "router \<Rightarrow> task_node \<Rightarrow> model_profile \<Rightarrow> bool" where
  "above_threshold r n m \<longleftrightarrow> f64_ge (predicted n m) (rp_quality_threshold (ro_policy r))"

text \<open>The \<open>expect\<close> of the fallback cannot fail: \<open>eligible\<close> is non-empty there.\<close>

definition route :: "router \<Rightarrow> task_node \<Rightarrow> routing_error + routing_decision" where
  "route r n =
     (let el = eligible r n in
      if el = [] then Inl (NoEligibleModel (ineligibility_reason r n))
      else case best_utility r (filter (above_threshold r n) el) n of
          Some chosen \<Rightarrow> Inr (decide r chosen n HighestUtilityAboveThreshold)
        | None \<Rightarrow> Inr (decide r (the (best_utility r el n)) n BestEffortBelowThreshold))"

definition route_static_strongest :: "router \<Rightarrow> task_node \<Rightarrow> routing_error + routing_decision" where
  "route_static_strongest r n =
     res_bind (ok_or (NoEligibleModel (ineligibility_reason r n)) (best_predicted (eligible r n) n))
       (\<lambda>chosen. Inr (decide r chosen n StaticStrongest))"

definition route_static_cheap :: "router \<Rightarrow> task_node \<Rightarrow> routing_error + routing_decision" where
  "route_static_cheap r n =
     res_bind (ok_or (NoEligibleModel (ineligibility_reason r n)) (cheapest (eligible r n) n))
       (\<lambda>chosen. Inr (decide r chosen n StaticCheapest))"

definition route_local_first :: "router \<Rightarrow> task_node \<Rightarrow> routing_error + routing_decision" where
  "route_local_first r n =
     (case cheapest (filter (\<lambda>m. is_local m \<and> above_threshold r n m) (eligible r n)) n of
        Some chosen \<Rightarrow> Inr (decide r chosen n LocalFirst)
      | None \<Rightarrow> route r n)"

definition escalate ::
  "router \<Rightarrow> model_id \<Rightarrow> string \<Rightarrow> task_node \<Rightarrow> routing_error + routing_decision \<times> routing_transition" where
  "escalate r from why n =
     (let chain = rp_escalation_chain (ro_policy r) in
      res_bind (ok_or (NotInChain from) (rposition (\<lambda>m. m = from) chain)) (\<lambda>pos.
      res_bind (ok_or (EscalationExhausted from)
        (find (is_eligible r n) (List.map_filter (find_model r) (drop (pos + 1) chain)))) (\<lambda>next_model.
      let from_cost = (case find_model r from of
                         Some m \<Rightarrow> expected_cost_usd m (total_tokens n) | None \<Rightarrow> F_Fin 0);
          decision = decide r next_model n Escalated
      in Inr (decision\<lparr> rd_reason := Escalated \<rparr>,
              \<lparr> rt_from = from, rt_to = mp_id next_model, rt_reason = why,
                rt_context_transformation = ''re-laid-out for '' @ mp_id next_model @ '' (''
                  @ edit_protocol_debug (ep_edit_protocol (mp_execution next_model)) @ '')'',
                rt_cost_impact_usd = f64_sub (rd_expected_cost_usd decision) from_cost,
                rt_artifacts_preserved = None \<rparr>))))"

subsection \<open>Evaluation arms\<close>

datatype route_arm =
  Arm_StaticStrongest | Arm_StaticCheap | Arm_Router | Arm_RouterEscalation | Arm_LocalFirstRouter

fun arm_str :: "route_arm \<Rightarrow> string" where
  "arm_str Arm_StaticStrongest = ''static-strongest''"
| "arm_str Arm_StaticCheap = ''static-cheap''"
| "arm_str Arm_Router = ''router''"
| "arm_str Arm_RouterEscalation = ''router-escalation''"
| "arm_str Arm_LocalFirstRouter = ''local-first-router''"

fun select_arm :: "route_arm \<Rightarrow> router \<Rightarrow> task_node \<Rightarrow> routing_error + routing_decision" where
  "select_arm Arm_StaticStrongest r n = route_static_strongest r n"
| "select_arm Arm_StaticCheap r n = route_static_cheap r n"
| "select_arm Arm_Router r n = route r n"
| "select_arm Arm_RouterEscalation r n = route r n"
| "select_arm Arm_LocalFirstRouter r n = route_local_first r n"

definition escalates :: "route_arm \<Rightarrow> bool" where
  "escalates a \<longleftrightarrow> a = Arm_RouterEscalation"

record route_arm_result =
  ar_arm :: route_arm
  ar_task_success_rate :: "f64 option"
  ar_mean_cost_usd :: "f64 option"
  ar_mean_latency_ms :: "f64 option"
  ar_escalation_rate :: "f64 option"
  ar_tool_call_error_rate :: "f64 option"
  ar_unsafe_proposal_rate :: "f64 option"

record route_eval_report =
  er_results :: "route_arm_result list"
  er_quality_threshold :: f64

definition report_arm :: "route_eval_report \<Rightarrow> route_arm \<Rightarrow> route_arm_result option" where
  "report_arm rep a = find (\<lambda>x. ar_arm x = a) (er_results rep)"

definition meets_release_gate :: "route_eval_report \<Rightarrow> bool" where
  "meets_release_gate rep =
     (case (report_arm rep Arm_RouterEscalation, report_arm rep Arm_StaticStrongest) of
        (Some re, Some ss) \<Rightarrow>
          (case (ar_task_success_rate re, ar_mean_cost_usd re, ar_mean_cost_usd ss) of
             (Some success, Some re_cost, Some ss_cost) \<Rightarrow>
               f64_ge success (er_quality_threshold rep) \<and> f64_lt re_cost ss_cost
           | _ \<Rightarrow> False)
      | _ \<Rightarrow> False)"

subsection \<open>The classifier's rules\<close>

text \<open>
  The keyword \<open>comment\<close> of the documentation rule is never reached: the review rule before it has it.
  The bug-fix rule reads neither the mode nor the input size.
\<close>

lemma comment_is_not_doc_update: "has_kw s ''comment'' \<Longrightarrow> classify_class s \<noteq> DocUpdate"
  by (auto simp: classify_class_def has_any_def)

lemma classify_ignores_input_size: "classify_class (s\<lparr> ts_input_tokens := k \<rparr>) = classify_class s"
  by (simp add: classify_class_def has_any_def has_kw_def)

lemma task_class_str_inj: "task_class_str a = task_class_str b \<Longrightarrow> a = b"
  by (cases a; cases b) auto

subsection \<open>Ranges of the computed floats\<close>

fun weight_ok :: "f64 \<Rightarrow> bool" where
  "weight_ok (F_Fin q) = (0 \<le> q)"
| "weight_ok _ = False"

fun nonneg :: "f64 \<Rightarrow> bool" where
  "nonneg F_NaN = False"
| "nonneg (F_Inf neg) = (\<not> neg)"
| "nonneg (F_Fin q) = (0 \<le> q)"

fun at_most_1 :: "f64 \<Rightarrow> bool" where
  "at_most_1 F_NaN = False"
| "at_most_1 (F_Inf neg) = neg"
| "at_most_1 (F_Fin q) = (q \<le> 1)"

lemma round_half_even_le: "y \<le> of_int n \<Longrightarrow> round_half_even y \<le> n"
proof (cases "y = of_int n")
  case False
  assume "y \<le> of_int n"
  with False have "\<lfloor>y\<rfloor> < n" by (simp add: floor_less_iff)
  then show ?thesis by (simp add: round_half_even_def Let_def)
qed simp

lemma round_half_even_nonneg: "0 \<le> y \<Longrightarrow> 0 \<le> round_half_even y"
  by (auto simp: round_half_even_def Let_def)

lemma scaled_round_nonneg: "0 \<le> y \<Longrightarrow> 0 \<le> of_int (round_half_even (y / 2 powi e)) * (2 powi e :: rat)"
  by (simp add: round_half_even_nonneg)

lemma ilog2_le_0: "0 < x \<Longrightarrow> x \<le> 1 \<Longrightarrow> ilog2 x \<le> 0"
proof -
  assume x: "0 < x" "x \<le> 1"
  obtain a b where q: "quotient_of x = (a, b)" by fastforce
  have b: "0 < b" using quotient_of_denom_pos [OF q] .
  have "x = of_int a / of_int b" using quotient_of_div [OF q] .
  with x(2) b have "a \<le> b" by (simp add: divide_le_eq)
  then have "bitlen a \<le> bitlen b" by (simp add: bitlen_def floorlog_mono)
  then show ?thesis by (simp add: ilog2_def q Let_def)
qed

lemma f64_of_rat_le_1: "x \<le> 1 \<Longrightarrow> at_most_1 (f64_of_rat x)"
proof (cases "0 < x")
  case True
  assume "x \<le> 1"
  define e where "e = max (- 1074) (ilog2 x - 52)"
  have e: "e \<le> 0" using ilog2_le_0 [OF True \<open>x \<le> 1\<close>] by (simp add: e_def)
  then have pe: "(2 :: rat) powi e * 2 ^ nat (- e) = 1" by (cases "e = 0") (auto simp: power_int_def simp flip: power_mult_distrib)
  have "x / 2 powi e \<le> 1 / 2 powi e" using \<open>x \<le> 1\<close> by (simp add: divide_right_mono)
  also have "\<dots> = of_int (2 ^ nat (- e))" using pe by (simp add: field_simps)
  finally have "round_half_even (x / 2 powi e) \<le> 2 ^ nat (- e)" by (rule round_half_even_le)
  then have "(of_int (round_half_even (x / 2 powi e)) :: rat) \<le> of_int (2 ^ nat (- e))"
    by (simp only: of_int_le_iff)
  then have "of_int (round_half_even (x / 2 powi e)) * 2 powi e \<le> (of_int (2 ^ nat (- e)) * 2 powi e :: rat)"
    by (rule mult_right_mono) simp
  then have "of_int (round_half_even (x / 2 powi e)) * 2 powi e \<le> (1 :: rat)" using pe by (simp add: mult.commute)
  with True show ?thesis by (simp add: f64_of_rat_def Let_def e_def)
next
  case False
  have "- 1 \<le> of_int (round_half_even (- x / 2 powi e)) * (2 powi e :: rat)" for e
    by (rule order_trans [OF _ scaled_round_nonneg]) (use False in auto)
  from this [of "max (- 1074) (ilog2 (- x) - 52)"] False show ?thesis
    by (auto simp: f64_of_rat_def Let_def sgn_if)
qed

lemma f64_of_rat_nonneg: "0 \<le> x \<Longrightarrow> nonneg (f64_of_rat x)"
  by (auto simp: f64_of_rat_def Let_def sgn_if intro!: mult_nonneg_nonneg round_half_even_nonneg)

lemma f64_of_rat_unit: "0 \<le> x \<Longrightarrow> x \<le> 1 \<Longrightarrow> weight_ok (f64_of_rat x)"
  using f64_of_rat_le_1 [of x] f64_of_rat_nonneg [of x] by (cases "f64_of_rat x") auto

lemma mul_nonneg: "weight_ok a \<Longrightarrow> weight_ok b \<Longrightarrow> nonneg (f64_mul a b)"
  by (cases a; cases b) (auto intro: f64_of_rat_nonneg)

lemma sub_at_most_1: "at_most_1 a \<Longrightarrow> nonneg b \<Longrightarrow> at_most_1 (f64_sub a b)"
  by (cases a; cases b) (auto simp: f64_sub_def intro: f64_of_rat_le_1)

lemma at_most_1_not_nan: "at_most_1 a \<Longrightarrow> a \<noteq> F_NaN"
  by auto

lemma weight_ok_iff: "weight_ok v \<longleftrightarrow> f64_is_finite v \<and> \<not> f64_lt v (F_Fin 0)"
  by (cases v) (auto simp: f64_lt_def)

subsection \<open>Policies\<close>

lemma hosted_allows_iff:
  "hosted_allows p cls \<longleftrightarrow> cls \<noteq> Unknown \<and> rp_max_off_device p \<noteq> Unknown \<and> cls \<le> rp_max_off_device p"
  by (auto simp: hosted_allows_def allowed_off_device_def less_eq_data_classification_def)

lemma check_weight_ok: "check_weight (f, v) = Inr () \<longleftrightarrow> weight_ok v"
  by (simp add: check_weight_def weight_ok_iff)

lemma check_chain_ok: "check_chain seen ms = Inr () \<longleftrightarrow> distinct ms \<and> set ms \<inter> seen = {}"
  by (induction ms arbitrary: seen) auto

definition policy_ok :: "routing_policy \<Rightarrow> bool" where
  "policy_ok p \<longleftrightarrow>
     rp_max_off_device p \<noteq> Unknown
     \<and> weight_ok (l_cost (rp_lambdas p)) \<and> weight_ok (l_latency (rp_lambdas p))
     \<and> weight_ok (l_privacy (rp_lambdas p)) \<and> weight_ok (l_failure (rp_lambdas p))
     \<and> (case rp_quality_threshold p of F_Fin q \<Rightarrow> 0 \<le> q \<and> q \<le> 1 | _ \<Rightarrow> False)
     \<and> distinct (rp_escalation_chain p)"

lemma validate_policy_ok: "validate_policy p = Inr () \<longleftrightarrow> policy_ok p"
  by (cases "rp_quality_threshold p")
    (auto simp: validate_policy_def policy_ok_def res_bind_Inr_iff for_each_Inr_iff check_weight_ok
      check_chain_ok Let_def f64_ge_def simp del: for_each.simps)

text \<open>
  C33: A deserialized policy is well formed: the wire data is accepted, unchanged, exactly when the
  off-device ceiling is a known classification, all four weights are finite and not negative, the
  quality threshold is a number of [0, 1], and the escalation chain lists no model twice.
\<close>

theorem policy_try_from_iff:
  "policy_try_from wire = Inr p \<longleftrightarrow> p = wire \<and> policy_ok wire"
  by (auto simp: policy_try_from_def res_bind_Inr_iff simp flip: validate_policy_ok)

subsection \<open>Hard filters\<close>

definition fits :: "model_profile \<Rightarrow> task_node \<Rightarrow> bool" where
  "fits m n \<longleftrightarrow>
     (case mc_context_tokens (mp_capabilities m) of None \<Rightarrow> True
      | Some ctx \<Rightarrow> unat (tn_estimated_input_tokens n) + unat (tn_estimated_output_tokens n) \<le> unat ctx)
     \<and> (case mc_output_tokens (mp_capabilities m) of None \<Rightarrow> True
        | Some out \<Rightarrow> tn_estimated_output_tokens n \<le> out)"

lemma satisfies_mono:
  assumes "satisfies c (q\<lparr> rq_min_context_tokens := x, rq_min_output_tokens := y \<rparr>)"
    "rq_min_context_tokens q \<le> x" "rq_min_output_tokens q \<le> y"
  shows "satisfies c q"
  using assms by (auto simp: satisfies_def split: if_splits option.splits)

lemma satisfies_limits:
  assumes "satisfies c q"
  shows "mc_context_tokens c = Some ctx \<Longrightarrow> rq_min_context_tokens q \<le> ctx"
    and "mc_output_tokens c = Some out \<Longrightarrow> rq_min_output_tokens q \<le> out"
  using assms by (auto simp: satisfies_def split: if_splits)

lemma eligibleD:
  assumes "is_eligible r n m"
  shows "passes_classification r m n"
    and "weight_ok (pf_cost_per_1k_tokens_usd (mp_performance m))"
    and "satisfies (mp_capabilities m) (tn_required n)"
proof -
  show "passes_classification r m n"
    and "weight_ok (pf_cost_per_1k_tokens_usd (mp_performance m))"
    using assms by (auto simp: is_eligible_def Let_def weight_ok_iff split: if_splits)
  have "satisfies (mp_capabilities m) ((tn_required n)
          \<lparr> rq_min_context_tokens := max (rq_min_context_tokens (tn_required n)) (total_tokens n),
            rq_min_output_tokens := max (rq_min_output_tokens (tn_required n)) (tn_estimated_output_tokens n) \<rparr>)"
    using assms by (auto simp: is_eligible_def Let_def split: if_splits)
  then show "satisfies (mp_capabilities m) (tn_required n)" by (rule satisfies_mono) simp_all
qed

lemma eligible_priced:
  "is_eligible r n m \<Longrightarrow> is_local m \<or> f64_pos (pf_cost_per_1k_tokens_usd (mp_performance m))"
  by (cases "pf_cost_per_1k_tokens_usd (mp_performance m)")
    (auto simp: is_eligible_def Let_def f64_lt_def f64_eq_def split: if_splits)

lemma eligible_fits:
  assumes "is_eligible r n m"
    "unat (tn_estimated_input_tokens n) + unat (tn_estimated_output_tokens n) < 2 ^ 64"
  shows "fits m n"
proof -
  have s: "satisfies (mp_capabilities m) ((tn_required n)
          \<lparr> rq_min_context_tokens := max (rq_min_context_tokens (tn_required n)) (total_tokens n),
            rq_min_output_tokens := max (rq_min_output_tokens (tn_required n)) (tn_estimated_output_tokens n) \<rparr>)"
    using assms(1) by (auto simp: is_eligible_def Let_def split: if_splits)
  have "unat (total_tokens n) = unat (tn_estimated_input_tokens n) + unat (tn_estimated_output_tokens n)"
    using assms(2) by (simp add: total_tokens_def unat_word_ariths)
  moreover have "total_tokens n \<le> ctx" if "mc_context_tokens (mp_capabilities m) = Some ctx" for ctx
    using satisfies_limits(1) [OF s that] by simp
  moreover have "tn_estimated_output_tokens n \<le> out" if "mc_output_tokens (mp_capabilities m) = Some out" for out
    using satisfies_limits(2) [OF s that] by simp
  ultimately show ?thesis by (auto simp: fits_def word_le_nat_alt split: option.splits)
qed

lemma chosen_eligible:
  assumes "select_arm a r n = Inr d"
  shows "\<exists>m \<in> set (eligible r n). d = decide r m n (rd_reason d)"
proof -
  have util: "\<exists>m \<in> set (eligible r n). d = decide r m n (rd_reason d)" if "route r n = Inr d"
  proof (cases "best_utility r (filter (above_threshold r n) (eligible r n)) n")
    case None
    with that have ne: "eligible r n \<noteq> []" and d: "d = decide r (the (best_utility r (eligible r n) n)) n BestEffortBelowThreshold"
      by (auto simp: route_def Let_def split: if_splits)
    from ne obtain m where m: "best_utility r (eligible r n) n = Some m"
      by (cases "eligible r n") (auto simp: best_utility_def)
    then have "m \<in> set (eligible r n)" by (auto simp: best_utility_def dest: max_by_in)
    with m d show ?thesis by (auto simp: decide_def)
  next
    case (Some m)
    with that have "d = decide r m n HighestUtilityAboveThreshold"
      by (auto simp: route_def Let_def split: if_splits)
    moreover have "m \<in> set (eligible r n)" using Some by (auto simp: best_utility_def dest: max_by_in)
    ultimately show ?thesis by (auto simp: decide_def)
  qed
  show ?thesis
  proof (cases a)
    case Arm_LocalFirstRouter
    with assms util show ?thesis
      by (auto simp: route_local_first_def cheapest_def decide_def split: option.splits dest!: min_by_in)
  qed (use assms util in \<open>auto simp: route_static_strongest_def route_static_cheap_def best_predicted_def
        cheapest_def decide_def res_bind_Inr_iff dest!: max_by_in min_by_in\<close>)
qed

lemma map_filter_in: "x \<in> set (List.map_filter f xs) \<longleftrightarrow> (\<exists>y \<in> set xs. f y = Some x)"
  by (induction xs) (auto simp: List.map_filter_simps split: option.splits)

lemma find_modelD: "find_model r i = Some m \<Longrightarrow> m \<in> set (ro_models r) \<and> mp_id m = i"
  by (auto simp: find_model_def dest: find_Some_D)

lemma escalate_target:
  assumes "escalate r from why n = Inr (d, t)"
  shows "\<exists>pos m. rposition (\<lambda>m. m = from) (rp_escalation_chain (ro_policy r)) = Some pos
    \<and> m \<in> set (eligible r n) \<and> d = decide r m n Escalated \<and> rt_to t = mp_id m
    \<and> mp_id m \<in> set (drop (pos + 1) (rp_escalation_chain (ro_policy r)))"
proof -
  from assms obtain pos m where pos: "rposition (\<lambda>m. m = from) (rp_escalation_chain (ro_policy r)) = Some pos"
    and m: "find (is_eligible r n) (List.map_filter (find_model r) (drop (pos + 1) (rp_escalation_chain (ro_policy r)))) = Some m"
    and d: "d = decide r m n Escalated" and t: "rt_to t = mp_id m"
    unfolding escalate_def by (auto simp: Let_def res_bind_Inr_iff decide_def simp del: One_nat_def)
  from find_Some_D [OF m] obtain i where "is_eligible r n m" "find_model r i = Some m"
    "i \<in> set (drop (pos + 1) (rp_escalation_chain (ro_policy r)))" by (auto simp: map_filter_in)
  moreover from find_modelD [OF this(2)] have "m \<in> set (ro_models r)" "mp_id m = i" by simp_all
  ultimately show ?thesis using pos d t by (auto simp: eligible_def)
qed

lemma escalate_advances:
  assumes "escalate r from why n = Inr (d, t)"
  shows "\<exists>i j. rposition (\<lambda>m. m = from) (rp_escalation_chain (ro_policy r)) = Some i
    \<and> rposition (\<lambda>m. m = rd_model d) (rp_escalation_chain (ro_policy r)) = Some j \<and> i < j"
proof -
  let ?chain = "rp_escalation_chain (ro_policy r)"
  from escalate_target [OF assms] obtain i where i: "rposition (\<lambda>m. m = from) ?chain = Some i"
    and d: "rd_model d \<in> set (drop (i + 1) ?chain)" by (auto simp: decide_def)
  from d obtain k where k: "i < k" "k < length ?chain" "?chain ! k = rd_model d"
    by (auto simp: in_set_conv_nth) (metis add_Suc_right add_Suc_shift less_add_Suc1 less_diff_conv add.commute)
  then obtain j where j: "rposition (\<lambda>m. m = rd_model d) ?chain = Some j"
    by (metis (mono_tags, lifting) nth_mem option.exhaust rposition_None)
  have "k \<le> j" using rposition_last [OF j, of k] k by (meson linorder_not_le)
  with i j k(1) show ?thesis by auto
qed

text \<open>A sequence of successful escalations: each model was escalated to from the one before it.\<close>

fun escalated_run :: "router \<Rightarrow> task_node \<Rightarrow> model_id list \<Rightarrow> bool" where
  "escalated_run r n (m # m' # ms) =
     ((\<exists>why d t. escalate r m why n = Inr (d, t) \<and> rd_model d = m') \<and> escalated_run r n (m' # ms))"
| "escalated_run r n _ = True"

lemma escalated_run_positions:
  assumes "escalated_run r n (m # ms)" "ms \<noteq> []"
  shows "\<exists>is. map Some is = map (\<lambda>x. rposition (\<lambda>m. m = x) (rp_escalation_chain (ro_policy r))) (m # ms)
    \<and> sorted_wrt (<) is"
  using assms
proof (induction ms arbitrary: m)
  case (Cons m' ms)
  note run = Cons.prems and IH = Cons.IH
  from run obtain why d t where e: "escalate r m why n = Inr (d, t)" "rd_model d = m'" by auto
  from escalate_advances [OF e(1)] e(2) obtain i j where
    ij: "rposition (\<lambda>x. x = m) (rp_escalation_chain (ro_policy r)) = Some i"
    "rposition (\<lambda>x. x = m') (rp_escalation_chain (ro_policy r)) = Some j" "i < j" by auto
  show ?case
  proof (cases ms)
    case Nil
    with ij show ?thesis by (intro exI [of _ "[i, j]"]) simp
  next
    case (Cons m'' ms')
    have "escalated_run r n (m' # ms)" using run by simp
    from IH [OF this] Cons obtain js where
      js: "map Some js = map (\<lambda>x. rposition (\<lambda>m. m = x) (rp_escalation_chain (ro_policy r))) (m' # ms)"
      "sorted_wrt (<) js" by blast
    then obtain js' where "js = j # js'" using ij(2) by (cases js) auto
    with js ij show ?thesis by (intro exI [of _ "i # js"]) (auto simp: ij(1))
  qed
qed simp

lemma escalated_run_bound:
  assumes "escalated_run r n ms"
  shows "distinct ms \<and> length ms \<le> max 1 (length (rp_escalation_chain (ro_policy r)))"
proof (cases ms)
  case (Cons m ms')
  show ?thesis
  proof (cases "ms' = []")
    case False
    let ?chain = "rp_escalation_chain (ro_policy r)"
    obtain "is" where eq: "map Some is = map (\<lambda>x. rposition (\<lambda>m. m = x) ?chain) ms"
      and sorted: "sorted_wrt (<) is"
      using escalated_run_positions [OF assms [unfolded Cons] False] unfolding Cons by blast
    have d: "distinct is" using sorted by (simp add: strict_sorted_iff)
    have "set is \<subseteq> {..<length ?chain}"
    proof
      fix i assume "i \<in> set is"
      then have "Some i \<in> set (map (\<lambda>x. rposition (\<lambda>m. m = x) ?chain) ms)" by (simp flip: eq)
      then obtain x where "rposition (\<lambda>m. m = x) ?chain = Some i" by auto
      then show "i \<in> {..<length ?chain}" by (simp add: rposition_Some)
    qed
    then have "card (set is) \<le> length ?chain" using card_mono [of "{..<length ?chain}"] by fastforce
    moreover have "length is = length ms" using eq by (metis length_map)
    ultimately have "length ms \<le> length ?chain" using distinct_card [OF d] by simp
    moreover have "distinct (map Some is)" using d by (simp add: distinct_map)
    then have "distinct ms" unfolding eq by (simp add: distinct_map)
    ultimately show ?thesis by simp
  qed (simp add: Cons)
qed simp

subsection \<open>Choices\<close>

text \<open>The numbers of a measured model: a success rate of [0, 1], a finite latency and a finite cost.\<close>

definition well_measured :: "task_node \<Rightarrow> model_profile \<Rightarrow> bool" where
  "well_measured n m \<longleftrightarrow>
     weight_ok (predicted n m) \<and> at_most_1 (predicted n m)
     \<and> weight_ok (f64_div_pos (pf_latency_ms_p50 (mp_performance m)) 1000)
     \<and> f64_is_finite (expected_cost_usd m (total_tokens n))"

lemma expected_cost_nonneg:
  assumes "is_eligible r n m" "f64_is_finite (expected_cost_usd m (total_tokens n))"
  shows "weight_ok (expected_cost_usd m (total_tokens n))"
proof -
  let ?t = "f64_div_pos (f64_of_u64 (total_tokens n)) 1000"
  have "nonneg (f64_of_u64 (total_tokens n))"
    unfolding f64_of_u64_def by (rule f64_of_rat_nonneg) (rule of_nat_0_le_iff)
  then have t: "nonneg ?t"
    by (cases "f64_of_u64 (total_tokens n)") (auto intro!: f64_of_rat_nonneg)
  have price: "weight_ok (pf_cost_per_1k_tokens_usd (mp_performance m))" by (rule eligibleD(2) [OF assms(1)])
  show ?thesis
  proof (cases ?t)
    case (F_Fin q)
    with t price mul_nonneg [of "pf_cost_per_1k_tokens_usd (mp_performance m)" ?t]
    have "nonneg (expected_cost_usd m (total_tokens n))" by (simp add: expected_cost_usd_def)
    with assms(2) show ?thesis by (cases "expected_cost_usd m (total_tokens n)") auto
  qed (use t price assms(2) in \<open>cases "pf_cost_per_1k_tokens_usd (mp_performance m)";
        auto simp: expected_cost_usd_def split: if_splits\<close>)+
qed

lemma privacy_risk_ok: "weight_ok (privacy_risk m n)"
  by (cases "tn_data_classification n") (auto simp: privacy_risk_def intro!: f64_of_rat_unit)

lemma failure_probability_ok:
  "weight_ok (predicted n m) \<Longrightarrow> at_most_1 (predicted n m)
    \<Longrightarrow> weight_ok (failure_probability (mp_performance m) (node_class n))"
  by (cases "predicted n m")
    (auto simp: failure_probability_def f64_sub_def predicted_def intro!: f64_of_rat_unit)

lemma utility_in_range:
  assumes "policy_ok (ro_policy r)" "is_eligible r n m" "well_measured n m"
  shows "at_most_1 (utility r n m)"
proof -
  note w = assms(1) [unfolded policy_ok_def] and mm = assms(3) [unfolded well_measured_def]
  have "weight_ok (expected_cost_usd m (total_tokens n))" using expected_cost_nonneg assms(2) mm by blast
  then show ?thesis
    unfolding utility_def Let_def
    by (intro sub_at_most_1 mul_nonneg privacy_risk_ok failure_probability_ok) (use w mm in auto)
qed

text \<open>Each comparison of the router keeps its contract on the models whose numbers are no NaN.\<close>

lemma model_id_order: "preorder_cmp (\<lambda>a b. lin_cmp (mp_id a) (mp_id b)) S"
  by (rule preorder_cmp_image [OF lin_cmp_preorder]) simp

lemma float_order: "\<forall>a \<in> S. f a \<noteq> F_NaN \<Longrightarrow> preorder_cmp (\<lambda>a b. f64_cmp_or_equal (f a) (f b)) S"
  by (rule preorder_cmp_image [OF f64_cmp_preorder]) auto

lemma then_with_Equal: "then_with a b = Equal \<longleftrightarrow> a = Equal \<and> b = Equal"
  by (simp add: then_with_def)

interpretation utility_order: keyed_cmp "utility_cmp r n" "{m. utility r n m \<noteq> F_NaN \<and> predicted n m \<noteq> F_NaN}" mp_id
  for r n
proof (rule keyed_cmp.intro)
  show "preorder_cmp (utility_cmp r n) {m. utility r n m \<noteq> F_NaN \<and> predicted n m \<noteq> F_NaN}"
    unfolding utility_cmp_def [abs_def]
    by (intro preorder_cmp_then float_order preorder_cmp_converse [OF model_id_order]) auto
qed (unfold_locales, simp add: utility_cmp_def then_with_Equal)

interpretation cost_order: keyed_cmp "cost_cmp n" "{m. expected_cost_usd m (total_tokens n) \<noteq> F_NaN \<and> predicted n m \<noteq> F_NaN}" mp_id
  for n
proof (rule keyed_cmp.intro)
  show "preorder_cmp (cost_cmp n) {m. expected_cost_usd m (total_tokens n) \<noteq> F_NaN \<and> predicted n m \<noteq> F_NaN}"
    unfolding cost_cmp_def [abs_def]
    by (intro preorder_cmp_then float_order preorder_cmp_converse [OF float_order] model_id_order) auto
qed (unfold_locales, simp add: cost_cmp_def then_with_Equal)

interpretation predicted_order: keyed_cmp "predicted_cmp n" "{m. predicted n m \<noteq> F_NaN}" mp_id
  for n
proof (rule keyed_cmp.intro)
  show "preorder_cmp (predicted_cmp n) {m. predicted n m \<noteq> F_NaN}"
    unfolding predicted_cmp_def [abs_def]
    by (intro preorder_cmp_then float_order preorder_cmp_converse [OF model_id_order]) auto
qed (unfold_locales, simp add: predicted_cmp_def then_with_Equal)

lemma measured_order_sets:
  assumes "policy_ok (ro_policy r)" "\<forall>m \<in> set (eligible r n). well_measured n m"
  shows "set (eligible r n) \<subseteq> {m. utility r n m \<noteq> F_NaN \<and> predicted n m \<noteq> F_NaN}"
    and "set (eligible r n) \<subseteq> {m. expected_cost_usd m (total_tokens n) \<noteq> F_NaN \<and> predicted n m \<noteq> F_NaN}"
    and "set (eligible r n) \<subseteq> {m. predicted n m \<noteq> F_NaN}"
proof -
  have "at_most_1 (utility r n m) \<and> well_measured n m" if "m \<in> set (eligible r n)" for m
    using assms that utility_in_range [of r n m] by (simp add: eligible_def)
  then have "utility r n m \<noteq> F_NaN" "predicted n m \<noteq> F_NaN" "expected_cost_usd m (total_tokens n) \<noteq> F_NaN"
    if "m \<in> set (eligible r n)" for m
    using that by (force simp: well_measured_def)+
  then show "set (eligible r n) \<subseteq> {m. utility r n m \<noteq> F_NaN \<and> predicted n m \<noteq> F_NaN}"
    and "set (eligible r n) \<subseteq> {m. expected_cost_usd m (total_tokens n) \<noteq> F_NaN \<and> predicted n m \<noteq> F_NaN}"
    and "set (eligible r n) \<subseteq> {m. predicted n m \<noteq> F_NaN}"
    by blast+
qed

lemma best_utility_greatest:
  assumes "policy_ok (ro_policy r)" "\<forall>m \<in> set (eligible r n). well_measured n m"
    "set ms \<subseteq> set (eligible r n)" "best_utility r ms n = Some m"
  shows "m \<in> set ms \<and> (\<forall>m' \<in> set ms. f64_ge (utility r n m) (utility r n m'))"
proof -
  have ok: "set ms \<subseteq> {m. utility r n m \<noteq> F_NaN \<and> predicted n m \<noteq> F_NaN}"
    using measured_order_sets(1) [OF assms(1,2)] assms(3) by blast
  from utility_order.max_by_greatest [OF this assms(4) [unfolded best_utility_def]]
  have best: "m \<in> set ms" "\<And>m'. m' \<in> set ms \<Longrightarrow> utility_cmp r n m' m \<noteq> Greater" by blast+
  have "f64_ge (utility r n m) (utility r n m')" if "m' \<in> set ms" for m'
  proof -
    have "f64_cmp_or_equal (utility r n m') (utility r n m) \<noteq> Greater"
      using best(2) [OF that] by (simp add: utility_cmp_def then_with_def split: if_splits)
    with ok that best(1) show ?thesis by (subst f64_le_cmp) blast+
  qed
  with best(1) show ?thesis by blast
qed

text \<open>
  C30: The router never relaxes a hard filter. Whatever arm selects the model, and whatever escalation
  advances to, the model named in the decision is a registered profile that runs on the device or may
  be sent the node's data (both the data and the policy's ceiling have a known classification and the
  data is not above the ceiling), has a finite price that is positive when it is hosted, has the
  capabilities the node requires, and declares no window too small for the node's input and output
  together. The node's two token estimates must add up within 64 bits: the code adds them unchecked.
\<close>

theorem routed_model_eligible:
  assumes "select_arm a r n = Inr d \<or> escalate r from why n = Inr (d, t)"
    and "unat (tn_estimated_input_tokens n) + unat (tn_estimated_output_tokens n) < 2 ^ 64"
  shows "\<exists>m \<in> set (ro_models r). mp_id m = rd_model d
    \<and> (is_local m
       \<or> tn_data_classification n \<noteq> Unknown \<and> rp_max_off_device (ro_policy r) \<noteq> Unknown
         \<and> tn_data_classification n \<le> rp_max_off_device (ro_policy r)
         \<and> f64_pos (pf_cost_per_1k_tokens_usd (mp_performance m)))
    \<and> weight_ok (pf_cost_per_1k_tokens_usd (mp_performance m))
    \<and> satisfies (mp_capabilities m) (tn_required n) \<and> fits m n"
proof -
  have "\<exists>m \<in> set (eligible r n). mp_id m = rd_model d"
    using assms(1)
  proof
    assume "select_arm a r n = Inr d"
    from chosen_eligible [OF this] obtain m where "m \<in> set (eligible r n)" "d = decide r m n (rd_reason d)" ..
    then show ?thesis by (metis decide_def routing_decision.select_convs(1))
  next
    assume "escalate r from why n = Inr (d, t)"
    from escalate_target [OF this] show ?thesis by (auto simp: decide_def)
  qed
  then obtain m where m: "m \<in> set (ro_models r)" "is_eligible r n m" "mp_id m = rd_model d"
    by (auto simp: eligible_def)
  have "is_local m \<or> hosted_allows (ro_policy r) (tn_data_classification n)"
    using eligibleD(1) [OF m(2)] by (simp add: passes_classification_def)
  with m eligibleD(2,3) [OF m(2)] eligible_priced [OF m(2)] eligible_fits [OF m(2) assms(2)]
  show ?thesis unfolding hosted_allows_iff by blast
qed

text \<open>
  C32: The route is optimal above the threshold. Under a validated policy and measured models, when some eligible model reaches
  the quality threshold, the decision is the record of an eligible model that reaches it and whose utility is no less than that
  of any other eligible model that does, and it says so.
\<close>

theorem route_optimal:
  assumes "policy_ok (ro_policy r)" "\<forall>m \<in> set (eligible r n). well_measured n m" "route r n = Inr d"
    and "\<exists>m' \<in> set (eligible r n). above_threshold r n m'"
  shows "\<exists>m \<in> set (eligible r n). d = decide r m n HighestUtilityAboveThreshold \<and> above_threshold r n m
    \<and> (\<forall>m' \<in> set (eligible r n). above_threshold r n m' \<longrightarrow> f64_ge (utility r n m) (utility r n m'))"
proof -
  obtain m where m: "best_utility r (filter (above_threshold r n) (eligible r n)) n = Some m"
    using assms(4) by (cases "best_utility r (filter (above_threshold r n) (eligible r n)) n")
      (auto simp: best_utility_def max_by_None_iff filter_empty_conv)
  with assms(3) have d: "d = decide r m n HighestUtilityAboveThreshold" by (auto simp: route_def Let_def split: if_splits)
  have "m \<in> set (filter (above_threshold r n) (eligible r n))"
    "\<forall>m' \<in> set (filter (above_threshold r n) (eligible r n)). f64_ge (utility r n m) (utility r n m')"
    using best_utility_greatest [OF assms(1,2) _ m] by auto
  with d show ?thesis by auto
qed

text \<open>
  Below the threshold the documentation of \<open>BestEffortBelowThreshold\<close> promises the best-predicted eligible model; the code
  takes the eligible model of greatest utility.
\<close>

lemma best_effort_by_utility:
  assumes "policy_ok (ro_policy r)" "\<forall>m \<in> set (eligible r n). well_measured n m" "route r n = Inr d"
    and none: "\<not> (\<exists>m' \<in> set (eligible r n). above_threshold r n m')"
  shows "\<exists>m \<in> set (eligible r n). d = decide r m n BestEffortBelowThreshold
    \<and> (\<forall>m' \<in> set (eligible r n). f64_ge (utility r n m) (utility r n m'))"
proof -
  have "best_utility r (filter (above_threshold r n) (eligible r n)) n = None"
    using none by (auto simp: best_utility_def max_by_None_iff filter_empty_conv)
  with assms(3) have ne: "eligible r n \<noteq> []"
    and d: "d = decide r (the (best_utility r (eligible r n) n)) n BestEffortBelowThreshold"
    by (auto simp: route_def Let_def split: if_splits)
  from ne obtain m where m: "best_utility r (eligible r n) n = Some m"
    by (cases "eligible r n") (auto simp: best_utility_def)
  from best_utility_greatest [OF assms(1,2) subset_refl m] m d show ?thesis by (intro bexI [of _ m]) simp_all
qed

text \<open>
  The choice does not depend on the order in which the profiles are registered: with distinct model
  ids, a validated policy and measured models, every arm makes the same decision, or reports the same
  refusal, on any reordering of the registry.
\<close>

theorem arms_order_independent:
  assumes "policy_ok (ro_policy r)" "\<forall>m \<in> set (eligible r n). well_measured n m"
    and "distinct (map mp_id (ro_models r))" "set ms = set (ro_models r)"
  shows "select_arm a (r\<lparr> ro_models := ms \<rparr>) n = select_arm a r n"
proof -
  let ?r = "r\<lparr> ro_models := ms \<rparr>"
  have elig: "is_eligible ?r n = is_eligible r n" and thr: "above_threshold ?r n = above_threshold r n"
    and util: "utility ?r n = utility r n" and dec: "decide ?r = decide r"
    by (auto simp: fun_eq_iff is_eligible_def passes_classification_def above_threshold_def utility_def decide_def Let_def)
  have sets: "set (filter P (eligible ?r n)) = set (filter P (eligible r n))" for P
    using assms(4) by (simp add: eligible_def elig)
  have inj: "inj_on mp_id (set (filter P (eligible r n)))" for P
    using assms(3) by (auto simp: distinct_map eligible_def intro: inj_on_subset)
  note ord = measured_order_sets [OF assms(1,2)]
  have bu: "best_utility ?r (filter P (eligible ?r n)) n = best_utility r (filter P (eligible r n)) n" for P
    using utility_order.max_by_order_independent [OF _ sets inj, of P r n] ord(1)
    by (auto simp: best_utility_def utility_cmp_def [abs_def] util)
  have ch: "cheapest (filter P (eligible ?r n)) n = cheapest (filter P (eligible r n)) n" for P
    using cost_order.min_by_order_independent [OF _ sets inj, of P n] ord(2) by (auto simp: cheapest_def)
  have bp: "best_predicted (filter P (eligible ?r n)) n = best_predicted (filter P (eligible r n)) n" for P
    using predicted_order.max_by_order_independent [OF _ sets inj, of P n] ord(3) by (auto simp: best_predicted_def)
  have empty: "eligible ?r n = [] \<longleftrightarrow> eligible r n = []"
    using sets [of "\<lambda>_. True"] by (metis filter_True set_empty)
  have reason: "ineligibility_reason ?r n = ineligibility_reason r n"
    using assms(4) by (auto simp: ineligibility_reason_def list_ex_iff)
  have route: "route ?r n = route r n"
    using bu [of "\<lambda>_. True"] by (simp add: route_def Let_def empty reason thr bu dec cong: option.case_cong)
  show ?thesis
    using ch [of "\<lambda>_. True"] bp [of "\<lambda>_. True"]
    by (cases a) (simp_all add: route route_static_strongest_def route_static_cheap_def
        route_local_first_def reason dec thr ch cong: option.case_cong)
qed

text \<open>
  Escalation terminates. However often it is repeated, for whatever reasons, on whatever chain
  (even one that lists a model twice), a run of successful escalations never returns to a model it
  has left, and visits no more models than the chain has entries.
\<close>

lemma escalation_terminates:
  "escalated_run r n ms \<Longrightarrow> distinct ms \<and> length ms \<le> max 1 (length (rp_escalation_chain (ro_policy r)))"
  by (rule escalated_run_bound)

subsection \<open>An example\<close>

text \<open>A local and a hosted model under the default policy, and a task of internal data.\<close>

definition example_caps :: model_capabilities where
  "example_caps = \<lparr> mc_streaming = True, mc_tools = TC_Parallel, mc_parallel_tools = True,
     mc_structured_output = SO_Strict, mc_vision = False, mc_audio_input = False, mc_embeddings = False,
     mc_prompt_caching = True, mc_reasoning_controls = False, mc_context_tokens = Some 200000,
     mc_output_tokens = Some 8192 \<rparr>"

definition example_model :: "model_id \<Rightarrow> model_location \<Rightarrow> rat \<Rightarrow> rat \<Rightarrow> model_profile" where
  "example_model i loc success price = \<lparr> mp_id = i, mp_location = loc, mp_capabilities = example_caps,
     mp_performance = \<lparr> pf_reliability = F_Fin success, pf_cost_per_1k_tokens_usd = F_Fin price,
       pf_latency_ms_p50 = F_Fin 500, pf_task_class_success = [], pf_failure_patterns = [] \<rparr>,
     mp_execution = default_execution, mp_bench = None \<rparr>"

definition example_router :: router where
  "example_router = \<lparr> ro_models = [example_model ''local'' Local (3 / 4) 0, example_model ''hosted'' Hosted 1 (1 / 64)],
     ro_policy = balanced\<lparr> rp_escalation_chain := [''local'', ''hosted''] \<rparr> \<rparr>"

definition example_task :: task_node where
  "example_task = \<lparr> tn_classification = \<lparr> cl_class = General, cl_version = RULE_CLASSIFIER_VERSION \<rparr>,
     tn_required = \<lparr> rq_tools = True, rq_parallel_tools = False, rq_structured_output = False,
       rq_vision = False, rq_audio_input = False, rq_min_context_tokens = 0, rq_min_output_tokens = 0 \<rparr>,
     tn_data_classification = Internal, tn_estimated_input_tokens = 3000, tn_estimated_output_tokens = 1000 \<rparr>"


lemma weight_ok_finite: "weight_ok v \<Longrightarrow> f64_is_finite v"
  by (simp add: weight_ok_iff)

lemma f64_of_rat_small: "f64_of_rat (numeral k) = F_Fin (numeral k)" if "numeral k < (2 ^ 53 :: nat)"
  using f64_of_rat_nat [OF that] by simp

lemma example_eligible:
  "is_eligible example_router example_task (example_model i loc s p) \<longleftrightarrow> 0 \<le> p \<and> (loc = Hosted \<longrightarrow> p \<noteq> 0)"
  by (cases loc)
    (auto simp: is_eligible_def passes_classification_def is_local_def example_model_def example_router_def
      example_task_def example_caps_def hosted_allows_def balanced_def allowed_off_device_def satisfies_def
      can_call_tools_def total_tokens_def f64_lt_def f64_eq_def)

lemma example_eligible_models: "eligible example_router example_task = ro_models example_router"
  by (simp add: eligible_def example_eligible) (simp add: example_router_def example_eligible [unfolded example_router_def])

lemma example_measured:
  assumes "0 \<le> s" "s \<le> 1" "0 \<le> p" "p \<le> 1 / 4"
  shows "well_measured example_task (example_model i loc s p)"
proof -
  have "expected_cost_usd (example_model i loc s p) (total_tokens example_task) = f64_of_rat (p * 4)"
    by (simp add: expected_cost_usd_def example_model_def total_tokens_def example_task_def f64_of_u64_def
        f64_of_rat_small)
  moreover have "weight_ok (f64_of_rat (p * 4))" using assms by (intro f64_of_rat_unit) auto
  moreover have "weight_ok (f64_of_rat (1 / 2))" by (intro f64_of_rat_unit) auto
  ultimately show ?thesis
    using assms weight_ok_finite [of "f64_of_rat (p * 4)"]
    by (simp add: well_measured_def predicted_def predicted_success_def) (simp add: example_model_def)
qed

lemma example_models_measured: "\<forall>m \<in> set (eligible example_router example_task). well_measured example_task m"
  unfolding example_eligible_models by (simp add: example_router_def example_measured)

lemma example_policy_ok: "policy_ok (ro_policy example_router)"
proof -
  have "weight_ok (f64_of_rat (7 / 10))" "at_most_1 (f64_of_rat (7 / 10))" "weight_ok (f64_of_rat (1 / 20))"
    by (simp_all add: f64_of_rat_unit f64_of_rat_le_1)
  then show ?thesis
    by (cases "f64_of_rat (7 / 10)") (auto simp: policy_ok_def example_router_def balanced_def default_lambdas_def)
qed

lemma route_some: "eligible r n \<noteq> [] \<Longrightarrow> \<exists>d. route r n = Inr d"
  by (auto simp: route_def Let_def split: option.splits)

lemma example_routes: "\<exists>d. route example_router example_task = Inr d"
  by (rule route_some) (simp only: example_eligible_models, simp add: example_router_def)

lemma example_model_id: "mp_id (example_model i loc s p) = i"
  by (simp add: example_model_def)

lemma example_escalates: "escalated_run example_router example_task [''local'', ''hosted'']"
proof -
  have "find_model example_router ''hosted'' = Some (example_model ''hosted'' Hosted 1 (1 / 64))"
    by (simp add: find_model_def example_router_def example_model_def)
  moreover have "rp_escalation_chain (ro_policy example_router) = [''local'', ''hosted'']"
    by (simp add: example_router_def)
  ultimately show ?thesis
    by (auto simp: escalate_def Let_def res_bind_Inr_iff example_eligible map_filter_simps decide_def example_model_id
        intro!: exI)
qed

theorem routed_model_eligible_witness:
  "\<exists>d. select_arm Arm_Router example_router example_task = Inr d
    \<and> (\<exists>m \<in> set (ro_models example_router). mp_id m = rd_model d
      \<and> (is_local m
         \<or> tn_data_classification example_task \<noteq> Unknown \<and> rp_max_off_device (ro_policy example_router) \<noteq> Unknown
           \<and> tn_data_classification example_task \<le> rp_max_off_device (ro_policy example_router)
           \<and> f64_pos (pf_cost_per_1k_tokens_usd (mp_performance m)))
      \<and> weight_ok (pf_cost_per_1k_tokens_usd (mp_performance m))
      \<and> satisfies (mp_capabilities m) (tn_required example_task) \<and> fits m example_task)"
proof -
  obtain d where d: "select_arm Arm_Router example_router example_task = Inr d" using example_routes by auto
  have "unat (tn_estimated_input_tokens example_task) + unat (tn_estimated_output_tokens example_task) < 2 ^ 64"
    by (simp add: example_task_def)
  from routed_model_eligible [OF disjI1 [OF d] this] d show ?thesis by blast
qed

theorem route_optimal_witness:
  "\<exists>d m. route example_router example_task = Inr d \<and> m \<in> set (eligible example_router example_task)
    \<and> d = decide example_router m example_task HighestUtilityAboveThreshold \<and> above_threshold example_router example_task m"
proof -
  obtain d where d: "route example_router example_task = Inr d" using example_routes by auto
  let ?m = "example_model ''hosted'' Hosted 1 (1 / 64)"
  have "above_threshold example_router example_task ?m"
  proof -
    have "at_most_1 (f64_of_rat (7 / 10))" by (rule f64_of_rat_le_1) simp
    then show ?thesis
      by (cases "f64_of_rat (7 / 10)")
        (auto simp: above_threshold_def predicted_def predicted_success_def example_model_def example_router_def
          balanced_def f64_ge_def lin_cmp_def)
  qed
  moreover have "?m \<in> set (eligible example_router example_task)"
    unfolding example_eligible_models by (simp add: example_router_def)
  ultimately have "\<exists>m' \<in> set (eligible example_router example_task). above_threshold example_router example_task m'" by blast
  from route_optimal [OF example_policy_ok example_models_measured d this] d show ?thesis by blast
qed

theorem arms_order_independent_witness:
  "select_arm Arm_LocalFirstRouter (example_router\<lparr> ro_models := rev (ro_models example_router) \<rparr>) example_task
    = select_arm Arm_LocalFirstRouter example_router example_task"
  by (rule arms_order_independent [OF example_policy_ok example_models_measured])
    (simp add: example_router_def example_model_def, simp only: set_rev)

end
