(* ===== verification/Endpoint.thy ===== *)
theory Endpoint
  imports Routing
begin

text \<open>
  Where a model endpoint runs (\<open>endpoint_location\<close> of \<open>crates/runtime/src/bench.rs\<close>): the host of a base
  URL, and the test that it is a loopback or private address. \<open>IpAddr::from_str\<close> of the standard library
  is modelled as its recursive descent: four decimal octets without leading zeros, or eight groups of at
  most four hexadecimal digits with one \<open>::\<close> and an optional trailing IPv4 part.
\<close>

subsection \<open>Splitting\<close>

definition split_once :: "string \<Rightarrow> string \<Rightarrow> (string \<times> string) option" where
  "split_once p s = map_option (\<lambda>i. (take i s, drop (i + length p) s)) (str_find p s)"

definition rsplit_once :: "char \<Rightarrow> string \<Rightarrow> (string \<times> string) option" where
  "rsplit_once c s =
     (if c \<in> set s then Some (take (length s - Suc (length (last_segment c s))) s, last_segment c s) else None)"

subsection \<open>IP addresses\<close>

datatype ip_addr = V4 "nat list" | V6 "nat list"

definition digit_of :: "nat \<Rightarrow> char \<Rightarrow> nat option" where
  "digit_of radix c =
     (let n = of_char c :: nat;
          d = (if 48 \<le> n \<and> n < 58 then Some (n - 48)
               else if 97 \<le> n \<and> n < 123 then Some (n - 87)
               else if 65 \<le> n \<and> n < 91 then Some (n - 55) else None)
      in case d of Some v \<Rightarrow> if v < radix then Some v else None | None \<Rightarrow> None)"

definition is_digit_in :: "nat \<Rightarrow> char \<Rightarrow> bool" where
  "is_digit_in radix c \<longleftrightarrow> digit_of radix c \<noteq> None"

definition number_of :: "nat \<Rightarrow> string \<Rightarrow> nat" where
  "number_of radix ds = foldl (\<lambda>n c. n * radix + the (digit_of radix c)) 0 ds"

definition read_number :: "nat \<Rightarrow> nat \<Rightarrow> bool \<Rightarrow> nat \<Rightarrow> string \<Rightarrow> (nat \<times> string) option" where
  "read_number radix max_digits allow_zero_prefix limit s =
     (let ds = takeWhile (is_digit_in radix) s; rest = dropWhile (is_digit_in radix) s in
      if ds = [] \<or> max_digits < length ds then None
      else if \<not> allow_zero_prefix \<and> hd ds = CHR ''0'' \<and> 1 < length ds then None
      else if limit \<le> number_of radix ds then None
      else Some (number_of radix ds, rest))"

definition read_separator :: "char \<Rightarrow> nat \<Rightarrow> (string \<Rightarrow> ('a \<times> string) option) \<Rightarrow> string \<Rightarrow> ('a \<times> string) option" where
  "read_separator sep i inner s =
     (if i = 0 then inner s
      else case s of c # s' \<Rightarrow> if c = sep then inner s' else None | [] \<Rightarrow> None)"

fun read_octets :: "nat \<Rightarrow> nat \<Rightarrow> string \<Rightarrow> (nat list \<times> string) option" where
  "read_octets i 0 s = Some ([], s)"
| "read_octets i (Suc k) s =
     (case read_separator (CHR ''.'') i (read_number 10 3 False 256) s of
        None \<Rightarrow> None
      | Some (n, s') \<Rightarrow> map_option (\<lambda>(ns, r). (n # ns, r)) (read_octets (Suc i) k s'))"

definition read_ipv4_addr :: "string \<Rightarrow> (nat list \<times> string) option" where
  "read_ipv4_addr s = read_octets 0 4 s"

text \<open>\<open>read_groups\<close> with \<open>k\<close> slots left from slot \<open>i\<close>: the groups, whether an IPv4 part ended them, the rest.\<close>

fun read_groups :: "nat \<Rightarrow> nat \<Rightarrow> string \<Rightarrow> nat list \<times> bool \<times> string" where
  "read_groups i 0 s = ([], False, s)"
| "read_groups i (Suc k) s =
     (case (if 0 < k then read_separator (CHR '':'') i read_ipv4_addr s else None) of
        Some (os, s') \<Rightarrow> ([os ! 0 * 256 + os ! 1, os ! 2 * 256 + os ! 3], True, s')
      | None \<Rightarrow>
          (case read_separator (CHR '':'') i (read_number 16 4 True 65536) s of
             None \<Rightarrow> ([], False, s)
           | Some (g, s') \<Rightarrow> (case read_groups (Suc i) k s' of (gs, v4, r) \<Rightarrow> (g # gs, v4, r))))"

definition read_ipv6_addr :: "string \<Rightarrow> (nat list \<times> string) option" where
  "read_ipv6_addr s =
     (case read_groups 0 8 s of (h, v4, r) \<Rightarrow>
        if length h = 8 then Some (h, r)
        else if v4 then None
        else case strip_prefix ''::'' r of
            None \<Rightarrow> None
          | Some r1 \<Rightarrow>
              (case read_groups 0 (8 - (length h + 1)) r1 of (tail, _, r2) \<Rightarrow>
                 Some (h @ replicate (8 - length h - length tail) 0 @ tail, r2)))"

definition parse_ip :: "string \<Rightarrow> ip_addr option" where
  "parse_ip s =
     (case (case read_ipv4_addr s of
              Some (os, r) \<Rightarrow> Some (V4 os, r)
            | None \<Rightarrow> map_option (\<lambda>(gs, r). (V6 gs, r)) (read_ipv6_addr s)) of
        Some (a, []) \<Rightarrow> Some a
      | _ \<Rightarrow> None)"

subsection \<open>Locality\<close>

definition v4_is_loopback :: "nat list \<Rightarrow> bool" where
  "v4_is_loopback os \<longleftrightarrow> os ! 0 = 127"

definition v4_is_private :: "nat list \<Rightarrow> bool" where
  "v4_is_private os \<longleftrightarrow>
     os ! 0 = 10 \<or> (os ! 0 = 172 \<and> 16 \<le> os ! 1 \<and> os ! 1 \<le> 31) \<or> (os ! 0 = 192 \<and> os ! 1 = 168)"

definition is_local_host :: "string \<Rightarrow> bool" where
  "is_local_host host =
     (if to_ascii_lowercase host = ''localhost'' then True
      else case parse_ip host of
          Some (V4 os) \<Rightarrow> v4_is_loopback os \<or> v4_is_private os
        | Some (V6 gs) \<Rightarrow> gs = [0, 0, 0, 0, 0, 0, 0, 1]
        | None \<Rightarrow> False)"

definition authority_of :: "string \<Rightarrow> string" where
  "authority_of base_url =
     (let rest = (case split_once ''://'' base_url of Some (_, r) \<Rightarrow> r | None \<Rightarrow> base_url);
          authority = takeWhile (\<lambda>c. c \<noteq> CHR ''/'' \<and> c \<noteq> CHR ''?'' \<and> c \<noteq> CHR ''#'') rest
      in case rsplit_once (CHR ''@'') authority of Some (_, a) \<Rightarrow> a | None \<Rightarrow> authority)"

definition host_of_authority :: "string \<Rightarrow> string option" where
  "host_of_authority authority =
     (if authority = [] then None
      else case strip_prefix ''['' authority of
          Some after \<Rightarrow>
            (let h = takeWhile (\<lambda>c. c \<noteq> CHR '']'') after in if h = [] then None else Some h)
        | None \<Rightarrow>
            (let host = (case rsplit_once (CHR '':'') authority of
                           Some (h, port) \<Rightarrow> if port \<noteq> [] \<and> list_all is_digit port then h else authority
                         | None \<Rightarrow> authority)
             in if host = [] then None else Some host))"

definition host_from_base_url :: "string \<Rightarrow> string option" where
  "host_from_base_url base_url = host_of_authority (authority_of base_url)"

definition endpoint_location :: "string \<Rightarrow> model_location" where
  "endpoint_location base_url =
     (case host_from_base_url base_url of
        Some host \<Rightarrow> if is_local_host host then Local else Hosted
      | None \<Rightarrow> Hosted)"

subsection \<open>What the address parser consumes\<close>

definition addr_char :: "char \<Rightarrow> bool" where
  "addr_char c \<longleftrightarrow> is_digit_in 16 c \<or> c = CHR ''.'' \<or> c = CHR '':''"

definition consumed :: "string \<Rightarrow> string \<Rightarrow> bool" where
  "consumed s r \<longleftrightarrow> (\<exists>p. s = p @ r \<and> list_all addr_char p)"

lemma consumed_refl [simp]: "consumed s s"
  by (simp add: consumed_def)

lemma consumed_trans: "consumed s r \<Longrightarrow> consumed r t \<Longrightarrow> consumed s t"
  unfolding consumed_def by (metis append_assoc list_all_append)

lemma consumed_Cons: "addr_char c \<Longrightarrow> consumed s r \<Longrightarrow> consumed (c # s) r"
  unfolding consumed_def by (metis append_Cons list.pred_inject(2))

lemma digit_of_mono: "is_digit_in 10 c \<Longrightarrow> is_digit_in 16 c"
  by (auto simp: is_digit_in_def digit_of_def Let_def split: option.splits if_splits)

lemma read_number_consumed:
  assumes "read_number radix m z l s = Some (n, r)" "radix = 10 \<or> radix = 16"
  shows "consumed s r"
proof -
  have "r = dropWhile (is_digit_in radix) s"
    using assms(1) by (auto simp: read_number_def Let_def split: if_splits)
  then have "s = takeWhile (is_digit_in radix) s @ r" by simp
  moreover have "list_all addr_char (takeWhile (is_digit_in radix) s)"
    using assms(2) by (auto simp: list_all_iff addr_char_def dest!: set_takeWhileD intro: digit_of_mono)
  ultimately show ?thesis unfolding consumed_def by blast
qed

lemma read_separator_consumed:
  assumes "read_separator sep i inner s = Some (x, r)" "addr_char sep"
    "\<And>s x r. inner s = Some (x, r) \<Longrightarrow> consumed s r"
  shows "consumed s r"
  using assms by (auto simp: read_separator_def split: if_splits list.splits intro: consumed_Cons)

lemma separators [simp]: "addr_char (CHR ''.'')" "addr_char (CHR '':'')"
  by (simp_all add: addr_char_def)

lemma read_octets_consumed: "read_octets i k s = Some (os, r) \<Longrightarrow> consumed s r"
proof (induction i k s arbitrary: os rule: read_octets.induct)
  case (2 i k s)
  from "2.prems" obtain n s' os' where n: "read_separator (CHR ''.'') i (read_number 10 3 False 256) s = Some (n, s')"
    and os: "read_octets (Suc i) k s' = Some (os', r)" by (auto split: option.splits)
  have "consumed s s'" by (rule read_separator_consumed [OF n]) (auto intro: read_number_consumed)
  then show ?case using "2.IH" [OF n refl os] by (rule consumed_trans)
qed simp

lemma read_groups_consumed: "read_groups i k s = (gs, v4, r) \<Longrightarrow> consumed s r"
proof (induction i k s arbitrary: gs rule: read_groups.induct)
  case (2 i k s)
  show ?case
  proof (cases "if 0 < k then read_separator (CHR '':'') i read_ipv4_addr s else None")
    case None
    note no_v4 = None
    show ?thesis
    proof (cases "read_separator (CHR '':'') i (read_number 16 4 True 65536) s")
      case None
      with no_v4 "2.prems" show ?thesis by simp
    next
      case (Some gs')
      obtain g s' where g: "gs' = (g, s')" by force
      have c: "consumed s s'"
        by (rule read_separator_consumed [OF Some [unfolded g]]) (auto intro: read_number_consumed)
      obtain gs2 v42 r2 where rec: "read_groups (Suc i) k s' = (gs2, v42, r2)" by (metis prod_cases3)
      with no_v4 Some g "2.prems" have "r2 = r" "v42 = v4" by auto
      with "2.IH" [OF no_v4 Some g [symmetric]] rec have "consumed s' r" by auto
      with c show ?thesis by (rule consumed_trans)
    qed
  next
    case (Some os)
    then obtain os' s' where os: "os = (os', s')" "read_separator (CHR '':'') i read_ipv4_addr s = Some (os', s')"
      by (cases os) (auto split: if_splits)
    have "consumed s s'"
      by (rule read_separator_consumed [OF os(2)]) (auto simp: read_ipv4_addr_def intro: read_octets_consumed)
    with Some os "2.prems" show ?thesis by simp
  qed
qed simp

lemma read_ipv6_consumed: "read_ipv6_addr s = Some (gs, r) \<Longrightarrow> consumed s r"
proof -
  assume a: "read_ipv6_addr s = Some (gs, r)"
  obtain h v4 r1 where h: "read_groups 0 8 s = (h, v4, r1)" by (metis prod_cases3)
  note c1 = read_groups_consumed [OF h]
  show ?thesis
  proof (cases "length h = 8")
    case True
    with a h c1 show ?thesis by (simp add: read_ipv6_addr_def)
  next
    case False
    with a h obtain r2 where r2: "strip_prefix ''::'' r1 = Some r2"
      by (auto simp: read_ipv6_addr_def split: if_splits option.splits)
    obtain t v r3 where t: "read_groups 0 (8 - (length h + 1)) r2 = (t, v, r3)" by (metis prod_cases3)
    have "r3 = r" using a False h r2 t by (auto simp: read_ipv6_addr_def split: if_splits)
    moreover have "consumed r1 r2" using r2 by (auto simp: strip_prefix_Some intro!: consumed_Cons)
    ultimately show ?thesis using c1 read_groups_consumed [OF t] consumed_trans by blast
  qed
qed

lemma parse_ip_chars: "parse_ip s = Some a \<Longrightarrow> list_all addr_char s"
proof -
  assume "parse_ip s = Some a"
  then have "consumed s []"
    by (auto simp: parse_ip_def read_ipv4_addr_def split: option.splits list.splits prod.splits
        dest!: read_octets_consumed read_ipv6_consumed)
  then show ?thesis by (simp add: consumed_def)
qed

text \<open>
  Endpoint classification fails closed: an endpoint is local only when its host is the name
  localhost, in any case, or a literal address, a string of hexadecimal digits, dots and colons. No
  other domain name is ever local, and neither is a URL without a host.
\<close>

lemma local_host_chars:
  "endpoint_location url = Local \<Longrightarrow>
    \<exists>host. host_from_base_url url = Some host
      \<and> (to_ascii_lowercase host = ''localhost'' \<or> list_all addr_char host)"
  by (auto simp: endpoint_location_def is_local_host_def split: option.splits if_splits dest: parse_ip_chars)

subsection \<open>Dotted quads\<close>

lemma number_of_append: "number_of radix (xs @ [c]) = number_of radix xs * radix + the (digit_of radix c)"
  by (simp add: number_of_def)

lemma digit_of_decimal: "d < 10 \<Longrightarrow> digit_of 10 (char_of (d + 48 :: nat)) = Some d"
  by (simp add: digit_of_def Let_def)

lemma is_digit_in_10: "is_digit_in 10 c \<longleftrightarrow> is_digit c"
  by (auto simp: is_digit_in_def digit_of_def is_digit_def Let_def split: option.splits if_splits)

lemma number_of_dec: "number_of 10 (dec n) = n"
proof (induction n rule: dec.induct)
  case (1 n)
  show ?case
  proof (cases "n < 10")
    case True
    then show ?thesis by (simp add: dec.simps [of n] number_of_def digit_of_decimal del: char_of_mod_256)
  next
    case False
    with 1 have "number_of 10 (dec (n div 10)) = n div 10" by blast
    with False show ?thesis
      by (simp add: dec.simps [of n] number_of_append digit_of_decimal del: char_of_mod_256)
  qed
qed

lemma hd_dec: "0 < n \<Longrightarrow> hd (dec n) \<noteq> CHR ''0''"
proof (induction n rule: dec.induct)
  case (1 n)
  show ?case
  proof (cases "n < 10")
    case True
    with "1.prems" have "(of_char (char_of (n + 48) :: char) :: nat) \<noteq> of_char (CHR ''0'')" by simp
    then have "char_of (n + 48) \<noteq> CHR ''0''" by metis
    with True show ?thesis by (simp add: dec.simps [of n])
  next
    case False
    then show ?thesis using "1.IH" by (simp add: dec.simps [of n] dec_nonempty hd_append)
  qed
qed

lemma length_dec_3: "n < 1000 \<Longrightarrow> length (dec n) \<le> 3"
  by (simp add: dec.simps [of n] dec.simps [of "n div 10"] dec.simps [of "n div 10 div 10"])

definition not_digit_first :: "string \<Rightarrow> bool" where
  "not_digit_first s \<longleftrightarrow> s = [] \<or> \<not> is_digit (hd s)"

lemma takeWhile_dec: "not_digit_first r \<Longrightarrow> takeWhile (is_digit_in 10) (dec n @ r) = dec n"
  and dropWhile_dec: "not_digit_first r \<Longrightarrow> dropWhile (is_digit_in 10) (dec n @ r) = r"
  by (cases r; auto simp: not_digit_first_def is_digit_in_10 dec_digits takeWhile_append dropWhile_append)+

lemma read_octet:
  assumes "n < 256" "not_digit_first r"
  shows "read_number 10 3 False 256 (dec n @ r) = Some (n, r)"
proof -
  have "\<not> (hd (dec n) = CHR ''0'' \<and> 1 < length (dec n))"
    using hd_dec [of n] by (cases "n = 0") (auto simp: dec.simps [of 0])
  then show ?thesis
    using assms length_dec_3 [of n]
    by (auto simp: read_number_def Let_def takeWhile_dec dropWhile_dec number_of_dec dec_nonempty)
qed

definition dotted :: "nat \<Rightarrow> nat \<Rightarrow> nat \<Rightarrow> nat \<Rightarrow> string" where
  "dotted a b c d = dec a @ ''.'' @ dec b @ ''.'' @ dec c @ ''.'' @ dec d"

lemma read_octets_Suc:
  assumes "n < 256" "not_digit_first r"
  shows "read_octets (Suc i) (Suc k) (CHR ''.'' # dec n @ r)
    = map_option (\<lambda>(ns, t). (n # ns, t)) (read_octets (Suc (Suc i)) k r)"
  using read_octet [OF assms] by (simp add: read_separator_def)

lemma dot_first [simp]: "not_digit_first (CHR ''.'' # s)" "not_digit_first []"
  by (simp_all add: not_digit_first_def is_digit_def)

lemma parse_dotted:
  assumes "a < 256" "b < 256" "c < 256" "d < 256"
  shows "parse_ip (dotted a b c d) = Some (V4 [a, b, c, d])"
proof -
  have "read_octets 0 4 (dotted a b c d) = Some ([a, b, c, d], [])"
    using read_octet [OF assms(1), of "''.'' @ dec b @ ''.'' @ dec c @ ''.'' @ dec d"]
      read_octets_Suc [OF assms(2), of "''.'' @ dec c @ ''.'' @ dec d" 0 2]
      read_octets_Suc [OF assms(3), of "''.'' @ dec d" 1 1] read_octets_Suc [OF assms(4), of "[]" 2 0]
    by (simp add: dotted_def numeral_eq_Suc read_separator_def)
  then show ?thesis by (simp add: parse_ip_def read_ipv4_addr_def)
qed

lemma str_find_scheme:
  "CHR '':'' \<notin> set scheme \<Longrightarrow> str_find ''://'' (scheme @ ''://'' @ rest) = Some (length scheme)"
  by (induction scheme) (auto simp: starts_with_def)

definition path_first :: "string \<Rightarrow> bool" where
  "path_first path \<longleftrightarrow> path = [] \<or> hd path \<in> {CHR ''/'', CHR ''?'', CHR ''#''}"

lemma authority_of_url:
  assumes "CHR '':'' \<notin> set scheme" "path_first path"
    "\<And>c. c \<in> set auth \<Longrightarrow> c \<notin> {CHR ''/'', CHR ''?'', CHR ''#'', CHR ''@''}"
  shows "authority_of (scheme @ ''://'' @ auth @ path) = auth"
proof -
  have "takeWhile (\<lambda>c. c \<noteq> CHR ''/'' \<and> c \<noteq> CHR ''?'' \<and> c \<noteq> CHR ''#'') (auth @ path) = auth"
    using assms(2,3) by (cases path) (auto simp: takeWhile_append path_first_def)
  moreover have "CHR ''@'' \<notin> set auth" using assms(3) by blast
  ultimately show ?thesis
    using str_find_scheme [OF assms(1), of "auth @ path"]
    by (simp add: authority_of_def split_once_def rsplit_once_def)
qed

lemma last_segment_append: "c \<notin> set ys \<Longrightarrow> last_segment c (xs @ c # ys) = ys"
proof -
  assume "c \<notin> set ys"
  then have "takeWhile (\<lambda>x. x \<noteq> c) (rev ys @ c # rev xs) = rev ys"
    by (subst takeWhile_append2) auto
  then show ?thesis by (simp add: last_segment_def)
qed

lemma host_with_port:
  assumes "CHR '':'' \<notin> set host" "host \<noteq> []" "hd host \<noteq> CHR ''[''" "port = [] \<or> (\<exists>p. port = '':'' @ dec p)"
  shows "host_of_authority (host @ port) = Some host"
  using assms(4)
proof
  assume "port = []"
  with assms show ?thesis
    by (cases host) (auto simp: host_of_authority_def rsplit_once_def strip_prefix_def starts_with_def)
next
  assume "\<exists>p. port = '':'' @ dec p"
  then obtain p where p: "port = CHR '':'' # dec p" by auto
  have "CHR '':'' \<notin> set (dec p)" using dec_digits [of "CHR '':''" p] by (auto simp: is_digit_def)
  then have "rsplit_once (CHR '':'') (host @ port) = Some (host, dec p)"
    by (simp add: rsplit_once_def p last_segment_append)
  moreover have "list_all is_digit (dec p)" using dec_digits by (auto simp: list_all_iff)
  ultimately show ?thesis
    using assms(1-3) by (cases host) (auto simp: host_of_authority_def strip_prefix_def starts_with_def dec_nonempty)
qed

lemma dotted_chars: "c \<in> set (dotted a b c' d) \<Longrightarrow> is_digit c \<or> c = CHR ''.''"
  by (auto simp: dotted_def dest: dec_digits)

lemma hd_dotted: "is_digit (hd (dotted a b c d))"
  using dec_digits [of "hd (dec a)" a] dec_nonempty [of a] by (simp add: dotted_def hd_append)

text \<open>
  On literal IPv4 addresses the classification is exact: whatever the scheme, the port and the
  path, an endpoint on the address a.b.c.d is local exactly when the address is a loopback address
  (127/8) or of a private range (10/8, 172.16/12, 192.168/16).
\<close>

lemma endpoint_ipv4_exact:
  assumes "CHR '':'' \<notin> set scheme" "a < 256" "b < 256" "c < 256" "d < 256"
    and "port = [] \<or> (\<exists>p. port = '':'' @ dec p)" "path_first path"
  shows "endpoint_location (scheme @ ''://'' @ dotted a b c d @ port @ path) = Local \<longleftrightarrow>
    a = 127 \<or> a = 10 \<or> (a = 172 \<and> 16 \<le> b \<and> b \<le> 31) \<or> (a = 192 \<and> b = 168)"
proof -
  have digits: "c' \<notin> {CHR ''/'', CHR ''?'', CHR ''#'', CHR ''@''}" if "c' \<in> set (dotted a b c d @ port)" for c'
    using that assms(6) dotted_chars [of c' a b c d] dec_digits [of c'] by (auto simp: is_digit_def)
  have "authority_of (scheme @ ''://'' @ dotted a b c d @ port @ path) = dotted a b c d @ port"
    using authority_of_url [OF assms(1,7), of "dotted a b c d @ port"] digits by simp
  moreover have "host_of_authority (dotted a b c d @ port) = Some (dotted a b c d)"
  proof (rule host_with_port [OF _ _ _ assms(6)])
    show "CHR '':'' \<notin> set (dotted a b c d)" using dotted_chars [of "CHR '':''" a b c d] by (auto simp: is_digit_def)
    show "dotted a b c d \<noteq> []" by (simp add: dotted_def)
    show "hd (dotted a b c d) \<noteq> CHR ''[''" using hd_dotted [of a b c d] by (auto simp: is_digit_def)
  qed
  ultimately have host: "host_from_base_url (scheme @ ''://'' @ dotted a b c d @ port @ path) = Some (dotted a b c d)"
    by (simp add: host_from_base_url_def)
  have "to_ascii_lowercase (dotted a b c d) \<noteq> ''localhost''"
  proof
    assume "to_ascii_lowercase (dotted a b c d) = ''localhost''"
    then have "ascii_lower (hd (dotted a b c d)) = CHR ''l''"
      by (cases "dotted a b c d") (auto simp: to_ascii_lowercase_def)
    with hd_dotted [of a b c d] show False by (auto simp: ascii_lower_def is_digit_def Let_def split: if_splits)
  qed
  then have "is_local_host (dotted a b c d) \<longleftrightarrow>
      a = 127 \<or> a = 10 \<or> (a = 172 \<and> 16 \<le> b \<and> b \<le> 31) \<or> (a = 192 \<and> b = 168)"
    using parse_dotted [OF assms(2-5)] by (auto simp: is_local_host_def v4_is_loopback_def v4_is_private_def)
  with host show ?thesis by (simp add: endpoint_location_def)
qed

subsection \<open>Host names and well-formed URLs\<close>

text \<open>
  A URL as it is meant: a scheme, a host that is a literal IPv4 address or a name, an optional port and what follows. A
  host name is made of letters, digits, hyphens and dots and has a letter.
\<close>

datatype url_host = Host_V4 nat nat nat nat | Host_Name string

record endpoint_url =
  url_scheme :: string
  url_host :: url_host
  url_port :: "nat option"
  url_path :: string

definition is_letter :: "char \<Rightarrow> bool" where
  "is_letter c \<longleftrightarrow> (let n = of_char c :: nat in 65 \<le> n \<and> n \<le> 90 \<or> 97 \<le> n \<and> n \<le> 122)"

fun host_text :: "url_host \<Rightarrow> string" where
  "host_text (Host_V4 a b c d) = dotted a b c d"
| "host_text (Host_Name n) = n"

definition url_text :: "endpoint_url \<Rightarrow> string" where
  "url_text u = url_scheme u @ ''://'' @ host_text (url_host u)
     @ (case url_port u of None \<Rightarrow> [] | Some p \<Rightarrow> '':'' @ dec p) @ url_path u"

fun host_ok :: "url_host \<Rightarrow> bool" where
  "host_ok (Host_V4 a b c d) = (a < 256 \<and> b < 256 \<and> c < 256 \<and> d < 256)"
| "host_ok (Host_Name n) =
     (list_all (\<lambda>c. is_letter c \<or> is_digit c \<or> c = CHR ''-'' \<or> c = CHR ''.'') n \<and> list_ex is_letter n)"

definition url_ok :: "endpoint_url \<Rightarrow> bool" where
  "url_ok u \<longleftrightarrow> CHR '':'' \<notin> set (url_scheme u) \<and> host_ok (url_host u) \<and> path_first (url_path u)"

text \<open>The hosts the documentation calls local: loopback (127/8 and the name localhost) and the private ranges of RFC 1918.\<close>

fun on_device :: "url_host \<Rightarrow> bool" where
  "on_device (Host_V4 a b c d) = (a = 127 \<or> a = 10 \<or> (a = 172 \<and> 16 \<le> b \<and> b \<le> 31) \<or> (a = 192 \<and> b = 168))"
| "on_device (Host_Name n) = (to_ascii_lowercase n = ''localhost'')"

lemma read_number_chars:
  "read_number 10 m z l s = Some (n, r) \<Longrightarrow> set s \<subseteq> set r \<union> {c. is_digit c}"
proof -
  assume "read_number 10 m z l s = Some (n, r)"
  then have "r = dropWhile (is_digit_in 10) s" by (auto simp: read_number_def Let_def split: if_splits)
  moreover have "set s = set (takeWhile (is_digit_in 10) s) \<union> set (dropWhile (is_digit_in 10) s)"
    by (metis set_append takeWhile_dropWhile_id)
  ultimately show ?thesis by (auto simp: is_digit_in_10 dest: set_takeWhileD)
qed

lemma read_octets_chars:
  "read_octets i k s = Some (os, r) \<Longrightarrow> set s \<subseteq> set r \<union> {c. is_digit c \<or> c = CHR ''.''}"
proof (induction i k s arbitrary: os rule: read_octets.induct)
  case (2 i k s)
  from "2.prems" obtain n s' os' where n: "read_separator (CHR ''.'') i (read_number 10 3 False 256) s = Some (n, s')"
    and os: "read_octets (Suc i) k s' = Some (os', r)" by (auto split: option.splits)
  have "set s \<subseteq> set s' \<union> {c. is_digit c \<or> c = CHR ''.''}"
    using n by (auto simp: read_separator_def split: if_splits list.splits dest!: read_number_chars)
  then show ?case using "2.IH" [OF n refl os] by blast
qed simp

lemma no_colon_group: "CHR '':'' \<notin> set s \<Longrightarrow> read_groups (Suc i) k s = ([], False, s)"
  by (cases k; cases s) (auto simp: read_separator_def)

lemma no_colon_groups:
  assumes "CHR '':'' \<notin> set s"
  shows "length (fst (read_groups 0 (Suc k) s)) \<le> 2"
proof (cases "if 0 < k then read_separator (CHR '':'') 0 read_ipv4_addr s else None")
  case None
  note no_v4 = None
  show ?thesis
  proof (cases "read_separator (CHR '':'') 0 (read_number 16 4 True 65536) s")
    case None
    with no_v4 show ?thesis by simp
  next
    case (Some p)
    obtain g s' where p: "p = (g, s')" by fastforce
    with Some have "consumed s s'" by (auto simp: read_separator_def intro: read_number_consumed)
    then have "CHR '':'' \<notin> set s'" using assms by (auto simp: consumed_def)
    then have "read_groups (Suc 0) k s' = ([], False, s')" by (rule no_colon_group)
    with no_v4 Some p show ?thesis by simp
  qed
next
  case (Some p)
  then show ?thesis by (cases p) simp
qed

lemma no_colon_v6:
  assumes "CHR '':'' \<notin> set s"
  shows "read_ipv6_addr s = None"
proof -
  obtain h v4 r where h: "read_groups 0 8 s = (h, v4, r)" by (metis prod_cases3)
  then have "consumed s r" by (rule read_groups_consumed)
  then have r: "CHR '':'' \<notin> set r" using assms by (auto simp: consumed_def)
  have "(8 :: nat) = Suc 7" by simp
  then have "length h \<noteq> 8" using no_colon_groups [OF assms, of 7] h by (metis fst_conv numeral_le_iff semiring_norm(69,71,73))
  moreover have "strip_prefix ''::'' r = None" using r by (cases r) (auto simp: strip_prefix_def starts_with_def)
  ultimately show ?thesis by (simp add: read_ipv6_addr_def h)
qed

lemma parse_ip_name:
  assumes "CHR '':'' \<notin> set n" "x \<in> set n" "is_letter x"
  shows "parse_ip n = None"
proof -
  have "\<not> is_digit x" "x \<noteq> CHR ''.''" using assms(3) by (auto simp: is_letter_def is_digit_def Let_def)
  then have "read_ipv4_addr n \<noteq> Some (os, [])" for os
    using assms(2) read_octets_chars [of 0 4 n os "[]"] by (auto simp: read_ipv4_addr_def)
  then show ?thesis
    using no_colon_v6 [OF assms(1)] by (auto simp: parse_ip_def split: option.splits list.splits)
qed

lemma endpoint_name_exact:
  assumes "CHR '':'' \<notin> set scheme" "host_ok (Host_Name n)"
    and "port = [] \<or> (\<exists>p. port = '':'' @ dec p)" "path_first path"
  shows "endpoint_location (scheme @ ''://'' @ n @ port @ path) = Local \<longleftrightarrow> to_ascii_lowercase n = ''localhost''"
proof -
  have chars: "is_letter c \<or> is_digit c \<or> c = CHR ''-'' \<or> c = CHR ''.''" if "c \<in> set n" for c
    using assms(2) that by (simp add: list_all_iff)
  have no: "CHR '':'' \<notin> set n" "CHR ''['' \<notin> set n"
    using chars [of "CHR '':''"] chars [of "CHR ''[''"] by (auto simp: is_letter_def is_digit_def Let_def)
  have "c \<notin> {CHR ''/'', CHR ''?'', CHR ''#'', CHR ''@''}" if "c \<in> set (n @ port)" for c
    using that assms(3) chars [of c] dec_digits [of c] by (auto simp: is_letter_def is_digit_def Let_def)
  then have "authority_of (scheme @ ''://'' @ n @ port @ path) = n @ port"
    using authority_of_url [OF assms(1,4), of "n @ port"] by simp
  moreover obtain x where x: "x \<in> set n" "is_letter x" using assms(2) by (auto simp: list_ex_iff)
  then have "n \<noteq> []" by auto
  then have "hd n \<noteq> CHR ''[''" using no(2) by (cases n) auto
  with no(1) \<open>n \<noteq> []\<close> have "host_of_authority (n @ port) = Some n" by (intro host_with_port assms(3))
  ultimately show ?thesis
    using parse_ip_name [OF no(1) x] by (simp add: endpoint_location_def host_from_base_url_def is_local_host_def)
qed

text \<open>On well-formed URLs the classification is the documented one.\<close>

lemma endpoint_location_exact:
  assumes "url_ok u"
  shows "endpoint_location (url_text u) = Local \<longleftrightarrow> on_device (url_host u)"
proof -
  have u: "CHR '':'' \<notin> set (url_scheme u)" "host_ok (url_host u)" "path_first (url_path u)"
    using assms by (simp_all add: url_ok_def)
  define port where "port = (case url_port u of None \<Rightarrow> [] | Some p \<Rightarrow> '':'' @ dec p)"
  have port: "port = [] \<or> (\<exists>p. port = '':'' @ dec p)" by (cases "url_port u") (auto simp: port_def)
  show ?thesis
  proof (cases "url_host u")
    case (Host_V4 a b c d)
    then show ?thesis
      using endpoint_ipv4_exact [OF u(1) _ _ _ _ port u(3), of a b c d] u(2) unfolding url_text_def by (simp add: port_def)
  next
    case (Host_Name n)
    then show ?thesis
      using endpoint_name_exact [OF u(1) _ port u(3), of n] u(2) unfolding url_text_def by (simp add: port_def)
  qed
qed

text \<open>
  The host is what follows the last @ of the authority, and a backslash is taken for part of the user
  information before it. A client that reads the backslash of an http URL as a path separator, as the
  WHATWG URL standard prescribes, connects to the host before the backslash: here not the local one.
\<close>

theorem backslash_host_is_local:
  "endpoint_location (''https://models.example'' @ [CHR 0x5C] @ ''@localhost/v1'') = Local"
  by code_simp

end
