(* ===== verification/Routing_Seam.thy ===== *)
theory Routing_Seam
  imports Endpoint
begin

text \<open>
  The daemon's routing seam (\<open>crates/codypendentd/src/routing.rs\<close>): the configuration and how it is
  loaded, the task node built from a run, the pool of profiles the router sees, and the operations
  \<open>select\<close>, \<open>validate_pin\<close> and \<open>escalate\<close>.

  Code outside this file enters as fields of the coordinator: the stored profiles (\<open>co_list\<close>), the cached
  capability probes (\<open>co_cached\<close>) and the prober. A successful fresh probe is cached: the writes are
  returned next to the pool. The TOML parser and the two files it reads are arguments of \<open>load\<close>.
\<close>

datatype agent_mode = Ask | Explore | Plan | Build | Review | Mode_Unknown

subsection \<open>Configuration\<close>

record routing_config =
  cf_enabled :: bool
  cf_policy :: routing_policy
  cf_data_classification :: data_classification
  cf_memory_extraction_model :: "model_id option"
  cf_active_endpoints :: "(model_id \<rightharpoonup> string) option"
  cf_load_error :: "string option"

definition default_config :: routing_config where
  "default_config =
     \<lparr> cf_enabled = False, cf_policy = balanced, cf_data_classification = Unknown,
       cf_memory_extraction_model = None, cf_active_endpoints = None, cf_load_error = None \<rparr>"

record routing_config_file =
  fl_enabled :: bool
  fl_policy :: "routing_policy option"
  fl_data_classification :: "data_classification option"
  fl_memory_extraction_model :: "model_id option"

definition invalid_config :: "string \<Rightarrow> routing_config" where
  "invalid_config error = default_config\<lparr> cf_load_error := Some error \<rparr>"

definition normalize_endpoint :: "string \<Rightarrow> string" where
  "normalize_endpoint endpoint = rev (dropWhile (\<lambda>c. c = CHR ''/'') (rev (trim endpoint)))"

datatype file_read = File_NotFound | File_Error string | File_Text string

text \<open>
  \<open>path\<close> is the printed path of \<open>routing.toml\<close>, \<open>toml\<close> the parser (with its error text) and \<open>models\<close> the
  entries of \<open>models.toml\<close>, or nothing when that file does not load. Collecting into a map keeps the
  last of equal keys.
\<close>

definition load_config ::
  "string \<Rightarrow> file_read \<Rightarrow> (string \<Rightarrow> string + routing_config_file) \<Rightarrow> (model_id \<times> string) list option \<Rightarrow> routing_config" where
  "load_config path file toml models =
     (case file of
        File_NotFound \<Rightarrow> default_config
      | File_Error e \<Rightarrow> invalid_config (''could not read '' @ path @ '': '' @ e)
      | File_Text text \<Rightarrow>
          (let active = (case models of
                           None \<Rightarrow> Map.empty
                         | Some ms \<Rightarrow> map_of (rev (map (\<lambda>(i, url). (i, normalize_endpoint url)) ms)))
           in case toml text of
               Inr f \<Rightarrow>
                 \<lparr> cf_enabled = fl_enabled f,
                   cf_policy = (case fl_policy f of Some p \<Rightarrow> p | None \<Rightarrow> balanced),
                   cf_data_classification =
                     (case fl_data_classification f of Some c \<Rightarrow> c | None \<Rightarrow> Unknown),
                   cf_memory_extraction_model = fl_memory_extraction_model f,
                   cf_active_endpoints = Some active, cf_load_error = None \<rparr>
             | Inl e \<Rightarrow> invalid_config (''invalid '' @ path @ '': '' @ e)))"

subsection \<open>The task node of a run\<close>

definition contains :: "string \<Rightarrow> string \<Rightarrow> bool" where
  "contains s p \<longleftrightarrow> str_find p s \<noteq> None"

definition parse_declared :: "string \<Rightarrow> data_classification option" where
  "parse_declared raw =
     (let s = to_ascii_lowercase (trim raw) in
      if s = ''public'' then Some Public
      else if s = ''internal'' then Some Internal
      else if s = ''confidential'' then Some Confidential
      else if s = ''secret'' then Some Secret
      else if s = ''unknown'' then Some Unknown
      else None)"

definition secret_keywords :: "string list" where
  "secret_keywords =
     [''secret'', ''private_key'', ''id_rsa'', ''credentials'', ''api_key'', ''api key'', ''password'',
      ''.env'', ''auth_token'', ''bearer'', ''certificate'']"

definition confidential_keywords :: "string list" where
  "confidential_keywords =
     [''confidential'', ''proprietary'', ''internal only'', ''pii'', ''gdpr'', ''customer data'',
      ''financial'', ''salary'']"

definition derive_run_classification :: "string option \<Rightarrow> string \<Rightarrow> data_classification option" where
  "derive_run_classification declared_policy objective =
     (case Option.bind declared_policy parse_declared of
        Some c \<Rightarrow> Some c
      | None \<Rightarrow>
          (let lower = to_ascii_lowercase objective in
           if list_ex (contains lower) secret_keywords then Some Secret
           else if list_ex (contains lower) confidential_keywords then Some Confidential
           else None))"

definition estimate_input_tokens :: "string \<Rightarrow> u64" where
  "estimate_input_tokens objective = max (of_nat (length objective) div 4) 256"

definition estimated_output_tokens :: "agent_mode \<Rightarrow> u64" where
  "estimated_output_tokens mode = (if mode = Build then 4000 else 1000)"

definition mode_requirements :: "agent_mode \<Rightarrow> required_capabilities" where
  "mode_requirements mode =
     \<lparr> rq_tools = True, rq_parallel_tools = False, rq_structured_output = (mode = Build),
       rq_vision = False, rq_audio_input = False, rq_min_context_tokens = 0, rq_min_output_tokens = 0 \<rparr>"

fun mode_str :: "agent_mode \<Rightarrow> string" where
  "mode_str Build = ''build''"
| "mode_str Explore = ''explore''"
| "mode_str Ask = ''ask''"
| "mode_str Plan = ''plan''"
| "mode_str Review = ''review''"
| "mode_str Mode_Unknown = []"

text \<open>A run as the callers of the seam describe it.\<close>

record run_request =
  rr_mode :: agent_mode
  rr_node_kind :: string
  rr_objective :: string
  rr_input_tokens :: u64
  rr_classification :: "data_classification option"

definition effective_classification :: "data_classification \<Rightarrow> run_request \<Rightarrow> data_classification" where
  "effective_classification scope_ceiling q =
     (case (case rr_classification q of
              Some c \<Rightarrow> Some c | None \<Rightarrow> derive_run_classification None (rr_objective q)) of
        Some derived \<Rightarrow> if rank scope_ceiling < rank derived then derived else scope_ceiling
      | None \<Rightarrow> scope_ceiling)"

definition build_task_node :: "(string \<Rightarrow> bool) \<Rightarrow> routing_config \<Rightarrow> run_request \<Rightarrow> task_node" where
  "build_task_node alnum cfg q =
     \<lparr> tn_classification = classify (from_objective alnum (mode_str (rr_mode q)) (rr_node_kind q)
         (rr_input_tokens q) (rr_objective q)),
       tn_required = mode_requirements (rr_mode q),
       tn_data_classification = effective_classification (cf_data_classification cfg) q,
       tn_estimated_input_tokens = rr_input_tokens q,
       tn_estimated_output_tokens = estimated_output_tokens (rr_mode q) \<rparr>"

subsection \<open>The coordinator\<close>

record stored_profile =
  sp_endpoint :: string
  sp_profile :: model_profile

record 'e coordinator =
  co_config :: routing_config
  co_list :: "'e + stored_profile list"
  co_cached :: "model_id \<Rightarrow> string \<Rightarrow> 'e + model_capabilities option"
  co_prober :: "(string \<Rightarrow> model_id \<Rightarrow> string + model_capabilities) option"

datatype 'e seam_error = InvalidConfig string | Refused string | NoProfiles | Store_Error 'e

type_synonym cache_write = "model_id \<times> string \<times> model_capabilities"

definition ensure_valid_config :: "'e coordinator \<Rightarrow> 'e seam_error + unit" where
  "ensure_valid_config co =
     (case cf_load_error (co_config co) of Some error \<Rightarrow> Inl (InvalidConfig error) | None \<Rightarrow> Inr ())"

definition probed_capabilities ::
  "'e coordinator \<Rightarrow> model_id \<Rightarrow> string \<Rightarrow> model_capabilities option \<times> cache_write list" where
  "probed_capabilities co m endpoint =
     (case co_cached co m endpoint of
        Inr (Some caps) \<Rightarrow> (Some caps, [])
      | Inl _ \<Rightarrow> (None, [])
      | Inr None \<Rightarrow>
          (case co_prober co of
             None \<Rightarrow> (None, [])
           | Some probe \<Rightarrow>
               (case probe endpoint m of
                  Inr caps \<Rightarrow> (Some caps, [(m, endpoint, caps)])
                | Inl _ \<Rightarrow> (None, []))))"

text \<open>Whether a stored profile belongs to the endpoint that will execute its model.\<close>

definition profile_active :: "routing_config \<Rightarrow> stored_profile \<Rightarrow> bool" where
  "profile_active cfg entry =
     (case cf_active_endpoints cfg of
        None \<Rightarrow> True
      | Some active \<Rightarrow>
          (case active (mp_id (sp_profile entry)) of
             None \<Rightarrow> False
           | Some endpoint \<Rightarrow>
               normalize_endpoint (sp_endpoint entry) = endpoint
               \<and> mp_location (sp_profile entry) = endpoint_location endpoint))"

fun collect_profiles :: "'e coordinator \<Rightarrow> stored_profile list \<Rightarrow> model_profile list \<times> cache_write list" where
  "collect_profiles co [] = ([], [])"
| "collect_profiles co (entry # es) =
     (if \<not> profile_active (co_config co) entry then collect_profiles co es
      else case probed_capabilities co (mp_id (sp_profile entry)) (sp_endpoint entry) of (probed, w) \<Rightarrow>
        let profile = (case probed of
                         Some caps \<Rightarrow> (sp_profile entry)\<lparr> mp_capabilities := caps \<rparr>
                       | None \<Rightarrow> sp_profile entry)
        in case collect_profiles co es of (ps, ws) \<Rightarrow> (profile # ps, w @ ws))"

definition eligible_profiles :: "'e coordinator \<Rightarrow> 'e seam_error + model_profile list \<times> cache_write list" where
  "eligible_profiles co =
     (case co_list co of Inl e \<Rightarrow> Inl (Store_Error e) | Inr stored \<Rightarrow> Inr (collect_profiles co stored))"

definition measured_price :: "model_location \<Rightarrow> f64 \<Rightarrow> f64 option" where
  "measured_price location price =
     (if location = Hosted \<and> f64_eq price (F_Fin 0) then None else Some price)"

record routing_selection =
  se_decision :: routing_decision
  se_node :: task_node
  se_price_per_1k_usd :: "f64 option"

fun routing_error_str :: "routing_error \<Rightarrow> string" where
  "routing_error_str (NoEligibleModel reason) = ''no eligible model for the task node ('' @ reason @ '')''"
| "routing_error_str (EscalationExhausted from) = ''escalation chain exhausted after '' @ from"
| "routing_error_str (NotInChain from) = ''model '' @ from @ '' is not in the escalation chain''"

definition seam_select ::
  "(string \<Rightarrow> bool) \<Rightarrow> 'e coordinator \<Rightarrow> run_request \<Rightarrow> 'e seam_error + routing_selection option \<times> cache_write list" where
  "seam_select alnum co q =
     res_bind (ensure_valid_config co) (\<lambda>_.
     if \<not> cf_enabled (co_config co) then Inr (None, [])
     else res_bind (eligible_profiles co) (\<lambda>(profiles, writes).
       if profiles = [] then Inl NoProfiles
       else
         let node = build_task_node alnum (co_config co) q;
             router = \<lparr> ro_models = profiles, ro_policy = cf_policy (co_config co) \<rparr>
         in case route router node of
             Inr decision \<Rightarrow>
               Inr (Some \<lparr> se_decision = decision, se_node = node,
                           se_price_per_1k_usd =
                             Option.bind (find (\<lambda>p. mp_id p = rd_model decision) profiles)
                               (\<lambda>p. measured_price (mp_location p) (pf_cost_per_1k_tokens_usd (mp_performance p))) \<rparr>,
                    writes)
           | Inl (NoEligibleModel reason) \<Rightarrow> Inl (Refused reason)
           | Inl other \<Rightarrow> Inl (Refused (routing_error_str other))))"

definition validate_pin ::
  "(string \<Rightarrow> bool) \<Rightarrow> 'e coordinator \<Rightarrow> run_request \<Rightarrow> model_id \<Rightarrow> 'e seam_error + unit \<times> cache_write list" where
  "validate_pin alnum co q pinned =
     res_bind (ensure_valid_config co) (\<lambda>_.
     if \<not> cf_enabled (co_config co) then Inr ((), [])
     else res_bind (eligible_profiles co) (\<lambda>(profiles, writes).
       let node = build_task_node alnum (co_config co) q;
           router = \<lparr> ro_models = profiles, ro_policy = cf_policy (co_config co) \<rparr>
       in if model_passes_classification router pinned node then Inr ((), writes)
          else Inl (Refused (''pinned model '' @ pinned @ '' may not process this run's data (classification ''
            @ classification_debug (tn_data_classification node)
            @ ''): it is a hosted/off-device model above the policy's ceiling, or it has no benchmarked profile ''
            @ ''proving it runs on-device '' @ [CHR 0xE2, CHR 0x80, CHR 0x94] @ '' run `codypendent models bench ''
            @ pinned @ ''` or pin a local model''))))"

definition seam_escalate ::
  "'e coordinator \<Rightarrow> model_id \<Rightarrow> string \<Rightarrow> task_node
    \<Rightarrow> 'e seam_error + (routing_decision \<times> routing_transition) \<times> cache_write list" where
  "seam_escalate co from why node =
     res_bind (eligible_profiles co) (\<lambda>(profiles, writes).
       let router = \<lparr> ro_models = profiles, ro_policy = cf_policy (co_config co) \<rparr> in
       case escalate router from why node of
         Inr (decision, transition) \<Rightarrow>
           Inr ((decision, transition\<lparr> rt_artifacts_preserved := Some True \<rparr>), writes)
       | Inl (EscalationExhausted f) \<Rightarrow> Inl (Refused (''escalation chain exhausted after '' @ f))
       | Inl other \<Rightarrow> Inl (Refused (routing_error_str other)))"

definition escalation_candidate :: "'e coordinator \<Rightarrow> model_id \<Rightarrow> model_id option" where
  "escalation_candidate co from =
     (let chain = rp_escalation_chain (cf_policy (co_config co)) in
      case rposition (\<lambda>m. m = from) chain of
        None \<Rightarrow> None
      | Some pos \<Rightarrow> if pos + 1 < length chain then Some (chain ! (pos + 1)) else None)"

subsection \<open>Classification\<close>

lemma effective_ge_ceiling: "scope_ceiling \<le> effective_classification scope_ceiling q"
  by (auto simp: effective_classification_def less_eq_data_classification_def split: option.splits)

lemma effective_ge_run:
  "rr_classification q = Some c \<Longrightarrow> c \<le> effective_classification scope_ceiling q"
  by (auto simp: effective_classification_def less_eq_data_classification_def)

lemma effective_ge_derived:
  "rr_classification q = None \<Longrightarrow> derive_run_classification None (rr_objective q) = Some c
    \<Longrightarrow> c \<le> effective_classification scope_ceiling q"
  by (auto simp: effective_classification_def less_eq_data_classification_def)

lemma Unknown_top [simp]: "Unknown \<le> c \<longleftrightarrow> c = Unknown"
  by (cases c) (auto simp: less_eq_data_classification_def)

subsection \<open>The pool\<close>

lemma collect_profiles_mem:
  assumes "p \<in> set (fst (collect_profiles co es))"
  shows "\<exists>e \<in> set es. profile_active (co_config co) e \<and> mp_id p = mp_id (sp_profile e)
    \<and> mp_location p = mp_location (sp_profile e) \<and> mp_performance p = mp_performance (sp_profile e)"
  using assms
proof (induction es)
  case (Cons e es)
  show ?case
  proof (cases "profile_active (co_config co) e")
    case True
    obtain probed w where pc: "probed_capabilities co (mp_id (sp_profile e)) (sp_endpoint e) = (probed, w)" by force
    obtain ps ws where rec: "collect_profiles co es = (ps, ws)" by force
    from Cons.prems True pc rec
    have "p = (case probed of Some caps \<Rightarrow> (sp_profile e)\<lparr> mp_capabilities := caps \<rparr> | None \<Rightarrow> sp_profile e)
        \<or> p \<in> set ps" by (simp add: Let_def)
    then show ?thesis
    proof
      assume "p = (case probed of Some caps \<Rightarrow> (sp_profile e)\<lparr> mp_capabilities := caps \<rparr> | None \<Rightarrow> sp_profile e)"
      with True show ?thesis by (intro bexI [of _ e]) (auto split: option.splits)
    next
      assume "p \<in> set ps"
      with Cons.IH rec show ?thesis by auto
    qed
  qed (use Cons in auto)
qed simp

lemma pool_location:
  assumes "eligible_profiles co = Inr (ps, ws)" "p \<in> set ps" "cf_active_endpoints (co_config co) = Some active"
  shows "\<exists>endpoint. active (mp_id p) = Some endpoint \<and> mp_location p = endpoint_location endpoint"
proof -
  from assms(1) obtain es where "collect_profiles co es = (ps, ws)"
    by (auto simp: eligible_profiles_def split: sum.splits)
  with collect_profiles_mem [of p co es] assms(2) obtain e where
    "profile_active (co_config co) e" "mp_id p = mp_id (sp_profile e)" "mp_location p = mp_location (sp_profile e)"
    by auto
  with assms(3) show ?thesis by (auto simp: profile_active_def split: option.splits)
qed

lemma seam_select_SomeD:
  assumes "seam_select alnum co q = Inr (Some sel, ws)"
  shows "\<exists>ps. eligible_profiles co = Inr (ps, ws) \<and> cf_load_error (co_config co) = None
    \<and> cf_enabled (co_config co) \<and> se_node sel = build_task_node alnum (co_config co) q
    \<and> route \<lparr> ro_models = ps, ro_policy = cf_policy (co_config co) \<rparr> (se_node sel) = Inr (se_decision sel)
    \<and> se_price_per_1k_usd sel = Option.bind (find (\<lambda>p. mp_id p = rd_model (se_decision sel)) ps)
        (\<lambda>p. measured_price (mp_location p) (pf_cost_per_1k_tokens_usd (mp_performance p)))"
  using assms
  by (auto simp: seam_select_def ensure_valid_config_def res_bind_Inr_iff Let_def
      split: if_splits option.splits sum.splits routing_error.splits)

lemma validate_pinD:
  assumes "validate_pin alnum co q m = Inr ((), ws)" "cf_enabled (co_config co)"
  shows "\<exists>ps p. eligible_profiles co = Inr (ps, ws) \<and> p \<in> set ps \<and> mp_id p = m
    \<and> passes_classification \<lparr> ro_models = ps, ro_policy = cf_policy (co_config co) \<rparr> p
        (build_task_node alnum (co_config co) q)"
  using assms
  by (auto simp: validate_pin_def ensure_valid_config_def res_bind_Inr_iff Let_def model_passes_classification_def
      split: if_splits option.splits) (metis find_modelD router.select_convs(1))

text \<open>
  C31: With routing enabled from a configuration file, data never leaves the device above the declared
  ceiling. A model that \<open>select\<close> chooses, or whose pin \<open>validate_pin\<close> accepts, is configured in
  \<open>models.toml\<close>; and when the endpoint configured there is a well-formed URL whose host is an IPv4 address or a name, that
  host is a loopback or private address or the name localhost, or the run's effective classification is
  known and not above the policy's ceiling. The effective classification is never below the one the
  operator declared for the scope, the one the caller gave for the run, or the one derived from the
  objective when the caller gave none; so undeclared data stays on the device.
\<close>

theorem seam_never_leaks:
  assumes "cf_enabled (co_config co)" "cf_active_endpoints (co_config co) = Some active"
    and "(\<exists>sel. seam_select alnum co q = Inr (Some sel, ws) \<and> rd_model (se_decision sel) = m)
         \<or> validate_pin alnum co q m = Inr ((), ws)"
  shows "\<exists>endpoint cls. active m = Some endpoint
    \<and> (\<forall>u. url_ok u \<and> endpoint = url_text u \<longrightarrow>
         on_device (url_host u) \<or> cls \<noteq> Unknown \<and> cls \<le> rp_max_off_device (cf_policy (co_config co)))
    \<and> cf_data_classification (co_config co) \<le> cls
    \<and> (case rr_classification q of
         Some c \<Rightarrow> c \<le> cls
       | None \<Rightarrow> (case derive_run_classification None (rr_objective q) of Some c \<Rightarrow> c \<le> cls | None \<Rightarrow> True))"
proof -
  let ?node = "build_task_node alnum (co_config co) q"
  let ?cls = "tn_data_classification ?node"
  have "\<exists>ps p. eligible_profiles co = Inr (ps, ws) \<and> p \<in> set ps \<and> mp_id p = m
      \<and> passes_classification \<lparr> ro_models = ps, ro_policy = cf_policy (co_config co) \<rparr> p ?node"
    using assms(3)
  proof
    assume "\<exists>sel. seam_select alnum co q = Inr (Some sel, ws) \<and> rd_model (se_decision sel) = m"
    then obtain sel where sel: "seam_select alnum co q = Inr (Some sel, ws)" "rd_model (se_decision sel) = m" by blast
    from seam_select_SomeD [OF sel(1)] obtain ps where ps: "eligible_profiles co = Inr (ps, ws)"
      "select_arm Arm_Router \<lparr> ro_models = ps, ro_policy = cf_policy (co_config co) \<rparr> ?node = Inr (se_decision sel)" by auto
    from chosen_eligible [OF ps(2)] obtain p where
      p: "p \<in> set (eligible \<lparr> ro_models = ps, ro_policy = cf_policy (co_config co) \<rparr> ?node)"
      "mp_id p = rd_model (se_decision sel)" by (metis decide_def routing_decision.select_convs(1))
    then have "p \<in> set ps" "passes_classification \<lparr> ro_models = ps, ro_policy = cf_policy (co_config co) \<rparr> p ?node"
      by (auto simp: eligible_def dest: eligibleD(1))
    with ps(1) p(2) sel(2) show ?thesis by blast
  qed (use validate_pinD assms(1) in blast)
  then obtain ps p where p: "eligible_profiles co = Inr (ps, ws)" "p \<in> set ps" "mp_id p = m"
    and pass: "is_local p \<or> ?cls \<noteq> Unknown \<and> ?cls \<le> rp_max_off_device (cf_policy (co_config co))"
    by (auto simp: passes_classification_def hosted_allows_iff)
  from pool_location [OF p(1,2) assms(2)] p(3) obtain endpoint where
    "active m = Some endpoint" "mp_location p = endpoint_location endpoint" by auto
  then show ?thesis
    using pass effective_ge_ceiling [of "cf_data_classification (co_config co)" q]
      effective_ge_run [of q _ "cf_data_classification (co_config co)"]
      effective_ge_derived [of q _ "cf_data_classification (co_config co)"]
    by (intro exI [of _ endpoint] exI [of _ ?cls])
      (auto simp: build_task_node_def is_local_def endpoint_location_exact split: option.splits)
qed

text \<open>
  The seam is off only when it is switched off: \<open>select\<close> hands a run back to the resolver that
  ignores classifications exactly when the configuration loaded and has routing disabled, and a pin
  is then accepted unseen. A configuration file that is unreadable or does not parse makes both refuse.
\<close>

theorem seam_off_iff:
  "(\<exists>ws. seam_select alnum co q = Inr (None, ws)) \<longleftrightarrow>
     cf_load_error (co_config co) = None \<and> \<not> cf_enabled (co_config co)"
  by (auto simp: seam_select_def ensure_valid_config_def res_bind_Inr_iff Let_def
      split: if_splits option.splits sum.splits routing_error.splits)

lemma load_config_error:
  "cf_load_error (load_config path file toml models) \<noteq> None \<longleftrightarrow>
     (case file of File_NotFound \<Rightarrow> False | File_Error _ \<Rightarrow> True | File_Text t \<Rightarrow> isl (toml t))"
  by (auto simp: load_config_def default_config_def invalid_config_def Let_def split: file_read.splits sum.splits)

lemma malformed_config_refuses:
  "\<lbrakk> co_config co = load_config path (File_Text t) toml models; toml t = Inl e \<rbrakk> \<Longrightarrow>
     seam_select alnum co q = Inl (InvalidConfig (''invalid '' @ path @ '': '' @ e))
     \<and> validate_pin alnum co q m = Inl (InvalidConfig (''invalid '' @ path @ '': '' @ e))"
  by (simp add: seam_select_def validate_pin_def ensure_valid_config_def load_config_def invalid_config_def Let_def)

subsection \<open>Two profiles of one model\<close>

text \<open>
  Profiles are stored under the endpoint as it was written, and compared after trailing slashes are
  dropped: one model can have two profiles in the pool. The decision may rest on the second, while the
  price reported with it is looked up in the first.
\<close>

definition slash_profiles :: "stored_profile list" where
  "slash_profiles =
     [\<lparr> sp_endpoint = ''https://models.example/v1/'', sp_profile = example_model ''m'' Hosted 1 0 \<rparr>,
      \<lparr> sp_endpoint = ''https://models.example/v1'', sp_profile = example_model ''m'' Hosted 1 (1 / 64) \<rparr>]"

definition slash_config :: routing_config where
  "slash_config = default_config\<lparr> cf_enabled := True, cf_data_classification := Internal,
     cf_active_endpoints := Some [''m'' \<mapsto> ''https://models.example/v1''] \<rparr>"

definition slash_coordinator :: "unit coordinator" where
  "slash_coordinator = \<lparr> co_config = slash_config, co_list = Inr slash_profiles,
     co_cached = (\<lambda>_ _. Inr None), co_prober = None \<rparr>"

definition slash_request :: run_request where
  "slash_request = \<lparr> rr_mode = Ask, rr_node_kind = ''agent'', rr_objective = ''summarize the module'',
     rr_input_tokens = 256, rr_classification = None \<rparr>"

lemma slash_normalized:
  "normalize_endpoint ''https://models.example/v1/'' = ''https://models.example/v1''"
  "normalize_endpoint ''https://models.example/v1'' = ''https://models.example/v1''"
  by code_simp+

lemma slash_hosted: "endpoint_location ''https://models.example/v1'' = Hosted"
proof -
  have "host_from_base_url ''https://models.example/v1'' = Some ''models.example''" by code_simp
  moreover have "\<not> list_all addr_char ''models.example''" by code_simp
  moreover have "to_ascii_lowercase ''models.example'' \<noteq> ''localhost''" by code_simp
  ultimately show ?thesis
    using local_host_chars [of "''https://models.example/v1''"]
    by (cases "endpoint_location ''https://models.example/v1''") auto
qed

lemma slash_pool:
  "eligible_profiles slash_coordinator = Inr ([example_model ''m'' Hosted 1 0, example_model ''m'' Hosted 1 (1 / 64)], [])"
proof -
  have "profile_active slash_config e" if "e \<in> set slash_profiles" for e
    using that by (auto simp: profile_active_def slash_config_def slash_profiles_def default_config_def
        example_model_id slash_normalized slash_hosted) (simp_all add: example_model_def)
  then show ?thesis
    by (simp add: eligible_profiles_def slash_coordinator_def probed_capabilities_def slash_profiles_def Let_def)
qed

definition slash_router :: router where
  "slash_router = \<lparr> ro_models = [example_model ''m'' Hosted 1 0, example_model ''m'' Hosted 1 (1 / 64)],
     ro_policy = balanced \<rparr>"

definition slash_node :: "(string \<Rightarrow> bool) \<Rightarrow> task_node" where
  "slash_node alnum = build_task_node alnum slash_config slash_request"

lemma slash_node_class: "tn_data_classification (slash_node alnum) = Internal"
proof -
  have "derive_run_classification None ''summarize the module'' = None" by code_simp
  then show ?thesis
    by (simp add: slash_node_def build_task_node_def effective_classification_def slash_request_def slash_config_def)
qed

lemma slash_eligible: "eligible slash_router (slash_node alnum) = [example_model ''m'' Hosted 1 (1 / 64)]"
proof -
  have allowed: "hosted_allows balanced Internal" by (simp add: hosted_allows_def balanced_def allowed_off_device_def)
  have "\<not> is_eligible slash_router (slash_node alnum) (example_model ''m'' Hosted 1 0)"
    by (simp add: is_eligible_def example_model_def is_local_def f64_eq_def)
  moreover have "is_eligible slash_router (slash_node alnum) (example_model ''m'' Hosted 1 (1 / 64))"
    by (simp add: is_eligible_def passes_classification_def slash_node_class slash_router_def allowed example_model_def
        f64_lt_def f64_eq_def is_local_def satisfies_def example_caps_def)
      (simp add: slash_node_def build_task_node_def mode_requirements_def total_tokens_def slash_request_def
        estimated_output_tokens_def can_call_tools_def)
  ultimately show ?thesis by (simp add: eligible_def) (simp add: slash_router_def)
qed

lemma slash_routes:
  "\<exists>reason. route slash_router (slash_node alnum)
    = Inr (decide slash_router (example_model ''m'' Hosted 1 (1 / 64)) (slash_node alnum) reason)"
proof -
  have "eligible slash_router (slash_node alnum) \<noteq> []" by (simp add: slash_eligible)
  from route_some [OF this] obtain d where d: "select_arm Arm_Router slash_router (slash_node alnum) = Inr d" by auto
  from chosen_eligible [OF this] d show ?thesis by (auto simp: slash_eligible)
qed

lemma slash_selects:
  "\<exists>sel. seam_select alnum slash_coordinator slash_request = Inr (Some sel, [])
    \<and> se_price_per_1k_usd sel = None
    \<and> (\<exists>reason. se_decision sel
        = decide slash_router (example_model ''m'' Hosted 1 (1 / 64)) (slash_node alnum) reason)"
proof -
  obtain reason where r: "route slash_router (slash_node alnum)
      = Inr (decide slash_router (example_model ''m'' Hosted 1 (1 / 64)) (slash_node alnum) reason)"
    using slash_routes by blast
  have cfg: "co_config slash_coordinator = slash_config" "cf_load_error slash_config = None"
    "cf_enabled slash_config" "cf_policy slash_config = balanced"
    by (simp_all add: slash_coordinator_def slash_config_def default_config_def)
  have price: "measured_price (mp_location (example_model ''m'' Hosted 1 0))
      (pf_cost_per_1k_tokens_usd (mp_performance (example_model ''m'' Hosted 1 0))) = None"
    by (simp add: measured_price_def example_model_def f64_eq_def)
  show ?thesis
    using r by (simp add: seam_select_def ensure_valid_config_def cfg slash_pool price decide_def example_model_id Let_def
        flip: slash_router_def slash_node_def)
qed

text \<open>
  A paid model can be selected and reported without a price. Here a model was benchmarked twice, at
  one endpoint written with and without a trailing slash, and only the second time with a price: the
  router chooses it by that price, and the selection says its price was not measured, so its spending
  is not charged against a cost ceiling.
\<close>

lemma selected_price_lost:
  "\<exists>sel. seam_select alnum slash_coordinator slash_request = Inr (Some sel, [])
    \<and> se_price_per_1k_usd sel = None
    \<and> rd_expected_cost_usd (se_decision sel)
        = expected_cost_usd (example_model ''m'' Hosted 1 (1 / 64)) (total_tokens (slash_node alnum))
    \<and> f64_pos (pf_cost_per_1k_tokens_usd (mp_performance (example_model ''m'' Hosted 1 (1 / 64))))"
  using slash_selects [of alnum] by (auto simp: decide_def example_model_def)

definition slash_url :: endpoint_url where
  "slash_url = \<lparr> url_scheme = ''https'', url_host = Host_Name ''models.example'', url_port = None, url_path = ''/v1'' \<rparr>"

theorem seam_never_leaks_witness:
  "\<exists>cls. cls \<noteq> Unknown \<and> cls \<le> rp_max_off_device (cf_policy (co_config slash_coordinator))
    \<and> cf_data_classification (co_config slash_coordinator) \<le> cls"
proof -
  obtain sel where "seam_select (\<lambda>_. True) slash_coordinator slash_request = Inr (Some sel, [])"
    "rd_model (se_decision sel) = ''m''"
    using slash_selects [of "\<lambda>_. True"] by (auto simp: decide_def example_model_id)
  then have sel: "(\<exists>sel. seam_select (\<lambda>_. True) slash_coordinator slash_request = Inr (Some sel, [])
      \<and> rd_model (se_decision sel) = ''m'') \<or> validate_pin (\<lambda>_. True) slash_coordinator slash_request ''m'' = Inr ((), [])"
    by blast
  have "cf_enabled (co_config slash_coordinator)"
    "cf_active_endpoints (co_config slash_coordinator) = Some [''m'' \<mapsto> ''https://models.example/v1'']"
    by (simp_all add: slash_coordinator_def slash_config_def)
  note leaks = seam_never_leaks [OF this sel]
  have "url_ok slash_url" "url_text slash_url = ''https://models.example/v1''" "\<not> on_device (url_host slash_url)" by code_simp+
  with leaks show ?thesis by auto
qed

end
