(* ===== verification/Sanitize.thy ===== *)
theory Sanitize
  imports Prelude "HOL-Library.Sublist"
begin

text \<open>
  Sanitization of untrusted output (\<open>crates/sandbox/src/sanitize.rs\<close>). A string is the list of its code
  points, and its length the number of bytes of their UTF-8 encoding. The byte counters are unbounded: a
  string has fewer than \<open>2 ^ 63\<close> bytes, so only the saturating product of the scan budget can reach the
  bound of \<open>usize\<close> (64 bits).
\<close>

type_synonym code_point = nat
type_synonym ustring = "code_point list"

definition len_utf8 :: "code_point \<Rightarrow> nat" where
  "len_utf8 c = (if c < 0x80 then 1 else if c < 0x800 then 2 else if c < 0x10000 then 3 else 4)"

definition ulen :: "ustring \<Rightarrow> nat" where
  "ulen s = sum_list (map len_utf8 s)"

definition INPUT_SCAN_FACTOR :: nat where
  "INPUT_SCAN_FACTOR = 4"

definition MIN_INPUT_SCAN_BYTES :: nat where
  "MIN_INPUT_SCAN_BYTES = 64 * 1024"

definition MAX_ESCAPE_SCAN :: nat where
  "MAX_ESCAPE_SCAN = 256"

definition is_bidi_override :: "code_point \<Rightarrow> bool" where
  "is_bidi_override c \<longleftrightarrow> 0x202A \<le> c \<and> c \<le> 0x202E \<or> 0x2066 \<le> c \<and> c \<le> 0x2069"

definition is_zero_width :: "code_point \<Rightarrow> bool" where
  "is_zero_width c \<longleftrightarrow> 0x200B \<le> c \<and> c \<le> 0x200D \<or> c = 0x2060 \<or> c = 0xFEFF"

record sanitized =
  sz_origin :: ustring
  sz_text :: ustring
  sz_truncated :: bool
  sz_stripped_controls :: nat

definition as_evidence_block :: "sanitized \<Rightarrow> ustring" where
  "as_evidence_block z =
     map of_char ''[untrusted output from '' @ sz_origin z @ map of_char '']'' @ [0x0A] @ sz_text z
     @ (if sz_truncated z then [0x0A, 0x5B, 0x2026] @ map of_char ''truncated: output exceeded the size cap]'' else [])"

subsection \<open>Escape sequences\<close>

text \<open>
  Each scanner returns the characters left, how many it stripped and how many bytes it counted. \<open>csi_scan\<close>
  and \<open>osc_scan\<close> are the loops after \<open>[\<close> and \<open>]\<close>, \<open>n\<close> being the characters scanned so far.
\<close>

fun csi_scan :: "nat \<Rightarrow> ustring \<Rightarrow> ustring \<times> nat \<times> nat" where
  "csi_scan n [] = ([], 0, 0)"
| "csi_scan n (c # cs) =
     (if 0x40 \<le> c \<and> c \<le> 0x7E \<or> MAX_ESCAPE_SCAN \<le> n + 1 then (cs, 1, len_utf8 c)
      else case csi_scan (n + 1) cs of (r, k, b) \<Rightarrow> (r, k + 1, b + len_utf8 c))"

fun osc_scan :: "nat \<Rightarrow> ustring \<Rightarrow> ustring \<times> nat \<times> nat" where
  "osc_scan n [] = ([], 0, 0)"
| "osc_scan n (c # cs) =
     (if c = 0x07 \<or> MAX_ESCAPE_SCAN \<le> n + 1 then (cs, 1, len_utf8 c)
      else if c = 0x1B then
        (case cs of d # ds \<Rightarrow> if d = 0x5C then (ds, 2, len_utf8 c + 1) else (cs, 1, len_utf8 c) | [] \<Rightarrow> (cs, 1, len_utf8 c))
      else case osc_scan (n + 1) cs of (r, k, b) \<Rightarrow> (r, k + 1, b + len_utf8 c))"

definition strip_escape_sequence :: "ustring \<Rightarrow> ustring \<times> nat \<times> nat" where
  "strip_escape_sequence s =
     (case s of
        [] \<Rightarrow> ([], 0, 0)
      | c # cs \<Rightarrow>
          if c = 0x5B then (case csi_scan 1 cs of (r, k, b) \<Rightarrow> (r, k + 1, b + 1))
          else if c = 0x5D then (case osc_scan 1 cs of (r, k, b) \<Rightarrow> (r, k + 1, b + 1))
          else (cs, 1, 1))"

lemma csi_scan_suffix: "csi_scan n s = (r, k, b) \<Longrightarrow> suffix r s"
  by (induction s arbitrary: n r k b) (auto split: if_splits prod.splits intro: suffix_ConsI)

lemma osc_scan_suffix: "osc_scan n s = (r, k, b) \<Longrightarrow> suffix r s"
  by (induction s arbitrary: n r k b) (auto split: if_splits prod.splits list.splits intro: suffix_ConsI)

lemma strip_escape_suffix: "strip_escape_sequence s = (r, k, b) \<Longrightarrow> suffix r s"
  by (auto simp: strip_escape_sequence_def split: list.splits if_splits prod.splits
      intro: suffix_ConsI dest: csi_scan_suffix osc_scan_suffix)

subsection \<open>The loop\<close>

text \<open>A character the loop drops on its own.\<close>

definition drops :: "code_point \<Rightarrow> bool" where
  "drops c \<longleftrightarrow> c \<noteq> 0x0A \<and> c \<noteq> 0x09 \<and> (c < 0x20 \<or> c = 0x7F \<or> is_bidi_override c \<or> is_zero_width c)"

text \<open>
  The state is the text kept so far, the characters stripped and the bytes consumed; the result adds whether
  the loop stopped with input left.
\<close>

function sanitize_loop :: "nat \<Rightarrow> nat \<Rightarrow> ustring \<Rightarrow> nat \<Rightarrow> nat \<Rightarrow> ustring \<Rightarrow> ustring \<times> nat \<times> bool" where
  "sanitize_loop maxb budget acc stripped consumed [] = (acc, stripped, False)"
| "sanitize_loop maxb budget acc stripped consumed (c # cs) =
     (if maxb \<le> ulen acc \<or> budget \<le> consumed then (acc, stripped, True)
      else if c = 0x1B then
        sanitize_loop maxb budget acc (stripped + 1 + fst (snd (strip_escape_sequence cs)))
          (consumed + len_utf8 c + snd (snd (strip_escape_sequence cs))) (fst (strip_escape_sequence cs))
      else if drops c then sanitize_loop maxb budget acc (stripped + 1) (consumed + len_utf8 c) cs
      else sanitize_loop maxb budget (acc @ [c]) stripped (consumed + len_utf8 c) cs)"
  by pat_completeness auto
termination
proof (relation "measure (\<lambda>(_, _, _, _, _, s). length s)")
  fix maxb budget :: nat and acc :: ustring and stripped consumed :: nat and c :: nat and cs :: ustring
  obtain r k b where "strip_escape_sequence cs = (r, k, b)" by (metis prod_cases3)
  then show "((maxb, budget, acc, stripped + 1 + fst (snd (strip_escape_sequence cs)),
      consumed + len_utf8 c + snd (snd (strip_escape_sequence cs)), fst (strip_escape_sequence cs)),
      maxb, budget, acc, stripped, consumed, c # cs) \<in> measure (\<lambda>(_, _, _, _, _, s). length s)"
    using suffix_length_le[OF strip_escape_suffix] by fastforce
qed auto

text \<open>The largest prefix of at most \<open>n\<close> bytes: truncation at a character boundary.\<close>

fun truncate_bytes :: "nat \<Rightarrow> ustring \<Rightarrow> ustring" where
  "truncate_bytes n [] = []"
| "truncate_bytes n (c # cs) = (if len_utf8 c \<le> n then c # truncate_bytes (n - len_utf8 c) cs else [])"

definition sanitize_untrusted :: "ustring \<Rightarrow> ustring \<Rightarrow> nat \<Rightarrow> sanitized" where
  "sanitize_untrusted origin raw max_bytes =
     (let budget = max (min (max_bytes * INPUT_SCAN_FACTOR) (2 ^ 64 - 1)) MIN_INPUT_SCAN_BYTES;
          (acc, stripped, truncated) = sanitize_loop max_bytes budget [] 0 0 raw
      in if max_bytes < ulen acc
         then \<lparr> sz_origin = origin, sz_text = truncate_bytes max_bytes acc, sz_truncated = True,
                sz_stripped_controls = stripped \<rparr>
         else \<lparr> sz_origin = origin, sz_text = acc, sz_truncated = truncated, sz_stripped_controls = stripped \<rparr>)"

subsection \<open>What is kept\<close>

text \<open>A character that may stay in sanitized text.\<close>

definition shown :: "code_point \<Rightarrow> bool" where
  "shown c \<longleftrightarrow> c = 0x0A \<or> c = 0x09 \<or> (0x20 \<le> c \<and> c \<noteq> 0x7F \<and> \<not> is_bidi_override c \<and> \<not> is_zero_width c)"

lemma shown_iff: "shown c \<longleftrightarrow> c \<noteq> 0x1B \<and> \<not> drops c"
  by (auto simp: shown_def drops_def is_bidi_override_def is_zero_width_def)

lemma ulen_append [simp]: "ulen (xs @ ys) = ulen xs + ulen ys"
  by (simp add: ulen_def)

lemma ulen_simps [simp]: "ulen [] = 0" "ulen (c # cs) = len_utf8 c + ulen cs"
  by (simp_all add: ulen_def)

lemma sanitize_loop_kept:
  "sanitize_loop maxb budget acc stripped consumed s = (t, k, d) \<Longrightarrow>
     \<exists>kept. t = acc @ kept \<and> subseq kept s \<and> list_all shown kept"
proof (induction maxb budget acc stripped consumed s arbitrary: t k d rule: sanitize_loop.induct)
  case (2 maxb budget acc stripped consumed c cs)
  consider (stop) "maxb \<le> ulen acc \<or> budget \<le> consumed"
    | (esc) "\<not> (maxb \<le> ulen acc \<or> budget \<le> consumed)" "c = 0x1B"
    | (drop) "\<not> (maxb \<le> ulen acc \<or> budget \<le> consumed)" "c \<noteq> 0x1B" "drops c"
    | (keep) "\<not> (maxb \<le> ulen acc \<or> budget \<le> consumed)" "c \<noteq> 0x1B" "\<not> drops c" by blast
  then show ?case
  proof cases
    case esc
    obtain r j b where es: "strip_escape_sequence cs = (r, j, b)" by (metis prod_cases3)
    then have "subseq r (c # cs)"
      by (meson strip_escape_suffix suffix_ConsI suffix_imp_subseq)
    moreover obtain kept where "t = acc @ kept" "subseq kept r" "list_all shown kept"
      using 2(1)[OF esc(1,2)] 2(4) esc es by auto
    ultimately show ?thesis by (blast intro: subseq_order.trans)
  next
    case drop
    then show ?thesis using 2(2)[OF drop] 2(4) by auto
  next
    case keep
    with 2(3)[OF keep] 2(4) obtain kept where "t = (acc @ [c]) @ kept" "subseq kept cs" "list_all shown kept" by auto
    moreover have "shown c" using keep by (simp add: shown_iff)
    ultimately show ?thesis by (intro exI[of _ "c # kept"]) auto
  qed (use 2 in auto)
qed simp

lemma truncate_bytes_prefix: "prefix (truncate_bytes n s) s"
  by (induction n s rule: truncate_bytes.induct) auto

lemma truncate_bytes_len: "ulen (truncate_bytes n s) \<le> n"
  by (induction n s rule: truncate_bytes.induct) auto

text \<open>Text of shown characters that fits the budgets passes through the loop.\<close>

lemma sanitize_loop_id:
  "list_all shown s \<Longrightarrow> ulen acc + ulen s \<le> maxb \<Longrightarrow> consumed + ulen s \<le> budget \<Longrightarrow>
     sanitize_loop maxb budget acc stripped consumed s = (acc @ s, stripped, False)"
proof (induction s arbitrary: acc consumed)
  case (Cons c cs)
  have "1 \<le> len_utf8 c" by (simp add: len_utf8_def)
  then have "\<not> maxb \<le> ulen acc" "\<not> budget \<le> consumed" using Cons.prems(2,3) unfolding ulen_simps by linarith+
  moreover have "c \<noteq> 0x1B" "\<not> drops c" using Cons.prems(1) by (simp_all add: shown_iff)
  ultimately show ?case using Cons.IH[of "acc @ [c]" "consumed + len_utf8 c"] Cons.prems by simp
qed simp

lemma sanitize_clean:
  assumes "list_all shown raw" and "ulen raw \<le> n" and "n < 2 ^ 64"
  shows "sanitize_untrusted origin raw n
    = \<lparr> sz_origin = origin, sz_text = raw, sz_truncated = False, sz_stripped_controls = 0 \<rparr>"
proof -
  let ?budget = "max (min (n * INPUT_SCAN_FACTOR) (2 ^ 64 - 1)) MIN_INPUT_SCAN_BYTES"
  have "n \<le> ?budget" using assms(3) by (simp add: INPUT_SCAN_FACTOR_def le_max_iff_disj)
  then have "sanitize_loop n ?budget [] 0 0 raw = (raw, 0, False)"
    using sanitize_loop_id[OF assms(1), of "[]" n 0 ?budget 0] assms(2) by simp
  then show ?thesis unfolding sanitize_untrusted_def Let_def using assms(2) by simp
qed

lemma sanitize_text:
  "list_all shown (sz_text (sanitize_untrusted origin raw n)) \<and> subseq (sz_text (sanitize_untrusted origin raw n)) raw
    \<and> ulen (sz_text (sanitize_untrusted origin raw n)) \<le> n"
proof -
  define budget where "budget = max (min (n * INPUT_SCAN_FACTOR) (2 ^ 64 - 1)) MIN_INPUT_SCAN_BYTES"
  obtain t k d where loop: "sanitize_loop n budget [] 0 0 raw = (t, k, d)" by (metis prod_cases3)
  then have kept: "subseq t raw" "list_all shown t" using sanitize_loop_kept by fastforce+
  have "sz_text (sanitize_untrusted origin raw n) = (if n < ulen t then truncate_bytes n t else t)"
    unfolding sanitize_untrusted_def budget_def[symmetric] Let_def by (simp add: loop)
  moreover have "subseq (truncate_bytes n t) t" using truncate_bytes_prefix by (rule prefix_imp_subseq)
  moreover have "list_all shown (truncate_bytes n t)"
    using kept(2) set_mono_prefix[OF truncate_bytes_prefix[of n t]] by (auto simp: list_all_iff)
  ultimately show ?thesis using kept truncate_bytes_len by (auto intro: subseq_order.trans)
qed

subsection \<open>Properties\<close>

text \<open>
  C29: Sanitized output is safe, bounded and stable: it keeps only newlines, tabs and characters that are neither
  C0 controls, DEL, bidi overrides nor zero width; it is a subsequence of the raw output of at most
  \<open>max_bytes\<close> bytes; and sanitizing it again changes nothing.
\<close>
theorem sanitized_output:
  assumes "n < 2 ^ 64"
  shows "let z = sanitize_untrusted origin raw n in
           list_all shown (sz_text z) \<and> subseq (sz_text z) raw \<and> ulen (sz_text z) \<le> n
           \<and> sanitize_untrusted origin (sz_text z) n
             = \<lparr> sz_origin = origin, sz_text = sz_text z, sz_truncated = False, sz_stripped_controls = 0 \<rparr>"
  using sanitize_text[of origin raw n] sanitize_clean[OF _ _ assms] by (simp add: Let_def)

lemmas sanitize_example_simps = sanitize_untrusted_def Let_def strip_escape_sequence_def drops_def len_utf8_def
  is_bidi_override_def is_zero_width_def INPUT_SCAN_FACTOR_def MIN_INPUT_SCAN_BYTES_def MAX_ESCAPE_SCAN_def

theorem sanitized_output_witness:
  "let z = sanitize_untrusted [0x70] [0x1B, 0x5B, 0x33, 0x31, 0x6D, 0x68, 0x69] 8 in
     sz_text z = [0x68, 0x69] \<and> list_all shown (sz_text z)"
proof -
  have "sz_text (sanitize_untrusted [0x70] [0x1B, 0x5B, 0x33, 0x31, 0x6D, 0x68, 0x69] 8) = [0x68, 0x69]"
    by (simp add: sanitize_example_simps)
  then show ?thesis
    using sanitized_output[of 8 "[0x70]" "[0x1B, 0x5B, 0x33, 0x31, 0x6D, 0x68, 0x69]"] unfolding Let_def by simp
qed

text \<open>The eight-bit control sequence introducer U+009B and its sequence are kept.\<close>

lemma c1_sequence_kept: "sz_text (sanitize_untrusted [] [0x9B, 0x33, 0x31, 0x6D] 8) = [0x9B, 0x33, 0x31, 0x6D]"
  by (simp add: sanitize_example_simps)

end
