(* ===== verification/Plugin_Manifest.thy ===== *)
theory Plugin_Manifest
  imports Endpoint
begin

text \<open>
  Plugin manifests (\<open>crates/sandbox/src/manifest.rs\<close>): the parsed shape of \<open>plugin.toml\<close> and its
  validation. The TOML parser and the semver matcher are third-party code and are parameters:
  \<open>toml\<close> gives a manifest or an error text, and \<open>semver requirement version\<close> is \<open>None\<close> when the
  requirement does not parse and otherwise tells whether the version matches it.
\<close>

subsection \<open>Declarations\<close>

datatype plugin_kind = NativeProcess | WasmComponent | McpRemote | UiComponent | ThemePack

fun plugin_kind_str :: "plugin_kind \<Rightarrow> string" where
  "plugin_kind_str NativeProcess = ''native-process''"
| "plugin_kind_str WasmComponent = ''wasm-component''"
| "plugin_kind_str McpRemote = ''mcp-remote''"
| "plugin_kind_str UiComponent = ''ui-component''"
| "plugin_kind_str ThemePack = ''theme-pack''"

datatype ui_capability =
    ArtifactRead | ContextRead | RunRead | WorkflowRead | CommandInvoke | ClipboardRead | ClipboardWrite
  | OpenExternal | Notifications | InputCapture | Webview

fun ui_capability_str :: "ui_capability \<Rightarrow> string" where
  "ui_capability_str ArtifactRead = ''artifact-read''"
| "ui_capability_str ContextRead = ''context-read''"
| "ui_capability_str RunRead = ''run-read''"
| "ui_capability_str WorkflowRead = ''workflow-read''"
| "ui_capability_str CommandInvoke = ''command-invoke''"
| "ui_capability_str ClipboardRead = ''clipboard-read''"
| "ui_capability_str ClipboardWrite = ''clipboard-write''"
| "ui_capability_str OpenExternal = ''open-external''"
| "ui_capability_str Notifications = ''notifications''"
| "ui_capability_str InputCapture = ''input-capture''"
| "ui_capability_str Webview = ''webview''"

definition is_supported_public_v1 :: "ui_capability \<Rightarrow> bool" where
  "is_supported_public_v1 c \<longleftrightarrow> c \<in> {ArtifactRead, ContextRead, RunRead, WorkflowRead, CommandInvoke}"

datatype ui_target = T_Shared | T_Terminal | T_Web

fun ui_target_str :: "ui_target \<Rightarrow> string" where
  "ui_target_str T_Shared = ''shared''"
| "ui_target_str T_Terminal = ''terminal''"
| "ui_target_str T_Web = ''web''"

datatype ui_point =
    Sidebar | Panel | StatusItem | Command | CommandPalette | ComposerAccessory | MessageRenderer
  | ToolRenderer | ArtifactRenderer | WorkflowInspector | BlackboardRenderer | DocumentBlock
  | CodeGraphNode | SettingsSection | SetupStep | Form | Wizard | DashboardCard | TraceSpanRenderer
  | ContextMenu | QuickPick | Notification | ApprovalFrame | ApprovalActions | SecretEntry
  | PolicyState | TerminalLifecycle

fun ui_point_str :: "ui_point \<Rightarrow> string" where
  "ui_point_str Sidebar = ''sidebar''"
| "ui_point_str Panel = ''panel''"
| "ui_point_str StatusItem = ''status-item''"
| "ui_point_str Command = ''command''"
| "ui_point_str CommandPalette = ''command-palette''"
| "ui_point_str ComposerAccessory = ''composer-accessory''"
| "ui_point_str MessageRenderer = ''message-renderer''"
| "ui_point_str ToolRenderer = ''tool-renderer''"
| "ui_point_str ArtifactRenderer = ''artifact-renderer''"
| "ui_point_str WorkflowInspector = ''workflow-inspector''"
| "ui_point_str BlackboardRenderer = ''blackboard-renderer''"
| "ui_point_str DocumentBlock = ''document-block''"
| "ui_point_str CodeGraphNode = ''code-graph-node''"
| "ui_point_str SettingsSection = ''settings-section''"
| "ui_point_str SetupStep = ''setup-step''"
| "ui_point_str Form = ''form''"
| "ui_point_str Wizard = ''wizard''"
| "ui_point_str DashboardCard = ''dashboard-card''"
| "ui_point_str TraceSpanRenderer = ''trace-span-renderer''"
| "ui_point_str ContextMenu = ''context-menu''"
| "ui_point_str QuickPick = ''quick-pick''"
| "ui_point_str Notification = ''notification''"
| "ui_point_str ApprovalFrame = ''approval-frame''"
| "ui_point_str ApprovalActions = ''approval-actions''"
| "ui_point_str SecretEntry = ''secret-entry''"
| "ui_point_str PolicyState = ''policy-state''"
| "ui_point_str TerminalLifecycle = ''terminal-lifecycle''"

definition is_core_only :: "ui_point \<Rightarrow> bool" where
  "is_core_only p \<longleftrightarrow> p \<in> {ApprovalFrame, ApprovalActions, SecretEntry, PolicyState, TerminalLifecycle}"

record ui_contribution =
  uc_id :: string
  uc_point :: ui_point
  uc_renderer :: string
  uc_targets :: "ui_target list"
  uc_fallback_renderer :: "string option"

record ui_spec =
  ui_schema_version :: u32
  ui_protocol :: string
  ui_sdk :: string
  ui_entry_shared :: "string option"
  ui_entry_terminal :: "string option"
  ui_entry_web :: "string option"
  ui_requested_capabilities :: "ui_capability list"
  ui_contributions :: "ui_contribution list"

fun supports_target :: "ui_spec \<Rightarrow> ui_target \<Rightarrow> bool" where
  "supports_target u T_Shared = (ui_entry_shared u \<noteq> None)"
| "supports_target u T_Terminal = (ui_entry_shared u \<noteq> None \<or> ui_entry_terminal u \<noteq> None)"
| "supports_target u T_Web = (ui_entry_shared u \<noteq> None \<or> ui_entry_web u \<noteq> None)"

record runtime_spec =
  rs_command :: string
  rs_protocol :: string
  rs_working_directory :: string

record capabilities_spec =
  cs_filesystem_read :: "string list"
  cs_filesystem_write :: "string list"
  cs_network :: "string list"
  cs_secrets :: "string list"
  cs_subprocess :: bool

record resources_spec =
  rc_memory_mb :: u64
  rc_cpu_seconds :: u64
  rc_wall_seconds :: u64
  rc_maximum_output_mb :: u64

record security_spec =
  ss_checksum :: string
  ss_signature :: string
  ss_sandbox_profile :: string

definition is_signed :: "security_spec \<Rightarrow> bool" where
  "is_signed s \<longleftrightarrow> trim (ss_signature s) \<noteq> [] \<and> trim (ss_signature s) \<noteq> ''set-during-packaging''"

record update_spec =
  us_channel :: string
  us_permission_change_requires_approval :: bool

record plugin_manifest =
  pm_schema_version :: u32
  pm_id :: string
  pm_name :: string
  pm_version :: string
  pm_kind :: plugin_kind
  pm_publisher :: string
  pm_scopes :: "string list"
  pm_runtime :: runtime_spec
  pm_capabilities :: capabilities_spec
  pm_resources :: resources_spec
  pm_security :: security_spec
  pm_update :: update_spec
  pm_ui :: "ui_spec option"

datatype manifest_error =
    ME_Parse string
  | UnsupportedSchemaVersion u32
  | EmptyId | EmptyVersion | EmptyPublisher
  | EmptyCommand string
  | InvalidFilesystemPath string
  | InvalidNetworkDestination string
  | ZeroResourceCap string
  | ResourceCapOutOfPolicy string u64 u64 u64
  | UnsupportedUiSchemaVersion u32
  | UnsupportedUiProtocol string
  | UnsupportedUiSdk string
  | UnsupportedUiCapability string
  | InvalidUiCompatibility string string
  | InvalidUiEntrypoint string string
  | EmptyUiEntrypoints
  | EmptyUiTargets string
  | AmbiguousUiTargets string
  | InvalidUiContributionId string
  | DuplicateUiContributionId string
  | InvalidUiRendererId string
  | MissingUiEntrypoint string string
  | MissingTerminalFallback string
  | InvalidTerminalFallback string string
  | ReservedUiCoreSlot string string
  | ThemeExecutionForbidden string
  | UiComponentMissingUi
  | UiComponentExecutionForbidden string

subsection \<open>Paths and numbers\<close>

fun split_char :: "char \<Rightarrow> string \<Rightarrow> string list" where
  "split_char c [] = [[]]"
| "split_char c (x # s) =
     (if x = c then [] # split_char c s
      else (case split_char c s of [] \<Rightarrow> [[x]] | p # ps \<Rightarrow> (x # p) # ps))"

text \<open>
  \<open>Path::components\<close> on Unix: repeated separators and interior \<open>.\<close> segments are dropped; only a leading
  \<open>.\<close> of a relative path is a component.
\<close>

datatype path_component = RootDir | CurDir | ParentDir | Normal string

definition path_components :: "string \<Rightarrow> path_component list" where
  "path_components s =
     (let parts = split_char (CHR ''/'') s;
          body = map (\<lambda>p. if p = ''..'' then ParentDir else Normal p) (filter (\<lambda>p. p \<noteq> [] \<and> p \<noteq> ''.'') parts)
      in if starts_with ''/'' s then RootDir # body
         else if hd parts = ''.'' then CurDir # body else body)"

definition is_absolute :: "string \<Rightarrow> bool" where
  "is_absolute s \<longleftrightarrow> starts_with ''/'' s"

text \<open>\<open>str::parse::<u16>\<close>: an optional plus sign, then decimal digits with a value below \<open>2 ^ 16\<close>.\<close>

definition parse_u16 :: "string \<Rightarrow> nat option" where
  "parse_u16 s =
     (let ds = (case s of c # r \<Rightarrow> if c = CHR ''+'' then r else s | [] \<Rightarrow> s) in
      if ds = [] \<or> \<not> list_all is_digit ds \<or> 65536 \<le> number_of 10 ds then None else Some (number_of 10 ds))"

definition is_ascii_alphanumeric :: "char \<Rightarrow> bool" where
  "is_ascii_alphanumeric c \<longleftrightarrow>
     (let n = of_char c :: nat in 48 \<le> n \<and> n < 58 \<or> 65 \<le> n \<and> n < 91 \<or> 97 \<le> n \<and> n < 123)"

subsection \<open>Validation of the UI declaration\<close>

definition valid_entrypoint :: "string \<Rightarrow> bool" where
  "valid_entrypoint path \<longleftrightarrow>
     path \<noteq> [] \<and> trim path = path \<and> length path \<le> 1024 \<and> \<not> starts_with ''/'' path
     \<and> CHR 0x5C \<notin> set path \<and> CHR 0x25 \<notin> set path \<and> CHR '':'' \<notin> set path \<and> \<not> has_control path
     \<and> list_all (\<lambda>c. c \<noteq> [] \<and> c \<noteq> ''.'' \<and> c \<noteq> ''..'') (split_char (CHR ''/'') path)"

definition validate_package_entrypoint :: "ui_target \<Rightarrow> string option \<Rightarrow> manifest_error + unit" where
  "validate_package_entrypoint target entrypoint =
     (case entrypoint of
        None \<Rightarrow> Inr ()
      | Some path \<Rightarrow>
          if valid_entrypoint path then Inr () else Inl (InvalidUiEntrypoint (ui_target_str target) path))"

definition valid_ui_identifier :: "string \<Rightarrow> bool" where
  "valid_ui_identifier v \<longleftrightarrow>
     v \<noteq> [] \<and> length v \<le> 128 \<and> is_ascii_alphanumeric (hd v)
     \<and> list_all (\<lambda>b. is_ascii_alphanumeric b \<or> b \<in> {CHR ''.'', CHR ''_'', CHR ''-'', CHR ''/''}) v
     \<and> str_find ''..'' v = None \<and> str_find ''//'' v = None
     \<and> last v \<notin> {CHR ''.'', CHR ''_'', CHR ''-'', CHR ''/''}"

definition web_only :: "ui_contribution \<Rightarrow> bool" where
  "web_only c \<longleftrightarrow>
     T_Web \<in> set (uc_targets c) \<and> T_Shared \<notin> set (uc_targets c) \<and> T_Terminal \<notin> set (uc_targets c)"

definition sorted_targets :: "ui_contribution \<Rightarrow> ui_target list" where
  "sorted_targets c = filter (\<lambda>t. t \<in> set (uc_targets c)) [T_Shared, T_Terminal, T_Web]"

definition validate_contribution :: "ui_spec \<Rightarrow> ui_contribution \<Rightarrow> manifest_error + unit" where
  "validate_contribution ui c =
     (if \<not> valid_ui_identifier (uc_renderer c) then Inl (InvalidUiRendererId (uc_renderer c))
      else if (case uc_fallback_renderer c of Some f \<Rightarrow> \<not> valid_ui_identifier f | None \<Rightarrow> False)
        then Inl (InvalidUiRendererId (the (uc_fallback_renderer c)))
      else if is_core_only (uc_point c) then Inl (ReservedUiCoreSlot (uc_id c) (ui_point_str (uc_point c)))
      else if uc_targets c = [] then Inl (EmptyUiTargets (uc_id c))
      else if T_Shared \<in> set (uc_targets c) \<and> 1 < length (sorted_targets c) then Inl (AmbiguousUiTargets (uc_id c))
      else res_bind (for_each (\<lambda>t. if supports_target ui t then Inr ()
                                else Inl (MissingUiEntrypoint (uc_id c) (ui_target_str t))) (sorted_targets c))
        (\<lambda>_. if web_only c \<and> uc_fallback_renderer c = None then Inl (MissingTerminalFallback (uc_id c)) else Inr ()))"

fun validate_contributions :: "ui_spec \<Rightarrow> string list \<Rightarrow> ui_contribution list \<Rightarrow> manifest_error + unit" where
  "validate_contributions ui ids [] = Inr ()"
| "validate_contributions ui ids (c # cs) =
     (if \<not> valid_ui_identifier (uc_id c) then Inl (InvalidUiContributionId (uc_id c))
      else if uc_id c \<in> set ids then Inl (DuplicateUiContributionId (uc_id c))
      else res_bind (validate_contribution ui c) (\<lambda>_. validate_contributions ui (uc_id c # ids) cs))"

text \<open>The \<open>expect\<close> on the fallback of a web-only contribution cannot fail: the first loop has checked it.\<close>

definition validate_fallback :: "ui_spec \<Rightarrow> ui_contribution \<Rightarrow> manifest_error + unit" where
  "validate_fallback ui c =
     (if \<not> web_only c then Inr ()
      else let fallback = the (uc_fallback_renderer c) in
        if list_ex (\<lambda>k. uc_id k \<noteq> uc_id c \<and> uc_renderer k = fallback \<and> uc_point k = uc_point c
              \<and> (T_Terminal \<in> set (uc_targets k) \<or> T_Shared \<in> set (uc_targets k))) (ui_contributions ui)
        then Inr () else Inl (InvalidTerminalFallback (uc_id c) fallback))"

definition validate_ui :: "(string \<Rightarrow> string \<Rightarrow> bool option) \<Rightarrow> ui_spec \<Rightarrow> manifest_error + unit" where
  "validate_ui semver ui =
     (if ui_schema_version ui \<noteq> 1 then Inl (UnsupportedUiSchemaVersion (ui_schema_version ui))
      else case semver (trim (ui_protocol ui)) ''1.0.0'' of
        None \<Rightarrow> Inl (InvalidUiCompatibility ''protocol'' (ui_protocol ui))
      | Some False \<Rightarrow> Inl (UnsupportedUiProtocol (ui_protocol ui))
      | Some True \<Rightarrow>
      (case semver (trim (ui_sdk ui)) ''1.0.0'' of
        None \<Rightarrow> Inl (InvalidUiCompatibility ''sdk'' (ui_sdk ui))
      | Some False \<Rightarrow> Inl (UnsupportedUiSdk (ui_sdk ui))
      | Some True \<Rightarrow>
         if ui_entry_shared ui = None \<and> ui_entry_terminal ui = None \<and> ui_entry_web ui = None
         then Inl EmptyUiEntrypoints
         else (case find (\<lambda>c. \<not> is_supported_public_v1 c) (ui_requested_capabilities ui) of
             Some c \<Rightarrow> Inl (UnsupportedUiCapability (ui_capability_str c))
           | None \<Rightarrow>
               res_bind (validate_package_entrypoint T_Shared (ui_entry_shared ui)) (\<lambda>_.
               res_bind (validate_package_entrypoint T_Terminal (ui_entry_terminal ui)) (\<lambda>_.
               res_bind (validate_package_entrypoint T_Web (ui_entry_web ui)) (\<lambda>_.
               res_bind (validate_contributions ui [] (ui_contributions ui)) (\<lambda>_.
               for_each (validate_fallback ui) (ui_contributions ui))))))))"

subsection \<open>Validation of the manifest\<close>

definition declares_runtime :: "plugin_manifest \<Rightarrow> bool" where
  "declares_runtime m \<longleftrightarrow>
     trim (rs_command (pm_runtime m)) \<noteq> [] \<or> trim (rs_protocol (pm_runtime m)) \<noteq> []
     \<or> trim (rs_working_directory (pm_runtime m)) \<noteq> []"

definition declares_capabilities :: "plugin_manifest \<Rightarrow> bool" where
  "declares_capabilities m \<longleftrightarrow>
     cs_filesystem_read (pm_capabilities m) \<noteq> [] \<or> cs_filesystem_write (pm_capabilities m) \<noteq> []
     \<or> cs_network (pm_capabilities m) \<noteq> [] \<or> cs_secrets (pm_capabilities m) \<noteq> []
     \<or> cs_subprocess (pm_capabilities m)"

definition validate_theme_is_data_only :: "plugin_manifest \<Rightarrow> manifest_error + unit" where
  "validate_theme_is_data_only m =
     (if pm_kind m \<noteq> ThemePack then Inr ()
      else let declared = (if declares_runtime m then [''runtime''] else [])
                 @ (if declares_capabilities m then [''capabilities''] else [])
                 @ (if pm_ui m \<noteq> None then [''ui''] else [])
           in if declared \<noteq> [] then Inl (ThemeExecutionForbidden (join '', '' declared)) else Inr ())"

definition validate_ui_component_runtime :: "plugin_manifest \<Rightarrow> manifest_error + unit" where
  "validate_ui_component_runtime m =
     (if pm_kind m \<noteq> UiComponent then Inr ()
      else if pm_ui m = None then Inl UiComponentMissingUi
      else let declared = (if declares_runtime m then [''runtime''] else [])
                 @ (if declares_capabilities m then [''capabilities''] else [])
           in if declared \<noteq> [] then Inl (UiComponentExecutionForbidden (join '', '' declared)) else Inr ())"

definition validate_path :: "string \<Rightarrow> manifest_error + unit" where
  "validate_path path =
     (let normalized = list_all (\<lambda>c. case c of RootDir \<Rightarrow> True | Normal _ \<Rightarrow> True | _ \<Rightarrow> False) (path_components path) in
      if trim path = [] \<or> path = ''/'' \<or> \<not> is_absolute path \<or> \<not> normalized
      then Inl (InvalidFilesystemPath path) else Inr ())"

definition validate_destination :: "string \<Rightarrow> manifest_error + unit" where
  "validate_destination destination =
     (case rsplit_once (CHR '':'') destination of
        None \<Rightarrow> Inl (InvalidNetworkDestination destination)
      | Some (host, port) \<Rightarrow>
          if trim host = [] \<or> (case parse_u16 port of Some p \<Rightarrow> p = 0 | None \<Rightarrow> True)
          then Inl (InvalidNetworkDestination destination) else Inr ())"

definition resource_fields :: "resources_spec \<Rightarrow> (string \<times> u64 \<times> u64 \<times> u64) list" where
  "resource_fields r =
     [(''memory_mb'', rc_memory_mb r, 32, 4096), (''cpu_seconds'', rc_cpu_seconds r, 1, 3600),
      (''wall_seconds'', rc_wall_seconds r, 1, 86400), (''maximum_output_mb'', rc_maximum_output_mb r, 1, 1024)]"

definition validate_resources :: "resources_spec \<Rightarrow> manifest_error + unit" where
  "validate_resources r =
     res_bind (for_each (\<lambda>(field, v, _, _). if v = 0 then Inl (ZeroResourceCap field) else Inr ()) (resource_fields r))
       (\<lambda>_. for_each (\<lambda>(field, v, lo, hi). if lo \<le> v \<and> v \<le> hi then Inr ()
                                          else Inl (ResourceCapOutOfPolicy field v lo hi)) (resource_fields r))"

definition validate_manifest ::
  "(string \<Rightarrow> string \<Rightarrow> bool option) \<Rightarrow> plugin_manifest \<Rightarrow> manifest_error + plugin_manifest" where
  "validate_manifest semver m =
     (if pm_schema_version m \<noteq> 1 then Inl (UnsupportedSchemaVersion (pm_schema_version m))
      else if trim (pm_id m) = [] then Inl EmptyId
      else if trim (pm_version m) = [] then Inl EmptyVersion
      else if trim (pm_publisher m) = [] then Inl EmptyPublisher
      else res_bind (validate_theme_is_data_only m) (\<lambda>_.
           res_bind (validate_ui_component_runtime m) (\<lambda>_.
           if pm_kind m \<in> {NativeProcess, WasmComponent} \<and> trim (rs_command (pm_runtime m)) = []
           then Inl (EmptyCommand (plugin_kind_str (pm_kind m)))
           else
           res_bind (for_each validate_path
             (cs_filesystem_read (pm_capabilities m) @ cs_filesystem_write (pm_capabilities m))) (\<lambda>_.
           res_bind (for_each validate_destination (cs_network (pm_capabilities m))) (\<lambda>_.
           res_bind (validate_resources (pm_resources m)) (\<lambda>_.
           res_bind (case pm_ui m of Some ui \<Rightarrow> validate_ui semver ui | None \<Rightarrow> Inr ()) (\<lambda>_. Inr m)))))))"

definition parse_manifest ::
  "(string \<Rightarrow> string + plugin_manifest) \<Rightarrow> (string \<Rightarrow> string \<Rightarrow> bool option) \<Rightarrow> string \<Rightarrow> manifest_error + plugin_manifest" where
  "parse_manifest toml semver text =
     (case toml text of Inl e \<Rightarrow> Inl (ME_Parse e) | Inr m \<Rightarrow> validate_manifest semver m)"

end
