(* ===== verification/Plugin_Verify.thy ===== *)
theory Plugin_Verify
  imports Plugin_Manifest
begin

text \<open>
  Artifact verification (\<open>crates/sandbox/src/verify.rs\<close>): the checksum of a plugin artifact, the digest a
  publisher signs, and the check of both under the policy for unsigned plugins. The hash, the hex, base64
  and JSON encoders and the signature scheme are third-party code: the fields of a \<open>crypto\<close> record, an
  argument of the definitions. \<open>try_into\<close> of a slice into an array is its length test.
\<close>

type_synonym bytes = "8 word list"

record crypto =
  cr_sha256 :: "bytes \<Rightarrow> bytes"
  cr_hex_encode :: "bytes \<Rightarrow> string"
  cr_hex_decode :: "string \<Rightarrow> bytes option"
  cr_manifest_json :: "plugin_manifest \<Rightarrow> bytes"
  cr_base64_decode :: "string \<Rightarrow> string + bytes"
  cr_key_error :: "bytes \<Rightarrow> string option"
  cr_verify_strict :: "bytes \<Rightarrow> bytes \<Rightarrow> bytes \<Rightarrow> bool"

definition str_bytes :: "string \<Rightarrow> bytes" where
  "str_bytes s = map of_char s"

text \<open>\<open>u64::to_be_bytes\<close>: most significant byte first.\<close>

definition be_bytes :: "u64 \<Rightarrow> bytes" where
  "be_bytes w = map (\<lambda>k. ucast (drop_bit (8 * k) w)) [7, 6, 5, 4, 3, 2, 1, 0]"

lemma length_be_bytes [simp]: "length (be_bytes w) = 8"
  by (simp add: be_bytes_def)

lemma str_bytes_inj [simp]: "str_bytes s = str_bytes t \<longleftrightarrow> s = t"
proof -
  have "inj (of_char :: char \<Rightarrow> 8 word)"
  proof (rule injI)
    fix x y :: char
    assume "(of_char x :: 8 word) = of_char y"
    then have "unat (of_char x :: 8 word) = unat (of_char y :: 8 word)" by simp
    moreover have "unat (of_char c :: 8 word) = of_char c" for c :: char
    proof -
      have "(of_char c :: nat) < 256" using nat_of_char_less_256 .
      moreover have "(of_char c :: 8 word) = of_nat (of_char c)" by (simp add: of_nat_of_char)
      ultimately show ?thesis by (simp add: unat_of_nat)
    qed
    ultimately show "x = y" by simp
  qed
  then show ?thesis by (simp add: str_bytes_def inj_map_eq_map)
qed

lemma be_bytes_inj [simp]: "be_bytes a = be_bytes b \<longleftrightarrow> a = b"
proof
  assume eq: "be_bytes a = be_bytes b"
  have byte: "(ucast (drop_bit (8 * k) a) :: 8 word) = ucast (drop_bit (8 * k) b)" if "k < 8" for k
  proof -
    have "k \<in> set [7, 6, 5, 4, 3, 2, 1, 0]" using that by auto
    moreover have "\<forall>k \<in> set [7, 6, 5, 4, 3, 2, 1, 0]. (ucast (drop_bit (8 * k) a) :: 8 word) = ucast (drop_bit (8 * k) b)"
      using eq unfolding be_bytes_def map_eq_conv by simp
    ultimately show ?thesis by blast
  qed
  show "a = b"
  proof (rule bit_word_eqI)
    fix n assume n: "n < LENGTH(64)"
    then have "n div 8 < 8" by simp
    from arg_cong[OF byte[OF this], of "\<lambda>w. bit w (n mod 8)"] show "bit a n = bit b n"
      by (simp add: bit_ucast_iff bit_drop_bit_eq)
  qed
qed simp

subsection \<open>Verification\<close>

datatype unsigned_policy = UP_Deny | UP_Allow

datatype verify_error =
    MalformedChecksum string
  | ChecksumMismatch string string
  | UnsignedDenied
  | InvalidPublisherKey string
  | InvalidSignature string
  | SignatureMismatch

record verified =
  vf_signed :: bool

definition checksum_of :: "crypto \<Rightarrow> bytes \<Rightarrow> string" where
  "checksum_of C artifact = ''sha256:'' @ cr_hex_encode C (cr_sha256 C artifact)"

definition blank_signature :: "plugin_manifest \<Rightarrow> plugin_manifest" where
  "blank_signature m = m\<lparr> pm_security := (pm_security m)\<lparr> ss_signature := [] \<rparr> \<rparr>"

definition signing_message :: "bytes \<Rightarrow> bytes" where
  "signing_message canonical =
     str_bytes ''codypendent-plugin-signature-v1'' @ be_bytes (of_nat (length canonical)) @ canonical"

definition signing_digest :: "crypto \<Rightarrow> plugin_manifest \<Rightarrow> bytes" where
  "signing_digest C m = cr_sha256 C (signing_message (cr_manifest_json C (blank_signature m)))"

definition expected_bytes :: "string \<Rightarrow> nat \<Rightarrow> nat \<Rightarrow> string" where
  "expected_bytes prefix want got = prefix @ dec want @ '' bytes, got '' @ dec got"

definition verify_checksum :: "crypto \<Rightarrow> plugin_manifest \<Rightarrow> bytes \<Rightarrow> verify_error + unit" where
  "verify_checksum C m artifact =
     (let expected = trim (ss_checksum (pm_security m)) in
      case strip_prefix ''sha256:'' expected of
        None \<Rightarrow> Inl (MalformedChecksum expected)
      | Some expected_hex \<Rightarrow>
          if expected_hex = [] \<or> cr_hex_decode C expected_hex = None then Inl (MalformedChecksum expected)
          else if to_ascii_lowercase expected \<noteq> to_ascii_lowercase (checksum_of C artifact)
            then Inl (ChecksumMismatch expected (checksum_of C artifact))
          else Inr ())"

definition verify_signature :: "crypto \<Rightarrow> plugin_manifest \<Rightarrow> bytes option \<Rightarrow> verify_error + verified" where
  "verify_signature C m publisher_key =
     (case publisher_key of
        None \<Rightarrow> Inl (InvalidPublisherKey ''no publisher key supplied for a signed plugin'')
      | Some key \<Rightarrow>
          if length key \<noteq> 32 then Inl (InvalidPublisherKey (expected_bytes ''expected '' 32 (length key)))
          else case cr_key_error C key of
            Some e \<Rightarrow> Inl (InvalidPublisherKey e)
          | None \<Rightarrow>
              (case cr_base64_decode C (trim (ss_signature (pm_security m))) of
                 Inl e \<Rightarrow> Inl (InvalidSignature e)
               | Inr sig \<Rightarrow>
                   if length sig \<noteq> 64 then Inl (InvalidSignature (expected_bytes ''expected '' 64 (length sig)))
                   else if cr_verify_strict C key (signing_digest C m) sig then Inr \<lparr> vf_signed = True \<rparr>
                   else Inl SignatureMismatch))"

definition verify_artifact ::
  "crypto \<Rightarrow> plugin_manifest \<Rightarrow> bytes \<Rightarrow> bytes option \<Rightarrow> unsigned_policy \<Rightarrow> verify_error + verified" where
  "verify_artifact C m artifact publisher_key policy =
     res_bind (verify_checksum C m artifact) (\<lambda>_.
       if \<not> is_signed (pm_security m) then
         (case policy of UP_Allow \<Rightarrow> Inr \<lparr> vf_signed = False \<rparr> | UP_Deny \<Rightarrow> Inl UnsignedDenied)
       else verify_signature C m publisher_key)"

subsection \<open>What verification shows\<close>

definition good_signature :: "crypto \<Rightarrow> plugin_manifest \<Rightarrow> bytes option \<Rightarrow> bool" where
  "good_signature C m publisher_key \<longleftrightarrow>
     (\<exists>key sig. publisher_key = Some key \<and> length key = 32 \<and> cr_key_error C key = None
        \<and> cr_base64_decode C (trim (ss_signature (pm_security m))) = Inr sig \<and> length sig = 64
        \<and> cr_verify_strict C key (signing_digest C m) sig)"

lemma verify_signature_ok_iff:
  "verify_signature C m k = Inr v \<longleftrightarrow> v = \<lparr> vf_signed = True \<rparr> \<and> good_signature C m k"
  by (auto simp: verify_signature_def good_signature_def split: option.splits sum.splits)

lemma verify_artifact_ok_iff:
  "verify_artifact C m a k u = Inr v \<longleftrightarrow>
     verify_checksum C m a = Inr () \<and>
     (if is_signed (pm_security m) then v = \<lparr> vf_signed = True \<rparr> \<and> good_signature C m k
      else v = \<lparr> vf_signed = False \<rparr> \<and> u = UP_Allow)"
  by (auto simp: verify_artifact_def res_bind_Inr_iff verify_signature_ok_iff split: unsigned_policy.splits)

lemma verify_checksum_D:
  "verify_checksum C m a = Inr u \<Longrightarrow>
     to_ascii_lowercase (trim (ss_checksum (pm_security m))) = to_ascii_lowercase (checksum_of C a)"
  by (auto simp: verify_checksum_def Let_def split: option.splits if_splits)

lemma signing_message_inj: "signing_message a = signing_message b \<longleftrightarrow> a = b"
  unfolding signing_message_def same_append_eq
  by (subst append_eq_append_conv, simp, blast)

text \<open>
  The signed digest binds every field but the signature: under a hash without a collision between the two
  messages, and an injective encoder, two manifests have the same digest only when they agree on all else.
\<close>

lemma signing_digest_binds:
  assumes "inj_on (cr_manifest_json C) {blank_signature m, blank_signature m'}"
    and "inj_on (cr_sha256 C) {signing_message (cr_manifest_json C (blank_signature m)),
                               signing_message (cr_manifest_json C (blank_signature m'))}"
  shows "signing_digest C m = signing_digest C m' \<longleftrightarrow> blank_signature m = blank_signature m'"
proof -
  have "signing_digest C m = signing_digest C m'
      \<longleftrightarrow> signing_message (cr_manifest_json C (blank_signature m))
        = signing_message (cr_manifest_json C (blank_signature m'))"
    unfolding signing_digest_def by (rule inj_on_eq_iff[OF assms(2)]) simp_all
  also have "\<dots> \<longleftrightarrow> blank_signature m = blank_signature m'"
    unfolding signing_message_inj by (rule inj_on_eq_iff[OF assms(1)]) simp_all
  finally show ?thesis .
qed

end
