(* ===== verification/Hooks.thy ===== *)
theory Hooks
  imports Plugin_Verify "HOL-Library.Multiset"
begin

text \<open>
  Lifecycle hooks (\<open>crates/sandbox/src/hook.rs\<close>): the parsed \<open>hook.toml\<close> and its validation, the verdicts of
  hooks and their combination, and the re-entry of a rewritten call into the run policy. The TOML parser is
  a parameter, as is the policy behind the \<open>PolicyReentry\<close> trait; hashes come from the \<open>crypto\<close> record.
\<close>

subsection \<open>Declarations\<close>

datatype hook_scope = HS_User | HS_Repository | HS_Organization | HS_System

fun hook_scope_str :: "hook_scope \<Rightarrow> string" where
  "hook_scope_str HS_User = ''user''"
| "hook_scope_str HS_Repository = ''repository''"
| "hook_scope_str HS_Organization = ''organization''"
| "hook_scope_str HS_System = ''system''"

datatype hook_event = ToolPre | ToolPost | PatchProposed | RunStart | RunEnd | ApprovalRequested

definition is_preventable :: "hook_event \<Rightarrow> bool" where
  "is_preventable e \<longleftrightarrow> e \<in> {ToolPre, PatchProposed, ApprovalRequested}"

fun hook_event_str :: "hook_event \<Rightarrow> string" where
  "hook_event_str ToolPre = ''tool.pre''"
| "hook_event_str ToolPost = ''tool.post''"
| "hook_event_str PatchProposed = ''patch.proposed''"
| "hook_event_str RunStart = ''run.start''"
| "hook_event_str RunEnd = ''run.end''"
| "hook_event_str ApprovalRequested = ''approval.requested''"

datatype hook_kind = Observe | Validate | Mutate

datatype failure_policy = FP_Block | FP_Warn

datatype hook_network = HN_Deny

record hook_runtime =
  hr_program :: string
  hr_args :: "string list"
  hr_working_directory :: "string option"
  hr_timeout_seconds :: u64

record hook_policy =
  hp_failure :: failure_policy
  hp_requires_approval :: bool
  hp_network :: hook_network

record hook_output =
  ho_capture_stdout :: bool
  ho_capture_stderr :: bool
  ho_create_artifact :: bool
  ho_attach_to :: "string option"

record hook_spec =
  hk_schema_version :: u32
  hk_id :: string
  hk_name :: string
  hk_scope :: hook_scope
  hk_event :: hook_event
  hk_kind :: hook_kind
  hk_priority :: int
  hk_runtime :: hook_runtime
  hk_policy :: hook_policy
  hk_output :: hook_output

datatype hook_error =
    HE_Toml string
  | HE_UnsupportedSchema u32 u32
  | HE_Invalid string string
  | HE_TooManyHooks string nat nat
  | HE_DuplicateId string
  | HE_ScopeMismatch string string string

definition MAX_HOOKS_PER_EVENT :: nat where
  "MAX_HOOKS_PER_EVENT = 32"

definition HOOK_PLACEHOLDERS :: "string list" where
  "HOOK_PLACEHOLDERS = [''REPOSITORY'', ''WORKTREE'', ''HOME'']"

definition is_high_risk :: "hook_spec \<Rightarrow> bool" where
  "is_high_risk s \<longleftrightarrow> hk_kind s = Mutate"

definition dispatch_key :: "hook_spec \<Rightarrow> int \<times> string" where
  "dispatch_key s = (hk_priority s, hk_id s)"

definition content_digest :: "crypto \<Rightarrow> string \<Rightarrow> string" where
  "content_digest C raw = cr_hex_encode C (cr_sha256 C (str_bytes (''codypendent-hook-v1'' @ raw)))"

subsection \<open>Validation\<close>

definition placeholder_char :: "char \<Rightarrow> bool" where
  "placeholder_char c \<longleftrightarrow> (let n = of_char c :: nat in 65 \<le> n \<and> n < 91) \<or> c = CHR ''_''"

fun unknown_placeholder :: "string \<Rightarrow> string option" where
  "unknown_placeholder [] = None"
| "unknown_placeholder (c # s) =
     (if c = CHR ''$'' then
        (let name = takeWhile placeholder_char s in
         if name \<noteq> [] \<and> name \<notin> set HOOK_PLACEHOLDERS then Some name else unknown_placeholder s)
      else unknown_placeholder s)"

definition validate_hook :: "hook_scope \<Rightarrow> hook_spec \<Rightarrow> hook_error + hook_spec" where
  "validate_hook discovered s =
     (if hk_schema_version s \<noteq> 1 then Inl (HE_UnsupportedSchema (hk_schema_version s) 1)
      else if trim (hk_id s) = [] then Inl (HE_Invalid (hk_id s) ''id must not be empty'')
      else if hk_scope s \<noteq> discovered
        then Inl (HE_ScopeMismatch (hk_id s) (hook_scope_str (hk_scope s)) (hook_scope_str discovered))
      else if hk_kind s = Mutate \<and> hk_event s \<noteq> ToolPre
        then Inl (HE_Invalid (hk_id s) (''a `mutate` hook may only bind to `tool.pre`, not `'' @ hook_event_str (hk_event s) @ ''`''))
      else if hp_failure (hk_policy s) = FP_Block \<and> \<not> is_preventable (hk_event s)
        then Inl (HE_Invalid (hk_id s) (''`failure = \"block\"` is meaningless on `'' @ hook_event_str (hk_event s)
               @ ''`, which fires after the effect''))
      else if is_high_risk s \<and> \<not> hp_requires_approval (hk_policy s)
        then Inl (HE_Invalid (hk_id s) ''a `mutate` hook rewrites what the agent does, so it must declare `[policy] requires_approval = true`'')
      else if trim (hr_program (hk_runtime s)) = []
        then Inl (HE_Invalid (hk_id s) ''runtime program must not be empty'')
      else if hr_timeout_seconds (hk_runtime s) = 0
        then Inl (HE_Invalid (hk_id s) ''timeout_seconds must be greater than zero (zero is not `unlimited`)'')
      else case hr_working_directory (hk_runtime s) of
        None \<Rightarrow> Inr s
      | Some directory \<Rightarrow>
          (case unknown_placeholder directory of
             None \<Rightarrow> Inr s
           | Some unknown \<Rightarrow> Inl (HE_Invalid (hk_id s)
               (''`working_directory` uses the unresolvable placeholder `$'' @ unknown @ ''` (known: ''
                @ join '', '' HOOK_PLACEHOLDERS @ '')''))))"

definition parse_hook :: "(string \<Rightarrow> string + hook_spec) \<Rightarrow> string \<Rightarrow> hook_scope \<Rightarrow> hook_error + hook_spec" where
  "parse_hook toml raw discovered =
     (case toml raw of Inl e \<Rightarrow> Inl (HE_Toml e) | Inr s \<Rightarrow> validate_hook discovered s)"

fun check_unique_ids :: "string set \<Rightarrow> hook_spec list \<Rightarrow> hook_error + unit" where
  "check_unique_ids seen [] = Inr ()"
| "check_unique_ids seen (s # ss) =
     (if hk_id s \<in> seen then Inl (HE_DuplicateId (hk_id s)) else check_unique_ids (insert (hk_id s) seen) ss)"

definition validate_event_set :: "hook_event \<Rightarrow> hook_spec list \<Rightarrow> hook_error + unit" where
  "validate_event_set event specs =
     (if MAX_HOOKS_PER_EVENT < length specs
      then Inl (HE_TooManyHooks (hook_event_str event) (length specs) MAX_HOOKS_PER_EVENT)
      else check_unique_ids {} specs)"

subsection \<open>Verdicts\<close>

record tool_call =
  tc_name :: string
  tc_arguments_json :: string

definition call_message :: "tool_call \<Rightarrow> bytes" where
  "call_message c =
     str_bytes ''codypendent-tool-call-v1'' @ be_bytes (of_nat (length (tc_name c))) @ str_bytes (tc_name c)
     @ be_bytes (of_nat (length (tc_arguments_json c))) @ str_bytes (tc_arguments_json c)"

definition call_digest :: "crypto \<Rightarrow> tool_call \<Rightarrow> string" where
  "call_digest C c = cr_hex_encode C (cr_sha256 C (call_message c))"

datatype hook_verdict = HV_Observed | HV_Allow | HV_Deny string | HV_Rewrite tool_call

record unapproved =
  un_value :: tool_call
  un_proposed_by :: string

datatype hook_outcome = Proceed | HO_Denied "string list" | Rewritten unapproved

record combine_state =
  cb_reasons :: "string list"
  cb_rewrite :: "(string \<times> tool_call) option"
  cb_conflicting :: bool

fun combine_step :: "string \<times> hook_verdict \<Rightarrow> combine_state \<Rightarrow> combine_state" where
  "combine_step (hook, HV_Observed) st = st"
| "combine_step (hook, HV_Allow) st = st"
| "combine_step (hook, HV_Deny reason) st = st\<lparr> cb_reasons := cb_reasons st @ [hook @ '': '' @ reason] \<rparr>"
| "combine_step (hook, HV_Rewrite call) st =
     (case cb_rewrite st of
        Some (prior, existing) \<Rightarrow>
          if existing \<noteq> call
          then st\<lparr> cb_conflicting := True,
                   cb_reasons := cb_reasons st @ [hook @ '': conflicts with the rewrite proposed by '' @ prior] \<rparr>
          else st
      | None \<Rightarrow> st\<lparr> cb_rewrite := Some (hook, call) \<rparr>)"

definition combine :: "(string \<times> hook_verdict) list \<Rightarrow> hook_outcome" where
  "combine verdicts =
     (let st = fold combine_step verdicts \<lparr> cb_reasons = [], cb_rewrite = None, cb_conflicting = False \<rparr> in
      if cb_reasons st \<noteq> [] \<or> cb_conflicting st then HO_Denied (cb_reasons st)
      else case cb_rewrite st of
        Some (hook, call) \<Rightarrow> Rewritten \<lparr> un_value = call, un_proposed_by = hook \<rparr>
      | None \<Rightarrow> Proceed)"

subsection \<open>Re-entry\<close>

record authorized =
  au_value :: tool_call
  au_proposed_by :: string

datatype hook_denied = HD_Policy string string | ApprovalMismatch string

definition reenter ::
  "crypto \<Rightarrow> (tool_call \<Rightarrow> string + bool) \<Rightarrow> string option \<Rightarrow> unapproved \<Rightarrow> hook_denied + authorized" where
  "reenter C gate approved_digest u =
     (case gate (un_value u) of
        Inl code \<Rightarrow> Inl (HD_Policy (un_proposed_by u) code)
      | Inr allowed_outright \<Rightarrow>
          if \<not> allowed_outright \<and> approved_digest \<noteq> Some (call_digest C (un_value u))
          then Inl (ApprovalMismatch (un_proposed_by u))
          else Inr \<lparr> au_value = un_value u, au_proposed_by = un_proposed_by u \<rparr>)"

subsection \<open>The lattice of outcomes\<close>

text \<open>
  The documented lattice: no opinion, one proposed rewrite, or a refusal, which absorbs everything; two
  different rewrites refuse.
\<close>

datatype opinion = Op_None | Op_Rewrite tool_call | Op_Deny

fun opinion_meet :: "opinion \<Rightarrow> opinion \<Rightarrow> opinion" where
  "opinion_meet Op_None y = y"
| "opinion_meet x Op_None = x"
| "opinion_meet Op_Deny _ = Op_Deny"
| "opinion_meet _ Op_Deny = Op_Deny"
| "opinion_meet (Op_Rewrite a) (Op_Rewrite b) = (if a = b then Op_Rewrite a else Op_Deny)"

interpretation opinion: semilattice_neutr opinion_meet Op_None
proof
  show "opinion_meet (opinion_meet a b) c = opinion_meet a (opinion_meet b c)" for a b c
    by (cases a; cases b; cases c) auto
  show "opinion_meet a b = opinion_meet b a" for a b by (cases a; cases b) auto
  show "opinion_meet a a = a" for a by (cases a) auto
  show "opinion_meet a Op_None = a" for a by (cases a) auto
qed

fun verdict_opinion :: "hook_verdict \<Rightarrow> opinion" where
  "verdict_opinion HV_Observed = Op_None"
| "verdict_opinion HV_Allow = Op_None"
| "verdict_opinion (HV_Deny _) = Op_Deny"
| "verdict_opinion (HV_Rewrite c) = Op_Rewrite c"

fun outcome_opinion :: "hook_outcome \<Rightarrow> opinion" where
  "outcome_opinion Proceed = Op_None"
| "outcome_opinion (HO_Denied _) = Op_Deny"
| "outcome_opinion (Rewritten u) = Op_Rewrite (un_value u)"

definition state_opinion :: "combine_state \<Rightarrow> opinion" where
  "state_opinion st =
     (if cb_reasons st \<noteq> [] \<or> cb_conflicting st then Op_Deny
      else case cb_rewrite st of Some (_, call) \<Rightarrow> Op_Rewrite call | None \<Rightarrow> Op_None)"

lemma combine_step_opinion:
  "state_opinion (combine_step (h, v) st) = opinion_meet (state_opinion st) (verdict_opinion v)"
  by (cases v) (auto simp: state_opinion_def split: option.splits)

lemma fold_combine_opinion:
  "state_opinion (fold combine_step vs st) = fold (\<lambda>v x. opinion_meet x (verdict_opinion (snd v))) vs (state_opinion st)"
proof (induction vs arbitrary: st)
  case (Cons v vs)
  then show ?case by (cases v) (simp add: combine_step_opinion)
qed simp

lemma combine_opinion: "outcome_opinion (combine vs) = state_opinion
    (fold combine_step vs \<lparr> cb_reasons = [], cb_rewrite = None, cb_conflicting = False \<rparr>)"
  by (auto simp: combine_def state_opinion_def Let_def split: option.splits)

lemma combine_meet: "outcome_opinion (combine vs) = fold (\<lambda>v. opinion_meet (verdict_opinion (snd v))) vs Op_None"
proof -
  have "(\<lambda>(v :: string \<times> hook_verdict) x. opinion_meet x (verdict_opinion (snd v))) = (\<lambda>v. opinion_meet (verdict_opinion (snd v)))"
    by (intro ext opinion.commute)
  then show ?thesis unfolding combine_opinion fold_combine_opinion by (simp add: state_opinion_def)
qed

lemma fold_meet_permute:
  assumes "mset vs = mset ws"
  shows "fold (\<lambda>v. opinion_meet (verdict_opinion (snd v))) vs x = fold (\<lambda>v. opinion_meet (verdict_opinion (snd v))) ws x"
  by (rule fun_cong[OF fold_multiset_equiv[OF _ assms]]) (simp add: fun_eq_iff opinion.left_commute)

lemma fold_meet_cases:
  "fold (\<lambda>v. opinion_meet (verdict_opinion (snd v))) vs Op_None = Op_None \<longleftrightarrow> (\<forall>v \<in> set vs. verdict_opinion (snd v) = Op_None)"
  "fold (\<lambda>v. opinion_meet (verdict_opinion (snd v))) vs Op_None = Op_Rewrite c \<longleftrightarrow>
     (\<exists>v \<in> set vs. snd v = HV_Rewrite c) \<and> (\<forall>v \<in> set vs. verdict_opinion (snd v) \<in> {Op_None, Op_Rewrite c})"
proof -
  let ?f = "\<lambda>v. opinion_meet (verdict_opinion (snd v))"
  have rev: "fold ?f vs Op_None = foldr ?f vs Op_None"
    by (rule fun_cong[OF foldr_fold[symmetric]]) (simp add: fun_eq_iff opinion.left_commute)
  have meet_none: "opinion_meet a b = Op_None \<longleftrightarrow> a = Op_None \<and> b = Op_None" for a b by (cases a; cases b) auto
  have meet_rw: "opinion_meet a b = Op_Rewrite c \<longleftrightarrow>
      (a = Op_Rewrite c \<or> b = Op_Rewrite c) \<and> a \<in> {Op_None, Op_Rewrite c} \<and> b \<in> {Op_None, Op_Rewrite c}" for a b
    by (cases a; cases b) auto
  have vo: "verdict_opinion v = Op_Rewrite c \<longleftrightarrow> v = HV_Rewrite c" for v by (cases v) auto
  have none: "foldr ?f vs Op_None = Op_None \<longleftrightarrow> (\<forall>v \<in> set vs. verdict_opinion (snd v) = Op_None)" for vs
    by (induction vs) (auto simp: meet_none)
  then show "fold ?f vs Op_None = Op_None \<longleftrightarrow> (\<forall>v \<in> set vs. verdict_opinion (snd v) = Op_None)" by (simp add: rev)
  show "fold ?f vs Op_None = Op_Rewrite c \<longleftrightarrow>
     (\<exists>v \<in> set vs. snd v = HV_Rewrite c) \<and> (\<forall>v \<in> set vs. verdict_opinion (snd v) \<in> {Op_None, Op_Rewrite c})"
    unfolding rev by (induction vs) (auto simp: meet_rw none vo)
qed

lemma combine_rewritten: "combine vs = Rewritten u \<Longrightarrow> \<exists>v \<in> set vs. snd v = HV_Rewrite (un_value u)"
  using combine_meet[of vs] fold_meet_cases(2)[of vs "un_value u"] by simp

lemma combine_not_denied:
  assumes "\<And>reasons. combine vs \<noteq> HO_Denied reasons" and "v \<in> set vs"
  shows "snd v \<noteq> HV_Deny reason"
proof (cases "combine vs")
  case Proceed
  then have "verdict_opinion (snd v) = Op_None"
    using combine_meet[of vs] fold_meet_cases(1)[of vs] assms(2) by simp
  then show ?thesis by auto
next
  case (Rewritten u)
  then have "verdict_opinion (snd v) \<in> {Op_None, Op_Rewrite (un_value u)}"
    using combine_meet[of vs] fold_meet_cases(2)[of vs "un_value u"] assms(2) by simp
  then show ?thesis by auto
qed (use assms(1) in blast)

subsection \<open>Digests of calls\<close>

definition call_fits :: "tool_call \<Rightarrow> bool" where
  "call_fits c \<longleftrightarrow> length (tc_name c) < 2 ^ 64 \<and> length (tc_arguments_json c) < 2 ^ 64"

lemma length_str_bytes [simp]: "length (str_bytes s) = length s"
  by (simp add: str_bytes_def)

lemma call_message_inj:
  assumes "call_fits c" and "call_fits d" and "call_message c = call_message d"
  shows "c = d"
proof -
  note eq = assms(3)[unfolded call_message_def same_append_eq]
  from eq have "be_bytes (of_nat (length (tc_name c))) = be_bytes (of_nat (length (tc_name d)))"
    and rest: "str_bytes (tc_name c) @ be_bytes (of_nat (length (tc_arguments_json c))) @ str_bytes (tc_arguments_json c)
      = str_bytes (tc_name d) @ be_bytes (of_nat (length (tc_arguments_json d))) @ str_bytes (tc_arguments_json d)"
    by (simp_all only: append_eq_append_conv length_be_bytes simp_thms)
  then have "unat (of_nat (length (tc_name c)) :: u64) = unat (of_nat (length (tc_name d)) :: u64)" by simp
  then have "length (tc_name c) = length (tc_name d)"
    using assms(1,2) by (simp add: call_fits_def unat_of_nat)
  with rest have "tc_name c = tc_name d" "tc_arguments_json c = tc_arguments_json d"
    by (simp_all add: append_eq_append_conv)
  then show ?thesis by simp
qed

subsection \<open>Properties\<close>

text \<open>
  C26: Combining verdicts computes the documented lattice: whatever the order of the verdicts, the outcome is a
  refusal when some hook denies or two hooks propose different rewrites, a rewrite exactly when some hook
  proposes it and no hook denies or proposes another, and otherwise the original call proceeds.
\<close>
theorem combine_lattice:
  assumes "mset ws = mset vs"
  shows "outcome_opinion (combine ws) = fold (\<lambda>v. opinion_meet (verdict_opinion (snd v))) vs Op_None
    \<and> (combine ws = Proceed \<longleftrightarrow> (\<forall>v \<in> set vs. snd v = HV_Observed \<or> snd v = HV_Allow))
    \<and> ((\<exists>hook. combine ws = Rewritten \<lparr> un_value = c, un_proposed_by = hook \<rparr>) \<longleftrightarrow>
         (\<exists>v \<in> set vs. snd v = HV_Rewrite c) \<and> (\<forall>v \<in> set vs. snd v \<in> {HV_Observed, HV_Allow, HV_Rewrite c}))"
proof -
  let ?m = "fold (\<lambda>v. opinion_meet (verdict_opinion (snd v))) vs Op_None"
  have eq: "outcome_opinion (combine ws) = ?m" unfolding combine_meet by (rule fold_meet_permute[OF assms])
  have none: "verdict_opinion x = Op_None \<longleftrightarrow> x = HV_Observed \<or> x = HV_Allow" for x by (cases x) auto
  have rw: "verdict_opinion x \<in> {Op_None, Op_Rewrite c} \<longleftrightarrow> x \<in> {HV_Observed, HV_Allow, HV_Rewrite c}" for x
    by (cases x) auto
  have "combine ws = Proceed \<longleftrightarrow> outcome_opinion (combine ws) = Op_None" by (cases "combine ws") auto
  moreover have "(\<exists>hook. combine ws = Rewritten \<lparr> un_value = c, un_proposed_by = hook \<rparr>) \<longleftrightarrow> outcome_opinion (combine ws) = Op_Rewrite c"
  proof (cases "combine ws")
    case (Rewritten u)
    then show ?thesis by (cases u) auto
  qed auto
  ultimately show ?thesis using eq unfolding eq fold_meet_cases none rw by blast
qed

theorem combine_lattice_witness:
  "outcome_opinion (combine [(''b'', HV_Deny ''no''), (''a'', HV_Allow)]) = Op_Deny"
  using combine_lattice[of "[(''b'', HV_Deny ''no''), (''a'', HV_Allow)]" "[(''a'', HV_Allow), (''b'', HV_Deny ''no'')]"]
  by simp

text \<open>
  C27: A rewrite cannot spend the approval of another call: when a human approved one call and the combined
  rewrite is a different call, re-entry authorizes the rewrite only if the run policy allows that very call
  outright, given that the digest does not collide on the two calls.
\<close>
theorem rewrite_cannot_inherit_approval:
  assumes "reenter C gate (Some (call_digest C seen)) u = Inr a" and "seen \<noteq> un_value u"
    and "call_fits seen" and "call_fits (un_value u)"
    and "inj_on (\<lambda>x. cr_hex_encode C (cr_sha256 C x)) {call_message seen, call_message (un_value u)}"
  shows "gate (un_value u) = Inr True \<and> au_value a = un_value u"
proof -
  have "call_digest C seen \<noteq> call_digest C (un_value u)"
    using assms(2-5) call_message_inj by (auto simp: call_digest_def inj_on_def)
  then show ?thesis using assms(1) by (auto simp: reenter_def split: sum.splits if_splits)
qed

text \<open>A digest that is the length of its input: without collision on two calls of different lengths.\<close>

definition length_crypto :: crypto where
  "length_crypto =
     \<lparr> cr_sha256 = (\<lambda>bs. [of_nat (length bs)]), cr_hex_encode = map (\<lambda>b. char_of (unat b)), cr_hex_decode = Some \<circ> str_bytes,
       cr_manifest_json = (\<lambda>m. str_bytes (pm_id m @ pm_version m)), cr_base64_decode = Inr \<circ> str_bytes,
       cr_key_error = (\<lambda>_. None), cr_verify_strict = (\<lambda>key digest sig. digest = take 1 sig) \<rparr>"

theorem rewrite_cannot_inherit_approval_witness:
  "\<exists>C gate a. (gate :: tool_call \<Rightarrow> string + bool) \<lparr> tc_name = ''shell.run'', tc_arguments_json = ''{}'' \<rparr> = Inr True
     \<and> au_value a = \<lparr> tc_name = ''shell.run'', tc_arguments_json = ''{}'' \<rparr>
     \<and> reenter C gate (Some (call_digest C \<lparr> tc_name = ''read'', tc_arguments_json = ''{}'' \<rparr>))
         \<lparr> un_value = \<lparr> tc_name = ''shell.run'', tc_arguments_json = ''{}'' \<rparr>, un_proposed_by = ''h'' \<rparr> = Inr a"
proof -
  let ?C = "length_crypto"
  let ?gate = "\<lambda>c. Inr True :: string + bool"
  let ?run = "\<lparr> tc_name = ''shell.run'', tc_arguments_json = ''{}'' \<rparr>" and ?read = "\<lparr> tc_name = ''read'', tc_arguments_json = ''{}'' \<rparr>"
  let ?u = "\<lparr> un_value = ?run, un_proposed_by = ''h'' \<rparr>" and ?a = "\<lparr> au_value = ?run, au_proposed_by = ''h'' \<rparr>"
  have re: "reenter ?C ?gate (Some (call_digest ?C ?read)) ?u = Inr ?a" by (simp add: reenter_def)
  have "inj_on (\<lambda>x. cr_hex_encode ?C (cr_sha256 ?C x)) {call_message ?read, call_message (un_value ?u)}"
    by (simp add: length_crypto_def call_message_def)
  then have "?gate (un_value ?u) = Inr True \<and> au_value ?a = un_value ?u"
    by (intro rewrite_cannot_inherit_approval[OF re]) (simp_all add: call_fits_def)
  then show ?thesis using re by (intro exI[of _ ?C] exI[of _ ?gate] exI[of _ ?a]) simp
qed

end
