(* ===== verification/Hook_Registry.thy ===== *)
theory Hook_Registry
  imports Hooks
begin

text \<open>
  Discovery and registration of hooks (\<open>crates/daemon/src/hooks.rs\<close>, table \<open>hooks\<close> of
  \<open>migrations/0027_hooks.sql\<close>). The table is the list of its rows; the enumerations it stores as text are
  the datatypes they render. A root is given as what reading it yields: the candidate files in path order,
  each with its text or the error of reading it. Row ids and the time are arguments, as are the TOML parser
  and the JSON rendering of a specification; statements of the database succeed.
\<close>

subsection \<open>State\<close>

datatype approval_state = HA_Pending | HA_Approved | HA_Rejected

record hook_row =
  hrow_id :: string
  hrow_registry_item_id :: "string option"
  hrow_hook_id :: string
  hrow_name :: string
  hrow_scope_kind :: hook_scope
  hrow_scope_key :: string
  hrow_event :: hook_event
  hrow_kind :: hook_kind
  hrow_priority :: int
  hrow_source_path :: string
  hrow_content_hash :: string
  hrow_spec_json :: string
  hrow_approval_state :: approval_state
  hrow_approved_content_hash :: "string option"
  hrow_approved_by :: "string option"
  hrow_approved_at :: "string option"
  hrow_created_at :: string
  hrow_updated_at :: string

type_synonym hook_table = "hook_row list"

definition row_key :: "hook_row \<Rightarrow> hook_scope \<times> string \<times> string" where
  "row_key r = (hrow_scope_kind r, hrow_scope_key r, hrow_hook_id r)"

record scan_outcome =
  so_registered :: "string list"
  so_reset_to_pending :: "string list"
  so_failures :: "(string \<times> string) list"

definition no_outcome :: scan_outcome where
  "no_outcome = \<lparr> so_registered = [], so_reset_to_pending = [], so_failures = [] \<rparr>"

record hook_candidate =
  hc_path :: string
  hc_content_hash :: string
  hc_spec :: hook_spec

datatype hook_root = Root_Missing | Root_Unreadable string | Root_Files "(string \<times> (string + string)) list"

text \<open>The third-party code a scan relies on.\<close>

record scan_env =
  se_crypto :: crypto
  se_toml :: "string \<Rightarrow> string + hook_spec"
  se_hook_error :: "hook_error \<Rightarrow> string"
  se_spec_json :: "hook_spec \<Rightarrow> string + string"

subsection \<open>Scanning a root\<close>

fun read_candidates ::
  "scan_env \<Rightarrow> hook_scope \<Rightarrow> (string \<times> (string + string)) list \<Rightarrow> hook_candidate list \<times> (string \<times> string) list" where
  "read_candidates E scope [] = ([], [])"
| "read_candidates E scope ((path, content) # fs) =
     (case read_candidates E scope fs of
        (cs, failures) \<Rightarrow>
          (case content of
             Inl err \<Rightarrow> (cs, (path, ''reading file: '' @ err) # failures)
           | Inr raw \<Rightarrow>
               (case parse_hook (se_toml E) raw scope of
                  Inr spec \<Rightarrow> (\<lparr> hc_path = path, hc_content_hash = content_digest (se_crypto E) raw, hc_spec = spec \<rparr> # cs, failures)
                | Inl err \<Rightarrow> (cs, (path, ''parsing hook: '' @ se_hook_error E err) # failures))))"

text \<open>The event sets, in the order of the events.\<close>

definition validate_sets :: "hook_candidate list \<Rightarrow> (hook_event \<times> hook_error) option" where
  "validate_sets cs =
     (case find (\<lambda>e. case validate_event_set e (filter (\<lambda>s. hk_event s = e) (map hc_spec cs)) of Inl _ \<Rightarrow> True | Inr _ \<Rightarrow> False)
             [ToolPre, ToolPost, PatchProposed, RunStart, RunEnd, ApprovalRequested] of
        None \<Rightarrow> None
      | Some e \<Rightarrow>
          (case validate_event_set e (filter (\<lambda>s. hk_event s = e) (map hc_spec cs)) of
             Inl err \<Rightarrow> Some (e, err) | Inr _ \<Rightarrow> None))"

definition upsert_row ::
  "string \<Rightarrow> string \<Rightarrow> hook_scope \<Rightarrow> string \<Rightarrow> hook_candidate \<Rightarrow> string \<Rightarrow> hook_table \<Rightarrow> hook_table" where
  "upsert_row uid now scope scope_key c json t =
     (let key = (scope, scope_key, hk_id (hc_spec c)) in
      if key \<in> row_key ` set t then
        map (\<lambda>r. if row_key r = key then
               r\<lparr> hrow_name := hk_name (hc_spec c), hrow_event := hk_event (hc_spec c), hrow_kind := hk_kind (hc_spec c),
                  hrow_priority := hk_priority (hc_spec c), hrow_source_path := hc_path c,
                  hrow_content_hash := hc_content_hash c, hrow_spec_json := json, hrow_updated_at := now,
                  hrow_approval_state :=
                    (if hrow_approved_content_hash r = Some (hc_content_hash c) then hrow_approval_state r else HA_Pending) \<rparr>
             else r) t
      else
        t @ [\<lparr> hrow_id = uid, hrow_registry_item_id = None, hrow_hook_id = hk_id (hc_spec c), hrow_name = hk_name (hc_spec c),
               hrow_scope_kind = scope, hrow_scope_key = scope_key, hrow_event = hk_event (hc_spec c),
               hrow_kind = hk_kind (hc_spec c), hrow_priority = hk_priority (hc_spec c), hrow_source_path = hc_path c,
               hrow_content_hash = hc_content_hash c, hrow_spec_json = json, hrow_approval_state = HA_Pending,
               hrow_approved_content_hash = None, hrow_approved_by = None, hrow_approved_at = None,
               hrow_created_at = now, hrow_updated_at = now \<rparr>])"

definition register_candidate ::
  "scan_env \<Rightarrow> (string \<Rightarrow> string) \<Rightarrow> string \<Rightarrow> hook_scope \<Rightarrow> string \<Rightarrow> hook_candidate \<Rightarrow> hook_table \<times> scan_outcome
    \<Rightarrow> hook_table \<times> scan_outcome" where
  "register_candidate E uid now scope scope_key c st =
     (case st of (t, out) \<Rightarrow>
        (case se_spec_json E (hc_spec c) of
           Inl err \<Rightarrow> (t, out\<lparr> so_failures := so_failures out @ [(hc_path c, ''serializing spec: '' @ err)] \<rparr>)
         | Inr json \<Rightarrow>
             let existing = find (\<lambda>r. row_key r = (scope, scope_key, hk_id (hc_spec c))) t;
                 t' = upsert_row (uid (hc_path c)) now scope scope_key c json t
             in (case existing of
                   Some r \<Rightarrow>
                     if hrow_content_hash r \<noteq> hc_content_hash c
                     then (t', out\<lparr> so_reset_to_pending := so_reset_to_pending out @ [hk_id (hc_spec c)] \<rparr>)
                     else (t', out\<lparr> so_registered := so_registered out @ [hk_id (hc_spec c)] \<rparr>)
                 | None \<Rightarrow> (t', out\<lparr> so_registered := so_registered out @ [hk_id (hc_spec c)] \<rparr>))))"

definition drop_missing :: "hook_scope \<Rightarrow> string \<Rightarrow> string set \<Rightarrow> hook_table \<Rightarrow> hook_table" where
  "drop_missing scope scope_key scanned t =
     filter (\<lambda>r. \<not> (hrow_scope_kind r = scope \<and> hrow_scope_key r = scope_key \<and> hrow_source_path r \<notin> scanned)) t"

definition scan_hook_root ::
  "scan_env \<Rightarrow> (string \<Rightarrow> string) \<Rightarrow> string \<Rightarrow> string \<Rightarrow> hook_root \<Rightarrow> hook_scope \<Rightarrow> string \<Rightarrow> hook_table
    \<Rightarrow> hook_table \<times> scan_outcome" where
  "scan_hook_root E uid now root_path dir scope scope_key t =
     (case dir of
        Root_Missing \<Rightarrow> (t, no_outcome)
      | Root_Unreadable err \<Rightarrow> (t, no_outcome\<lparr> so_failures := [(root_path, ''reading directory: '' @ err)] \<rparr>)
      | Root_Files files \<Rightarrow>
          (case read_candidates E scope files of
             (cs, failures) \<Rightarrow>
               (case validate_sets cs of
                  Some (event, err) \<Rightarrow>
                    (t, no_outcome\<lparr> so_failures := failures @
                          [(root_path, ''event set validation failed for event `'' @ hook_event_str event @ ''`: '' @ se_hook_error E err)] \<rparr>)
                | None \<Rightarrow>
                    (case fold (register_candidate E uid now scope scope_key) cs (t, no_outcome\<lparr> so_failures := failures \<rparr>) of
                       (t', out) \<Rightarrow> (drop_missing scope scope_key (hc_path ` set cs) t', out)))))"

subsection \<open>Decisions\<close>

definition names_hook :: "string \<Rightarrow> hook_row \<Rightarrow> bool" where
  "names_hook ident r \<longleftrightarrow> hrow_hook_id r = ident \<or> hrow_id r = ident"

definition approve_hook :: "string \<Rightarrow> string \<Rightarrow> string \<Rightarrow> hook_table \<Rightarrow> hook_table \<times> bool" where
  "approve_hook now ident user t =
     (map (\<lambda>r. if names_hook ident r \<and> hrow_approval_state r \<noteq> HA_Approved then
             r\<lparr> hrow_approval_state := HA_Approved, hrow_approved_content_hash := Some (hrow_content_hash r),
                hrow_approved_by := Some user, hrow_approved_at := Some now, hrow_updated_at := now \<rparr>
           else r) t,
      list_ex (\<lambda>r. names_hook ident r \<and> hrow_approval_state r \<noteq> HA_Approved) t)"

definition reject_hook :: "string \<Rightarrow> string \<Rightarrow> string \<Rightarrow> hook_table \<Rightarrow> hook_table \<times> bool" where
  "reject_hook now ident user t =
     (map (\<lambda>r. if names_hook ident r then
             r\<lparr> hrow_approval_state := HA_Rejected, hrow_approved_by := Some user, hrow_approved_at := Some now,
                hrow_updated_at := now \<rparr>
           else r) t,
      list_ex (names_hook ident) t)"

text \<open>\<open>codypendent hook approve\<close>: find the hook by slug or row id, then approve by its slug.\<close>

definition get_hook :: "string \<Rightarrow> hook_table \<Rightarrow> hook_row option" where
  "get_hook ident t = find (names_hook ident) t"

definition hook_approve_command :: "string \<Rightarrow> string \<Rightarrow> string \<Rightarrow> hook_table \<Rightarrow> string + hook_table \<times> bool" where
  "hook_approve_command now user ident t =
     (case get_hook ident t of
        None \<Rightarrow> Inl (''hook `'' @ ident @ ''` not found'')
      | Some h \<Rightarrow> Inr (approve_hook now (hrow_hook_id h) user t))"

definition hook_reject_command :: "string \<Rightarrow> string \<Rightarrow> string \<Rightarrow> hook_table \<Rightarrow> string + hook_table \<times> bool" where
  "hook_reject_command now user ident t =
     (case get_hook ident t of
        None \<Rightarrow> Inl (''hook `'' @ ident @ ''` not found'')
      | Some h \<Rightarrow> Inr (reject_hook now (hrow_hook_id h) user t))"

subsection \<open>Approval binds the content\<close>

definition hook_row_ok :: "hook_row \<Rightarrow> bool" where
  "hook_row_ok r \<longleftrightarrow> (hrow_approval_state r = HA_Approved \<longrightarrow> hrow_approved_content_hash r = Some (hrow_content_hash r))"

definition table_ok :: "hook_table \<Rightarrow> bool" where
  "table_ok t \<longleftrightarrow> distinct (map row_key t) \<and> list_all hook_row_ok t"

text \<open>A row that is approved for its content.\<close>

definition approved_for :: "hook_table \<Rightarrow> hook_scope \<times> string \<times> string \<Rightarrow> string \<Rightarrow> bool" where
  "approved_for t key h \<longleftrightarrow>
     (\<exists>r \<in> set t. row_key r = key \<and> hrow_content_hash r = h \<and> hrow_approval_state r = HA_Approved)"

text \<open>The scans of the daemon and the two commands of the user.\<close>

datatype hook_op =
    HO_Scan "string \<Rightarrow> string" string string hook_root hook_scope string
  | HO_Approve string string string
  | HO_Reject string string string

definition table_after :: "hook_table \<Rightarrow> string + hook_table \<times> bool \<Rightarrow> hook_table" where
  "table_after t res = (case res of Inl _ \<Rightarrow> t | Inr (t', _) \<Rightarrow> t')"

fun hook_step :: "scan_env \<Rightarrow> hook_table \<Rightarrow> hook_op \<Rightarrow> hook_table" where
  "hook_step E t (HO_Scan uid now path dir scope key) = fst (scan_hook_root E uid now path dir scope key t)"
| "hook_step E t (HO_Approve now ident user) = table_after t (hook_approve_command now user ident t)"
| "hook_step E t (HO_Reject now ident user) = table_after t (hook_reject_command now user ident t)"

lemma approve_command_table:
  "table_after t (hook_approve_command now user ident t)
    = (case get_hook ident t of None \<Rightarrow> t | Some h \<Rightarrow> fst (approve_hook now (hrow_hook_id h) user t))"
  by (simp add: table_after_def hook_approve_command_def split: option.splits prod.splits)

lemma reject_command_table:
  "table_after t (hook_reject_command now user ident t)
    = (case get_hook ident t of None \<Rightarrow> t | Some h \<Rightarrow> fst (reject_hook now (hrow_hook_id h) user t))"
  by (simp add: table_after_def hook_reject_command_def split: option.splits prod.splits)

lemma table_ok_map:
  assumes "\<And>r. row_key (f r) = row_key r" and "\<And>r. hook_row_ok r \<Longrightarrow> hook_row_ok (f r)" and "table_ok t"
  shows "table_ok (map f t)"
proof -
  have "row_key \<circ> f = row_key" using assms(1) by (simp add: fun_eq_iff)
  then show ?thesis using assms(2,3) by (simp add: table_ok_def list_all_iff)
qed

lemma upsert_row_ok: "table_ok t \<Longrightarrow> table_ok (upsert_row uid now scope sk c json t)"
proof (cases "(scope, sk, hk_id (hc_spec c)) \<in> row_key ` set t")
  case True
  assume "table_ok t"
  then show ?thesis unfolding upsert_row_def Let_def if_P[OF True]
    by (rule table_ok_map[rotated 2]) (auto simp: hook_row_ok_def row_key_def split: if_splits)
next
  case False
  assume "table_ok t"
  with False show ?thesis by (auto simp: table_ok_def upsert_row_def Let_def hook_row_ok_def row_key_def)
qed

lemma upsert_row_approved:
  "table_ok t \<Longrightarrow> approved_for (upsert_row uid now scope sk c json t) key h \<Longrightarrow> approved_for t key h"
  by (force simp: approved_for_def upsert_row_def Let_def table_ok_def list_all_iff hook_row_ok_def row_key_def
      split: if_splits)

lemma register_candidate_table:
  "fst (register_candidate E uid now scope sk c st)
    = (case se_spec_json E (hc_spec c) of Inl _ \<Rightarrow> fst st | Inr json \<Rightarrow> upsert_row (uid (hc_path c)) now scope sk c json (fst st))"
  by (auto simp: register_candidate_def Let_def split: prod.splits sum.splits option.splits)

lemma fold_register:
  assumes "table_ok (fst st)"
  shows "table_ok (fst (fold (register_candidate E uid now scope sk) cs st))
    \<and> (approved_for (fst (fold (register_candidate E uid now scope sk) cs st)) key h \<longrightarrow> approved_for (fst st) key h)"
  using assms
proof (induction cs arbitrary: st)
  case (Cons c cs)
  have "table_ok (fst (register_candidate E uid now scope sk c st))"
    using Cons.prems by (auto simp: register_candidate_table upsert_row_ok split: sum.splits)
  moreover have "approved_for (fst (register_candidate E uid now scope sk c st)) key h \<longrightarrow> approved_for (fst st) key h"
    using Cons.prems by (auto simp: register_candidate_table split: sum.splits dest: upsert_row_approved)
  ultimately show ?case using Cons.IH by simp
qed simp

lemma drop_missing_ok: "table_ok t \<Longrightarrow> table_ok (drop_missing scope sk scanned t)"
  by (auto simp: table_ok_def drop_missing_def list_all_iff distinct_map inj_on_def)

lemma drop_missing_approved: "approved_for (drop_missing scope sk scanned t) key h \<Longrightarrow> approved_for t key h"
  by (auto simp: approved_for_def drop_missing_def)

lemma scan_approved:
  assumes "table_ok t"
  shows "table_ok (fst (scan_hook_root E uid now path dir scope sk t))
    \<and> (approved_for (fst (scan_hook_root E uid now path dir scope sk t)) key h \<longrightarrow> approved_for t key h)"
proof -
  have fold: "table_ok (drop_missing scope sk S (fst (fold (register_candidate E uid now scope sk) cs (t, out))))
      \<and> (approved_for (drop_missing scope sk S (fst (fold (register_candidate E uid now scope sk) cs (t, out)))) key h \<longrightarrow> approved_for t key h)"
    for cs out S
    using fold_register[of "(t, out)" E uid now scope sk cs key h] assms
    by (auto intro: drop_missing_ok dest: drop_missing_approved)
  show ?thesis
  proof (cases dir)
    case (Root_Files files)
    obtain cs failures where rc: "read_candidates E scope files = (cs, failures)" by fastforce
    show ?thesis using assms fold[of "hc_path ` set cs" cs "no_outcome\<lparr> so_failures := failures \<rparr>"]
      by (auto simp: scan_hook_root_def Root_Files rc split: option.splits prod.splits)
  qed (use assms in \<open>simp_all add: scan_hook_root_def\<close>)
qed

lemma approve_ok: "table_ok t \<Longrightarrow> table_ok (fst (approve_hook now ident user t))"
  unfolding approve_hook_def fst_conv by (rule table_ok_map) (auto simp: hook_row_ok_def row_key_def)

lemma reject_ok: "table_ok t \<Longrightarrow> table_ok (fst (reject_hook now ident user t))"
  unfolding reject_hook_def fst_conv by (rule table_ok_map) (auto simp: hook_row_ok_def row_key_def)

lemma hook_step_ok: "table_ok t \<Longrightarrow> table_ok (hook_step E t op)"
  by (cases op) (auto simp: approve_ok reject_ok scan_approved approve_command_table reject_command_table split: option.splits)

lemma approve_approved:
  "approved_for (fst (approve_hook now ident user t)) key h \<Longrightarrow>
     approved_for t key h \<or> (\<exists>r \<in> set t. row_key r = key \<and> hrow_content_hash r = h \<and> names_hook ident r)"
  by (fastforce simp: approved_for_def approve_hook_def row_key_def split: if_splits)

lemma reject_approved: "approved_for (fst (reject_hook now ident user t)) key h \<Longrightarrow> approved_for t key h"
  by (fastforce simp: approved_for_def reject_hook_def row_key_def split: if_splits)

subsection \<open>A row comes from a file\<close>

text \<open>
  The texts a scan read, and the row \<open>r\<close> as the registration of the file with the text \<open>raw\<close>, which parses to \<open>spec\<close>.
\<close>

fun scan_files :: "hook_op \<Rightarrow> (hook_scope \<times> string \<times> string \<times> string) list" where
  "scan_files (HO_Scan _ _ _ (Root_Files files) scope sk) =
     concat (map (\<lambda>(path, content). case content of Inr raw \<Rightarrow> [(scope, sk, path, raw)] | Inl _ \<Rightarrow> []) files)"
| "scan_files _ = []"

definition scanned_texts :: "hook_op list \<Rightarrow> string set" where
  "scanned_texts ops = (\<lambda>(_, _, _, raw). raw) ` set (concat (map scan_files ops))"

definition registers :: "scan_env \<Rightarrow> hook_op list \<Rightarrow> hook_row \<Rightarrow> string \<Rightarrow> hook_spec \<Rightarrow> bool" where
  "registers E ops r raw spec \<longleftrightarrow>
     (hrow_scope_kind r, hrow_scope_key r, hrow_source_path r, raw) \<in> set (concat (map scan_files ops))
     \<and> parse_hook (se_toml E) raw (hrow_scope_kind r) = Inr spec
     \<and> hrow_content_hash r = content_digest (se_crypto E) raw \<and> se_spec_json E spec = Inr (hrow_spec_json r)
     \<and> hrow_hook_id r = hk_id spec \<and> hrow_event r = hk_event spec"

definition file_part :: "hook_row \<Rightarrow> (hook_scope \<times> string \<times> string) \<times> hook_event \<times> string \<times> string \<times> string" where
  "file_part r = (row_key r, hrow_event r, hrow_source_path r, hrow_content_hash r, hrow_spec_json r)"

lemma registers_cong: "file_part r = file_part r' \<Longrightarrow> registers E ops r raw spec \<Longrightarrow> registers E ops r' raw spec"
  by (simp add: registers_def file_part_def row_key_def)

lemma registers_more: "registers E ops r raw spec \<Longrightarrow> registers E (ops @ later) r raw spec"
  unfolding registers_def by simp

lemma read_candidates_mem:
  "c \<in> set (fst (read_candidates E scope files)) \<Longrightarrow>
     \<exists>raw. (hc_path c, Inr raw) \<in> set files \<and> parse_hook (se_toml E) raw scope = Inr (hc_spec c)
       \<and> hc_content_hash c = content_digest (se_crypto E) raw"
proof (induction files)
  case (Cons f files)
  obtain path content cs fl where f: "f = (path, content)" and rc: "read_candidates E scope files = (cs, fl)" by fastforce
  from Cons.prems consider "c \<in> set cs"
    | raw where "content = Inr raw" "hc_path c = path" "parse_hook (se_toml E) raw scope = Inr (hc_spec c)"
        "hc_content_hash c = content_digest (se_crypto E) raw"
    by (auto simp: f rc split: sum.splits)
  then show ?case
  proof cases
    case 1
    with Cons.IH rc obtain raw where "(hc_path c, Inr raw) \<in> set files" "parse_hook (se_toml E) raw scope = Inr (hc_spec c)"
      "hc_content_hash c = content_digest (se_crypto E) raw" by auto
    then show ?thesis by (intro exI[of _ raw]) simp
  next
    case (2 raw)
    then show ?thesis by (intro exI[of _ raw]) (simp add: f)
  qed
qed simp

text \<open>The row a candidate leaves.\<close>

definition row_of :: "hook_scope \<Rightarrow> string \<Rightarrow> hook_candidate \<Rightarrow> string \<Rightarrow> hook_row \<Rightarrow> bool" where
  "row_of scope sk c json r \<longleftrightarrow>
     file_part r = ((scope, sk, hk_id (hc_spec c)), hk_event (hc_spec c), hc_path c, hc_content_hash c, json)"

lemma upsert_row_rows: "r \<in> set (upsert_row uid now scope sk c json t) \<Longrightarrow> r \<in> set t \<or> row_of scope sk c json r"
  by (auto simp: upsert_row_def Let_def row_of_def file_part_def row_key_def split: if_splits)

lemma fold_register_rows:
  "r \<in> set (fst (fold (register_candidate E uid now scope sk) cs st)) \<Longrightarrow>
     r \<in> set (fst st) \<or> (\<exists>c \<in> set cs. \<exists>json. se_spec_json E (hc_spec c) = Inr json \<and> row_of scope sk c json r)"
proof (induction cs arbitrary: st)
  case (Cons c cs)
  from Cons.IH[of "register_candidate E uid now scope sk c st"] Cons.prems
  consider "r \<in> set (fst (register_candidate E uid now scope sk c st))"
    | "\<exists>c \<in> set cs. \<exists>json. se_spec_json E (hc_spec c) = Inr json \<and> row_of scope sk c json r" by auto
  then show ?case
    by cases (auto simp: register_candidate_table split: sum.splits dest!: upsert_row_rows)
qed simp

lemma candidate_registers:
  assumes "c \<in> set (fst (read_candidates E scope files))" "se_spec_json E (hc_spec c) = Inr json" "row_of scope sk c json r"
  shows "\<exists>raw spec. registers E [HO_Scan uid now path (Root_Files files) scope sk] r raw spec"
proof -
  obtain raw where "(hc_path c, Inr raw) \<in> set files" "parse_hook (se_toml E) raw scope = Inr (hc_spec c)"
    "hc_content_hash c = content_digest (se_crypto E) raw" using read_candidates_mem[OF assms(1)] by blast
  moreover have "hrow_scope_kind r = scope" "hrow_scope_key r = sk" "hrow_source_path r = hc_path c" "hrow_content_hash r = hc_content_hash c"
    "hrow_spec_json r = json" "hrow_hook_id r = hk_id (hc_spec c)" "hrow_event r = hk_event (hc_spec c)"
    using assms(3) by (simp_all add: row_of_def file_part_def row_key_def)
  ultimately have "registers E [HO_Scan uid now path (Root_Files files) scope sk] r raw (hc_spec c)"
    using assms(2) by (force simp: registers_def)
  then show ?thesis by blast
qed

lemma scan_rows:
  assumes "r \<in> set (fst (scan_hook_root E uid now path dir scope sk t))"
  shows "r \<in> set t \<or> (\<exists>raw spec. registers E [HO_Scan uid now path dir scope sk] r raw spec)"
proof (cases dir)
  case (Root_Files files)
  obtain cs failures where rc: "read_candidates E scope files = (cs, failures)" by fastforce
  show ?thesis
  proof (cases "validate_sets cs")
    case None
    then have "r \<in> set (fst (fold (register_candidate E uid now scope sk) cs (t, no_outcome\<lparr> so_failures := failures \<rparr>)))"
      using assms by (auto simp: scan_hook_root_def Root_Files rc drop_missing_def split: prod.splits)
    from fold_register_rows[OF this] show ?thesis
      using candidate_registers[where files = files and scope = scope and E = E] unfolding Root_Files rc by auto
  next
    case (Some p)
    then show ?thesis using assms by (auto simp: scan_hook_root_def Root_Files rc split: prod.splits)
  qed
qed (use assms in \<open>simp_all add: scan_hook_root_def\<close>)

lemma decision_rows:
  "r \<in> set (fst (approve_hook now ident user t)) \<Longrightarrow> \<exists>r0 \<in> set t. file_part r = file_part r0"
  "r \<in> set (fst (reject_hook now ident user t)) \<Longrightarrow> \<exists>r0 \<in> set t. file_part r = file_part r0"
  by (force simp: approve_hook_def reject_hook_def file_part_def row_key_def split: if_splits)+

lemma command_rows:
  "r \<in> set (table_after t (hook_approve_command now user ident t)) \<Longrightarrow> \<exists>r0 \<in> set t. file_part r = file_part r0"
  "r \<in> set (table_after t (hook_reject_command now user ident t)) \<Longrightarrow> \<exists>r0 \<in> set t. file_part r = file_part r0"
  using decision_rows unfolding approve_command_table reject_command_table by (auto split: option.splits)

lemma row_from_file:
  "r \<in> set (foldl (hook_step E) [] ops) \<Longrightarrow> \<exists>raw spec. registers E ops r raw spec"
proof (induction ops arbitrary: r rule: rev_induct)
  case (snoc op ops)
  let ?t = "foldl (hook_step E) [] ops"
  have old: "\<exists>raw spec. registers E (ops @ [op]) r raw spec" if "r0 \<in> set ?t" "file_part r = file_part r0" for r0
    using snoc.IH[OF that(1)] registers_cong[OF sym[OF that(2)]] registers_more by blast
  show ?case
  proof (cases op)
    case (HO_Scan uid now path dir scope sk)
    then have "r \<in> set ?t \<or> (\<exists>raw spec. registers E [op] r raw spec)" using snoc.prems scan_rows by simp
    moreover have "registers E [op] r raw spec \<Longrightarrow> registers E (ops @ [op]) r raw spec" for raw spec by (simp add: registers_def)
    ultimately show ?thesis using old by blast
  next
    case (HO_Approve now ident user)
    then show ?thesis using snoc.prems old command_rows(1) by (metis foldl_append foldl_Cons foldl_Nil hook_step.simps(2))
  next
    case (HO_Reject now ident user)
    then show ?thesis using snoc.prems old command_rows(2) by (metis foldl_append foldl_Cons foldl_Nil hook_step.simps(3))
  qed
qed simp

subsection \<open>An example registry\<close>

text \<open>
  A specification per scope and an environment whose parser takes the text \<open>u\<close> for the user's
  specification and any other text for the repository's.
\<close>

definition example_hook :: "hook_scope \<Rightarrow> hook_event \<Rightarrow> hook_spec" where
  "example_hook scope event =
     \<lparr> hk_schema_version = 1, hk_id = ''lint'', hk_name = ''Lint'', hk_scope = scope, hk_event = event, hk_kind = Validate,
       hk_priority = 100,
       hk_runtime = \<lparr> hr_program = ''/bin/sh'', hr_args = [], hr_working_directory = None, hr_timeout_seconds = 30 \<rparr>,
       hk_policy = \<lparr> hp_failure = FP_Warn, hp_requires_approval = False, hp_network = HN_Deny \<rparr>,
       hk_output = \<lparr> ho_capture_stdout = False, ho_capture_stderr = False, ho_create_artifact = False, ho_attach_to = None \<rparr> \<rparr>"

definition example_scan_env :: scan_env where
  "example_scan_env =
     \<lparr> se_crypto = length_crypto,
       se_toml = (\<lambda>raw. Inr (if raw = ''u'' then example_hook HS_User ToolPre
                         else example_hook HS_Repository (if raw = ''end'' then RunEnd else ToolPre))),
       se_hook_error = (\<lambda>_. []),
       se_spec_json = (\<lambda>s. if s = example_hook HS_User ToolPre then Inr ''user''
                         else if s = example_hook HS_Repository ToolPre then Inr ''repository'' else Inl ''unknown'') \<rparr>"

definition sample_row :: "string \<Rightarrow> hook_scope \<Rightarrow> string \<Rightarrow> string \<Rightarrow> string \<Rightarrow> hook_row" where
  "sample_row uid scope sk path raw =
     \<lparr> hrow_id = uid, hrow_registry_item_id = None, hrow_hook_id = ''lint'', hrow_name = ''Lint'', hrow_scope_kind = scope,
       hrow_scope_key = sk, hrow_event = ToolPre, hrow_kind = Validate, hrow_priority = 100, hrow_source_path = path,
       hrow_content_hash = content_digest length_crypto raw, hrow_spec_json = (if scope = HS_User then ''user'' else ''repository''), hrow_approval_state = HA_Pending,
       hrow_approved_content_hash = None, hrow_approved_by = None, hrow_approved_at = None, hrow_created_at = ''t'',
       hrow_updated_at = ''t'' \<rparr>"

lemma example_hook_valid: "validate_hook scope (example_hook scope event) = Inr (example_hook scope event)"
proof -
  have "trim ''lint'' \<noteq> []" "trim ''/bin/sh'' \<noteq> []" by code_simp+
  then show ?thesis by (simp add: validate_hook_def example_hook_def is_high_risk_def)
qed

lemma example_scan:
  assumes "parse_hook (se_toml example_scan_env) raw scope = Inr (example_hook scope ToolPre)"
    and "(scope, sk, ''lint'') \<notin> row_key ` set t" and scope: "scope = HS_User \<or> scope = HS_Repository"
  shows "hook_step example_scan_env t (HO_Scan (\<lambda>_. uid) ''t'' sk (Root_Files [(path, Inr raw)]) scope sk)
    = filter (\<lambda>r. \<not> (hrow_scope_kind r = scope \<and> hrow_scope_key r = sk \<and> hrow_source_path r \<noteq> path)) t
      @ [sample_row uid scope sk path raw]"
proof -
  have id: "hk_id (example_hook scope ToolPre) = ''lint''" by (simp add: example_hook_def)
  let ?c = "\<lparr> hc_path = path, hc_content_hash = content_digest length_crypto raw, hc_spec = example_hook scope ToolPre \<rparr>"
  have cands: "read_candidates example_scan_env scope [(path, Inr raw)] = ([?c], [])"
    using assms(1) by (simp add: example_scan_env_def)
  have valid: "validate_sets [?c] = None"
    by (simp add: validate_sets_def validate_event_set_def MAX_HOOKS_PER_EVENT_def example_hook_def)
  have json: "se_spec_json example_scan_env (example_hook scope ToolPre) = Inr (if scope = HS_User then ''user'' else ''repository'')"
    using scope by (auto simp: example_scan_env_def example_hook_def)
  have "upsert_row uid ''t'' scope sk ?c (if scope = HS_User then ''user'' else ''repository'') t = t @ [sample_row uid scope sk path raw]"
    using assms(2) by (simp add: upsert_row_def Let_def id sample_row_def) (simp add: example_hook_def)
  then have "fst (register_candidate example_scan_env (\<lambda>_. uid) ''t'' scope sk ?c (t, no_outcome\<lparr> so_failures := [] \<rparr>))
      = t @ [sample_row uid scope sk path raw]"
    by (simp add: register_candidate_table json)
  then obtain out where reg: "register_candidate example_scan_env (\<lambda>_. uid) ''t'' scope sk ?c (t, no_outcome\<lparr> so_failures := [] \<rparr>)
      = (t @ [sample_row uid scope sk path raw], out)" by (metis prod.collapse)
  have "hook_step example_scan_env t (HO_Scan (\<lambda>_. uid) ''t'' sk (Root_Files [(path, Inr raw)]) scope sk)
      = drop_missing scope sk {path} (t @ [sample_row uid scope sk path raw])"
    unfolding hook_step.simps scan_hook_root_def hook_root.case cands prod.case valid option.case by (simp add: reg)
  then show ?thesis by (simp add: drop_missing_def) (simp add: sample_row_def)
qed

text \<open>The tables after a scan of the user's root and of a repository with a hook of the same id.\<close>

definition user_scan :: hook_op where
  "user_scan = HO_Scan (\<lambda>_. ''row1'') ''t'' [] (Root_Files [(''/home/hook.toml'', Inr ''u'')]) HS_User []"

definition repository_scan :: hook_op where
  "repository_scan = HO_Scan (\<lambda>_. ''row2'') ''t'' ''/repo'' (Root_Files [(''/repo/hook.toml'', Inr ''repository'')]) HS_Repository ''/repo''"

definition user_row :: hook_row where
  "user_row = sample_row ''row1'' HS_User [] ''/home/hook.toml'' ''u''"

definition repository_row :: hook_row where
  "repository_row = sample_row ''row2'' HS_Repository ''/repo'' ''/repo/hook.toml'' ''repository''"

lemma example_rows [simp]:
  "hrow_hook_id user_row = ''lint''" "hrow_hook_id repository_row = ''lint''"
  "hrow_id user_row = ''row1''" "hrow_id repository_row = ''row2''"
  "hrow_scope_kind user_row = HS_User" "hrow_scope_kind repository_row = HS_Repository"
  "hrow_approval_state user_row = HA_Pending" "hrow_approval_state repository_row = HA_Pending"
  by (simp_all add: user_row_def repository_row_def sample_row_def)

lemma example_tables:
  "foldl (hook_step example_scan_env) [] [user_scan] = [user_row]"
  "foldl (hook_step example_scan_env) [] [user_scan, repository_scan] = [user_row, repository_row]"
proof -
  have u: "parse_hook (se_toml example_scan_env) ''u'' HS_User = Inr (example_hook HS_User ToolPre)"
    by (simp add: parse_hook_def example_scan_env_def example_hook_valid)
  have r: "parse_hook (se_toml example_scan_env) ''repository'' HS_Repository = Inr (example_hook HS_Repository ToolPre)"
    by (simp add: parse_hook_def example_scan_env_def example_hook_valid)
  show first: "foldl (hook_step example_scan_env) [] [user_scan] = [user_row]"
    using example_scan[OF u _ disjI1[OF refl]] by (simp add: user_scan_def user_row_def)
  have "(HS_Repository, ''/repo'', ''lint'') \<notin> row_key ` set [user_row]"
    by (simp add: row_key_def user_row_def sample_row_def)
  from example_scan[OF r this disjI2[OF refl]] first show "foldl (hook_step example_scan_env) [] [user_scan, repository_scan] = [user_row, repository_row]"
    by (simp add: repository_scan_def repository_row_def)
qed

subsection \<open>Properties\<close>

text \<open>
  Whatever sequence of scans, approvals and rejections led to the table, a hook that is approved for some
  content had exactly that content when an approve command named its slug.
\<close>

definition command_names :: "hook_table \<Rightarrow> string \<Rightarrow> hook_row \<Rightarrow> bool" where
  "command_names t ident r \<longleftrightarrow> (\<exists>h. get_hook ident t = Some h \<and> names_hook (hrow_hook_id h) r)"

lemma approval_history:
  assumes "approved_for (foldl (hook_step E) [] ops) key h"
  shows "\<exists>pre post now ident user. \<exists>r \<in> set (foldl (hook_step E) [] pre).
      ops = pre @ HO_Approve now ident user # post \<and> command_names (foldl (hook_step E) [] pre) ident r
      \<and> row_key r = key \<and> hrow_content_hash r = h"
  using assms
proof (induction ops rule: rev_induct)
  case Nil
  then show ?case by (simp add: approved_for_def)
next
  case (snoc op ops)
  let ?t = "foldl (hook_step E) [] ops"
  have "table_ok ?t" by (induction ops rule: rev_induct) (auto simp: hook_step_ok, simp add: table_ok_def)
  have "approved_for ?t key h \<or> (\<exists>now ident user. op = HO_Approve now ident user
      \<and> (\<exists>r \<in> set ?t. row_key r = key \<and> hrow_content_hash r = h \<and> command_names ?t ident r))"
  proof (cases op)
    case (HO_Scan uid now path dir scope sk)
    then show ?thesis using snoc.prems scan_approved[OF \<open>table_ok ?t\<close>] by simp
  next
    case (HO_Approve now ident user)
    show ?thesis
    proof (cases "get_hook ident ?t")
      case None
      then show ?thesis using snoc.prems HO_Approve by (simp add: approve_command_table)
    next
      case (Some hk)
      then show ?thesis using snoc.prems HO_Approve approve_approved[of now "hrow_hook_id hk" user ?t key h]
        by (auto simp: approve_command_table command_names_def)
    qed
  next
    case (HO_Reject now ident user)
    then show ?thesis using snoc.prems reject_approved by (auto simp: reject_command_table split: option.splits)
  qed
  then show ?case
  proof (elim disjE exE conjE)
    assume "approved_for ?t key h"
    from snoc.IH[OF this] obtain pre post now ident user r where
      "r \<in> set (foldl (hook_step E) [] pre)" "ops = pre @ HO_Approve now ident user # post"
      "command_names (foldl (hook_step E) [] pre) ident r" "row_key r = key" "hrow_content_hash r = h" by blast
    then show ?thesis
      by (intro exI[of _ pre] exI[of _ "post @ [op]"] exI[of _ now] exI[of _ ident] exI[of _ user] bexI[of _ r]) simp_all
  qed blast
qed

text \<open>
  C37: An approval is not confined to the hook it names: the command that is given the row id of a user's hook
  also approves the hook of a repository that has the same id, which nobody had approved.
\<close>
theorem approval_crosses_scopes:
  "\<exists>E ops u r t'. let t = foldl (hook_step E) [] ops in
     u \<in> set t \<and> r \<in> set t \<and> hrow_scope_kind u = HS_User \<and> hrow_scope_kind r = HS_Repository
     \<and> hrow_id u \<noteq> hrow_id r \<and> \<not> approved_for t (row_key r) (hrow_content_hash r)
     \<and> hook_approve_command ''t'' ''me'' (hrow_id u) t = Inr (t', True)
     \<and> approved_for t' (row_key r) (hrow_content_hash r)"
proof -
  let ?t = "[user_row, repository_row]"
  let ?t' = "fst (approve_hook ''t'' ''lint'' ''me'' ?t)"
  have "get_hook (hrow_id user_row) ?t = Some user_row" by (simp add: get_hook_def names_hook_def)
  moreover have "snd (approve_hook ''t'' ''lint'' ''me'' ?t)" by (simp add: approve_hook_def names_hook_def)
  ultimately have "hook_approve_command ''t'' ''me'' (hrow_id user_row) ?t = Inr (?t', True)"
    unfolding hook_approve_command_def by (simp add: prod_eq_iff)
  moreover have "\<not> approved_for ?t (row_key repository_row) (hrow_content_hash repository_row)"
    by (simp add: approved_for_def)
  moreover have "approved_for ?t' (row_key repository_row) (hrow_content_hash repository_row)"
    by (simp add: approved_for_def approve_hook_def names_hook_def row_key_def)
  ultimately show ?thesis
    by (intro exI[of _ example_scan_env] exI[of _ "[user_scan, repository_scan]"] exI[of _ user_row]
        exI[of _ repository_row] exI[of _ ?t']) (simp only: Let_def example_tables, simp)
qed

text \<open>
  Three further effects of a scan. A rejected hook that was never approved is pending again after the next
  scan of its unchanged file; a file that cannot be read for one scan removes its row, approved or not;
  and two hooks of one root with the same id pass the check for duplicates when they bind to different
  events, so that the second replaces the first.
\<close>

lemma rescan_revives_rejected:
  assumes "row_key r = (scope, sk, hk_id (hc_spec c))" and "hrow_approval_state r = HA_Rejected"
    and "hrow_approved_content_hash r = None" and "hc_content_hash c = hrow_content_hash r"
  shows "map hrow_approval_state (upsert_row uid now scope sk c json [r]) = [HA_Pending]"
  using assms by (simp add: upsert_row_def Let_def)

lemma unreadable_file_drops_hooks:
  "fst (scan_hook_root E uid now path (Root_Files [(file, Inl err)]) scope sk t)
    = filter (\<lambda>r. \<not> (hrow_scope_kind r = scope \<and> hrow_scope_key r = sk)) t"
  by (simp add: scan_hook_root_def validate_sets_def validate_event_set_def drop_missing_def)

lemma duplicate_id_across_events:
  "validate_sets [\<lparr> hc_path = p, hc_content_hash = h, hc_spec = example_hook scope ToolPre \<rparr>,
                  \<lparr> hc_path = q, hc_content_hash = k, hc_spec = example_hook scope RunEnd \<rparr>] = None"
  by (simp add: validate_sets_def validate_event_set_def MAX_HOOKS_PER_EVENT_def example_hook_def)

end
