(* ===== verification/Plugin_Permission.thy ===== *)
theory Plugin_Permission
  imports Plugin_Manifest "HOL-Library.FSet"
begin

text \<open>
  Capability grants and the permission diff (\<open>crates/sandbox/src/permission.rs\<close>): the capabilities a
  manifest declares as a set, and the difference between an installed set and an update's, with resource
  caps and embedded-UI privileges folded in. A \<open>BTreeSet\<close> is a finite set; a \<open>Vec\<close> collected from it
  is its sorted list, in the derived order: by constructor first, then field by field.
\<close>

subsection \<open>Capabilities\<close>

datatype capability =
    Cap_FilesystemRead string
  | Cap_FilesystemWrite string
  | Cap_Network string
  | Cap_Secret string
  | Cap_Subprocess

fun cap_class :: "capability \<Rightarrow> string" where
  "cap_class (Cap_FilesystemRead _) = ''filesystem_read''"
| "cap_class (Cap_FilesystemWrite _) = ''filesystem_write''"
| "cap_class (Cap_Network _) = ''network''"
| "cap_class (Cap_Secret _) = ''secret''"
| "cap_class Cap_Subprocess = ''subprocess''"

fun cap_value :: "capability \<Rightarrow> string" where
  "cap_value (Cap_FilesystemRead v) = v"
| "cap_value (Cap_FilesystemWrite v) = v"
| "cap_value (Cap_Network v) = v"
| "cap_value (Cap_Secret v) = v"
| "cap_value Cap_Subprocess = ''true''"

definition cap_display :: "capability \<Rightarrow> string" where
  "cap_display c = cap_class c @ '': '' @ cap_value c"

text \<open>The position of a value in the derived order, as a list of components compared in turn.\<close>

definition str_key :: "string \<Rightarrow> nat list" where
  "str_key s = map of_char s"

lemma str_key_inj [simp]: "str_key s = str_key t \<longleftrightarrow> s = t"
  by (simp add: str_key_def inj_map_eq_map inj_def)

fun cap_key :: "capability \<Rightarrow> nat list list" where
  "cap_key (Cap_FilesystemRead v) = [[0], str_key v]"
| "cap_key (Cap_FilesystemWrite v) = [[1], str_key v]"
| "cap_key (Cap_Network v) = [[2], str_key v]"
| "cap_key (Cap_Secret v) = [[3], str_key v]"
| "cap_key Cap_Subprocess = [[4]]"

lemma cap_key_inj [simp]: "cap_key a = cap_key b \<longleftrightarrow> a = b"
  by (cases a; cases b) auto

instantiation capability :: linorder
begin

definition less_eq_capability :: "capability \<Rightarrow> capability \<Rightarrow> bool" where
  "less_eq_capability a b \<longleftrightarrow> cap_key a \<le> cap_key b"

definition less_capability :: "capability \<Rightarrow> capability \<Rightarrow> bool" where
  "less_capability a b \<longleftrightarrow> cap_key a < cap_key b"

instance
  by standard (auto simp: less_eq_capability_def less_capability_def less_le)

end

type_synonym capability_set = "capability fset"

definition from_spec :: "capabilities_spec \<Rightarrow> capability_set" where
  "from_spec s = fset_of_list
     (map Cap_FilesystemRead (cs_filesystem_read s) @ map Cap_FilesystemWrite (cs_filesystem_write s)
      @ map Cap_Network (cs_network s) @ map Cap_Secret (cs_secrets s)
      @ (if cs_subprocess s then [Cap_Subprocess] else []))"

definition grants :: "capability_set \<Rightarrow> capability \<Rightarrow> bool" where
  "grants s c \<longleftrightarrow> c |\<in>| s"

subsection \<open>UI privileges\<close>

datatype ui_permission =
    UiP_Capability ui_capability
  | UiP_Compatibility string string
  | UiP_Entrypoint ui_target string
  | UiP_Contribution string ui_point string "ui_target list" "string option"

fun ui_capability_ord :: "ui_capability \<Rightarrow> nat" where
  "ui_capability_ord ArtifactRead = 0"
| "ui_capability_ord ContextRead = 1"
| "ui_capability_ord RunRead = 2"
| "ui_capability_ord WorkflowRead = 3"
| "ui_capability_ord CommandInvoke = 4"
| "ui_capability_ord ClipboardRead = 5"
| "ui_capability_ord ClipboardWrite = 6"
| "ui_capability_ord OpenExternal = 7"
| "ui_capability_ord Notifications = 8"
| "ui_capability_ord InputCapture = 9"
| "ui_capability_ord Webview = 10"

fun ui_target_ord :: "ui_target \<Rightarrow> nat" where
  "ui_target_ord T_Shared = 0"
| "ui_target_ord T_Terminal = 1"
| "ui_target_ord T_Web = 2"

fun ui_point_ord :: "ui_point \<Rightarrow> nat" where
  "ui_point_ord Sidebar = 0"
| "ui_point_ord Panel = 1"
| "ui_point_ord StatusItem = 2"
| "ui_point_ord Command = 3"
| "ui_point_ord CommandPalette = 4"
| "ui_point_ord ComposerAccessory = 5"
| "ui_point_ord MessageRenderer = 6"
| "ui_point_ord ToolRenderer = 7"
| "ui_point_ord ArtifactRenderer = 8"
| "ui_point_ord WorkflowInspector = 9"
| "ui_point_ord BlackboardRenderer = 10"
| "ui_point_ord DocumentBlock = 11"
| "ui_point_ord CodeGraphNode = 12"
| "ui_point_ord SettingsSection = 13"
| "ui_point_ord SetupStep = 14"
| "ui_point_ord Form = 15"
| "ui_point_ord Wizard = 16"
| "ui_point_ord DashboardCard = 17"
| "ui_point_ord TraceSpanRenderer = 18"
| "ui_point_ord ContextMenu = 19"
| "ui_point_ord QuickPick = 20"
| "ui_point_ord Notification = 21"
| "ui_point_ord ApprovalFrame = 22"
| "ui_point_ord ApprovalActions = 23"
| "ui_point_ord SecretEntry = 24"
| "ui_point_ord PolicyState = 25"
| "ui_point_ord TerminalLifecycle = 26"

lemma ui_capability_ord_inj [simp]: "ui_capability_ord a = ui_capability_ord b \<longleftrightarrow> a = b"
  by (cases a; cases b) auto

lemma ui_target_ord_inj [simp]: "ui_target_ord a = ui_target_ord b \<longleftrightarrow> a = b"
  by (cases a; cases b) auto

lemma ui_point_str_inj: "ui_point_str a = ui_point_str b \<longleftrightarrow> ui_point_ord a = ui_point_ord b"
  by (cases a; cases b) simp_all

lemma ui_point_ord_inj [simp]: "ui_point_ord a = ui_point_ord b \<longleftrightarrow> a = b"
  by (cases a; cases b) simp_all

fun ui_permission_key :: "ui_permission \<Rightarrow> nat list list" where
  "ui_permission_key (UiP_Capability c) = [[0], [ui_capability_ord c]]"
| "ui_permission_key (UiP_Compatibility contract req) = [[1], str_key contract, str_key req]"
| "ui_permission_key (UiP_Entrypoint t path) = [[2], [ui_target_ord t], str_key path]"
| "ui_permission_key (UiP_Contribution i p r ts f) =
     [[3], str_key i, [ui_point_ord p], str_key r, map ui_target_ord ts,
      (case f of None \<Rightarrow> [] | Some s \<Rightarrow> 1 # str_key s)]"

lemma map_target_ord_inj [simp]: "map ui_target_ord xs = map ui_target_ord ys \<longleftrightarrow> xs = ys"
  by (simp add: inj_map_eq_map inj_def)

lemma ui_permission_key_inj [simp]: "ui_permission_key a = ui_permission_key b \<longleftrightarrow> a = b"
  by (cases a; cases b) (auto split: option.splits)

instantiation ui_permission :: linorder
begin

definition less_eq_ui_permission :: "ui_permission \<Rightarrow> ui_permission \<Rightarrow> bool" where
  "less_eq_ui_permission a b \<longleftrightarrow> ui_permission_key a \<le> ui_permission_key b"

definition less_ui_permission :: "ui_permission \<Rightarrow> ui_permission \<Rightarrow> bool" where
  "less_ui_permission a b \<longleftrightarrow> ui_permission_key a < ui_permission_key b"

instance
  by standard (auto simp: less_eq_ui_permission_def less_ui_permission_def less_le)

end

instantiation ui_capability :: linorder
begin

definition less_eq_ui_capability :: "ui_capability \<Rightarrow> ui_capability \<Rightarrow> bool" where
  "less_eq_ui_capability a b \<longleftrightarrow> ui_capability_ord a \<le> ui_capability_ord b"

definition less_ui_capability :: "ui_capability \<Rightarrow> ui_capability \<Rightarrow> bool" where
  "less_ui_capability a b \<longleftrightarrow> ui_capability_ord a < ui_capability_ord b"

instance
  by standard (auto simp: less_eq_ui_capability_def less_ui_capability_def)

end

fun ui_permission_display :: "ui_permission \<Rightarrow> string" where
  "ui_permission_display (UiP_Capability c) = ''ui.capability: '' @ ui_capability_str c"
| "ui_permission_display (UiP_Compatibility contract req) = ''ui.compatibility.'' @ contract @ '': '' @ req"
| "ui_permission_display (UiP_Entrypoint t path) = ''ui.entrypoint.'' @ ui_target_str t @ '': '' @ path"
| "ui_permission_display (UiP_Contribution i p r ts f) =
     ''ui.contribution.'' @ ui_point_str p @ '': '' @ i @ '' (renderer='' @ r @ '', targets=''
       @ join '','' (map ui_target_str ts)
       @ (case f of Some s \<Rightarrow> '', fallback='' @ s | None \<Rightarrow> []) @ '')''"

definition ui_permission_set :: "plugin_manifest \<Rightarrow> ui_permission fset" where
  "ui_permission_set m =
     (case pm_ui m of
        None \<Rightarrow> {||}
      | Some ui \<Rightarrow> fset_of_list
          (map UiP_Capability (ui_requested_capabilities ui)
           @ [UiP_Compatibility ''protocol'' (ui_protocol ui), UiP_Compatibility ''sdk'' (ui_sdk ui)]
           @ (case ui_entry_shared ui of Some p \<Rightarrow> [UiP_Entrypoint T_Shared p] | None \<Rightarrow> [])
           @ (case ui_entry_terminal ui of Some p \<Rightarrow> [UiP_Entrypoint T_Terminal p] | None \<Rightarrow> [])
           @ (case ui_entry_web ui of Some p \<Rightarrow> [UiP_Entrypoint T_Web p] | None \<Rightarrow> [])
           @ map (\<lambda>c. UiP_Contribution (uc_id c) (uc_point c) (uc_renderer c) (sorted_targets c) (uc_fallback_renderer c))
               (ui_contributions ui)))"

subsection \<open>Resource caps\<close>

record resource_change =
  ch_field :: string
  ch_old :: u64
  ch_new :: u64

definition is_increase :: "resource_change \<Rightarrow> bool" where
  "is_increase c \<longleftrightarrow> (ch_new c = 0 \<and> ch_old c \<noteq> 0) \<or> ch_old c < ch_new c"

definition change_display :: "resource_change \<Rightarrow> string" where
  "change_display c =
     ''resources.'' @ ch_field c @ '': '' @ dec (unat (ch_old c)) @ '' -> '' @ dec (unat (ch_new c))"

definition diff_resources :: "resources_spec \<Rightarrow> resources_spec \<Rightarrow> resource_change list" where
  "diff_resources old new =
     map (\<lambda>(f, o', n). \<lparr> ch_field = f, ch_old = o', ch_new = n \<rparr>) (filter (\<lambda>(_, o', n). o' \<noteq> n)
       [(''memory_mb'', rc_memory_mb old, rc_memory_mb new),
        (''cpu_seconds'', rc_cpu_seconds old, rc_cpu_seconds new),
        (''wall_seconds'', rc_wall_seconds old, rc_wall_seconds new),
        (''maximum_output_mb'', rc_maximum_output_mb old, rc_maximum_output_mb new)])"

subsection \<open>The diff\<close>

record permission_diff =
  pd_added :: "capability list"
  pd_removed :: "capability list"
  pd_resource_changes :: "resource_change list"
  pd_ui_added :: "ui_permission list"
  pd_ui_removed :: "ui_permission list"

definition diff_to :: "capability_set \<Rightarrow> capability_set \<Rightarrow> permission_diff" where
  "diff_to self next_set =
     \<lparr> pd_added = sorted_list_of_fset (next_set |-| self), pd_removed = sorted_list_of_fset (self |-| next_set),
       pd_resource_changes = [], pd_ui_added = [], pd_ui_removed = [] \<rparr>"

definition include_ui_permissions :: "permission_diff \<Rightarrow> plugin_manifest \<Rightarrow> plugin_manifest \<Rightarrow> permission_diff" where
  "include_ui_permissions d old new =
     d\<lparr> pd_ui_added := sorted_list_of_fset (ui_permission_set new |-| ui_permission_set old),
        pd_ui_removed := sorted_list_of_fset (ui_permission_set old |-| ui_permission_set new) \<rparr>"

definition diff_manifests :: "plugin_manifest \<Rightarrow> plugin_manifest \<Rightarrow> permission_diff" where
  "diff_manifests old new =
     include_ui_permissions
       ((diff_to (from_spec (pm_capabilities old)) (from_spec (pm_capabilities new)))
          \<lparr> pd_resource_changes := diff_resources (pm_resources old) (pm_resources new) \<rparr>) old new"

definition expands_permissions :: "permission_diff \<Rightarrow> bool" where
  "expands_permissions d \<longleftrightarrow>
     pd_added d \<noteq> [] \<or> pd_ui_added d \<noteq> [] \<or> list_ex is_increase (pd_resource_changes d)"

definition is_identical :: "permission_diff \<Rightarrow> bool" where
  "is_identical d \<longleftrightarrow>
     pd_added d = [] \<and> pd_removed d = [] \<and> pd_resource_changes d = [] \<and> pd_ui_added d = [] \<and> pd_ui_removed d = []"

definition plus_line :: "string \<Rightarrow> string" where
  "plus_line s = ''+ '' @ s"

definition minus_line :: "string \<Rightarrow> string" where
  "minus_line s = ''- '' @ s"

definition render_diff :: "permission_diff \<Rightarrow> string" where
  "render_diff d = join [CHR 0x0A]
     (map (plus_line \<circ> cap_display) (pd_added d)
      @ map (plus_line \<circ> ui_permission_display) (pd_ui_added d)
      @ map (plus_line \<circ> change_display) (filter is_increase (pd_resource_changes d))
      @ map (minus_line \<circ> change_display) (filter (\<lambda>c. \<not> is_increase c) (pd_resource_changes d))
      @ map (minus_line \<circ> cap_display) (pd_removed d)
      @ map (minus_line \<circ> ui_permission_display) (pd_ui_removed d))"

subsection \<open>What the diff shows\<close>

lemma set_sorted_fset [simp]: "set (sorted_list_of_fset A) = fset A"
  by (simp add: sorted_list_of_fset.rep_eq)

lemma sorted_fset_empty [simp]: "sorted_list_of_fset A = [] \<longleftrightarrow> A = {||}"
  by (metis bot_fset.rep_eq empty_set fset_inject set_empty set_sorted_fset)

text \<open>A cap that is not looser than another, 0 standing for no limit.\<close>

definition cap_within :: "u64 \<Rightarrow> u64 \<Rightarrow> bool" where
  "cap_within new old \<longleftrightarrow> new \<le> old \<and> (new = 0 \<longrightarrow> old = 0)"

definition resources_within :: "resources_spec \<Rightarrow> resources_spec \<Rightarrow> bool" where
  "resources_within new old \<longleftrightarrow>
     cap_within (rc_memory_mb new) (rc_memory_mb old) \<and> cap_within (rc_cpu_seconds new) (rc_cpu_seconds old)
     \<and> cap_within (rc_wall_seconds new) (rc_wall_seconds old)
     \<and> cap_within (rc_maximum_output_mb new) (rc_maximum_output_mb old)"

lemma cap_within_refl [simp]: "cap_within a a"
  by (simp add: cap_within_def)

lemma cap_within_trans: "cap_within a b \<Longrightarrow> cap_within b c \<Longrightarrow> cap_within a c"
  by (auto simp: cap_within_def)

lemma resources_within_refl [simp]: "resources_within r r"
  by (simp add: resources_within_def)

lemma resources_within_trans: "resources_within a b \<Longrightarrow> resources_within b c \<Longrightarrow> resources_within a c"
  by (auto simp: resources_within_def intro: cap_within_trans)

lemma not_increase_iff: "\<not> is_increase \<lparr> ch_field = f, ch_old = o', ch_new = n \<rparr> \<longleftrightarrow> cap_within n o'"
  by (auto simp: is_increase_def cap_within_def word_gt_0 not_less)

lemma no_increase_iff: "\<not> list_ex is_increase (diff_resources old new) \<longleftrightarrow> resources_within new old"
  by (auto simp: diff_resources_def resources_within_def not_increase_iff)

lemma expands_iff:
  "expands_permissions ((diff_to g g')\<lparr> pd_resource_changes := diff_resources r r', pd_ui_added := ua, pd_ui_removed := ur \<rparr>)
    \<longleftrightarrow> \<not> (g' |\<subseteq>| g \<and> ua = [] \<and> resources_within r' r)"
  by (auto simp: expands_permissions_def diff_to_def simp flip: no_increase_iff)

end
