(* ===== verification/Plugin_Lifecycle.thy ===== *)
theory Plugin_Lifecycle
  imports Plugin_Permission Plugin_Verify
begin

text \<open>
  The plugin lifecycle (\<open>crates/sandbox/src/lifecycle.rs\<close>): install disabled, smoke test, enable at a scope,
  update with a permission diff, approve or reject a blocked update, revoke. A method on \<open>&mut self\<close> takes
  the plugin and returns it with its result. The random approval receipt is an argument of \<open>update\<close>.
\<close>

subsection \<open>State\<close>

datatype trust_tier = Trusted | TT_Unsigned

datatype lifecycle_state = InstalledDisabled | SmokeTested | Enabled | UpdateBlocked | Revoked

datatype lifecycle_error =
    LE_Verify verify_error
  | IllegalTransition string lifecycle_state
  | UpdateExpandsPermissions string string
  | IdentityChanged string string
  | GrantExceedsManifest string
  | UiGrantExceedsManifest string
  | UndeclaredScope string
  | NoPendingUpdate
  | ApprovalReceiptMismatch
  | ApprovedCandidateMismatch

record pending_update_approval =
  pu_approval_receipt :: string
  pu_permission_diff :: permission_diff
  pu_candidate :: plugin_manifest
  pu_signing_digest :: bytes
  pu_artifact_checksum :: string
  pu_publisher_key_checksum :: "string option"
  pu_signed :: bool
  pu_previous_state :: lifecycle_state

record installed_plugin =
  ip_manifest :: plugin_manifest
  ip_state :: lifecycle_state
  ip_trust :: trust_tier
  ip_content_hash :: string
  ip_signed :: bool
  ip_granted :: capability_set
  ip_granted_ui :: "ui_capability fset"
  ip_enabled_scope :: "string option"
  ip_pending_update :: "pending_update_approval option"

definition is_active :: "installed_plugin \<Rightarrow> bool" where
  "is_active p \<longleftrightarrow> ip_state p = Enabled"

definition trust_of :: "bool \<Rightarrow> trust_tier" where
  "trust_of was_signed = (if was_signed then Trusted else TT_Unsigned)"

subsection \<open>Operations\<close>

definition requested_ui_capabilities :: "plugin_manifest \<Rightarrow> ui_capability fset" where
  "requested_ui_capabilities m =
     (case pm_ui m of Some ui \<Rightarrow> fset_of_list (ui_requested_capabilities ui) | None \<Rightarrow> {||})"

definition assert_granted_within_manifest :: "plugin_manifest \<Rightarrow> capability_set \<Rightarrow> lifecycle_error + unit" where
  "assert_granted_within_manifest m granted =
     for_each (\<lambda>c. if grants (from_spec (pm_capabilities m)) c then Inr () else Inl (GrantExceedsManifest (cap_display c)))
       (sorted_list_of_fset granted)"

definition assert_ui_granted_within_manifest ::
  "plugin_manifest \<Rightarrow> ui_capability fset \<Rightarrow> lifecycle_error + unit" where
  "assert_ui_granted_within_manifest m granted =
     for_each (\<lambda>c. if c |\<in>| requested_ui_capabilities m then Inr () else Inl (UiGrantExceedsManifest (ui_capability_str c)))
       (sorted_list_of_fset granted)"

definition install_disabled ::
  "crypto \<Rightarrow> plugin_manifest \<Rightarrow> bytes \<Rightarrow> bytes option \<Rightarrow> unsigned_policy \<Rightarrow> capability_set \<Rightarrow> ui_capability fset
    \<Rightarrow> lifecycle_error + installed_plugin" where
  "install_disabled C m artifact key policy granted granted_ui =
     (case verify_artifact C m artifact key policy of
        Inl e \<Rightarrow> Inl (LE_Verify e)
      | Inr v \<Rightarrow>
          res_bind (assert_granted_within_manifest m granted) (\<lambda>_.
          res_bind (assert_ui_granted_within_manifest m granted_ui) (\<lambda>_.
          Inr \<lparr> ip_manifest = m, ip_state = InstalledDisabled, ip_trust = trust_of (vf_signed v),
                ip_content_hash = trim (ss_checksum (pm_security m)), ip_signed = vf_signed v,
                ip_granted = granted, ip_granted_ui = granted_ui, ip_enabled_scope = None,
                ip_pending_update = None \<rparr>)))"

definition mark_smoke_tested :: "installed_plugin \<Rightarrow> installed_plugin \<times> (lifecycle_error + unit)" where
  "mark_smoke_tested p =
     (if ip_state p = InstalledDisabled then (p\<lparr> ip_state := SmokeTested \<rparr>, Inr ())
      else (p, Inl (IllegalTransition ''smoke-test'' (ip_state p))))"

definition enable :: "installed_plugin \<Rightarrow> string \<Rightarrow> installed_plugin \<times> (lifecycle_error + unit)" where
  "enable p scope =
     (if trim scope = [] \<or> scope \<notin> set (pm_scopes (ip_manifest p)) then (p, Inl (UndeclaredScope scope))
      else if ip_state p = SmokeTested then (p\<lparr> ip_state := Enabled, ip_enabled_scope := Some scope \<rparr>, Inr ())
      else (p, Inl (IllegalTransition ''enable'' (ip_state p))))"

definition revoke :: "installed_plugin \<Rightarrow> installed_plugin" where
  "revoke p = p\<lparr> ip_state := Revoked, ip_enabled_scope := None, ip_pending_update := None \<rparr>"

fun is_ui_cap :: "ui_permission \<Rightarrow> bool" where
  "is_ui_cap (UiP_Capability _) = True"
| "is_ui_cap _ = False"

definition diff_update :: "installed_plugin \<Rightarrow> plugin_manifest \<Rightarrow> permission_diff" where
  "diff_update p next_m =
     (let next_set = from_spec (pm_capabilities next_m);
          d = include_ui_permissions ((diff_to (ip_granted p) next_set)
                \<lparr> pd_resource_changes := diff_resources (pm_resources (ip_manifest p)) (pm_resources next_m) \<rparr>)
                (ip_manifest p) next_m;
          next_ui = requested_ui_capabilities next_m
      in d\<lparr> pd_ui_added := sort (filter (\<lambda>x. \<not> is_ui_cap x) (pd_ui_added d)
               @ map UiP_Capability (sorted_list_of_fset (next_ui |-| ip_granted_ui p))),
            pd_ui_removed := sort (filter (\<lambda>x. \<not> is_ui_cap x) (pd_ui_removed d)
               @ map UiP_Capability (sorted_list_of_fset (ip_granted_ui p |-| next_ui))) \<rparr>)"

definition apply_manifest ::
  "installed_plugin \<Rightarrow> plugin_manifest \<Rightarrow> capability_set \<Rightarrow> ui_capability fset \<Rightarrow> bool
    \<Rightarrow> installed_plugin \<times> (lifecycle_error + unit)" where
  "apply_manifest p next_m granted granted_ui was_signed =
     (case res_bind (assert_granted_within_manifest next_m granted)
             (\<lambda>_. assert_ui_granted_within_manifest next_m granted_ui) of
        Inl e \<Rightarrow> (p, Inl e)
      | Inr _ \<Rightarrow>
          (p\<lparr> ip_content_hash := trim (ss_checksum (pm_security next_m)), ip_manifest := next_m,
              ip_granted := granted, ip_granted_ui := granted_ui, ip_signed := was_signed,
              ip_trust := trust_of was_signed,
              ip_state := (if ip_state p \<noteq> Enabled then InstalledDisabled else ip_state p) \<rparr>, Inr ()))"

definition update ::
  "crypto \<Rightarrow> string \<Rightarrow> installed_plugin \<Rightarrow> plugin_manifest \<Rightarrow> bytes \<Rightarrow> bytes option \<Rightarrow> unsigned_policy
    \<Rightarrow> installed_plugin \<times> (lifecycle_error + permission_diff)" where
  "update C uuid p next_m artifact key policy =
     (if ip_state p \<in> {UpdateBlocked, Revoked} then (p, Inl (IllegalTransition ''update'' (ip_state p)))
      else if pm_id next_m \<noteq> pm_id (ip_manifest p)
        then (p, Inl (IdentityChanged (pm_id (ip_manifest p)) (pm_id next_m)))
      else if pm_kind next_m \<noteq> pm_kind (ip_manifest p)
        then (p, Inl (IdentityChanged (plugin_kind_str (pm_kind (ip_manifest p))) (plugin_kind_str (pm_kind next_m))))
      else case verify_artifact C next_m artifact key policy of
        Inl e \<Rightarrow> (p, Inl (LE_Verify e))
      | Inr v \<Rightarrow>
          let d = diff_update p next_m in
          if expands_permissions d then
            (p\<lparr> ip_pending_update := Some
                  \<lparr> pu_approval_receipt = uuid, pu_permission_diff = d, pu_candidate = next_m,
                    pu_signing_digest = signing_digest C next_m, pu_artifact_checksum = checksum_of C artifact,
                    pu_publisher_key_checksum = map_option (checksum_of C) key, pu_signed = vf_signed v,
                    pu_previous_state = ip_state p \<rparr>,
                ip_state := UpdateBlocked \<rparr>,
             Inl (UpdateExpandsPermissions (render_diff d) uuid))
          else
            (case apply_manifest p next_m (from_spec (pm_capabilities next_m))
                    (ip_granted_ui p |\<inter>| requested_ui_capabilities next_m) (vf_signed v) of
               (q, Inl e) \<Rightarrow> (q, Inl e)
             | (q, Inr _) \<Rightarrow> (q\<lparr> ip_pending_update := None \<rparr>, Inr d)))"

definition approve_update ::
  "crypto \<Rightarrow> installed_plugin \<Rightarrow> string \<Rightarrow> plugin_manifest \<Rightarrow> bytes \<Rightarrow> bytes option \<Rightarrow> unsigned_policy
    \<Rightarrow> installed_plugin \<times> (lifecycle_error + unit)" where
  "approve_update C p receipt next_m artifact key policy =
     (if ip_state p \<noteq> UpdateBlocked then (p, Inl NoPendingUpdate)
      else case ip_pending_update p of
        None \<Rightarrow> (p, Inl NoPendingUpdate)
      | Some pend \<Rightarrow>
          if pu_approval_receipt pend \<noteq> receipt then (p, Inl ApprovalReceiptMismatch)
          else if pm_id next_m \<noteq> pm_id (ip_manifest p) \<or> pm_kind next_m \<noteq> pm_kind (ip_manifest p)
            then (p, Inl (IdentityChanged (pm_id (ip_manifest p)) (pm_id next_m)))
          else case verify_artifact C next_m artifact key policy of
            Inl e \<Rightarrow> (p, Inl (LE_Verify e))
          | Inr v \<Rightarrow>
              if next_m \<noteq> pu_candidate pend \<or> signing_digest C next_m \<noteq> pu_signing_digest pend
                 \<or> checksum_of C artifact \<noteq> pu_artifact_checksum pend
                 \<or> map_option (checksum_of C) key \<noteq> pu_publisher_key_checksum pend
                 \<or> vf_signed v \<noteq> pu_signed pend \<or> diff_update p next_m \<noteq> pu_permission_diff pend
              then (p, Inl ApprovedCandidateMismatch)
              else
                (case apply_manifest (p\<lparr> ip_state := pu_previous_state pend \<rparr>) next_m
                        (from_spec (pm_capabilities next_m)) (requested_ui_capabilities next_m) (vf_signed v) of
                   (q, Inl e) \<Rightarrow> (q, Inl e)
                 | (q, Inr _) \<Rightarrow> (q\<lparr> ip_pending_update := None \<rparr>, Inr ())))"

definition reject_pending_update :: "installed_plugin \<Rightarrow> string \<Rightarrow> installed_plugin \<times> (lifecycle_error + unit)" where
  "reject_pending_update p receipt =
     (if ip_state p \<noteq> UpdateBlocked then (p, Inl NoPendingUpdate)
      else case ip_pending_update p of
        None \<Rightarrow> (p, Inl NoPendingUpdate)
      | Some pend \<Rightarrow>
          if pu_approval_receipt pend \<noteq> receipt then (p, Inl ApprovalReceiptMismatch)
          else (p\<lparr> ip_state := pu_previous_state pend, ip_pending_update := None \<rparr>, Inr ()))"

subsection \<open>Sequences of operations\<close>

datatype plugin_op =
    Op_SmokeTest
  | Op_Enable string
  | Op_Revoke
  | Op_Update string plugin_manifest bytes "bytes option" unsigned_policy
  | Op_Approve string plugin_manifest bytes "bytes option" unsigned_policy
  | Op_Reject string

fun plugin_step :: "crypto \<Rightarrow> installed_plugin \<Rightarrow> plugin_op \<Rightarrow> installed_plugin" where
  "plugin_step C p Op_SmokeTest = fst (mark_smoke_tested p)"
| "plugin_step C p (Op_Enable scope) = fst (enable p scope)"
| "plugin_step C p Op_Revoke = revoke p"
| "plugin_step C p (Op_Update uuid m a k u) = fst (update C uuid p m a k u)"
| "plugin_step C p (Op_Approve receipt m a k u) = fst (approve_update C p receipt m a k u)"
| "plugin_step C p (Op_Reject receipt) = fst (reject_pending_update p receipt)"

text \<open>An operation that accepts an expansion: an approval that succeeds.\<close>

fun approves :: "crypto \<Rightarrow> installed_plugin \<Rightarrow> plugin_op \<Rightarrow> bool" where
  "approves C p (Op_Approve receipt m a k u) = (snd (approve_update C p receipt m a k u) = Inr ())"
| "approves C p _ = False"

inductive plugin_reach :: "crypto \<Rightarrow> installed_plugin \<Rightarrow> bool" for C where
  reach_install: "install_disabled C m a k u g gu = Inr p \<Longrightarrow> plugin_reach C p"
| reach_step: "plugin_reach C p \<Longrightarrow> plugin_reach C (plugin_step C p op)"

text \<open>
  A machine whose steps keep an invariant and lower an order unless they are marked as elevating: along a
  run, the order is only left through an elevating step.
\<close>

locale guarded_machine =
  fixes step :: "'s \<Rightarrow> 'o \<Rightarrow> 's"
    and ok :: "'s \<Rightarrow> bool"
    and le :: "'s \<Rightarrow> 's \<Rightarrow> bool"
    and elevates :: "'s \<Rightarrow> 'o \<Rightarrow> bool"
  assumes step_ok: "ok s \<Longrightarrow> ok (step s op)"
    and le_refl: "le s s"
    and le_trans: "le s t \<Longrightarrow> le t u \<Longrightarrow> le s u"
    and step_le: "ok s \<Longrightarrow> \<not> elevates s op \<Longrightarrow> le (step s op) s"
begin

lemma run_ok: "ok s \<Longrightarrow> ok (foldl step s ops)"
  by (induction ops arbitrary: s) (auto intro: step_ok)

lemma elevation_in_run:
  assumes "ok s" and "\<not> le (foldl step s ops) s"
  shows "\<exists>pre op post. ops = pre @ op # post \<and> elevates (foldl step s pre) op"
  using assms
proof (induction ops arbitrary: s)
  case Nil
  then show ?case by (simp add: le_refl)
next
  case (Cons op ops)
  show ?case
  proof (cases "elevates s op")
    case True
    then show ?thesis by (metis append_Nil foldl_Nil)
  next
    case False
    then have "le (step s op) s" using Cons.prems(1) by (rule step_le[rotated])
    then have "\<not> le (foldl step (step s op) ops) (step s op)"
      using Cons.prems(2) le_trans by auto
    with Cons.IH[OF step_ok[OF Cons.prems(1)]] obtain pre op' post
      where "ops = pre @ op' # post" "elevates (foldl step (step s op) pre) op'" by blast
    then show ?thesis by (metis append_Cons foldl_Cons)
  qed
qed

end

subsection \<open>The invariant\<close>

text \<open>The state a blocked plugin returns to.\<close>

definition settled_state :: "installed_plugin \<Rightarrow> lifecycle_state" where
  "settled_state p = (case ip_pending_update p of Some pend \<Rightarrow> pu_previous_state pend | None \<Rightarrow> ip_state p)"

definition pending_ok :: "crypto \<Rightarrow> installed_plugin \<Rightarrow> pending_update_approval \<Rightarrow> bool" where
  "pending_ok C p pend \<longleftrightarrow>
     pu_permission_diff pend = diff_update p (pu_candidate pend)
     \<and> expands_permissions (pu_permission_diff pend)
     \<and> pu_previous_state pend \<in> {InstalledDisabled, SmokeTested, Enabled}
     \<and> pm_id (pu_candidate pend) = pm_id (ip_manifest p)
     \<and> pm_kind (pu_candidate pend) = pm_kind (ip_manifest p)
     \<and> pu_signing_digest pend = signing_digest C (pu_candidate pend)"

definition plugin_inv :: "crypto \<Rightarrow> installed_plugin \<Rightarrow> bool" where
  "plugin_inv C p \<longleftrightarrow>
     ip_granted p |\<subseteq>| from_spec (pm_capabilities (ip_manifest p))
     \<and> ip_granted_ui p |\<subseteq>| requested_ui_capabilities (ip_manifest p)
     \<and> (ip_state p = UpdateBlocked \<longleftrightarrow> ip_pending_update p \<noteq> None)
     \<and> (ip_enabled_scope p \<noteq> None \<longleftrightarrow> settled_state p = Enabled)
     \<and> ip_trust p = trust_of (ip_signed p)
     \<and> ip_content_hash p = trim (ss_checksum (pm_security (ip_manifest p)))
     \<and> (\<forall>pend. ip_pending_update p = Some pend \<longrightarrow> pending_ok C p pend)"

lemma assert_granted_iff:
  "assert_granted_within_manifest m g = Inr u \<longleftrightarrow> g |\<subseteq>| from_spec (pm_capabilities m)"
  by (auto simp: assert_granted_within_manifest_def for_each_Inr_iff grants_def less_eq_fset.rep_eq split: if_splits)

lemma assert_ui_granted_iff:
  "assert_ui_granted_within_manifest m g = Inr u \<longleftrightarrow> g |\<subseteq>| requested_ui_capabilities m"
  by (auto simp: assert_ui_granted_within_manifest_def for_each_Inr_iff less_eq_fset.rep_eq split: if_splits)

definition applied :: "installed_plugin \<Rightarrow> plugin_manifest \<Rightarrow> capability_set \<Rightarrow> ui_capability fset \<Rightarrow> bool \<Rightarrow> installed_plugin" where
  "applied p next_m g gu was_signed =
     p\<lparr> ip_content_hash := trim (ss_checksum (pm_security next_m)), ip_manifest := next_m,
        ip_granted := g, ip_granted_ui := gu, ip_signed := was_signed, ip_trust := trust_of was_signed,
        ip_state := (if ip_state p \<noteq> Enabled then InstalledDisabled else ip_state p) \<rparr>"

lemma apply_manifest_within:
  assumes "g |\<subseteq>| from_spec (pm_capabilities m)" and "gu |\<subseteq>| requested_ui_capabilities m"
  shows "apply_manifest p m g gu b = (applied p m g gu b, Inr ())"
proof -
  have "assert_granted_within_manifest m g = Inr ()" "assert_ui_granted_within_manifest m gu = Inr ()"
    using assms by (simp_all add: assert_granted_iff assert_ui_granted_iff)
  then show ?thesis by (simp add: apply_manifest_def applied_def)
qed

lemma settled_idle: "ip_pending_update p = None \<Longrightarrow> settled_state p = ip_state p"
  by (simp add: settled_state_def)

lemma settled_pending: "ip_pending_update p = Some pend \<Longrightarrow> settled_state p = pu_previous_state pend"
  by (simp add: settled_state_def)

subsection \<open>The authority a plugin holds\<close>

text \<open>The UI privileges that are not API capabilities: compatibility, entrypoints and contributions.\<close>

definition ui_static :: "plugin_manifest \<Rightarrow> ui_permission fset" where
  "ui_static m = ffilter (\<lambda>x. \<not> is_ui_cap x) (ui_permission_set m)"

definition authority_le :: "installed_plugin \<Rightarrow> installed_plugin \<Rightarrow> bool" where
  "authority_le q p \<longleftrightarrow>
     ip_granted q |\<subseteq>| ip_granted p \<and> ip_granted_ui q |\<subseteq>| ip_granted_ui p
     \<and> ui_static (ip_manifest q) |\<subseteq>| ui_static (ip_manifest p)
     \<and> resources_within (pm_resources (ip_manifest q)) (pm_resources (ip_manifest p))"

lemma authority_le_refl: "authority_le p p"
  by (simp add: authority_le_def)

lemma authority_le_trans: "authority_le r q \<Longrightarrow> authority_le q p \<Longrightarrow> authority_le r p"
  by (auto simp: authority_le_def intro: resources_within_trans)

lemma authority_le_same:
  "ip_granted q = ip_granted p \<Longrightarrow> ip_granted_ui q = ip_granted_ui p \<Longrightarrow> ip_manifest q = ip_manifest p
   \<Longrightarrow> authority_le q p"
  by (simp add: authority_le_def)

lemma filter_sorted_empty:
  "filter (\<lambda>x. \<not> is_ui_cap x) (sorted_list_of_fset (A |-| B)) = []
    \<longleftrightarrow> ffilter (\<lambda>x. \<not> is_ui_cap x) A |\<subseteq>| ffilter (\<lambda>x. \<not> is_ui_cap x) B"
  by (auto simp: filter_empty_conv less_eq_fset.rep_eq)

lemma sort_Nil_iff: "sort xs = [] \<longleftrightarrow> xs = []"
  by (metis length_0_conv length_sort)

lemma fminus_empty_iff: "A |-| B = {||} \<longleftrightarrow> A |\<subseteq>| B"
  by blast

lemma diff_update_added [simp]:
  "pd_added (diff_update p m) = sorted_list_of_fset (from_spec (pm_capabilities m) |-| ip_granted p)"
  by (simp add: diff_update_def Let_def include_ui_permissions_def diff_to_def)

lemma diff_update_removed [simp]:
  "pd_removed (diff_update p m) = sorted_list_of_fset (ip_granted p |-| from_spec (pm_capabilities m))"
  by (simp add: diff_update_def Let_def include_ui_permissions_def diff_to_def)

lemma diff_update_resources [simp]:
  "pd_resource_changes (diff_update p m) = diff_resources (pm_resources (ip_manifest p)) (pm_resources m)"
  by (simp add: diff_update_def Let_def include_ui_permissions_def diff_to_def)

lemma diff_update_ui_added:
  "pd_ui_added (diff_update p m) = [] \<longleftrightarrow>
     requested_ui_capabilities m |\<subseteq>| ip_granted_ui p \<and> ui_static m |\<subseteq>| ui_static (ip_manifest p)"
  by (auto simp: diff_update_def Let_def include_ui_permissions_def diff_to_def sort_Nil_iff
      filter_sorted_empty ui_static_def fminus_empty_iff)

lemma diff_update_expands:
  "expands_permissions (diff_update p m) \<longleftrightarrow>
     \<not> (from_spec (pm_capabilities m) |\<subseteq>| ip_granted p \<and> requested_ui_capabilities m |\<subseteq>| ip_granted_ui p
        \<and> ui_static m |\<subseteq>| ui_static (ip_manifest p)
        \<and> resources_within (pm_resources m) (pm_resources (ip_manifest p)))"
  by (auto simp: expands_permissions_def diff_update_ui_added fminus_empty_iff simp flip: no_increase_iff)

lemma diff_update_cong:
  "ip_granted q = ip_granted p \<Longrightarrow> ip_granted_ui q = ip_granted_ui p \<Longrightarrow> ip_manifest q = ip_manifest p
   \<Longrightarrow> diff_update q m = diff_update p m"
  by (simp add: diff_update_def)

lemma diff_update_frame [simp]:
  "diff_update (p\<lparr> ip_state := st \<rparr>) m = diff_update p m"
  "diff_update (p\<lparr> ip_state := st, ip_enabled_scope := sc \<rparr>) m = diff_update p m"
  "diff_update (p\<lparr> ip_pending_update := pu \<rparr>) m = diff_update p m"
  "diff_update (p\<lparr> ip_pending_update := pu, ip_state := st \<rparr>) m = diff_update p m"
  "diff_update (p\<lparr> ip_state := st, ip_pending_update := pu \<rparr>) m = diff_update p m"
  by (simp_all add: diff_update_def)

subsection \<open>Outcomes of an update and of an approval\<close>

definition sealed_by ::
  "crypto \<Rightarrow> string \<Rightarrow> installed_plugin \<Rightarrow> plugin_manifest \<Rightarrow> bytes \<Rightarrow> bytes option \<Rightarrow> verified \<Rightarrow> pending_update_approval" where
  "sealed_by C uuid p m a k v =
     \<lparr> pu_approval_receipt = uuid, pu_permission_diff = diff_update p m, pu_candidate = m,
       pu_signing_digest = signing_digest C m, pu_artifact_checksum = checksum_of C a,
       pu_publisher_key_checksum = map_option (checksum_of C) k, pu_signed = vf_signed v,
       pu_previous_state = ip_state p \<rparr>"

definition updatable :: "installed_plugin \<Rightarrow> plugin_manifest \<Rightarrow> bool" where
  "updatable p m \<longleftrightarrow>
     ip_state p \<notin> {UpdateBlocked, Revoked} \<and> pm_id m = pm_id (ip_manifest p) \<and> pm_kind m = pm_kind (ip_manifest p)"

lemma update_eq:
  "update C uuid p m a k u =
     (if updatable p m then
        (case verify_artifact C m a k u of
           Inl e \<Rightarrow> (p, Inl (LE_Verify e))
         | Inr v \<Rightarrow>
             if expands_permissions (diff_update p m)
             then (p\<lparr> ip_pending_update := Some (sealed_by C uuid p m a k v), ip_state := UpdateBlocked \<rparr>,
                   Inl (UpdateExpandsPermissions (render_diff (diff_update p m)) uuid))
             else ((applied p m (from_spec (pm_capabilities m)) (ip_granted_ui p |\<inter>| requested_ui_capabilities m)
                      (vf_signed v))\<lparr> ip_pending_update := None \<rparr>, Inr (diff_update p m)))
      else if ip_state p \<in> {UpdateBlocked, Revoked} then (p, Inl (IllegalTransition ''update'' (ip_state p)))
      else if pm_id m \<noteq> pm_id (ip_manifest p) then (p, Inl (IdentityChanged (pm_id (ip_manifest p)) (pm_id m)))
      else (p, Inl (IdentityChanged (plugin_kind_str (pm_kind (ip_manifest p))) (plugin_kind_str (pm_kind m)))))"
  by (simp add: update_def updatable_def Let_def sealed_by_def apply_manifest_within split: sum.split)

lemma update_elim [consumes 1, case_names refused blocked applied]:
  assumes "update C uuid p m a k u = (q, r)"
  obtains (refused) e where "q = p" "r = Inl e" "\<And>d i. e \<noteq> UpdateExpandsPermissions d i"
    | (blocked) v where "updatable p m" "verify_artifact C m a k u = Inr v" "expands_permissions (diff_update p m)"
        "q = p\<lparr> ip_pending_update := Some (sealed_by C uuid p m a k v), ip_state := UpdateBlocked \<rparr>"
        "r = Inl (UpdateExpandsPermissions (render_diff (diff_update p m)) uuid)"
    | (applied) v where "updatable p m" "verify_artifact C m a k u = Inr v" "\<not> expands_permissions (diff_update p m)"
        "q = (applied p m (from_spec (pm_capabilities m)) (ip_granted_ui p |\<inter>| requested_ui_capabilities m)
                      (vf_signed v))\<lparr> ip_pending_update := None \<rparr>"
        "r = Inr (diff_update p m)"
  using assms unfolding update_eq by (auto split: if_splits sum.splits)

text \<open>The conditions under which an approval is accepted.\<close>

definition approval_matches ::
  "crypto \<Rightarrow> installed_plugin \<Rightarrow> pending_update_approval \<Rightarrow> string \<Rightarrow> plugin_manifest \<Rightarrow> bytes \<Rightarrow> bytes option
    \<Rightarrow> verified \<Rightarrow> bool" where
  "approval_matches C p pend receipt m a k v \<longleftrightarrow>
     ip_state p = UpdateBlocked \<and> ip_pending_update p = Some pend \<and> receipt = pu_approval_receipt pend
     \<and> pm_id m = pm_id (ip_manifest p) \<and> pm_kind m = pm_kind (ip_manifest p)
     \<and> m = pu_candidate pend \<and> signing_digest C m = pu_signing_digest pend
     \<and> checksum_of C a = pu_artifact_checksum pend \<and> map_option (checksum_of C) k = pu_publisher_key_checksum pend
     \<and> vf_signed v = pu_signed pend \<and> diff_update p m = pu_permission_diff pend"

definition approved :: "installed_plugin \<Rightarrow> pending_update_approval \<Rightarrow> plugin_manifest \<Rightarrow> verified \<Rightarrow> installed_plugin" where
  "approved p pend m v =
     (applied (p\<lparr> ip_state := pu_previous_state pend \<rparr>) m (from_spec (pm_capabilities m))
        (requested_ui_capabilities m) (vf_signed v))\<lparr> ip_pending_update := None \<rparr>"

lemma approve_update_elim [consumes 1, case_names refused approved]:
  assumes "approve_update C p receipt m a k u = (q, r)"
  obtains (refused) e where "q = p" "r = Inl e"
      "\<nexists>pend v. approval_matches C p pend receipt m a k v \<and> verify_artifact C m a k u = Inr v"
    | (approved) pend v where "approval_matches C p pend receipt m a k v" "verify_artifact C m a k u = Inr v"
        "q = approved p pend m v" "r = Inr ()"
proof (cases "\<exists>pend v. approval_matches C p pend receipt m a k v \<and> verify_artifact C m a k u = Inr v")
  case True
  then obtain pend v where *: "approval_matches C p pend receipt m a k v" "verify_artifact C m a k u = Inr v" by blast
  then have "approve_update C p receipt m a k u = (approved p pend m v, Inr ())"
    by (auto simp: approve_update_def approval_matches_def apply_manifest_within approved_def)
  with * assms show thesis by (auto intro: that(2))
next
  case False
  then have "\<exists>e. approve_update C p receipt m a k u = (p, Inl e)"
    by (auto simp: approve_update_def approval_matches_def split: option.splits sum.splits)
  then obtain e where "q = p" "r = Inl e" using assms by auto
  then show thesis using False by (rule that(1))
qed

lemma approve_blocked:
  fixes uuid
  assumes "updatable p m" and "verify_artifact C m a k u = Inr v"
  defines "q \<equiv> p\<lparr> ip_pending_update := Some (sealed_by C uuid p m a k v), ip_state := UpdateBlocked \<rparr>"
  shows "approve_update C q uuid m a k u = (approved q (sealed_by C uuid p m a k v) m v, Inr ())"
proof -
  have "approval_matches C q (sealed_by C uuid p m a k v) uuid m a k v"
    using assms(1) by (simp add: approval_matches_def q_def sealed_by_def updatable_def)
  then show ?thesis
    using assms(2) by (cases rule: approve_update_elim[of C q uuid m a k u, OF prod.collapse[symmetric]])
      (auto simp: approval_matches_def prod_eq_iff)
qed

subsection \<open>Every operation keeps the invariant\<close>

lemma applied_fields [simp]:
  "ip_manifest (applied p m g gu b) = m" "ip_granted (applied p m g gu b) = g"
  "ip_granted_ui (applied p m g gu b) = gu" "ip_signed (applied p m g gu b) = b"
  "ip_trust (applied p m g gu b) = trust_of b"
  "ip_content_hash (applied p m g gu b) = trim (ss_checksum (pm_security m))"
  "ip_enabled_scope (applied p m g gu b) = ip_enabled_scope p"
  "ip_state (applied p m g gu b) = (if ip_state p \<noteq> Enabled then InstalledDisabled else Enabled)"
  by (simp_all add: applied_def)

lemma applied_inv:
  assumes "g |\<subseteq>| from_spec (pm_capabilities m)" and "gu |\<subseteq>| requested_ui_capabilities m"
    and "ip_enabled_scope p \<noteq> None \<longleftrightarrow> ip_state p = Enabled"
  shows "plugin_inv C ((applied p m g gu b)\<lparr> ip_pending_update := None \<rparr>)"
  using assms by (auto simp: plugin_inv_def settled_state_def)

lemma install_inv: "install_disabled C m a k u g gu = Inr p \<Longrightarrow> plugin_inv C p"
  by (auto simp: install_disabled_def plugin_inv_def settled_state_def res_bind_Inr_iff assert_granted_iff
      assert_ui_granted_iff split: sum.splits)

lemma inv_scope_idle:
  "plugin_inv C p \<Longrightarrow> ip_state p \<noteq> UpdateBlocked \<Longrightarrow> ip_enabled_scope p \<noteq> None \<longleftrightarrow> ip_state p = Enabled"
  by (auto simp: plugin_inv_def settled_state_def)

lemma update_inv:
  assumes "plugin_inv C p" and "update C uuid p m a k u = (q, r)"
  shows "plugin_inv C q"
  using assms(2)
proof (cases rule: update_elim)
  case (blocked v)
  have "ip_state p \<in> {InstalledDisabled, SmokeTested, Enabled}"
    using blocked(1) by (cases "ip_state p") (auto simp: updatable_def)
  moreover have "ip_pending_update p = None"
    using blocked(1) assms(1) by (auto simp: updatable_def plugin_inv_def)
  ultimately show ?thesis
    using assms(1) blocked(1,3)
    by (auto simp: blocked(4) plugin_inv_def settled_state_def pending_ok_def sealed_by_def updatable_def)
next
  case (applied v)
  show ?thesis unfolding applied(4)
    using applied(1) inv_scope_idle[OF assms(1)] by (intro applied_inv) (auto simp: updatable_def)
qed (use assms(1) in simp)

lemma approve_update_inv:
  assumes "plugin_inv C p" and "approve_update C p receipt m a k u = (q, r)"
  shows "plugin_inv C q"
  using assms(2)
proof (cases rule: approve_update_elim)
  case (approved pend v)
  then have "ip_enabled_scope p \<noteq> None \<longleftrightarrow> pu_previous_state pend = Enabled"
    using assms(1) by (auto simp: approval_matches_def plugin_inv_def settled_state_def)
  then show ?thesis unfolding approved(3) approved_def by (intro applied_inv) auto
qed (use assms(1) in simp)

lemma reject_inv: "plugin_inv C p \<Longrightarrow> plugin_inv C (fst (reject_pending_update p receipt))"
  by (auto simp: reject_pending_update_def plugin_inv_def settled_state_def pending_ok_def split: option.splits)

lemma smoke_inv: "plugin_inv C p \<Longrightarrow> plugin_inv C (fst (mark_smoke_tested p))"
  by (auto simp: mark_smoke_tested_def plugin_inv_def settled_state_def)

lemma enable_inv: "plugin_inv C p \<Longrightarrow> plugin_inv C (fst (enable p scope))"
  by (auto simp: enable_def plugin_inv_def settled_state_def)

lemma revoke_inv: "plugin_inv C p \<Longrightarrow> plugin_inv C (revoke p)"
  by (auto simp: revoke_def plugin_inv_def settled_state_def)

lemma step_inv: "plugin_inv C p \<Longrightarrow> plugin_inv C (plugin_step C p op)"
  by (cases op) (auto simp: smoke_inv enable_inv revoke_inv reject_inv intro: update_inv approve_update_inv prod.collapse[symmetric])

subsection \<open>Authority along a run\<close>

lemma update_authority:
  assumes "update C uuid p m a k u = (q, r)"
  shows "authority_le q p"
  using assms
proof (cases rule: update_elim)
  case (applied v)
  then show ?thesis by (auto simp: authority_le_def diff_update_expands)
qed (auto intro: authority_le_same)

lemma step_authority: "\<not> approves C p op \<Longrightarrow> authority_le (plugin_step C p op) p"
proof (cases op)
  case (Op_Update uuid m a k u)
  then show ?thesis by (auto intro: update_authority prod.collapse[symmetric])
next
  case (Op_Approve receipt m a k u)
  assume "\<not> approves C p op"
  obtain q r where qr: "approve_update C p receipt m a k u = (q, r)" by fastforce
  from qr show ?thesis
    by (cases rule: approve_update_elim) (use \<open>\<not> approves C p op\<close> qr Op_Approve in \<open>auto intro: authority_le_refl\<close>)
qed (auto simp: mark_smoke_tested_def enable_def revoke_def reject_pending_update_def split: option.splits
      intro: authority_le_same)

interpretation plugin_machine: guarded_machine "plugin_step C" "plugin_inv C" authority_le "approves C" for C
  by unfold_locales (auto intro: step_inv authority_le_refl authority_le_trans step_authority)

subsection \<open>An example plugin\<close>

text \<open>
  A concrete instance of the cryptographic parameters (a digest that is the length of its input, encoded as
  zeros) and an unsigned plugin with one network destination, used to show that the hypotheses below hold.
\<close>

definition example_crypto :: crypto where
  "example_crypto =
     \<lparr> cr_sha256 = (\<lambda>bs. [of_nat (length bs)]), cr_hex_encode = map (\<lambda>_. CHR ''0''), cr_hex_decode = Some \<circ> str_bytes,
       cr_manifest_json = (\<lambda>m. str_bytes (pm_id m @ pm_version m)), cr_base64_decode = Inr \<circ> str_bytes,
       cr_key_error = (\<lambda>_. None), cr_verify_strict = (\<lambda>key digest sig. digest = take 1 sig) \<rparr>"

definition example_plugin_manifest :: "string \<Rightarrow> string list \<Rightarrow> string list \<Rightarrow> plugin_manifest" where
  "example_plugin_manifest version scopes network =
     \<lparr> pm_schema_version = 1, pm_id = ''github'', pm_name = ''GitHub'', pm_version = version, pm_kind = NativeProcess,
       pm_publisher = ''project'', pm_scopes = scopes,
       pm_runtime = \<lparr> rs_command = ''plugin'', rs_protocol = [], rs_working_directory = [] \<rparr>,
       pm_capabilities = \<lparr> cs_filesystem_read = [], cs_filesystem_write = [], cs_network = network,
                          cs_secrets = [], cs_subprocess = False \<rparr>,
       pm_resources = \<lparr> rc_memory_mb = 512, rc_cpu_seconds = 60, rc_wall_seconds = 300, rc_maximum_output_mb = 16 \<rparr>,
       pm_security = \<lparr> ss_checksum = ''sha256:0'', ss_signature = [], ss_sandbox_profile = [] \<rparr>,
       pm_update = \<lparr> us_channel = ''stable'', us_permission_change_requires_approval = True \<rparr>, pm_ui = None \<rparr>"

definition example_plugin :: installed_plugin where
  "example_plugin =
     \<lparr> ip_manifest = example_plugin_manifest ''1.0'' [''repository''] [], ip_state = InstalledDisabled,
       ip_trust = TT_Unsigned, ip_content_hash = ''sha256:0'', ip_signed = False, ip_granted = {||},
       ip_granted_ui = {||}, ip_enabled_scope = None, ip_pending_update = None \<rparr>"

lemma example_verifies:
  "verify_artifact example_crypto (example_plugin_manifest version scopes network) [] None UP_Allow
    = Inr \<lparr> vf_signed = False \<rparr>"
proof -
  have "verify_checksum example_crypto (example_plugin_manifest version scopes network) [] = Inr ()"
    unfolding verify_checksum_def example_plugin_manifest_def example_crypto_def checksum_of_def by code_simp
  moreover have "\<not> is_signed (pm_security (example_plugin_manifest version scopes network))"
    unfolding is_signed_def example_plugin_manifest_def by code_simp
  ultimately show ?thesis by (simp add: verify_artifact_ok_iff)
qed

lemma ffilter_fempty [simp]: "ffilter P {||} = {||}"
  by auto

lemma example_manifest_sel [simp]:
  "pm_id (example_plugin_manifest version scopes network) = ''github''"
  "pm_kind (example_plugin_manifest version scopes network) = NativeProcess"
  "pm_scopes (example_plugin_manifest version scopes network) = scopes"
  "from_spec (pm_capabilities (example_plugin_manifest version scopes network)) = Cap_Network |`| fset_of_list network"
  "requested_ui_capabilities (example_plugin_manifest version scopes network) = {||}"
  "ui_static (example_plugin_manifest version scopes network) = {||}"
  "pm_resources (example_plugin_manifest version scopes network)
     = \<lparr> rc_memory_mb = 512, rc_cpu_seconds = 60, rc_wall_seconds = 300, rc_maximum_output_mb = 16 \<rparr>"
  "ss_checksum (pm_security (example_plugin_manifest version scopes network)) = ''sha256:0''"
  by (simp_all add: example_plugin_manifest_def from_spec_def fset_of_list_map requested_ui_capabilities_def
      ui_static_def ui_permission_set_def)

lemma example_inv: "plugin_inv C example_plugin"
  by (simp add: plugin_inv_def example_plugin_def settled_state_def trust_of_def) code_simp

lemma example_install:
  "install_disabled example_crypto (example_plugin_manifest ''1.0'' [''repository''] []) [] None UP_Allow {||} {||}
    = Inr example_plugin"
proof -
  have "trim ''sha256:0'' = ''sha256:0''" by code_simp
  then show ?thesis
    by (simp add: install_disabled_def example_verifies example_plugin_def trust_of_def
        assert_granted_iff[of _ _ "()"] assert_ui_granted_iff[of _ _ "()"] res_bind_Inr_iff)
qed

lemma example_reach: "plugin_reach example_crypto example_plugin"
  using example_install by (rule reach_install)

text \<open>The update of the example that asks for a network destination.\<close>

definition example_request :: plugin_manifest where
  "example_request = example_plugin_manifest ''2.0'' [''repository''] [''api.example:443'']"

lemma example_update:
  "update example_crypto ''r1'' example_plugin example_request [] None UP_Allow
    = (example_plugin\<lparr> ip_pending_update := Some (sealed_by example_crypto ''r1'' example_plugin example_request [] None
         \<lparr> vf_signed = False \<rparr>), ip_state := UpdateBlocked \<rparr>,
       Inl (UpdateExpandsPermissions (render_diff (diff_update example_plugin example_request)) ''r1''))"
proof -
  have "updatable example_plugin example_request"
    by (simp add: updatable_def example_plugin_def example_request_def)
  moreover have "expands_permissions (diff_update example_plugin example_request)"
    by (simp add: diff_update_expands example_plugin_def example_request_def)
  moreover have "verify_artifact example_crypto example_request [] None UP_Allow = Inr \<lparr> vf_signed = False \<rparr>"
    by (simp add: example_request_def example_verifies)
  ultimately show ?thesis by (simp add: update_eq)
qed

subsection \<open>Properties\<close>

text \<open>
  C28: In every reachable state of a plugin the grants lie within what its manifest requests, it is blocked
  exactly while an update awaits review, the sealed review holds the diff of its own candidate, it has an
  enabled scope exactly while it is (or, when blocked, was) enabled, and its trust tier and content hash
  are those of the manifest in force.
\<close>
theorem plugin_reach_inv: "plugin_reach C p \<Longrightarrow> plugin_inv C p"
  by (induction rule: plugin_reach.induct) (auto intro: install_inv step_inv)

theorem plugin_reach_inv_witness:
  "plugin_inv example_crypto (plugin_step example_crypto example_plugin (Op_Update ''r1'' example_request [] None UP_Allow))"
  by (rule plugin_reach_inv[OF reach_step[OF example_reach]])

text \<open>
  C23: The authority of an installed plugin (capabilities, UI capabilities, other UI privileges and resource
  caps) never grows without an approval: in any sequence of operations after which the plugin holds
  anything it did not hold before, some operation is an approval that succeeded.
\<close>
theorem authority_grows_only_by_approval:
  assumes "plugin_reach C p" and "\<not> authority_le (foldl (plugin_step C) p ops) p"
  shows "\<exists>pre op post. ops = pre @ op # post \<and> approves C (foldl (plugin_step C) p pre) op"
proof (rule plugin_machine.elevation_in_run)
  show "plugin_inv C p"
    using assms(1) by (induction rule: plugin_reach.induct) (auto intro: install_inv step_inv)
qed (rule assms(2))

text \<open>
  A blocked update can be approved with the inputs it was submitted with, and only with them: the approval
  with the receipt, the manifest, the artifact and the key of the update succeeds, the plugin then holds
  what the shown diff leaves of its grant (the added capabilities, less the removed ones), and it is enabled
  afterwards exactly when it was before. Any other receipt, manifest, artifact checksum or key checksum is
  refused and changes nothing.
\<close>
lemma blocked_update_approval:
  assumes "update C uuid p m a k u = (q, Inl (UpdateExpandsPermissions shown receipt))"
  shows "(\<exists>r. approve_update C q receipt m a k u = (r, Inr ())
           \<and> ip_manifest r = m
           \<and> fset (ip_granted r) = fset (ip_granted p) \<union> set (pd_added (diff_update p m)) - set (pd_removed (diff_update p m))
           \<and> ip_granted_ui r = requested_ui_capabilities m
           \<and> is_active r = is_active p \<and> ip_enabled_scope r = ip_enabled_scope p)
    \<and> shown = render_diff (diff_update p m)
    \<and> (\<forall>receipt' m' a' k' u'.
         (receipt', m', checksum_of C a', map_option (checksum_of C) k')
           = (receipt, m, checksum_of C a, map_option (checksum_of C) k)
         \<or> (\<exists>e. approve_update C q receipt' m' a' k' u' = (q, Inl e)))"
  using assms
proof (cases rule: update_elim)
  case (blocked v)
  let ?pend = "sealed_by C uuid p m a k v"
  have "approve_update C q uuid m a k u = (approved q ?pend m v, Inr ())"
    using approve_blocked[OF blocked(1,2)] by (simp add: blocked(4))
  moreover have "fset (from_spec (pm_capabilities m))
      = fset (ip_granted p) \<union> set (pd_added (diff_update p m)) - set (pd_removed (diff_update p m))"
    by auto
  moreover have "\<exists>e. approve_update C q receipt' m' a' k' u' = (q, Inl e)"
    if "(receipt', m', checksum_of C a', map_option (checksum_of C) k') \<noteq> (uuid, m, checksum_of C a, map_option (checksum_of C) k)"
    for receipt' m' a' k' u'
    using that by (cases rule: approve_update_elim[of C q receipt' m' a' k' u', OF prod.collapse[symmetric]])
      (auto simp: approval_matches_def blocked(4) sealed_by_def prod_eq_iff)
  ultimately show ?thesis using blocked(4,5)
    by (auto simp: approved_def is_active_def sealed_by_def)
next
  case (refused e)
  then show ?thesis by (metis sum.inject(1))
qed simp

theorem authority_grows_only_by_approval_witness:
  "\<exists>pre op post.
     [Op_Update ''r1'' example_request [] None UP_Allow, Op_Approve ''r1'' example_request [] None UP_Allow]
       = pre @ op # post
     \<and> approves example_crypto (foldl (plugin_step example_crypto) example_plugin pre) op"
proof (rule authority_grows_only_by_approval[OF example_reach])
  have "updatable example_plugin example_request"
    by (simp add: updatable_def example_plugin_def example_request_def)
  moreover have "verify_artifact example_crypto example_request [] None UP_Allow = Inr \<lparr> vf_signed = False \<rparr>"
    by (simp add: example_request_def example_verifies)
  ultimately show "\<not> authority_le (foldl (plugin_step example_crypto) example_plugin
      [Op_Update ''r1'' example_request [] None UP_Allow, Op_Approve ''r1'' example_request [] None UP_Allow]) example_plugin"
    by (simp add: example_update approve_blocked authority_le_def approved_def)
       (simp add: example_plugin_def example_request_def)
qed

text \<open>Rejecting a blocked update restores the plugin as it was, with nothing left to approve.\<close>

lemma reject_restores:
  assumes "plugin_inv C p" and "update C uuid p m a k u = (q, Inl (UpdateExpandsPermissions shown receipt))"
  shows "reject_pending_update q receipt = (p, Inr ())"
  using assms(2)
proof (cases rule: update_elim)
  case (blocked v)
  then have "ip_pending_update p = None" using assms(1) by (auto simp: plugin_inv_def updatable_def)
  then show ?thesis using blocked by (simp add: reject_pending_update_def sealed_by_def)
next
  case (refused e)
  then show ?thesis by (metis sum.inject(1))
qed simp

text \<open>
  The scopes of a manifest are not part of the permission diff: an update that applies without review can
  leave the plugin active at a scope its manifest does not declare, where \<open>enable\<close> would refuse it.
\<close>
lemma enabled_at_undeclared_scope:
  "\<exists>C p scope. plugin_reach C p \<and> is_active p \<and> ip_enabled_scope p = Some scope
     \<and> scope \<notin> set (pm_scopes (ip_manifest p)) \<and> snd (enable p scope) = Inl (UndeclaredScope scope)"
proof -
  let ?m = "example_plugin_manifest ''1.1'' [] []"
  let ?p1 = "fst (enable (fst (mark_smoke_tested example_plugin)) ''repository'')"
  let ?p = "fst (update example_crypto [] ?p1 ?m [] None UP_Allow)"
  have "plugin_reach example_crypto ?p"
    using example_reach by (metis reach_step plugin_step.simps(1,2,4))
  moreover have "trim ''repository'' \<noteq> []" by code_simp
  then have p1: "?p1 = example_plugin\<lparr> ip_state := Enabled, ip_enabled_scope := Some ''repository'' \<rparr>"
    by (simp add: mark_smoke_tested_def enable_def example_plugin_def)
  have "updatable ?p1 ?m" "\<not> expands_permissions (diff_update ?p1 ?m)"
    unfolding p1 by (simp_all add: updatable_def diff_update_expands) (simp_all add: example_plugin_def)
  then have "?p = (applied ?p1 ?m {||} {||} False)\<lparr> ip_pending_update := None \<rparr>"
    by (simp add: update_eq example_verifies)
  then have "is_active ?p" "ip_enabled_scope ?p = Some ''repository''" "pm_scopes (ip_manifest ?p) = []"
    unfolding p1 by (simp_all add: is_active_def)
  ultimately show ?thesis by (intro exI[of _ example_crypto] exI[of _ ?p] exI[of _ "''repository''"]) (simp add: enable_def)
qed

end
