(* ===== verification/Sandbox_Gate.thy ===== *)
theory Sandbox_Gate
  imports Plugin_Lifecycle
begin

text \<open>
  The closed sandbox profile derived from a grant (\<open>crates/sandbox/src/profile.rs\<close>), the checks the executor
  makes of it (\<open>executor.rs\<close>, the final section), and the broker that answers a guest's request
  (\<open>crates/sandbox/src/gate.rs\<close>). The run policy behind the \<open>RunPolicyGate\<close> trait is an argument: a function
  from a request and its seal to a grant or a refusal.
\<close>

subsection \<open>Profile\<close>

definition ENV_ALLOWLIST :: "string list" where
  "ENV_ALLOWLIST = [''PATH'', ''LANG'', ''LC_ALL'', ''TZ'']"

record sandbox_profile =
  sp_plugin :: string
  sp_env_allowlist :: "string list"
  sp_read_paths :: "string list"
  sp_write_paths :: "string list"
  sp_network_allowlist :: "string list"
  sp_brokered_secrets :: "string list"
  sp_allow_subprocess :: bool
  sp_memory_mb :: u64
  sp_cpu_seconds :: u64
  sp_wall_seconds :: u64
  sp_maximum_output_mb :: u64

fun push_cap :: "capability \<Rightarrow> sandbox_profile \<Rightarrow> sandbox_profile" where
  "push_cap (Cap_FilesystemRead q) sp = sp\<lparr> sp_read_paths := sp_read_paths sp @ [q] \<rparr>"
| "push_cap (Cap_FilesystemWrite q) sp = sp\<lparr> sp_write_paths := sp_write_paths sp @ [q] \<rparr>"
| "push_cap (Cap_Network n) sp = sp\<lparr> sp_network_allowlist := sp_network_allowlist sp @ [n] \<rparr>"
| "push_cap (Cap_Secret s) sp = sp\<lparr> sp_brokered_secrets := sp_brokered_secrets sp @ [s] \<rparr>"
| "push_cap Cap_Subprocess sp = sp\<lparr> sp_allow_subprocess := True \<rparr>"

definition derive :: "plugin_manifest \<Rightarrow> capability_set \<Rightarrow> sandbox_profile" where
  "derive m granted =
     fold push_cap (sorted_list_of_fset granted)
       \<lparr> sp_plugin = pm_id m @ ''@'' @ pm_version m, sp_env_allowlist = ENV_ALLOWLIST, sp_read_paths = [],
         sp_write_paths = [], sp_network_allowlist = [], sp_brokered_secrets = [], sp_allow_subprocess = False,
         sp_memory_mb = rc_memory_mb (pm_resources m), sp_cpu_seconds = rc_cpu_seconds (pm_resources m),
         sp_wall_seconds = rc_wall_seconds (pm_resources m),
         sp_maximum_output_mb = rc_maximum_output_mb (pm_resources m) \<rparr>"

definition trim_end_slash :: "string \<Rightarrow> string" where
  "trim_end_slash s = rev (dropWhile (\<lambda>c. c = CHR ''/'') (rev s))"

definition path_within :: "string \<Rightarrow> string \<Rightarrow> bool" where
  "path_within base0 candidate =
     (let base = trim_end_slash base0 in
      if base = [] \<or> \<not> starts_with ''/'' base then False
      else if \<not> is_absolute candidate
              \<or> list_ex (\<lambda>c. c = ParentDir \<or> c = CurDir) (path_components candidate) then False
      else if candidate = base then True
      else case strip_prefix base candidate of Some rest \<Rightarrow> starts_with ''/'' rest | None \<Rightarrow> False)"

definition allows_read :: "sandbox_profile \<Rightarrow> string \<Rightarrow> bool" where
  "allows_read sp path = list_ex (\<lambda>b. path_within b path) (sp_read_paths sp @ sp_write_paths sp)"

definition allows_write :: "sandbox_profile \<Rightarrow> string \<Rightarrow> bool" where
  "allows_write sp path = list_ex (\<lambda>b. path_within b path) (sp_write_paths sp)"

definition allows_network :: "sandbox_profile \<Rightarrow> string \<Rightarrow> bool" where
  "allows_network sp host_port = list_ex (\<lambda>h. h = host_port) (sp_network_allowlist sp)"

definition env_allowed :: "sandbox_profile \<Rightarrow> string \<Rightarrow> bool" where
  "env_allowed sp var = list_ex (\<lambda>v. v = var) (sp_env_allowlist sp)"

subsection \<open>Requests and grants\<close>

datatype host_request =
    ReadFile string
  | WriteFile string
  | RunCommand string "string list"
  | Connect string "16 word"
  | ReadSecret string

fun request_class :: "host_request \<Rightarrow> string" where
  "request_class (ReadFile _) = ''file-read''"
| "request_class (WriteFile _) = ''file-write''"
| "request_class (RunCommand _ _) = ''command-execute''"
| "request_class (Connect _ _) = ''network-connect''"
| "request_class (ReadSecret _) = ''secret-read''"

fun request_describe :: "host_request \<Rightarrow> string" where
  "request_describe (ReadFile path) = ''file-read '' @ path"
| "request_describe (WriteFile path) = ''file-write '' @ path"
| "request_describe (RunCommand program args) = ''command-execute '' @ program @ '' '' @ join '' '' args"
| "request_describe (Connect host port) = ''network-connect '' @ host @ '':'' @ dec (unat port)"
| "request_describe (ReadSecret name) = ''secret-read '' @ name"

definition be_bytes16 :: "16 word \<Rightarrow> bytes" where
  "be_bytes16 w = [ucast (drop_bit 8 w), ucast w]"

fun request_fields :: "(bytes \<Rightarrow> bytes) \<Rightarrow> host_request \<Rightarrow> bytes" where
  "request_fields h (ReadFile path) = h (str_bytes path)"
| "request_fields h (WriteFile path) = h (str_bytes path)"
| "request_fields h (RunCommand program args) =
     h (str_bytes program) @ be_bytes (of_nat (length args)) @ concat (map (\<lambda>a. h (str_bytes a)) args)"
| "request_fields h (Connect host port) = h (str_bytes host) @ be_bytes16 port"
| "request_fields h (ReadSecret name) = h (str_bytes name)"

definition request_message :: "(bytes \<Rightarrow> bytes) \<Rightarrow> host_request \<Rightarrow> bytes" where
  "request_message h r =
     str_bytes ''codypendent-host-request-v1'' @ h (str_bytes (request_class r)) @ request_fields h r"

definition request_digest :: "crypto \<Rightarrow> host_request \<Rightarrow> bytes" where
  "request_digest C r = cr_sha256 C (request_message (cr_sha256 C) r)"

record gate_seal =
  seal_digest :: bytes

record gate_grant =
  grant_digest :: bytes
  grant_authority :: string

definition issue :: "gate_seal \<Rightarrow> string \<Rightarrow> gate_grant" where
  "issue seal authority = \<lparr> grant_digest = seal_digest seal, grant_authority = authority \<rparr>"

definition answers :: "crypto \<Rightarrow> gate_grant \<Rightarrow> host_request \<Rightarrow> bool" where
  "answers C g r \<longleftrightarrow> grant_digest g = request_digest C r"

record gate_denied =
  den_code :: string
  den_message :: string

type_synonym run_policy_gate = "host_request \<Rightarrow> gate_seal \<Rightarrow> gate_denied + gate_grant"

definition deny_all_gate :: run_policy_gate where
  "deny_all_gate r seal =
     Inl \<lparr> den_code = ''sandbox.no-run-policy'',
           den_message = ''`'' @ request_describe r @ ''` requires the run policy, which is not available to this caller'' \<rparr>"

fun permits :: "sandbox_profile \<Rightarrow> host_request \<Rightarrow> bool" where
  "permits sp (ReadFile path) = allows_read sp path"
| "permits sp (WriteFile path) = allows_write sp path"
| "permits sp (RunCommand _ _) = sp_allow_subprocess sp"
| "permits sp (Connect host port) = allows_network sp (host @ '':'' @ dec (unat port))"
| "permits sp (ReadSecret name) = list_ex (\<lambda>s. s = name) (sp_brokered_secrets sp)"

definition broker_request ::
  "crypto \<Rightarrow> sandbox_profile \<Rightarrow> run_policy_gate \<Rightarrow> host_request \<Rightarrow> gate_denied + gate_grant" where
  "broker_request C sp gate r =
     (if \<not> permits sp r then
        Inl \<lparr> den_code = ''sandbox.undeclared-capability'',
              den_message = ''`'' @ request_class r @ ''` is not declared by `'' @ sp_plugin sp @ ''`'' \<rparr>
      else res_bind (gate r \<lparr> seal_digest = request_digest C r \<rparr>) (\<lambda>g.
        if answers C g r then Inr g
        else Inl \<lparr> den_code = ''sandbox.grant-mismatch'',
                   den_message = ''the run policy returned a grant that does not answer this request'' \<rparr>))"

subsection \<open>Checks of the executor\<close>

datatype sandbox_error =
    UnsupportedPlatform string
  | ToolUnavailable string string
  | InvalidCommand string
  | UnsupportedCapability string
  | SE_Spawn string
  | SE_Io string
  | SE_Cancelled

definition validate_enforceable_profile :: "sandbox_profile \<Rightarrow> sandbox_error + unit" where
  "validate_enforceable_profile sp =
     (if sp_network_allowlist sp \<noteq> [] then
        Inl (UnsupportedCapability ''host:port network allowlists require a broker; refusing unrestricted outbound access'')
      else res_bind
        (for_each (\<lambda>(field, v). if v = 0 then
                      Inl (InvalidCommand (''resource cap `'' @ field @ ''` must be greater than zero'')) else Inr ())
           [(''memory_mb'', sp_memory_mb sp), (''cpu_seconds'', sp_cpu_seconds sp),
            (''wall_seconds'', sp_wall_seconds sp), (''maximum_output_mb'', sp_maximum_output_mb sp)])
        (\<lambda>_. if list_ex (\<lambda>q. trim_end_slash q = []) (sp_read_paths sp @ sp_write_paths sp)
             then Inl (InvalidCommand ''root/empty filesystem grants are forbidden'') else Inr ()))"

text \<open>On a target where \<open>usize\<close> has 64 bits the cast keeps the value.\<close>

definition output_cap_bytes :: "sandbox_profile \<Rightarrow> u64" where
  "output_cap_bytes sp =
     max (of_nat (min (unat (sp_maximum_output_mb sp) * (1024 * 1024)) (2 ^ 64 - 1))) (4 * 1024)"

subsection \<open>Containment of paths\<close>

lemma split_char_nonempty [simp]: "split_char c s \<noteq> []"
  by (induction s) (auto split: list.splits)

lemma split_char_append: "split_char c (a @ c # b) = split_char c a @ split_char c b"
proof (induction a)
  case (Cons x a)
  then show ?case by (cases "split_char c a") auto
qed simp

definition path_body :: "string \<Rightarrow> path_component list" where
  "path_body s =
     map (\<lambda>p. if p = ''..'' then ParentDir else Normal p) (filter (\<lambda>p. p \<noteq> [] \<and> p \<noteq> ''.'') (split_char (CHR ''/'') s))"

lemma path_components_absolute: "is_absolute s \<Longrightarrow> path_components s = RootDir # path_body s"
  by (simp add: path_components_def path_body_def is_absolute_def Let_def)

lemma path_body_append: "path_body (a @ CHR ''/'' # b) = path_body a @ path_body b"
  by (simp add: path_body_def split_char_append)

lemma path_body_slashes: "path_body (a @ replicate n (CHR ''/'')) = path_body a"
proof (induction n)
  case (Suc n)
  have "path_body (replicate n (CHR ''/'')) = []"
  proof (induction n)
    case (Suc n)
    then show ?case using path_body_append[of "[]"] by (simp add: path_body_def)
  qed (simp add: path_body_def)
  then show ?case by (simp add: path_body_append)
qed simp

lemma trim_end_slash_decomp: "\<exists>n. s = trim_end_slash s @ replicate n (CHR ''/'')"
proof -
  have "rev s = takeWhile (\<lambda>c. c = CHR ''/'') (rev s) @ dropWhile (\<lambda>c. c = CHR ''/'') (rev s)" by simp
  moreover have "takeWhile (\<lambda>c. c = CHR ''/'') (rev s) = replicate (length (takeWhile (\<lambda>c. c = CHR ''/'') (rev s))) (CHR ''/'')"
    by (rule replicate_length_same[symmetric]) (auto dest: set_takeWhileD)
  ultimately have "s = trim_end_slash s @ replicate (length (takeWhile (\<lambda>c. c = CHR ''/'') (rev s))) (CHR ''/'')"
    unfolding trim_end_slash_def by (metis rev_append rev_replicate rev_rev_ident)
  then show ?thesis by blast
qed

definition beneath :: "string \<Rightarrow> string \<Rightarrow> bool" where
  "beneath base path \<longleftrightarrow> (\<exists>rest. path_components path = path_components base @ map Normal rest)"

lemma all_normal: "ParentDir \<notin> set (path_body r) \<Longrightarrow> \<exists>names. path_body r = map Normal names"
  unfolding path_body_def
  by (rule exI[of _ "filter (\<lambda>p. p \<noteq> [] \<and> p \<noteq> ''.'') (split_char (CHR ''/'') r)"]) (auto split: if_splits)

lemma path_within_beneath:
  assumes "path_within base0 path"
  shows "beneath base0 path"
proof -
  define base where "base = trim_end_slash base0"
  have base: "is_absolute base" and path: "is_absolute path" and no: "ParentDir \<notin> set (path_components path)"
    and split: "path = base \<or> (\<exists>r. path = base @ CHR ''/'' # r)"
    using assms unfolding path_within_def base_def[symmetric] Let_def is_absolute_def
    by (auto simp: list_ex_iff strip_prefix_Some starts_with_iff split: if_splits option.splits)
  obtain n where base0: "base0 = base @ replicate n (CHR ''/'')"
    using trim_end_slash_decomp[of base0] by (auto simp: base_def)
  have "is_absolute base0" using base by (auto simp: base0 is_absolute_def starts_with_iff)
  then have comps: "path_components base0 = RootDir # path_body base"
    unfolding base0 by (simp add: path_components_absolute path_body_slashes)
  from split show ?thesis
  proof (elim disjE exE)
    assume "path = base"
    then show ?thesis unfolding beneath_def comps using path
      by (intro exI[of _ "[]"]) (simp add: path_components_absolute)
  next
    fix r assume r: "path = base @ CHR ''/'' # r"
    then have eq: "path_components path = RootDir # path_body base @ path_body r"
      using path by (simp add: path_components_absolute path_body_append)
    with no have "ParentDir \<notin> set (path_body r)" by simp
    then obtain names where "path_body r = map Normal names" using all_normal by blast
    with eq show ?thesis unfolding beneath_def comps by auto
  qed
qed

subsection \<open>What a profile lists\<close>

lemma fold_push_cap:
  "set (sp_read_paths (fold push_cap cs sp)) = set (sp_read_paths sp) \<union> {q. Cap_FilesystemRead q \<in> set cs}"
  "set (sp_write_paths (fold push_cap cs sp)) = set (sp_write_paths sp) \<union> {q. Cap_FilesystemWrite q \<in> set cs}"
  "set (sp_network_allowlist (fold push_cap cs sp)) = set (sp_network_allowlist sp) \<union> {q. Cap_Network q \<in> set cs}"
  "set (sp_brokered_secrets (fold push_cap cs sp)) = set (sp_brokered_secrets sp) \<union> {q. Cap_Secret q \<in> set cs}"
  "sp_allow_subprocess (fold push_cap cs sp) \<longleftrightarrow> sp_allow_subprocess sp \<or> Cap_Subprocess \<in> set cs"
  "sp_env_allowlist (fold push_cap cs sp) = sp_env_allowlist sp"
proof (induction cs arbitrary: sp)
  case (Cons c cs)
  { case 1 show ?case using Cons.IH(1) by (cases c) auto }
  { case 2 show ?case using Cons.IH(2) by (cases c) auto }
  { case 3 show ?case using Cons.IH(3) by (cases c) auto }
  { case 4 show ?case using Cons.IH(4) by (cases c) auto }
  { case 5 show ?case using Cons.IH(5) by (cases c) auto }
  { case 6 show ?case using Cons.IH(6) by (cases c) auto }
qed simp_all

lemma fold_push_cap_resources:
  "sp_memory_mb (fold push_cap cs sp) = sp_memory_mb sp" "sp_cpu_seconds (fold push_cap cs sp) = sp_cpu_seconds sp"
  "sp_wall_seconds (fold push_cap cs sp) = sp_wall_seconds sp"
  "sp_maximum_output_mb (fold push_cap cs sp) = sp_maximum_output_mb sp"
proof (induction cs arbitrary: sp)
  case (Cons c cs)
  { case 1 show ?case using Cons.IH(1) by (cases c) auto }
  { case 2 show ?case using Cons.IH(2) by (cases c) auto }
  { case 3 show ?case using Cons.IH(3) by (cases c) auto }
  { case 4 show ?case using Cons.IH(4) by (cases c) auto }
qed simp_all

lemma derive_resources [simp]:
  "sp_memory_mb (derive m g) = rc_memory_mb (pm_resources m)"
  "sp_cpu_seconds (derive m g) = rc_cpu_seconds (pm_resources m)"
  "sp_wall_seconds (derive m g) = rc_wall_seconds (pm_resources m)"
  "sp_maximum_output_mb (derive m g) = rc_maximum_output_mb (pm_resources m)"
  by (simp_all add: derive_def fold_push_cap_resources)

lemma derive_sets [simp]:
  "set (sp_read_paths (derive m g)) = {q. Cap_FilesystemRead q |\<in>| g}"
  "set (sp_write_paths (derive m g)) = {q. Cap_FilesystemWrite q |\<in>| g}"
  "set (sp_network_allowlist (derive m g)) = {q. Cap_Network q |\<in>| g}"
  "set (sp_brokered_secrets (derive m g)) = {q. Cap_Secret q |\<in>| g}"
  "sp_allow_subprocess (derive m g) \<longleftrightarrow> Cap_Subprocess |\<in>| g"
  "sp_env_allowlist (derive m g) = ENV_ALLOWLIST"
  by (simp_all add: derive_def fold_push_cap)

text \<open>The requests one capability can stand for.\<close>

fun cap_covers :: "capability \<Rightarrow> host_request \<Rightarrow> bool" where
  "cap_covers (Cap_FilesystemRead b) (ReadFile path) = beneath b path"
| "cap_covers (Cap_FilesystemWrite b) (ReadFile path) = beneath b path"
| "cap_covers (Cap_FilesystemWrite b) (WriteFile path) = beneath b path"
| "cap_covers (Cap_Network n) (Connect host port) = (n = host @ '':'' @ dec (unat port))"
| "cap_covers (Cap_Secret s) (ReadSecret name) = (s = name)"
| "cap_covers Cap_Subprocess (RunCommand _ _) = True"
| "cap_covers _ _ = False"

lemma permits_covered:
  assumes "permits (derive m g) r"
  shows "\<exists>c. c |\<in>| g \<and> cap_covers c r"
proof (cases r)
  case (ReadFile path)
  with assms obtain b where "Cap_FilesystemRead b |\<in>| g \<or> Cap_FilesystemWrite b |\<in>| g" "path_within b path"
    by (auto simp: allows_read_def list_ex_iff)
  then show ?thesis unfolding ReadFile by (metis cap_covers.simps(1,2) path_within_beneath)
next
  case (WriteFile path)
  with assms obtain b where "Cap_FilesystemWrite b |\<in>| g" "path_within b path"
    by (auto simp: allows_write_def list_ex_iff)
  then show ?thesis unfolding WriteFile by (metis cap_covers.simps(3) path_within_beneath)
next
  case (RunCommand program args)
  with assms show ?thesis by (auto intro: exI[of _ Cap_Subprocess])
next
  case (Connect host port)
  with assms show ?thesis
    by (auto simp: allows_network_def list_ex_iff intro!: exI[of _ "Cap_Network (host @ '':'' @ dec (unat port))"])
next
  case (ReadSecret name)
  with assms show ?thesis by (auto simp: list_ex_iff intro!: exI[of _ "Cap_Secret name"])
qed

lemma broker_request_ok_iff:
  "broker_request C sp gate r = Inr g \<longleftrightarrow>
     permits sp r \<and> gate r \<lparr> seal_digest = request_digest C r \<rparr> = Inr g \<and> answers C g r"
  by (auto simp: broker_request_def res_bind_Inr_iff split: if_splits)

lemma deny_all_denies: "\<exists>e. broker_request C sp deny_all_gate r = Inl e"
  by (simp add: broker_request_def deny_all_gate_def)

subsection \<open>Digests of requests\<close>

lemma request_class_inj_read:
  "request_class r = request_class r' \<Longrightarrow> (\<exists>p q. r = ReadFile p \<and> r' = ReadFile q) \<or> (\<exists>p q. r = WriteFile p \<and> r' = WriteFile q)
    \<or> (\<exists>p a q b. r = RunCommand p a \<and> r' = RunCommand q b) \<or> (\<exists>h p k q. r = Connect h p \<and> r' = Connect k q)
    \<or> (\<exists>p q. r = ReadSecret p \<and> r' = ReadSecret q)"
  by (cases r; cases r') simp_all

text \<open>The strings a digest hashes one by one.\<close>

fun request_strings :: "host_request \<Rightarrow> string list" where
  "request_strings (ReadFile path) = [path]"
| "request_strings (WriteFile path) = [path]"
| "request_strings (RunCommand program args) = program # args"
| "request_strings (Connect host _) = [host]"
| "request_strings (ReadSecret name) = [name]"

definition digest_inputs :: "crypto \<Rightarrow> host_request \<Rightarrow> bytes set" where
  "digest_inputs C r =
     {request_message (cr_sha256 C) r, str_bytes (request_class r)} \<union> str_bytes ` set (request_strings r)"

lemma digest_inputs_string: "s \<in> set (request_strings r) \<Longrightarrow> str_bytes s \<in> digest_inputs C r"
  by (simp add: digest_inputs_def)

lemma be_bytes16_inj [simp]: "be_bytes16 a = be_bytes16 b \<longleftrightarrow> a = b"
proof
  assume eq: "be_bytes16 a = be_bytes16 b"
  then have lo: "(ucast a :: 8 word) = ucast b" and hi: "(ucast (drop_bit 8 a) :: 8 word) = ucast (drop_bit 8 b)"
    by (simp_all add: be_bytes16_def)
  show "a = b"
  proof (rule bit_word_eqI)
    fix n assume n: "n < LENGTH(16)"
    show "bit a n = bit b n"
    proof (cases "n < 8")
      case True
      then show ?thesis using arg_cong[OF lo, of "\<lambda>w. bit w n"] by (simp add: bit_ucast_iff)
    next
      case False
      then have "n - 8 < 8" using n by simp
      then show ?thesis using n False arg_cong[OF hi, of "\<lambda>w. bit w (n - 8)"] by (simp add: bit_ucast_iff bit_drop_bit_eq)
    qed
  qed
qed simp

lemma concat_blocks_inj:
  assumes "\<And>x. length (h x) = Suc k" and "inj_on h (set xs \<union> set ys)"
    and "concat (map h xs) = concat (map h ys)"
  shows "xs = ys"
  using assms(2,3)
proof (induction xs arbitrary: ys)
  case Nil
  then have "length (concat (map h ys)) = 0" by simp
  then show ?case using assms(1) by (cases ys) (simp_all del: length_concat)
next
  case (Cons x xs)
  have "length (concat (map h ys)) \<noteq> 0"
    using arg_cong[OF Cons.prems(2)[symmetric], of length] assms(1)[of x] by simp
  then obtain y ys' where ys: "ys = y # ys'" by (cases ys) auto
  with Cons.prems(2) have "h x = h y" and rest: "concat (map h xs) = concat (map h ys')"
    by (simp_all add: append_eq_append_conv assms(1))
  moreover have "inj_on h (set xs \<union> set ys')" using Cons.prems(1) by (rule inj_on_subset) (auto simp: ys)
  ultimately show ?case using Cons.IH[OF _ rest] Cons.prems(1) by (simp add: ys inj_on_eq_iff)
qed

lemma request_digest_inj:
  assumes len: "\<And>x. length (cr_sha256 C x) = 32"
    and inj: "inj_on (cr_sha256 C) (digest_inputs C r \<union> digest_inputs C r')"
    and eq: "request_digest C r = request_digest C r'"
  shows "r = r'"
proof -
  let ?h = "cr_sha256 C"
  have hD: "?h x = ?h y \<Longrightarrow> x = y" if "x \<in> digest_inputs C r" "y \<in> digest_inputs C r'" for x y
    using inj that by (auto dest: inj_onD)
  have "request_message ?h r = request_message ?h r'"
    by (rule hD) (use eq in \<open>simp_all add: request_digest_def digest_inputs_def\<close>)
  then have cls: "?h (str_bytes (request_class r)) = ?h (str_bytes (request_class r'))"
    and flds: "request_fields ?h r = request_fields ?h r'"
    unfolding request_message_def same_append_eq by (simp_all add: append_eq_append_conv len)
  from cls have "request_class r = request_class r'"
    using hD[of "str_bytes (request_class r)" "str_bytes (request_class r')"] by (simp add: digest_inputs_def)
  have hs: "?h (str_bytes s) = ?h (str_bytes t) \<Longrightarrow> s = t"
    if "s \<in> set (request_strings r)" "t \<in> set (request_strings r')" for s t
    using hD[of "str_bytes s" "str_bytes t"] that by (auto simp: digest_inputs_def)
  from request_class_inj_read[OF \<open>request_class r = request_class r'\<close>] show ?thesis
  proof (elim disjE exE conjE)
    fix p a q b assume r: "r = RunCommand p a" "r' = RunCommand q b"
    have "?h (str_bytes p) = ?h (str_bytes q)"
      and args: "concat (map (\<lambda>x. ?h (str_bytes x)) a) = concat (map (\<lambda>x. ?h (str_bytes x)) b)"
      using flds by (simp_all add: r append_eq_append_conv len)
    have "a = b"
    proof (rule concat_blocks_inj[OF _ _ args])
      show "length (?h (str_bytes x)) = Suc 31" for x by (simp add: len)
      show "inj_on (\<lambda>x. ?h (str_bytes x)) (set a \<union> set b)"
      proof (rule inj_onI)
        fix x y assume xy: "x \<in> set a \<union> set b" "y \<in> set a \<union> set b" "?h (str_bytes x) = ?h (str_bytes y)"
        have "z \<in> set a \<union> set b \<Longrightarrow> str_bytes z \<in> digest_inputs C r \<union> digest_inputs C r'" for z
          using digest_inputs_string[of z r C] digest_inputs_string[of z r' C] by (auto simp: r)
        from inj_onD[OF inj xy(3) this[OF xy(1)] this[OF xy(2)]] show "x = y" by simp
      qed
    qed
    then show ?thesis using hs[of p q] \<open>?h (str_bytes p) = ?h (str_bytes q)\<close> by (simp add: r)
  qed (use flds hs in \<open>auto simp: append_eq_append_conv len\<close>)
qed

subsection \<open>Properties\<close>

text \<open>
  A guest's request is answered only within the plugin's grant and by the run policy: when the broker over
  the profile of a reachable plugin returns a grant, the plugin holds a granted capability, one its manifest
  requests, that covers the request (for a file, the path lies beneath the granted one component by
  component, with no parent step), the run policy has returned this very grant for the seal of this
  request, and the grant answers the request.
\<close>
lemma broker_within_grant:
  assumes "plugin_reach C p" and "broker_request C (derive (ip_manifest p) (ip_granted p)) gate r = Inr g"
  shows "(\<exists>c. c |\<in>| ip_granted p \<and> c |\<in>| from_spec (pm_capabilities (ip_manifest p)) \<and> cap_covers c r)
    \<and> gate r \<lparr> seal_digest = request_digest C r \<rparr> = Inr g \<and> answers C g r"
proof -
  have "plugin_inv C p" using assms(1) by (induction rule: plugin_reach.induct) (auto intro: install_inv step_inv)
  then have "ip_granted p |\<subseteq>| from_spec (pm_capabilities (ip_manifest p))" by (simp add: plugin_inv_def)
  with permits_covered show ?thesis using assms(2) unfolding broker_request_ok_iff by blast
qed

text \<open>A plugin installed with the network destination it requests.\<close>

definition networked_plugin :: installed_plugin where
  "networked_plugin =
     example_plugin\<lparr> ip_manifest := example_plugin_manifest ''1.0'' [''repository''] [''api:443''],
                     ip_granted := {|Cap_Network ''api:443''|} \<rparr>"

lemma networked_reach: "plugin_reach example_crypto networked_plugin"
proof (rule reach_install)
  have "trim ''sha256:0'' = ''sha256:0''" by code_simp
  then show "install_disabled example_crypto (example_plugin_manifest ''1.0'' [''repository''] [''api:443'']) [] None
      UP_Allow {|Cap_Network ''api:443''|} {||} = Inr networked_plugin"
    by (simp add: install_disabled_def example_verifies networked_plugin_def example_plugin_def trust_of_def
        assert_granted_iff[of _ _ "()"] assert_ui_granted_iff[of _ _ "()"] res_bind_Inr_iff)
qed

text \<open>
  A grant cannot be replayed: under a 32-byte hash with no collision among the strings of the two requests,
  a grant the broker returned for one request answers no other request.
\<close>
lemma grant_not_replayable:
  assumes "\<And>x. length (cr_sha256 C x) = 32"
    and "inj_on (cr_sha256 C) (digest_inputs C r \<union> digest_inputs C r')"
    and "broker_request C sp gate r = Inr g" and "r' \<noteq> r"
  shows "\<not> answers C g r'"
  using request_digest_inj[OF assms(1,2)] assms(3,4) by (auto simp: broker_request_ok_iff answers_def)

text \<open>The first 32 bytes, padded: without collision on the two requests of the witness.\<close>

definition prefix_crypto :: crypto where
  "prefix_crypto = example_crypto\<lparr> cr_sha256 := (\<lambda>bs. take 32 (bs @ replicate 32 0)) \<rparr>"

text \<open>
  The refusal of root grants can be passed with an interior \<open>.\<close> segment: the manifest check and the
  executor's check accept \<open>/.\<close>, whose components are those of the root, and the profile then allows
  reading a path outside any other grant.
\<close>
lemma root_grant_accepted:
  "validate_path ''/.'' = Inr ()
   \<and> path_components ''/.'' = path_components ''/''
   \<and> (let sp = derive (example_plugin_manifest [] [] []) {|Cap_FilesystemRead ''/.''|} in
        validate_enforceable_profile sp = Inr () \<and> allows_read sp ''/./etc/shadow'')"
proof -
  let ?sp = "derive (example_plugin_manifest [] [] []) {|Cap_FilesystemRead ''/.''|}"
  have paths: "validate_path ''/.'' = Inr ()" "path_components ''/.'' = path_components ''/''"
    "path_within ''/.'' ''/./etc/shadow''" "trim_end_slash ''/.'' \<noteq> []" by code_simp+
  have "sp_network_allowlist ?sp = []" by (simp flip: set_empty)
  then show ?thesis using paths
    by (simp add: Let_def validate_enforceable_profile_def allows_read_def list_ex_iff)
qed

end
