(* ===== verification/Hook_Engine.thy ===== *)
theory Hook_Engine
  imports Hook_Registry Sandbox_Gate "HOL-Library.Product_Lexorder"
begin

text \<open>
  Running hooks (\<open>crates/daemon/src/hook_exec.rs\<close>) and dispatching an event to the approved ones
  (\<open>crates/daemon/src/hook_engine.rs\<close>). The JSON codec, the sandbox executor and the environment are
  parameters; the executor's failure is the text of its error. Durations are given by the executor, and the
  task that runs a hook completes.
\<close>

subsection \<open>Control lines\<close>

datatype hook_control_decision = CD_Allow | CD_Deny | CD_Rewrite

record hook_control =
  ct_decision :: hook_control_decision
  ct_reason :: "string option"
  ct_rewrite :: "tool_call option"

text \<open>\<open>str::lines\<close>: the segments between line feeds, without a final empty one and without a carriage return at the end.\<close>

definition strip_cr :: "string \<Rightarrow> string" where
  "strip_cr l = (if l \<noteq> [] \<and> last l = CHR 0x0D then butlast l else l)"

definition str_lines :: "string \<Rightarrow> string list" where
  "str_lines s =
     (let ps = split_char (CHR 0x0A) s in map strip_cr (if last ps = [] then butlast ps else ps))"

definition CONTROL_PREFIX :: string where
  "CONTROL_PREFIX = ''HOOK_CONTROL'' @ [CHR 0x09]"

definition last_control :: "string \<Rightarrow> string option" where
  "last_control stdout =
     fold (\<lambda>line acc. case strip_prefix CONTROL_PREFIX line of Some rest \<Rightarrow> Some rest | None \<Rightarrow> acc) (str_lines stdout) None"

definition parse_control :: "(string \<Rightarrow> string + hook_control) \<Rightarrow> string \<Rightarrow> string + hook_control option" where
  "parse_control json stdout =
     (case last_control stdout of
        Some control_json \<Rightarrow>
          (case json (trim control_json) of
             Inr c \<Rightarrow> Inr (Some c) | Inl err \<Rightarrow> Inl (''malformed HOOK_CONTROL: '' @ err))
      | None \<Rightarrow>
          let trimmed = trim stdout in
          if trimmed \<noteq> [] \<and> starts_with ''{'' trimmed \<and> ends_with ''}'' trimmed
          then (case json trimmed of Inr c \<Rightarrow> Inr (Some c) | Inl _ \<Rightarrow> Inr None) else Inr None)"

subsection \<open>Working directory and profile\<close>

record hook_paths =
  cx_repository :: string
  cx_worktree :: string
  cx_hook_dir :: string

text \<open>\<open>home\<close> is the variable HOME, if set.\<close>

function substitute_hook_placeholders :: "string option \<Rightarrow> hook_paths \<Rightarrow> string \<Rightarrow> string + string" where
  "substitute_hook_placeholders home ctx [] = Inr []"
| "substitute_hook_placeholders home ctx (c # s) =
     (if c \<noteq> CHR ''$'' then res_map (\<lambda>r. c # r) (substitute_hook_placeholders home ctx s)
      else
        let name = takeWhile placeholder_char s; rest = dropWhile placeholder_char s in
        res_bind
          (if name = ''REPOSITORY'' then Inr (cx_repository ctx)
           else if name = ''WORKTREE'' then Inr (cx_worktree ctx)
           else if name = ''HOME'' then ok_or ''HOME environment variable not set'' home
           else Inl (''unknown placeholder $'' @ name))
          (\<lambda>v. res_map (\<lambda>r. v @ r) (substitute_hook_placeholders home ctx rest)))"
  by pat_completeness auto
termination
  by (relation "measure (\<lambda>(_, _, s). length s)") (auto simp: length_dropWhile_le le_imp_less_Suc)

definition profile_for_hook :: "hook_spec \<Rightarrow> hook_paths \<Rightarrow> sandbox_profile" where
  "profile_for_hook spec ctx =
     \<lparr> sp_plugin = ''hook:'' @ hk_id spec, sp_env_allowlist = [],
       sp_read_paths = [cx_worktree ctx, cx_hook_dir ctx], sp_write_paths = [cx_worktree ctx],
       sp_network_allowlist = [], sp_brokered_secrets = [], sp_allow_subprocess = True, sp_memory_mb = 512,
       sp_cpu_seconds = hr_timeout_seconds (hk_runtime spec), sp_wall_seconds = hr_timeout_seconds (hk_runtime spec),
       sp_maximum_output_mb = 1 \<rparr>"

record sandbox_command =
  cm_program :: string
  cm_args :: "string list"
  cm_cwd :: string
  cm_origin :: string
  cm_stdin :: "bytes option"
  cm_runtime_denies_subprocess :: bool

record sandbox_outcome =
  oc_exit_code :: "int option"
  oc_timed_out :: bool
  oc_duration_ms :: int
  oc_stdout :: string
  oc_stderr :: string

record dispatch_audit =
  da_hook_row_id :: string
  da_run_id :: "string option"
  da_event :: string
  da_subject_digest :: string
  da_verdict :: string
  da_applied :: string
  da_rewrote_action :: "string option"
  da_exit_status :: "int option"
  da_timed_out :: bool
  da_duration_ms :: int
  da_output_bytes :: int
  da_error :: "string option"

record payload_outcome =
  po_success :: bool
  po_message :: "string option"
  po_duration_ms :: u64

record hook_payload =
  hl_payload_version :: u32
  hl_event :: string
  hl_hook_id :: string
  hl_session_id :: string
  hl_run_id :: string
  hl_repository :: string
  hl_worktree :: string
  hl_triggered_at :: string
  hl_tool :: "(string \<times> string) option"
  hl_outcome :: "payload_outcome option"

subsection \<open>Verdict of one hook\<close>

record run_env =
  re_crypto :: crypto
  re_home :: "string option"
  re_control_json :: "string \<Rightarrow> string + hook_control"
  re_is_json :: "string \<Rightarrow> bool"
  re_payload_json :: "hook_payload \<Rightarrow> string + bytes"
  re_spec_of_json :: "string \<Rightarrow> string + hook_spec"
  re_execute :: "sandbox_profile \<Rightarrow> sandbox_command \<Rightarrow> string + sandbox_outcome"
  re_substitution_ms :: int
  re_refusal_ms :: int

definition MAX_REWRITE_ARGUMENTS_BYTES :: nat where
  "MAX_REWRITE_ARGUMENTS_BYTES = 256 * 1024"

definition audit :: "string \<Rightarrow> hook_payload \<Rightarrow> string \<Rightarrow> dispatch_audit" where
  "audit row payload subject =
     \<lparr> da_hook_row_id = row, da_run_id = Some (hl_run_id payload), da_event = hl_event payload, da_subject_digest = subject,
       da_verdict = [], da_applied = [], da_rewrote_action = None, da_exit_status = None, da_timed_out = False,
       da_duration_ms = 0, da_output_bytes = 0, da_error = None \<rparr>"

definition dec_int :: "int \<Rightarrow> string" where
  "dec_int i = (if i < 0 then CHR ''-'' # dec (nat (- i)) else dec (nat i))"

definition stderr_head :: "string \<Rightarrow> string" where
  "stderr_head s = concat (take 200 (utf8_chars (case str_lines s of l # _ \<Rightarrow> l | [] \<Rightarrow> [])))"

definition failure_message :: "hook_spec \<Rightarrow> sandbox_outcome \<Rightarrow> string" where
  "failure_message spec out =
     (if oc_timed_out out then ''hook timed out after '' @ dec (unat (hr_timeout_seconds (hk_runtime spec))) @ ''s''
      else ''hook failed: exit '' @ dec_int (case oc_exit_code out of Some c \<Rightarrow> c | None \<Rightarrow> -1)
           @ [CHR '' '', CHR 0xE2, CHR 0x80, CHR 0x94, CHR '' ''] @ stderr_head (oc_stderr out))"

definition on_failure :: "hook_spec \<Rightarrow> string \<Rightarrow> hook_verdict \<times> string" where
  "on_failure spec reason =
     (case hp_failure (hk_policy spec) of FP_Block \<Rightarrow> (HV_Deny reason, ''denied'') | FP_Warn \<Rightarrow> (HV_Observed, ''allowed''))"

text \<open>The verdict of a hook that exited with 0, with the fields of its audit record that depend on it.\<close>

definition control_verdict ::
  "run_env \<Rightarrow> hook_spec \<Rightarrow> string + hook_control option \<Rightarrow> hook_verdict \<times> string \<times> string \<times> string option \<times> string option" where
  "control_verdict E spec control =
     (case control of
        Inr (Some c) \<Rightarrow>
          (case (hk_kind spec, ct_decision c) of
             (Observe, _) \<Rightarrow> (HV_Observed, ''observe'', ''allowed'', None, None)
           | (_, CD_Allow) \<Rightarrow> (HV_Allow, ''allow'', ''allowed'', None, None)
           | (_, CD_Deny) \<Rightarrow>
               (HV_Deny (case ct_reason c of Some r \<Rightarrow> r | None \<Rightarrow> ''denied by hook''), ''deny'', ''denied'', None, None)
           | (Validate, CD_Rewrite) \<Rightarrow>
               (HV_Deny ''validate hook attempted a rewrite'', ''deny'', ''denied'', None, Some ''validate hook attempted a rewrite'')
           | (Mutate, CD_Rewrite) \<Rightarrow>
               (case ct_rewrite c of
                  Some call \<Rightarrow>
                    if MAX_REWRITE_ARGUMENTS_BYTES < length (tc_arguments_json call) \<or> \<not> re_is_json E (tc_arguments_json call)
                    then (HV_Deny ''malformed rewrite'', ''deny'', ''denied'', None, Some ''malformed rewrite'')
                    else (HV_Rewrite call, ''rewrite'', ''allowed'', Some (call_digest (re_crypto E) call), None)
                | None \<Rightarrow>
                    (HV_Deny ''malformed rewrite: missing rewrite field'', ''deny'', ''denied'', None, Some ''missing rewrite payload'')))
      | Inr None \<Rightarrow>
          (case hk_kind spec of
             Observe \<Rightarrow> (HV_Observed, ''observe'', ''allowed'', None, None)
           | _ \<Rightarrow> (HV_Allow, ''allow'', ''allowed'', None, None))
      | Inl err \<Rightarrow>
          (case hk_kind spec of
             Observe \<Rightarrow> (HV_Observed, ''observe'', ''allowed'', None, Some err)
           | _ \<Rightarrow> (HV_Deny err, ''deny'', ''denied'', None, Some err)))"

definition map_outcome ::
  "run_env \<Rightarrow> string \<Rightarrow> hook_spec \<Rightarrow> hook_payload \<Rightarrow> string \<Rightarrow> string + sandbox_outcome \<Rightarrow> int \<Rightarrow> hook_verdict \<times> dispatch_audit" where
  "map_outcome E row spec payload subject result fallback_ms =
     (let base = audit row payload subject in
      case result of
        Inl err \<Rightarrow>
          (case on_failure spec (''sandbox refused hook execution: '' @ err) of
             (v, effect) \<Rightarrow> (v, base\<lparr> da_verdict := ''deny'', da_applied := effect, da_duration_ms := fallback_ms, da_error := Some err \<rparr>))
      | Inr out \<Rightarrow>
          let ran = base\<lparr> da_exit_status := oc_exit_code out, da_duration_ms := oc_duration_ms out,
                         da_output_bytes := int (length (oc_stdout out) + length (oc_stderr out)) \<rparr> in
          if oc_timed_out out \<or> oc_exit_code out \<noteq> Some 0 then
            (case on_failure spec (failure_message spec out) of
               (v, effect) \<Rightarrow>
                 (v, ran\<lparr> da_verdict := (if hp_failure (hk_policy spec) = FP_Block then ''deny'' else ''warn''),
                          da_applied := effect, da_timed_out := oc_timed_out out \<rparr>))
          else
            (case control_verdict E spec (parse_control (re_control_json E) (oc_stdout out)) of
               (v, verdict, effect, rewrote, err) \<Rightarrow>
                 (v, ran\<lparr> da_verdict := verdict, da_applied := effect, da_rewrote_action := rewrote, da_error := err \<rparr>)))"

definition hook_command :: "hook_spec \<Rightarrow> string \<Rightarrow> bytes \<Rightarrow> sandbox_command" where
  "hook_command spec cwd stdin =
     \<lparr> cm_program = hr_program (hk_runtime spec), cm_args = hr_args (hk_runtime spec), cm_cwd = cwd,
       cm_origin = ''hook:'' @ hk_id spec, cm_stdin = Some stdin, cm_runtime_denies_subprocess = False \<rparr>"

definition run_hook ::
  "run_env \<Rightarrow> string \<Rightarrow> hook_spec \<Rightarrow> hook_payload \<Rightarrow> hook_paths \<Rightarrow> string \<Rightarrow> hook_verdict \<times> dispatch_audit" where
  "run_hook E row spec payload ctx subject =
     (case (case hr_working_directory (hk_runtime spec) of
              Some dir \<Rightarrow> substitute_hook_placeholders (re_home E) ctx dir | None \<Rightarrow> Inr (cx_worktree ctx)) of
        Inl err \<Rightarrow>
          (case on_failure spec (''working directory substitution failed: '' @ err) of
             (v, effect) \<Rightarrow>
               (v, (audit row payload subject)
                     \<lparr> da_verdict := (if hp_failure (hk_policy spec) = FP_Block then ''deny'' else ''warn''),
                       da_applied := effect, da_duration_ms := re_substitution_ms E, da_error := Some err \<rparr>))
      | Inr cwd \<Rightarrow>
          (case re_payload_json E payload of
             Inl err \<Rightarrow>
               (HV_Deny (''failed to serialize hook payload: '' @ err),
                (audit row payload subject)\<lparr> da_verdict := ''deny'', da_applied := ''denied'',
                   da_duration_ms := re_substitution_ms E, da_error := Some err \<rparr>)
           | Inr stdin \<Rightarrow>
               map_outcome E row spec payload subject
                 (re_execute E (profile_for_hook spec ctx)
                    (hook_command spec cwd stdin))
                 (re_refusal_ms E)))"

subsection \<open>Dispatch\<close>

record run_meta =
  rm_session_id :: string
  rm_run_id :: string
  rm_repository :: string
  rm_worktree :: string

record quarantined_hook =
  qh_row_id :: string
  qh_hook_id :: string
  qh_name :: string
  qh_reason :: string

definition quarantine_notice :: "quarantined_hook \<Rightarrow> string" where
  "quarantine_notice q =
     ''hook '' @ [CHR 0x27] @ qh_hook_id q @ [CHR 0x27] @ '' ('' @ qh_row_id q
     @ '') is approved but its stored spec cannot be parsed: '' @ qh_reason q
     @ ''. It was quarantined for this dispatch '' @ [CHR 0xE2, CHR 0x80, CHR 0x94]
     @ '' it did not run and contributed no verdict, while every other hook and the tool call itself proceeded. Re-scan the hook source and re-approve it (`codypendent hook approve ''
     @ qh_hook_id q @ ''`) to put it back in service.''"

text \<open>The rows the query selects, in its order.\<close>

definition selected_rows :: "hook_event \<Rightarrow> run_meta \<Rightarrow> hook_table \<Rightarrow> hook_row list" where
  "selected_rows event meta t =
     sort_key (\<lambda>r. (hrow_priority r, str_key (hrow_id r)))
       (filter (\<lambda>r. hrow_approval_state r = HA_Approved \<and> hrow_approved_content_hash r = Some (hrow_content_hash r)
            \<and> hrow_event r = event \<and> hrow_scope_kind r \<in> {HS_User, HS_Repository}
            \<and> (hrow_scope_kind r = HS_User \<or> hrow_scope_key r = rm_repository meta)) t)"

definition approved_hooks ::
  "run_env \<Rightarrow> hook_event \<Rightarrow> run_meta \<Rightarrow> hook_table \<Rightarrow> (hook_row \<times> hook_spec) list \<times> quarantined_hook list" where
  "approved_hooks E event meta t =
     (let rows = selected_rows event meta t in
      (sort_key (\<lambda>(_, s). (hk_priority s, str_key (hk_id s)))
         (concat (map (\<lambda>r. case re_spec_of_json E (hrow_spec_json r) of Inr s \<Rightarrow> [(r, s)] | Inl _ \<Rightarrow> []) rows)),
       sort_key (\<lambda>q. str_key (qh_row_id q))
         (concat (map (\<lambda>r. case re_spec_of_json E (hrow_spec_json r) of
            Inr _ \<Rightarrow> []
          | Inl err \<Rightarrow> [\<lparr> qh_row_id = hrow_id r, qh_hook_id = hrow_hook_id r, qh_name = hrow_name r, qh_reason = err \<rparr>]) rows))))"

definition quarantine_audit :: "hook_event \<Rightarrow> string \<Rightarrow> run_meta \<Rightarrow> quarantined_hook \<Rightarrow> dispatch_audit" where
  "quarantine_audit event subject meta q =
     \<lparr> da_hook_row_id = qh_row_id q, da_run_id = Some (rm_run_id meta), da_event = hook_event_str event,
       da_subject_digest = subject, da_verdict = ''error'', da_applied = ''quarantined'', da_rewrote_action = None,
       da_exit_status = None, da_timed_out = False, da_duration_ms = 0, da_output_bytes = 0,
       da_error = Some (quarantine_notice q) \<rparr>"

text \<open>
  \<open>Path::parent\<close> of a path made by joining directory entries: no empty and no \<open>.\<close> segment at its end. A bare
  name has an empty parent.
\<close>

definition parent_dir :: "string \<Rightarrow> string" where
  "parent_dir path =
     (let base = join ''/'' (butlast (split_char (CHR ''/'') path)) in
      if base = [] \<and> starts_with ''/'' path then ''/'' else base)"

definition run_dispatched ::
  "run_env \<Rightarrow> run_meta \<Rightarrow> string \<Rightarrow> string \<Rightarrow> string \<Rightarrow> (string \<times> string) option \<Rightarrow> payload_outcome option
    \<Rightarrow> hook_row \<times> hook_spec \<Rightarrow> hook_verdict \<times> dispatch_audit" where
  "run_dispatched E meta event subject triggered_at tool outcome rs =
     (case rs of (r, s) \<Rightarrow>
        run_hook E (hrow_id r) s
          \<lparr> hl_payload_version = 1, hl_event = event, hl_hook_id = hk_id s, hl_session_id = rm_session_id meta,
            hl_run_id = rm_run_id meta, hl_repository = rm_repository meta, hl_worktree = rm_worktree meta,
            hl_triggered_at = triggered_at, hl_tool = tool, hl_outcome = outcome \<rparr>
          \<lparr> cx_repository = rm_repository meta, cx_worktree = rm_worktree meta, cx_hook_dir = parent_dir (hrow_source_path r) \<rparr>
          subject)"


definition dispatch_tool_post ::
  "run_env \<Rightarrow> run_meta \<Rightarrow> string \<Rightarrow> hook_table \<Rightarrow> tool_call \<Rightarrow> payload_outcome \<Rightarrow> dispatch_audit list" where
  "dispatch_tool_post E meta now t call outcome =
     (case approved_hooks E ToolPost meta t of
        (dispatchable, quarantined) \<Rightarrow>
          let subject = call_digest (re_crypto E) call in
          map (quarantine_audit ToolPost subject meta) quarantined
          @ map (\<lambda>rs. snd (run_dispatched E meta ''tool.post'' subject now (Some (tc_name call, tc_arguments_json call))
                              (Some outcome) rs)) dispatchable)"

definition dispatch_run_event ::
  "run_env \<Rightarrow> run_meta \<Rightarrow> string \<Rightarrow> hook_table \<Rightarrow> hook_event \<Rightarrow> dispatch_audit list" where
  "dispatch_run_event E meta now t event =
     (case approved_hooks E event meta t of
        (dispatchable, quarantined) \<Rightarrow>
          map (quarantine_audit event (rm_run_id meta) meta) quarantined
          @ map (\<lambda>rs. snd (run_dispatched E meta (hook_event_str event) (rm_run_id meta) now None None rs)) dispatchable)"

definition report_rewrite :: "string \<Rightarrow> string \<Rightarrow> string \<Rightarrow> dispatch_audit list \<Rightarrow> dispatch_audit list" where
  "report_rewrite run subject effect rows =
     map (\<lambda>a. if da_run_id a = Some run \<and> da_subject_digest a = subject \<and> da_verdict a = ''rewrite''
              then a\<lparr> da_applied := effect \<rparr> else a) rows"

subsection \<open>What a verdict depends on\<close>





text \<open>The rows a dispatch is due to.\<close>

definition dispatch_due :: "hook_event \<Rightarrow> run_meta \<Rightarrow> hook_table \<Rightarrow> hook_row \<Rightarrow> bool" where
  "dispatch_due event meta t r \<longleftrightarrow>
     r \<in> set t \<and> hrow_approval_state r = HA_Approved \<and> hrow_approved_content_hash r = Some (hrow_content_hash r)
     \<and> hrow_event r = event
     \<and> (hrow_scope_kind r = HS_User \<or> hrow_scope_kind r = HS_Repository \<and> hrow_scope_key r = rm_repository meta)"

lemma on_failure_verdict: "fst (on_failure spec reason) = (if hp_failure (hk_policy spec) = FP_Block then HV_Deny reason else HV_Observed)"
  by (simp add: on_failure_def split: failure_policy.splits)

lemma map_outcome_verdict:
  "fst (map_outcome E row spec payload subject result ms) =
     (case result of
        Inl err \<Rightarrow> fst (on_failure spec (''sandbox refused hook execution: '' @ err))
      | Inr out \<Rightarrow>
          if oc_timed_out out \<or> oc_exit_code out \<noteq> Some 0 then fst (on_failure spec (failure_message spec out))
          else fst (control_verdict E spec (parse_control (re_control_json E) (oc_stdout out))))"
  by (simp add: map_outcome_def Let_def split: sum.splits prod.splits)







subsection \<open>Properties\<close>

lemma selected_rows_set: "r \<in> set (selected_rows event meta t) \<longleftrightarrow> dispatch_due event meta t r"
  by (auto simp: selected_rows_def dispatch_due_def)

lemma dispatchable_iff:
  "(r, s) \<in> set (fst (approved_hooks E event meta t)) \<longleftrightarrow>
     dispatch_due event meta t r \<and> re_spec_of_json E (hrow_spec_json r) = Inr s"
  by (auto simp: approved_hooks_def Let_def selected_rows_set split: sum.splits)


text \<open>
  C24: A hook is dispatched as it was reviewed. Whatever scans and whatever approve and reject commands led to the table, the
  specification \<open>s\<close> that is run is the one parsed from the text (\<open>raw\<close>) of a file that a scan of the hook's root read; it is bound to the
  event and belongs to the user or to the repository of the run; and an approve command that named its slug was given when
  the row of the same scope and slug registered exactly that text and that specification. Assumed are that reading back the
  JSON of a specification gives the specification, and that no two different texts among those scanned have one digest. The
  command may have been meant for a hook of another scope with that slug.
\<close>
theorem dispatched_hook_was_reviewed:
  assumes dispatched: "(r, s) \<in> set (fst (approved_hooks E event meta (foldl (hook_step S) [] ops)))"
    and codec: "\<And>spec json. se_spec_json S spec = Inr json \<Longrightarrow> re_spec_of_json E json = Inr spec"
    and digest: "inj_on (content_digest (se_crypto S)) (scanned_texts ops)"
  shows "hk_event s = event \<and> (hrow_scope_kind r = HS_User \<or> hrow_scope_kind r = HS_Repository \<and> hrow_scope_key r = rm_repository meta)
    \<and> (\<exists>raw pre post now ident user. \<exists>r0 \<in> set (foldl (hook_step S) [] pre).
        registers S ops r raw s \<and> ops = pre @ HO_Approve now ident user # post \<and> row_key r0 = row_key r
        \<and> command_names (foldl (hook_step S) [] pre) ident r0 \<and> registers S pre r0 raw s)"
proof -
  have due: "dispatch_due event meta (foldl (hook_step S) [] ops) r" and s: "re_spec_of_json E (hrow_spec_json r) = Inr s"
    using dispatched by (simp_all add: dispatchable_iff)
  then have "r \<in> set (foldl (hook_step S) [] ops)" by (simp add: dispatch_due_def)
  then obtain raw spec where "registers S ops r raw spec" using row_from_file by blast
  moreover from this have "spec = s" using codec[of spec "hrow_spec_json r"] s by (simp add: registers_def)
  ultimately have reg: "registers S ops r raw s" by simp
  have "approved_for (foldl (hook_step S) [] ops) (row_key r) (hrow_content_hash r)"
    using due unfolding dispatch_due_def approved_for_def by blast
  from approval_history[OF this] obtain pre post now ident user r0 where
    r0: "r0 \<in> set (foldl (hook_step S) [] pre)" "ops = pre @ HO_Approve now ident user # post"
      "command_names (foldl (hook_step S) [] pre) ident r0" "row_key r0 = row_key r" "hrow_content_hash r0 = hrow_content_hash r" by blast
  obtain raw0 spec0 where reg0: "registers S pre r0 raw0 spec0" using row_from_file[OF r0(1)] by blast
  have "raw \<in> scanned_texts ops" using reg by (force simp: registers_def scanned_texts_def)
  moreover have "raw0 \<in> scanned_texts ops" using reg0 by (force simp: registers_def scanned_texts_def r0(2))
  moreover have "content_digest (se_crypto S) raw0 = content_digest (se_crypto S) raw"
    using reg reg0 r0(5) by (simp add: registers_def)
  ultimately have "raw0 = raw" using digest by (blast dest: inj_onD)
  moreover from this have "spec0 = s" using reg reg0 r0(4) by (simp add: registers_def row_key_def)
  ultimately have "registers S pre r0 raw s" using reg0 by simp
  moreover have "hk_event s = event" using reg due by (simp add: registers_def dispatch_due_def)
  ultimately show ?thesis using reg r0 due unfolding dispatch_due_def by blast
qed

subsection \<open>Dispatch before a tool call\<close>









subsection \<open>Witnesses and two divergences\<close>

definition clean_exit :: sandbox_outcome where
  "clean_exit = \<lparr> oc_exit_code = Some 0, oc_timed_out = False, oc_duration_ms = 1, oc_stdout = [], oc_stderr = [] \<rparr>"

definition blocking_hook :: "hook_kind \<Rightarrow> hook_spec" where
  "blocking_hook kind =
     (example_hook HS_User ToolPre)
       \<lparr> hk_kind := kind, hk_policy := \<lparr> hp_failure = FP_Block, hp_requires_approval = False, hp_network = HN_Deny \<rparr> \<rparr>"

definition example_run_env :: "sandbox_outcome \<Rightarrow> run_env" where
  "example_run_env out =
     \<lparr> re_crypto = length_crypto, re_home = None, re_control_json = (\<lambda>_. Inl []), re_is_json = (\<lambda>_. True),
       re_payload_json = (\<lambda>_. Inr []), re_spec_of_json = (\<lambda>_. Inr (blocking_hook Validate)),
       re_execute = (\<lambda>_ _. Inr out), re_substitution_ms = 0, re_refusal_ms = 0 \<rparr>"

definition example_meta :: run_meta where
  "example_meta = \<lparr> rm_session_id = ''s'', rm_run_id = ''r'', rm_repository = ''/repo'', rm_worktree = ''/work'' \<rparr>"

definition approved_row :: hook_row where
  "approved_row =
     user_row\<lparr> hrow_approval_state := HA_Approved, hrow_approved_content_hash := Some (hrow_content_hash user_row),
               hrow_approved_by := Some ''me'', hrow_approved_at := Some ''t'', hrow_updated_at := ''t'' \<rparr>"

lemma approved_table:
  "foldl (hook_step example_scan_env) [] [user_scan, HO_Approve ''t'' ''row1'' ''me''] = [approved_row]"
  using example_tables(1)
  by (simp add: approve_command_table get_hook_def approve_hook_def names_hook_def approved_row_def)


definition reading_env :: run_env where
  "reading_env = (example_run_env clean_exit)\<lparr> re_spec_of_json :=
     (\<lambda>j. Inr (example_hook (if j = ''user'' then HS_User else HS_Repository) ToolPre)) \<rparr>"

theorem dispatched_hook_was_reviewed_witness:
  "\<exists>raw pre post now ident user. \<exists>r0 \<in> set (foldl (hook_step example_scan_env) [] pre).
     [user_scan, HO_Approve ''t'' ''row1'' ''me''] = pre @ HO_Approve now ident user # post
     \<and> row_key r0 = row_key approved_row \<and> registers example_scan_env pre r0 raw (example_hook HS_User ToolPre)"
proof -
  let ?ops = "[user_scan, HO_Approve ''t'' ''row1'' ''me'']"
  have "hrow_event user_row = ToolPre" "hrow_spec_json user_row = ''user''" by (simp_all add: user_row_def sample_row_def)
  then have d: "(approved_row, example_hook HS_User ToolPre) \<in> set (fst (approved_hooks reading_env ToolPre example_meta
      (foldl (hook_step example_scan_env) [] ?ops)))"
    unfolding approved_table dispatchable_iff dispatch_due_def by (simp add: approved_row_def reading_env_def)
  have codec: "re_spec_of_json reading_env json = Inr spec" if "se_spec_json example_scan_env spec = Inr json" for spec json
    using that by (auto simp: reading_env_def example_scan_env_def split: if_splits)
  have "inj_on (content_digest (se_crypto example_scan_env)) (scanned_texts ?ops)"
    by (simp add: scanned_texts_def user_scan_def)
  from dispatched_hook_was_reviewed[OF d codec this] show ?thesis by blast
qed

lemma blocking_hook_fields [simp]:
  "hp_failure (hk_policy (blocking_hook kind)) = FP_Block" "hk_kind (blocking_hook kind) = kind"
  "hr_working_directory (hk_runtime (blocking_hook kind)) = None"
  by (simp_all add: blocking_hook_def example_hook_def)




text \<open>
  A hook that only observes can refuse a call: it may declare \<open>failure = "block"\<close>, and its non-zero exit
  then denies.
\<close>

lemma observe_hook_can_deny:
  assumes "oc_exit_code out = Some 1" and "\<not> oc_timed_out out"
  shows "validate_hook HS_User (blocking_hook Observe) = Inr (blocking_hook Observe)
    \<and> (\<exists>reason. fst (run_hook (example_run_env out) row (blocking_hook Observe) payload ctx subject) = HV_Deny reason)"
proof
  have "trim ''lint'' \<noteq> []" "trim ''/bin/sh'' \<noteq> []" by code_simp+
  then show "validate_hook HS_User (blocking_hook Observe) = Inr (blocking_hook Observe)"
    by (simp add: validate_hook_def blocking_hook_def example_hook_def is_high_risk_def is_preventable_def)
  have "fst (run_hook (example_run_env out) row (blocking_hook Observe) payload ctx subject)
      = fst (map_outcome (example_run_env out) row (blocking_hook Observe) payload subject (Inr out) 0)"
    unfolding run_hook_def by (simp add: example_run_env_def)
  then show "\<exists>reason. fst (run_hook (example_run_env out) row (blocking_hook Observe) payload ctx subject) = HV_Deny reason"
    unfolding map_outcome_verdict using assms by (simp add: on_failure_verdict)
qed

text \<open>A bare dollar sign passes the check at load and is refused when the hook runs.\<close>

lemma bare_dollar_unresolvable:
  "unknown_placeholder ''/$/x'' = None" "substitute_hook_placeholders home ctx ''/$/x'' = Inl ''unknown placeholder $''"
  by (simp_all add: HOOK_PLACEHOLDERS_def placeholder_char_def res_map_def)

end
