(* ===== verification/Policy_Config.thy ===== *)
theory Policy_Config
  imports Sandbox_Gate "HOL-Library.Sublist"
begin

text \<open>
  Policy files and their layered merge (\<open>crates/daemon/src/policy/config.rs\<close>): dispositions, the merged policy, the
  two overlays (the user's own file, which may widen, and a repository's file, which may only narrow) and the
  lexical treatment of root strings. The TOML reader and the file system are parameters of \<open>load_layer\<close>.
\<close>

subsection \<open>Dispositions\<close>

datatype approval_action = AA_Allow | AA_Approval | AA_AlwaysApproval | AA_Deny

fun aa_rank :: "approval_action \<Rightarrow> nat" where
  "aa_rank AA_Allow = 0"
| "aa_rank AA_Approval = 1"
| "aa_rank AA_AlwaysApproval = 2"
| "aa_rank AA_Deny = 3"

definition more_restrictive :: "approval_action \<Rightarrow> approval_action \<Rightarrow> approval_action" where
  "more_restrictive a b = (if aa_rank b \<le> aa_rank a then a else b)"

lemma aa_rank_inj: "aa_rank a = aa_rank b \<longleftrightarrow> a = b"
  by (cases a; cases b) simp_all

instantiation approval_action :: linorder
begin

definition less_eq_approval_action :: "approval_action \<Rightarrow> approval_action \<Rightarrow> bool" where
  "a \<le> b \<longleftrightarrow> aa_rank a \<le> aa_rank b"

definition less_approval_action :: "approval_action \<Rightarrow> approval_action \<Rightarrow> bool" where
  "a < b \<longleftrightarrow> aa_rank a < aa_rank b"

instance
  by standard (auto simp: less_eq_approval_action_def less_approval_action_def aa_rank_inj)

end

lemma more_restrictive_max: "more_restrictive a b = max a b"
  by (auto simp: more_restrictive_def max_def less_eq_approval_action_def aa_rank_inj)

datatype network_default = ND_Allow | ND_Deny

subsection \<open>Root strings\<close>

definition ROOT_ANCHORS :: "string list" where
  "ROOT_ANCHORS = [''$REPOSITORY'', ''$WORKTREE'', ''$HOME'']"

text \<open>The loop of \<open>normalize_raw\<close>: \<open>None\<close> when \<open>..\<close> would pop the anchor.\<close>

fun collapse :: "string list \<Rightarrow> string list \<Rightarrow> string list option" where
  "collapse [] stack = Some stack"
| "collapse (s # ss) stack =
     (if s = ''.'' then collapse ss stack
      else if s = ''..'' then (if stack = [] then None else collapse ss (butlast stack))
      else collapse ss (stack @ [s]))"

definition render_root :: "string \<Rightarrow> string list \<Rightarrow> string" where
  "render_root anchor stack = anchor @ concat (map (\<lambda>s. CHR ''/'' # s) stack)"

definition normalize_raw :: "string \<Rightarrow> string option" where
  "normalize_raw raw =
     (case filter (\<lambda>s. s \<noteq> []) (split_char (CHR ''/'') raw) of
        [] \<Rightarrow> None
      | anchor # segments \<Rightarrow>
          if anchor \<notin> set ROOT_ANCHORS then None
          else map_option (render_root anchor) (collapse segments []))"

definition raw_within :: "string \<Rightarrow> string \<Rightarrow> bool" where
  "raw_within inner outer =
     (case (normalize_raw inner, normalize_raw outer) of
        (Some i, Some out) \<Rightarrow>
          path_components i = path_components out \<or> prefix (path_components out) (path_components i)
      | _ \<Rightarrow> False)"

definition push_new :: "'a \<Rightarrow> 'a list \<Rightarrow> 'a list" where
  "push_new x xs = (if x \<in> set xs then xs else xs @ [x])"

definition kept_root :: "string \<Rightarrow> string \<Rightarrow> string option" where
  "kept_root narrow broad =
     (if raw_within narrow broad then Some narrow else if raw_within broad narrow then Some broad else None)"

definition intersect_roots :: "string list \<Rightarrow> string list \<Rightarrow> string list" where
  "intersect_roots base overlay =
     fold (\<lambda>narrow. fold (\<lambda>broad out. case kept_root narrow broad of None \<Rightarrow> out | Some r \<Rightarrow> push_new r out)
                     (List.map_filter normalize_raw base))
       (List.map_filter normalize_raw overlay) []"

definition intersect_exact :: "string list \<Rightarrow> string list \<Rightarrow> string list" where
  "intersect_exact base overlay = filter (\<lambda>x. list_ex (\<lambda>y. y = x) overlay) base"

definition union_roots :: "string list \<Rightarrow> string list \<Rightarrow> string list" where
  "union_roots base overlay =
     fold (\<lambda>candidate out.
             case normalize_raw candidate of
               None \<Rightarrow> out
             | Some c \<Rightarrow> if list_ex (\<lambda>existing. raw_within c existing) out then out else out @ [c])
       overlay (List.map_filter normalize_raw base)"

definition union_in_place :: "string list \<Rightarrow> string list \<Rightarrow> string list" where
  "union_in_place base extra = fold push_new extra base"

subsection \<open>Policies and policy files\<close>

record merged_policy =
  mp_schema_version :: "32 word"
  mp_fs_read :: "string list"
  mp_fs_write :: "string list"
  mp_fs_deny :: "string list"
  mp_shell_allowed_programs :: "string list"
  mp_shell_interpreter_requires_approval :: bool
  mp_shell_maximum_seconds :: u64
  mp_network_allow :: "string list"
  mp_network_default :: network_default
  mp_git_commit :: approval_action
  mp_git_push :: approval_action
  mp_git_force_push :: approval_action
  mp_git_delete_branch :: approval_action
  mp_mcp_default :: approval_action
  mp_mcp_servers :: "approval_action btree"

definition builtin_defaults :: merged_policy where
  "builtin_defaults =
     \<lparr> mp_schema_version = 1, mp_fs_read = [''$REPOSITORY''], mp_fs_write = [''$WORKTREE''],
       mp_fs_deny = [''$REPOSITORY/.git'', ''$WORKTREE/.git'', ''$HOME/.ssh'', ''$HOME/.config''],
       mp_shell_allowed_programs =
         [''cargo'', ''git'', ''rg'', ''rustfmt'', ''ls'', ''cat'', ''head'', ''tail'', ''wc'', ''grep'', ''tree'',
          ''pwd'', ''file'', ''which'', ''sort'', ''uniq''],
       mp_shell_interpreter_requires_approval = True, mp_shell_maximum_seconds = 900, mp_network_allow = [],
       mp_network_default = ND_Deny, mp_git_commit = AA_Approval, mp_git_push = AA_Approval,
       mp_git_force_push = AA_Deny, mp_git_delete_branch = AA_AlwaysApproval, mp_mcp_default = AA_Approval,
       mp_mcp_servers = [] \<rparr>"

record raw_scope =
  rs_kind :: "string option"

record raw_data =
  rd_classification :: "string option"
  rd_remote_models_allowed :: "string list option"
  rd_local_models_allowed :: "bool option"

record raw_filesystem =
  rf_read :: "string list option"
  rf_write :: "string list option"
  rf_deny :: "string list option"

record raw_shell =
  rsh_allowed_programs :: "string list option"
  rsh_interpreter_requires_approval :: "bool option"
  rsh_maximum_seconds :: "u64 option"

record raw_network =
  rn_allow :: "string list option"
  rn_default :: "network_default option"

record raw_git =
  rg_commit :: "approval_action option"
  rg_push :: "approval_action option"
  rg_force_push :: "approval_action option"
  rg_delete_branch :: "approval_action option"

record raw_mcp =
  rm_default :: "approval_action option"
  rm_servers :: "approval_action btree option"

record raw_plugins =
  rpl_unsigned :: "approval_action option"
  rpl_native_process :: "approval_action option"
  rpl_permission_expansion :: "approval_action option"

record raw_memory =
  rmem_cross_repository :: "bool option"
  rmem_retain_days :: "int option"
  rmem_secrets :: "string option"

record raw_policy =
  rp_schema_version :: "32 word option"
  rp_scope :: "raw_scope option"
  rp_data :: "raw_data option"
  rp_filesystem :: "raw_filesystem option"
  rp_shell :: "raw_shell option"
  rp_network :: "raw_network option"
  rp_git :: "raw_git option"
  rp_mcp :: "raw_mcp option"
  rp_plugins :: "raw_plugins option"
  rp_memory :: "raw_memory option"

text \<open>\<open>if let Some(x) = ...\<close>: an optional field touches the policy only when it is set.\<close>

definition when_set :: "('x \<Rightarrow> 'm \<Rightarrow> 'm) \<Rightarrow> 'x option \<Rightarrow> 'm \<Rightarrow> 'm" where
  "when_set f x m = (case x of None \<Rightarrow> m | Some v \<Rightarrow> f v m)"

definition mcp_effective :: "merged_policy \<Rightarrow> string \<Rightarrow> approval_action" where
  "mcp_effective m server = (case map_of (mp_mcp_servers m) server of Some a \<Rightarrow> a | None \<Rightarrow> mp_mcp_default m)"

subsection \<open>The untrusted overlay\<close>

definition narrow_filesystem :: "raw_filesystem \<Rightarrow> merged_policy \<Rightarrow> merged_policy" where
  "narrow_filesystem fs m =
     when_set (\<lambda>d m. m\<lparr> mp_fs_deny := union_in_place (mp_fs_deny m) d \<rparr>) (rf_deny fs)
       (when_set (\<lambda>w m. m\<lparr> mp_fs_write := intersect_roots (mp_fs_write m) w \<rparr>) (rf_write fs)
         (when_set (\<lambda>r m. m\<lparr> mp_fs_read := intersect_roots (mp_fs_read m) r \<rparr>) (rf_read fs) m))"

definition narrow_shell :: "raw_shell \<Rightarrow> merged_policy \<Rightarrow> merged_policy" where
  "narrow_shell sh m =
     when_set (\<lambda>s m. m\<lparr> mp_shell_maximum_seconds := min (mp_shell_maximum_seconds m) s \<rparr>) (rsh_maximum_seconds sh)
       (when_set (\<lambda>q m. m\<lparr> mp_shell_interpreter_requires_approval := mp_shell_interpreter_requires_approval m \<or> q \<rparr>)
          (rsh_interpreter_requires_approval sh)
         (when_set (\<lambda>p m. m\<lparr> mp_shell_allowed_programs := intersect_exact (mp_shell_allowed_programs m) p \<rparr>)
            (rsh_allowed_programs sh) m))"

definition narrow_network :: "raw_network \<Rightarrow> merged_policy \<Rightarrow> merged_policy" where
  "narrow_network n m =
     when_set (\<lambda>d m. if d = ND_Deny then m\<lparr> mp_network_default := ND_Deny \<rparr> else m) (rn_default n)
       (when_set (\<lambda>a m. m\<lparr> mp_network_allow := intersect_exact (mp_network_allow m) a \<rparr>) (rn_allow n) m)"

definition narrow_git :: "raw_git \<Rightarrow> merged_policy \<Rightarrow> merged_policy" where
  "narrow_git g m =
     when_set (\<lambda>a m. m\<lparr> mp_git_delete_branch := more_restrictive (mp_git_delete_branch m) a \<rparr>) (rg_delete_branch g)
       (when_set (\<lambda>a m. m\<lparr> mp_git_force_push := more_restrictive (mp_git_force_push m) a \<rparr>) (rg_force_push g)
         (when_set (\<lambda>a m. m\<lparr> mp_git_push := more_restrictive (mp_git_push m) a \<rparr>) (rg_push g)
           (when_set (\<lambda>a m. m\<lparr> mp_git_commit := more_restrictive (mp_git_commit m) a \<rparr>) (rg_commit g) m)))"

definition narrow_server :: "string \<times> approval_action \<Rightarrow> merged_policy \<Rightarrow> merged_policy" where
  "narrow_server = (\<lambda>(name, action) m.
     m\<lparr> mp_mcp_servers := bt_insert name (more_restrictive (mcp_effective m name) action) (mp_mcp_servers m) \<rparr>)"

definition narrow_mcp :: "raw_mcp \<Rightarrow> merged_policy \<Rightarrow> merged_policy" where
  "narrow_mcp r m =
     when_set (fold narrow_server) (rm_servers r)
       (when_set (\<lambda>d m. m\<lparr> mp_mcp_default := more_restrictive (mp_mcp_default m) d \<rparr>) (rm_default r) m)"

definition apply_untrusted_overlay :: "raw_policy \<Rightarrow> merged_policy \<Rightarrow> merged_policy" where
  "apply_untrusted_overlay r m =
     when_set narrow_mcp (rp_mcp r)
       (when_set narrow_git (rp_git r)
         (when_set narrow_network (rp_network r)
           (when_set narrow_shell (rp_shell r)
             (when_set narrow_filesystem (rp_filesystem r)
               (when_set (\<lambda>v m. m\<lparr> mp_schema_version := v \<rparr>) (rp_schema_version r) m)))))"

subsection \<open>The trusted overlay\<close>

definition widen_filesystem :: "raw_filesystem \<Rightarrow> merged_policy \<Rightarrow> merged_policy" where
  "widen_filesystem fs m =
     when_set (\<lambda>d m. m\<lparr> mp_fs_deny := union_in_place (mp_fs_deny m) d \<rparr>) (rf_deny fs)
       (when_set (\<lambda>w m. m\<lparr> mp_fs_write := intersect_roots (mp_fs_write m) w \<rparr>) (rf_write fs)
         (when_set (\<lambda>r m. m\<lparr> mp_fs_read := union_roots (mp_fs_read m) r \<rparr>) (rf_read fs) m))"

definition widen_shell :: "raw_shell \<Rightarrow> merged_policy \<Rightarrow> merged_policy" where
  "widen_shell sh m =
     when_set (\<lambda>s m. m\<lparr> mp_shell_maximum_seconds := s \<rparr>) (rsh_maximum_seconds sh)
       (when_set (\<lambda>q m. m\<lparr> mp_shell_interpreter_requires_approval := q \<rparr>) (rsh_interpreter_requires_approval sh)
         (when_set (\<lambda>p m. m\<lparr> mp_shell_allowed_programs := union_in_place (mp_shell_allowed_programs m) p \<rparr>)
            (rsh_allowed_programs sh) m))"

definition widen_network :: "raw_network \<Rightarrow> merged_policy \<Rightarrow> merged_policy" where
  "widen_network n m =
     when_set (\<lambda>d m. m\<lparr> mp_network_default := d \<rparr>) (rn_default n)
       (when_set (\<lambda>a m. m\<lparr> mp_network_allow := union_in_place (mp_network_allow m) a \<rparr>) (rn_allow n) m)"

definition replace_git :: "raw_git \<Rightarrow> merged_policy \<Rightarrow> merged_policy" where
  "replace_git g m =
     when_set (\<lambda>a m. m\<lparr> mp_git_delete_branch := a \<rparr>) (rg_delete_branch g)
       (when_set (\<lambda>a m. m\<lparr> mp_git_force_push := a \<rparr>) (rg_force_push g)
         (when_set (\<lambda>a m. m\<lparr> mp_git_push := a \<rparr>) (rg_push g)
           (when_set (\<lambda>a m. m\<lparr> mp_git_commit := a \<rparr>) (rg_commit g) m)))"

definition replace_mcp :: "raw_mcp \<Rightarrow> merged_policy \<Rightarrow> merged_policy" where
  "replace_mcp r m =
     when_set (\<lambda>servers m. m\<lparr> mp_mcp_servers := fold (\<lambda>(k, v). bt_insert k v) servers (mp_mcp_servers m) \<rparr>)
       (rm_servers r)
       (when_set (\<lambda>d m. m\<lparr> mp_mcp_default := d \<rparr>) (rm_default r) m)"

definition apply_trusted_overlay :: "raw_policy \<Rightarrow> merged_policy \<Rightarrow> merged_policy" where
  "apply_trusted_overlay r m =
     when_set replace_mcp (rp_mcp r)
       (when_set replace_git (rp_git r)
         (when_set widen_network (rp_network r)
           (when_set widen_shell (rp_shell r)
             (when_set widen_filesystem (rp_filesystem r)
               (when_set (\<lambda>v m. m\<lparr> mp_schema_version := v \<rparr>) (rp_schema_version r) m)))))"

subsection \<open>Loading a layer\<close>

datatype read_error = RE_NotFound | RE_Other string

datatype policy_load_error = PLE_Read string string | PLE_Parse string string

definition load_layer ::
  "(string \<Rightarrow> read_error + string) \<Rightarrow> (string \<Rightarrow> string + raw_policy) \<Rightarrow> string \<Rightarrow> policy_load_error + raw_policy option" where
  "load_layer read_to_string toml path =
     (case read_to_string path of
        Inl RE_NotFound \<Rightarrow> Inr None
      | Inl (RE_Other e) \<Rightarrow> Inl (PLE_Read path e)
      | Inr contents \<Rightarrow>
          (case toml contents of Inl e \<Rightarrow> Inl (PLE_Parse path e) | Inr raw \<Rightarrow> Inr (Some raw)))"

subsection \<open>Regions of root strings\<close>

text \<open>
  What a root string denotes: its anchor and the segments below it. A list of roots covers the strings that
  lie within one of them.
\<close>

definition root_parts :: "string \<Rightarrow> (string \<times> string list) option" where
  "root_parts raw =
     (case filter (\<lambda>s. s \<noteq> []) (split_char (CHR ''/'') raw) of
        [] \<Rightarrow> None
      | anchor # segments \<Rightarrow>
          if anchor \<notin> set ROOT_ANCHORS then None else map_option (Pair anchor) (collapse segments []))"

definition covers :: "string list \<Rightarrow> string \<Rightarrow> bool" where
  "covers roots path \<longleftrightarrow> list_ex (raw_within path) roots"

definition plain_segment :: "string \<Rightarrow> bool" where
  "plain_segment s \<longleftrightarrow> s \<noteq> [] \<and> s \<noteq> ''.'' \<and> s \<noteq> ''..'' \<and> CHR ''/'' \<notin> set s"

lemma split_char_pieces: "p \<in> set (split_char c s) \<Longrightarrow> c \<notin> set p"
proof (induction s arbitrary: p)
  case (Cons x s)
  then show ?case by (cases "split_char c s") (auto split: if_splits)
qed simp

lemma split_char_single: "c \<notin> set s \<Longrightarrow> split_char c s = [s]"
  by (induction s) auto

lemma split_render:
  assumes "CHR ''/'' \<notin> set a" "list_all (\<lambda>s. CHR ''/'' \<notin> set s) st"
  shows "split_char (CHR ''/'') (render_root a st) = a # st"
  using assms
proof (induction st arbitrary: a)
  case (Cons s st)
  have "render_root a (s # st) = a @ CHR ''/'' # render_root s st" by (simp add: render_root_def)
  with Cons show ?case by (simp add: split_char_append split_char_single)
qed (simp add: render_root_def split_char_single)

lemma collapse_plain:
  assumes "collapse ss st = Some r" "list_all (\<lambda>s. s \<noteq> [] \<and> CHR ''/'' \<notin> set s) ss" "list_all plain_segment st"
  shows "list_all plain_segment r"
  using assms
proof (induction ss st rule: collapse.induct)
  case (2 s ss st)
  have pop: "list_all plain_segment st \<Longrightarrow> list_all plain_segment (butlast st)"
    by (auto simp: list_all_iff dest: in_set_butlastD)
  consider "s = ''.''" | "s = ''..''" | "s \<noteq> ''.''" "s \<noteq> ''..''" by blast
  then show ?case
  proof cases
    case 1
    then show ?thesis using 2 by simp
  next
    case c: 2
    then show ?thesis using "2.prems" "2.IH"(2) pop by (simp split: if_splits)
  next
    case 3
    then have "plain_segment s" using "2.prems"(2) by (simp add: plain_segment_def)
    with 3 show ?thesis using "2.prems" "2.IH"(3) by simp
  qed
qed simp

lemma collapse_id: "list_all plain_segment ss \<Longrightarrow> collapse ss st = Some (st @ ss)"
  by (induction ss arbitrary: st) (auto simp: plain_segment_def)

lemma normalize_parts: "normalize_raw raw = map_option (\<lambda>(a, st). render_root a st) (root_parts raw)"
  by (auto simp: normalize_raw_def root_parts_def option.map_comp comp_def split: list.splits)

lemma anchors_plain: "a \<in> set ROOT_ANCHORS \<Longrightarrow> plain_segment a"
  by (auto simp: ROOT_ANCHORS_def plain_segment_def)

lemma root_parts_plain: "root_parts raw = Some (a, st) \<Longrightarrow> a \<in> set ROOT_ANCHORS \<and> list_all plain_segment st"
proof -
  assume parts: "root_parts raw = Some (a, st)"
  then obtain ss where segs: "filter (\<lambda>s. s \<noteq> []) (split_char (CHR ''/'') raw) = a # ss"
    and a: "a \<in> set ROOT_ANCHORS" and st: "collapse ss [] = Some st"
    by (auto simp: root_parts_def split: list.splits if_splits)
  have "list_all (\<lambda>s. s \<noteq> [] \<and> CHR ''/'' \<notin> set s) ss"
  proof (unfold list_all_iff, intro ballI)
    fix s assume "s \<in> set ss"
    then have "s \<in> set (filter (\<lambda>s. s \<noteq> []) (split_char (CHR ''/'') raw))" unfolding segs by simp
    then show "s \<noteq> [] \<and> CHR ''/'' \<notin> set s" using split_char_pieces by auto
  qed
  from collapse_plain[OF st this] a show ?thesis by simp
qed

lemma root_parts_render:
  assumes "a \<in> set ROOT_ANCHORS" "list_all plain_segment st"
  shows "root_parts (render_root a st) = Some (a, st)"
proof -
  have "split_char (CHR ''/'') (render_root a st) = a # st"
    using assms anchors_plain[OF assms(1)] by (intro split_render) (auto simp: plain_segment_def list_all_iff)
  moreover have "filter (\<lambda>s. s \<noteq> []) (a # st) = a # st"
    using assms anchors_plain[OF assms(1)] by (auto simp: plain_segment_def list_all_iff filter_id_conv)
  ultimately show ?thesis using assms by (simp add: root_parts_def collapse_id)
qed

lemma root_parts_normalize: "normalize_raw raw = Some n \<Longrightarrow> root_parts n = root_parts raw"
  by (auto simp: normalize_parts root_parts_plain root_parts_render)

lemma normalize_raw_idem: "normalize_raw raw = Some n \<Longrightarrow> normalize_raw n = Some n"
  using root_parts_normalize[of raw n] by (simp add: normalize_parts)

lemma components_render:
  assumes "a \<in> set ROOT_ANCHORS" "list_all plain_segment st"
  shows "path_components (render_root a st) = map Normal (a # st)"
proof -
  have parts: "split_char (CHR ''/'') (render_root a st) = a # st"
    using assms anchors_plain[OF assms(1)] by (intro split_render) (auto simp: plain_segment_def list_all_iff)
  have keep: "filter (\<lambda>p. p \<noteq> [] \<and> p \<noteq> ''.'') (a # st) = a # st"
    using assms anchors_plain[OF assms(1)] by (auto simp: plain_segment_def list_all_iff filter_id_conv)
  have "\<not> starts_with ''/'' (render_root a st)" "a \<noteq> ''.''"
    using assms(1) by (auto simp: ROOT_ANCHORS_def render_root_def starts_with_def)
  with parts keep show ?thesis
    using assms anchors_plain[OF assms(1)] by (auto simp: path_components_def plain_segment_def list_all_iff simp del: filter.simps)
qed

lemma raw_within_parts:
  "raw_within i out \<longleftrightarrow> (\<exists>a si so. root_parts i = Some (a, si) \<and> root_parts out = Some (a, so) \<and> prefix so si)"
proof (cases "root_parts i"; cases "root_parts out")
  fix p q assume pq: "root_parts i = Some p" "root_parts out = Some q"
  obtain a si b so where eq: "p = (a, si)" "q = (b, so)" by (cases p; cases q)
  note plain = root_parts_plain[OF pq(1)[unfolded eq]] root_parts_plain[OF pq(2)[unfolded eq]]
  have "path_components (render_root a si) = map Normal (a # si)" "path_components (render_root b so) = map Normal (b # so)"
    using plain components_render by blast+
  then have "raw_within i out \<longleftrightarrow> prefix (map Normal (b # so)) (map Normal (a # si))"
    using pq by (auto simp: raw_within_def normalize_parts eq)
  also have "\<dots> \<longleftrightarrow> prefix (b # so) (a # si)"
    by (auto simp: prefix_def map_eq_append_conv inj_def dest!: map_injective intro: exI)
  finally show ?thesis using pq eq by auto
qed (auto simp: raw_within_def normalize_parts)

lemma raw_within_trans: "raw_within a b \<Longrightarrow> raw_within b c \<Longrightarrow> raw_within a c"
  by (fastforce simp: raw_within_parts intro: prefix_order.trans)

lemma raw_within_linear: "raw_within p a \<Longrightarrow> raw_within p b \<Longrightarrow> raw_within a b \<or> raw_within b a"
  by (auto simp: raw_within_parts dest: prefix_same_cases)

lemma raw_within_self: "normalize_raw n = Some n \<Longrightarrow> raw_within n n"
  by (auto simp: raw_within_parts normalize_parts)

lemma raw_within_normalized:
  "normalize_raw r = Some n \<Longrightarrow> raw_within p n \<longleftrightarrow> raw_within p r"
  "normalize_raw r = Some n \<Longrightarrow> raw_within n p \<longleftrightarrow> raw_within r p"
  by (simp_all add: raw_within_parts root_parts_normalize)

lemma raw_within_defined: "raw_within a b \<Longrightarrow> \<exists>n. normalize_raw b = Some n"
  by (auto simp: raw_within_parts normalize_parts)

lemma covers_iff: "covers roots p \<longleftrightarrow> (\<exists>r \<in> set roots. raw_within p r)"
  by (simp add: covers_def list_ex_iff)

lemma set_map_filter: "set (List.map_filter f xs) = {y. \<exists>x \<in> set xs. f x = Some y}"
  by (force simp: List.map_filter_def)

lemma covers_normalized: "covers (List.map_filter normalize_raw roots) p \<longleftrightarrow> covers roots p"
  unfolding covers_iff set_map_filter using raw_within_normalized(1) raw_within_defined by blast

lemma set_push_new [simp]: "set (push_new x xs) = insert x (set xs)"
  by (auto simp: push_new_def)

lemma prefix_fold_push_new: "prefix xs (fold push_new ys xs)"
proof (induction ys arbitrary: xs)
  case (Cons y ys)
  have "prefix xs (push_new y xs)" by (simp add: push_new_def)
  then show ?case using Cons[of "push_new y xs"] by (auto intro: prefix_order.trans)
qed simp

lemma set_fold_push_new: "set (fold push_new ys xs) = set ys \<union> set xs"
  by (induction ys arbitrary: xs) auto

lemma set_fold_kept:
  "set (fold (\<lambda>b out. case kept_root n b of None \<Rightarrow> out | Some r \<Rightarrow> push_new r out) bs out)
     = set out \<union> {r. \<exists>b \<in> set bs. kept_root n b = Some r}"
  by (induction bs arbitrary: out) (auto split: option.splits)

lemma set_fold_intersect:
  "set (fold (\<lambda>n. fold (\<lambda>b out. case kept_root n b of None \<Rightarrow> out | Some r \<Rightarrow> push_new r out) bs) ns out)
     = set out \<union> {r. \<exists>n \<in> set ns. \<exists>b \<in> set bs. kept_root n b = Some r}"
  by (induction ns arbitrary: out) (auto simp: set_fold_kept)

lemma set_intersect_roots:
  "set (intersect_roots base overlay) =
     {r. \<exists>n \<in> set (List.map_filter normalize_raw overlay). \<exists>b \<in> set (List.map_filter normalize_raw base). kept_root n b = Some r}"
  by (simp add: intersect_roots_def set_fold_intersect)

lemma kept_root_cases:
  "kept_root n b = Some r \<Longrightarrow> normalize_raw n = Some n \<Longrightarrow> normalize_raw b = Some b \<Longrightarrow>
    raw_within r n \<and> raw_within r b \<and> normalize_raw r = Some r"
  by (auto simp: kept_root_def raw_within_self split: if_splits)

lemma map_filter_normalized: "n \<in> set (List.map_filter normalize_raw rs) \<Longrightarrow> normalize_raw n = Some n"
  by (auto simp: set_map_filter dest: normalize_raw_idem)

lemma covers_intersect: "covers (intersect_roots base overlay) p \<longleftrightarrow> covers base p \<and> covers overlay p"
proof
  assume "covers (intersect_roots base overlay) p"
  then obtain r n b where r: "raw_within p r" and n: "n \<in> set (List.map_filter normalize_raw overlay)"
    and b: "b \<in> set (List.map_filter normalize_raw base)" and k: "kept_root n b = Some r"
    unfolding covers_iff set_intersect_roots by blast
  then have "raw_within p n" "raw_within p b"
    using kept_root_cases[OF k] map_filter_normalized raw_within_trans by blast+
  then show "covers base p \<and> covers overlay p"
    using n b covers_normalized[of base p] covers_normalized[of overlay p] unfolding covers_iff by blast
next
  assume "covers base p \<and> covers overlay p"
  then obtain n b where n: "n \<in> set (List.map_filter normalize_raw overlay)" "raw_within p n"
    and b: "b \<in> set (List.map_filter normalize_raw base)" "raw_within p b"
    using covers_normalized[of base p] covers_normalized[of overlay p] unfolding covers_iff by blast
  have "raw_within n b \<or> raw_within b n" using raw_within_linear n(2) b(2) by blast
  then obtain r where "kept_root n b = Some r" "r = n \<or> r = b"
    unfolding kept_root_def by (cases "raw_within n b") auto
  with n b show "covers (intersect_roots base overlay) p"
    unfolding covers_iff set_intersect_roots by blast
qed

lemma union_loop:
  "covers (fold (\<lambda>candidate out.
             case normalize_raw candidate of
               None \<Rightarrow> out
             | Some c \<Rightarrow> if list_ex (\<lambda>existing. raw_within c existing) out then out else out @ [c]) cs out) p
     \<longleftrightarrow> covers out p \<or> covers cs p"
proof (induction cs arbitrary: out)
  case (Cons c cs)
  show ?case
  proof (cases "normalize_raw c")
    case None
    then have "\<not> raw_within p c" by (auto dest: raw_within_defined)
    with None show ?thesis using Cons by (simp add: covers_iff)
  next
    case (Some n)
    show ?thesis
    proof (cases "list_ex (raw_within n) out")
      case True
      then have "raw_within p c \<Longrightarrow> covers out p"
        using raw_within_normalized(1)[OF Some] raw_within_trans by (fastforce simp: covers_iff list_ex_iff)
      with Some True show ?thesis using Cons[of out] by (auto simp: covers_iff)
    next
      case False
      with Some show ?thesis using Cons[of "out @ [n]"] raw_within_normalized(1)[OF Some] by (auto simp: covers_iff)
    qed
  qed
qed (simp add: covers_def)

lemma covers_union: "covers (union_roots base overlay) p \<longleftrightarrow> covers base p \<or> covers overlay p"
  unfolding union_roots_def union_loop covers_normalized ..

subsection \<open>Narrower policies\<close>

definition roots_within :: "string list \<Rightarrow> string list \<Rightarrow> bool" where
  "roots_within rs' rs \<longleftrightarrow> (\<forall>r' \<in> set rs'. r' \<in> set rs \<or> (\<exists>r \<in> set rs. raw_within r' r))"

text \<open>\<open>m'\<close> permits nothing that \<open>m\<close> does not.\<close>

definition narrower :: "merged_policy \<Rightarrow> merged_policy \<Rightarrow> bool" where
  "narrower m' m \<longleftrightarrow>
     roots_within (mp_fs_read m') (mp_fs_read m) \<and> roots_within (mp_fs_write m') (mp_fs_write m)
     \<and> prefix (mp_fs_deny m) (mp_fs_deny m')
     \<and> set (mp_shell_allowed_programs m') \<subseteq> set (mp_shell_allowed_programs m)
     \<and> (mp_shell_interpreter_requires_approval m \<longrightarrow> mp_shell_interpreter_requires_approval m')
     \<and> mp_shell_maximum_seconds m' \<le> mp_shell_maximum_seconds m
     \<and> set (mp_network_allow m') \<subseteq> set (mp_network_allow m)
     \<and> (mp_network_default m = ND_Deny \<longrightarrow> mp_network_default m' = ND_Deny)
     \<and> mp_git_commit m \<le> mp_git_commit m' \<and> mp_git_push m \<le> mp_git_push m'
     \<and> mp_git_force_push m \<le> mp_git_force_push m' \<and> mp_git_delete_branch m \<le> mp_git_delete_branch m'
     \<and> (\<forall>server. mcp_effective m server \<le> mcp_effective m' server)"

lemma roots_within_refl [simp]: "roots_within rs rs"
  by (simp add: roots_within_def)

lemma roots_within_trans: "roots_within a b \<Longrightarrow> roots_within b c \<Longrightarrow> roots_within a c"
  unfolding roots_within_def by (meson raw_within_trans)

lemma roots_within_intersect: "roots_within (intersect_roots base overlay) base"
proof -
  have "\<exists>r \<in> set base. raw_within r' r" if "r' \<in> set (intersect_roots base overlay)" for r'
  proof -
    from that obtain n b where n: "n \<in> set (List.map_filter normalize_raw overlay)"
      and b: "b \<in> set (List.map_filter normalize_raw base)" and k: "kept_root n b = Some r'"
      unfolding set_intersect_roots by blast
    then have "raw_within r' b" using kept_root_cases[OF k] map_filter_normalized by blast
    moreover obtain r where "r \<in> set base" "normalize_raw r = Some b" using b by (auto simp: set_map_filter)
    ultimately show ?thesis using raw_within_normalized(1) by blast
  qed
  then show ?thesis by (auto simp: roots_within_def)
qed

lemma narrower_refl [simp]: "narrower m m"
  by (simp add: narrower_def)

lemma narrower_trans: "narrower a b \<Longrightarrow> narrower b c \<Longrightarrow> narrower a c"
  unfolding narrower_def by (auto intro: roots_within_trans prefix_order.trans order.trans)

lemma narrower_when_set: "(\<And>v m. narrower (f v m) m) \<Longrightarrow> narrower (when_set f x m) m"
  by (simp add: when_set_def split: option.splits)

lemmas narrow_steps = narrower_def roots_within_intersect union_in_place_def prefix_fold_push_new intersect_exact_def
  more_restrictive_max mcp_effective_def

lemma narrow_filesystem_narrower: "narrower (narrow_filesystem fs m) m"
  unfolding narrow_filesystem_def
  by (intro narrower_trans[OF narrower_when_set narrower_trans[OF narrower_when_set narrower_when_set]])
     (auto simp: narrow_steps split: option.split)

lemma narrow_shell_narrower: "narrower (narrow_shell sh m) m"
  unfolding narrow_shell_def
  by (intro narrower_trans[OF narrower_when_set narrower_trans[OF narrower_when_set narrower_when_set]])
     (auto simp: narrow_steps split: option.split)

lemma narrow_network_narrower: "narrower (narrow_network n m) m"
  unfolding narrow_network_def
  by (intro narrower_trans[OF narrower_when_set narrower_when_set]) (auto simp: narrow_steps split: option.split)

lemma narrow_git_narrower: "narrower (narrow_git g m) m"
  unfolding narrow_git_def
  by (intro narrower_trans[OF narrower_when_set narrower_trans[OF narrower_when_set narrower_trans[OF narrower_when_set narrower_when_set]]])
     (auto simp: narrow_steps split: option.split)

lemma narrow_server_narrower: "narrower (narrow_server e m) m"
  by (cases e) (auto simp: narrow_server_def narrow_steps split: option.splits)

lemma fold_narrow_server: "narrower (fold narrow_server es m) m"
proof (induction es arbitrary: m)
  case (Cons e es)
  then show ?case using narrower_trans[OF Cons narrow_server_narrower] by simp
qed simp

lemma narrow_mcp_narrower: "narrower (narrow_mcp r m) m"
  unfolding narrow_mcp_def
  by (intro narrower_trans[OF narrower_when_set narrower_when_set] fold_narrow_server)
     (auto simp: narrow_steps split: option.splits)

lemma untrusted_overlay_narrower: "narrower (apply_untrusted_overlay r m) m"
proof -
  have version: "narrower (m\<lparr> mp_schema_version := v \<rparr>) m" for v m
    by (simp add: narrower_def mcp_effective_def split: option.split)
  show ?thesis
    unfolding apply_untrusted_overlay_def
    by (intro narrower_trans[OF narrower_when_set narrower_trans[OF narrower_when_set narrower_trans[OF narrower_when_set
          narrower_trans[OF narrower_when_set narrower_trans[OF narrower_when_set narrower_when_set]]]]]
        narrow_mcp_narrower narrow_git_narrower narrow_network_narrower narrow_shell_narrower narrow_filesystem_narrower
        version)
qed

text \<open>What even the user's own file keeps: the write roots and the deny list.\<close>

definition floor_kept :: "merged_policy \<Rightarrow> merged_policy \<Rightarrow> bool" where
  "floor_kept m' m \<longleftrightarrow> roots_within (mp_fs_write m') (mp_fs_write m) \<and> prefix (mp_fs_deny m) (mp_fs_deny m')"

lemma floor_trans: "floor_kept a b \<Longrightarrow> floor_kept b c \<Longrightarrow> floor_kept a c"
  unfolding floor_kept_def by (auto intro: roots_within_trans prefix_order.trans)

lemma floor_when_set: "(\<And>v m. floor_kept (f v m) m) \<Longrightarrow> floor_kept (when_set f x m) m"
  by (simp add: when_set_def floor_kept_def split: option.splits)

lemma narrower_floor: "narrower m' m \<Longrightarrow> floor_kept m' m"
  by (simp add: narrower_def floor_kept_def)

lemma widen_filesystem_floor: "floor_kept (widen_filesystem fs m) m"
  unfolding widen_filesystem_def
  by (intro floor_trans[OF floor_when_set floor_trans[OF floor_when_set floor_when_set]])
     (auto simp: floor_kept_def roots_within_intersect union_in_place_def prefix_fold_push_new)

lemma same_floor:
  "floor_kept (m\<lparr> mp_schema_version := v \<rparr>) m" "floor_kept (widen_shell sh m) m" "floor_kept (widen_network n m) m"
  "floor_kept (replace_git g m) m" "floor_kept (replace_mcp r m) m"
  by (simp_all add: floor_kept_def widen_shell_def widen_network_def replace_git_def replace_mcp_def when_set_def
        split: option.splits)

lemma trusted_overlay_floor: "floor_kept (apply_trusted_overlay r m) m"
  unfolding apply_trusted_overlay_def
  by (intro floor_trans[OF floor_when_set floor_trans[OF floor_when_set floor_trans[OF floor_when_set
        floor_trans[OF floor_when_set floor_trans[OF floor_when_set floor_when_set]]]]] same_floor widen_filesystem_floor)

subsection \<open>Properties\<close>

text \<open>
  C15: The merge of root lists is exact on the regions they denote: what the intersection of two lists covers is what
  both cover, and what their union covers is what either covers, whatever \<open>.\<close>, \<open>..\<close>, repeated separators, escapes
  above the anchor or unanchored strings the lists hold.
\<close>

theorem root_regions_exact:
  "covers (intersect_roots base overlay) path = (covers base path \<and> covers overlay path)
   \<and> covers (union_roots base overlay) path = (covers base path \<or> covers overlay path)"
  using covers_intersect covers_union by blast

end
