(* ===== verification/Policy_Scope.thy ===== *)
theory Policy_Scope
  imports Policy_Config
begin

text \<open>
  Scopes and run capabilities (\<open>crates/daemon/src/policy/scope.rs\<close>). A path is the string a \<open>PathBuf\<close> holds, in
  UTF-8, on Unix; what the code asks of the file system is the record \<open>file_system\<close>: \<open>std::fs::canonicalize\<close>,
  \<open>Path::exists\<close> and \<open>Path::is_dir\<close>.
\<close>

subsection \<open>Paths\<close>

record file_system =
  fs_canonicalize :: "string \<Rightarrow> string option"
  fs_exists :: "string \<Rightarrow> bool"
  fs_is_dir :: "string \<Rightarrow> bool"

text \<open>\<open>PathBuf::push\<close> (and \<open>Path::join\<close>): an absolute path replaces the buffer.\<close>

definition path_push :: "string \<Rightarrow> string \<Rightarrow> string" where
  "path_push p q =
     (if is_absolute q then q
      else if p = [] \<or> last p = CHR ''/'' then p @ q
      else p @ CHR ''/'' # q)"

text \<open>
  \<open>Path::parent\<close>: the string up to the end of the component before the last; separators and \<open>.\<close> segments behind it
  are dropped, those inside are kept as written.
\<close>

definition trim_segments :: "string list \<Rightarrow> string list" where
  "trim_segments segs = rev (dropWhile (\<lambda>s. s = [] \<or> s = ''.'') (rev segs))"

definition path_parent :: "string \<Rightarrow> string option" where
  "path_parent p =
     (let segs = split_char (CHR ''/'') p in
      if is_absolute p then
        (let body = trim_segments (tl segs) in
         if body = [] then None else Some (CHR ''/'' # join ''/'' (trim_segments (butlast body))))
      else if hd segs = ''.'' then
        (let body = trim_segments (tl segs) in
         if body = [] then Some [] else Some (join ''/'' (''.'' # trim_segments (butlast body))))
      else
        (let body = trim_segments segs in
         if body = [] then None else Some (join ''/'' (trim_segments (butlast body)))))"

definition path_pop :: "string \<Rightarrow> string" where
  "path_pop p = (case path_parent p of Some q \<Rightarrow> q | None \<Rightarrow> p)"

definition resettle :: "file_system \<Rightarrow> string \<Rightarrow> string" where
  "resettle fs p = (if fs_exists fs p then (case fs_canonicalize fs p of Some c \<Rightarrow> c | None \<Rightarrow> p) else p)"

fun lenient_step :: "file_system \<Rightarrow> path_component \<Rightarrow> string \<Rightarrow> string" where
  "lenient_step fs RootDir result = path_push result ''/''"
| "lenient_step fs CurDir result = result"
| "lenient_step fs ParentDir result = resettle fs (path_pop result)"
| "lenient_step fs (Normal segment) result = resettle fs (path_push result segment)"

definition canonicalize_lenient :: "file_system \<Rightarrow> string \<Rightarrow> string" where
  "canonicalize_lenient fs p =
     (case fs_canonicalize fs p of
        Some resolved \<Rightarrow> resolved
      | None \<Rightarrow> fold (lenient_step fs) (path_components p) [])"

definition is_within :: "string \<Rightarrow> string \<Rightarrow> bool" where
  "is_within candidate base \<longleftrightarrow>
     path_components candidate = path_components base \<or> prefix (path_components base) (path_components candidate)"

subsection \<open>Scopes\<close>

datatype scope_verdict = SV_Allowed | SV_OutsideRoots | SV_Denied

record path_scope =
  ps_roots :: "string list"
  ps_deny :: "string list"

definition classify_canonical :: "path_scope \<Rightarrow> string \<Rightarrow> scope_verdict" where
  "classify_canonical sc canonical =
     (if list_ex (\<lambda>d. is_within canonical d) (ps_deny sc) then SV_Denied
      else if list_ex (\<lambda>r. is_within canonical r) (ps_roots sc) then SV_Allowed
      else SV_OutsideRoots)"

definition scope_classify :: "file_system \<Rightarrow> path_scope \<Rightarrow> string \<Rightarrow> scope_verdict" where
  "scope_classify fs sc p = classify_canonical sc (canonicalize_lenient fs p)"

definition scope_resolve :: "file_system \<Rightarrow> path_scope \<Rightarrow> string \<Rightarrow> string \<times> scope_verdict" where
  "scope_resolve fs sc p =
     (let canonical = canonicalize_lenient fs p in (canonical, classify_canonical sc canonical))"

definition scope_allows :: "file_system \<Rightarrow> path_scope \<Rightarrow> string \<Rightarrow> bool" where
  "scope_allows fs sc p \<longleftrightarrow> scope_classify fs sc p = SV_Allowed"

record command_scope =
  cs_allowed_programs :: "string list"
  cs_maximum_seconds :: u64

definition allows_program :: "command_scope \<Rightarrow> string \<Rightarrow> bool" where
  "allows_program sc program = list_ex (\<lambda>entry. entry = program) (cs_allowed_programs sc)"

record network_scope =
  ns_allow :: "string list"
  ns_default :: network_default

definition network_allows :: "network_scope \<Rightarrow> string \<Rightarrow> bool" where
  "network_allows sc destination \<longleftrightarrow>
     list_ex (\<lambda>d. d = destination) (ns_allow sc) \<or> ns_default sc = ND_Allow"

datatype run_capability =
    RunCap_FileRead path_scope
  | RunCap_FileWrite path_scope
  | RunCap_CommandExecute command_scope
  | RunCap_NetworkConnect network_scope
  | RunCap_GitCommit
  | RunCap_GitPush
  | RunCap_McpToolCall string
  | RunCap_CouncilManage
  | RunCap_WorkflowManage
  | RunCap_RestoreCheckpoint

subsection \<open>Resolved paths are plain\<close>

text \<open>A plain path: absolute, with neither \<open>.\<close> nor \<open>..\<close> among its components.\<close>

definition plain_path :: "string \<Rightarrow> bool" where
  "plain_path p \<longleftrightarrow> is_absolute p \<and> ParentDir \<notin> set (path_components p)"

definition resolves_plainly :: "file_system \<Rightarrow> bool" where
  "resolves_plainly fs \<longleftrightarrow> (\<forall>p q. fs_canonicalize fs p = Some q \<longrightarrow> plain_path q)"

lemma plain_path_components: "plain_path p \<Longrightarrow> \<exists>names. path_components p = RootDir # map Normal names"
  by (auto simp: plain_path_def path_components_absolute dest: all_normal)

lemma plain_path_body: "plain_path p \<longleftrightarrow> is_absolute p \<and> ParentDir \<notin> set (path_body p)"
  by (auto simp: plain_path_def path_components_absolute)

lemma path_body_segment: "plain_segment s \<Longrightarrow> path_body s = [Normal s]"
  by (simp add: path_body_def plain_segment_def split_char_single)

lemma is_absolute_append [simp]: "is_absolute p \<Longrightarrow> is_absolute (p @ q)"
  by (auto simp: is_absolute_def starts_with_iff)

lemma plain_push:
  assumes p: "plain_path p" and s: "plain_segment s"
  shows "plain_path (path_push p s)"
proof -
  have rel: "\<not> is_absolute s" using s by (cases s) (auto simp: plain_segment_def is_absolute_def starts_with_def)
  have "p \<noteq> []" using p by (auto simp: plain_path_def is_absolute_def)
  then have "path_body (path_push p s) = path_body p @ [Normal s]"
  proof (cases "last p = CHR ''/''")
    case True
    then have "p = butlast p @ [CHR ''/'']" using \<open>p \<noteq> []\<close> by (metis append_butlast_last_id)
    then obtain q where q: "p = q @ [CHR ''/'']" by blast
    then show ?thesis using rel path_body_append[of q "[]"] path_body_append[of q s] path_body_segment[OF s]
      by (simp add: path_push_def path_body_def)
  qed (simp add: path_push_def rel path_body_append path_body_segment[OF s])
  then show ?thesis using p rel by (auto simp: plain_path_body path_push_def)
qed

lemma set_trim_segments: "set (trim_segments xs) \<subseteq> set xs"
  unfolding trim_segments_def by (auto dest: set_dropWhileD)

lemma split_join:
  assumes "xs \<noteq> []" "list_all (\<lambda>s. c \<notin> set s) xs"
  shows "split_char c (join [c] xs) = xs"
  using assms
proof (induction "[c]" xs rule: join.induct)
  case (3 x y xs)
  then show ?case by (simp add: split_char_append[of c x] split_char_single)
qed (simp_all add: split_char_single)

lemma path_body_join:
  assumes "list_all (\<lambda>s. CHR ''/'' \<notin> set s) xs"
  shows "set (path_body (join ''/'' xs)) \<subseteq> (\<lambda>p. if p = ''..'' then ParentDir else Normal p) ` {p \<in> set xs. p \<noteq> [] \<and> p \<noteq> ''.''}"
proof (cases "xs = []")
  case False
  then show ?thesis using assms by (auto simp: path_body_def split_join)
qed (simp add: path_body_def)

lemma plain_parent:
  assumes p: "plain_path p" and q: "path_parent p = Some q"
  shows "plain_path q"
proof -
  obtain r where r: "p = CHR ''/'' # r" using p by (auto simp: plain_path_def is_absolute_def starts_with_iff)
  have segs: "split_char (CHR ''/'') p = [] # split_char (CHR ''/'') r" by (simp add: r)
  define xs where "xs = trim_segments (butlast (trim_segments (split_char (CHR ''/'') r)))"
  have q': "q = CHR ''/'' # join ''/'' xs"
    using q p unfolding path_parent_def segs by (auto simp: plain_path_def Let_def xs_def split: if_splits)
  have sub: "set xs \<subseteq> set (split_char (CHR ''/'') r)"
    unfolding xs_def using set_trim_segments by (blast dest: in_set_butlastD)
  have "ParentDir \<notin> set (path_body r)"
    using p path_body_append[of "[]" r] by (simp add: plain_path_body r path_body_def)
  then have no: "''..'' \<notin> set (split_char (CHR ''/'') r)" by (auto simp: path_body_def)
  have "list_all (\<lambda>s. CHR ''/'' \<notin> set s) xs" using sub split_char_pieces by (auto simp: list_all_iff)
  from path_body_join[OF this] have "ParentDir \<notin> set (path_body (join ''/'' xs))" using sub no by (auto split: if_splits)
  then show ?thesis using path_body_append[of "[]" "join ''/'' xs"]
    by (simp add: q' plain_path_body is_absolute_def starts_with_def path_body_def)
qed

lemma plain_resettle: "resolves_plainly fs \<Longrightarrow> plain_path p \<Longrightarrow> plain_path (resettle fs p)"
  by (auto simp: resettle_def resolves_plainly_def split: option.splits)

lemma component_segments: "Normal s \<in> set (path_body p) \<Longrightarrow> plain_segment s"
  using split_char_pieces by (auto simp: path_body_def plain_segment_def split: if_splits)

lemma plain_fold:
  assumes fs: "resolves_plainly fs" and "set cs \<subseteq> set (path_body p)" "plain_path r"
  shows "plain_path (fold (lenient_step fs) cs r)"
  using assms(2,3)
proof (induction cs arbitrary: r)
  case (Cons c cs)
  have "c = ParentDir \<or> (\<exists>s. c = Normal s)" using Cons.prems(1) by (auto simp: path_body_def)
  moreover have "plain_path (path_pop r)"
    using Cons.prems(2) plain_parent by (auto simp: path_pop_def split: option.splits)
  moreover have "plain_path (path_push r s)" if "c = Normal s" for s
    using that Cons.prems component_segments[of s p] by (intro plain_push) auto
  ultimately have "plain_path (lenient_step fs c r)" using plain_resettle[OF fs] by auto
  then show ?case using Cons.IH[of "lenient_step fs c r"] Cons.prems(1) by simp
qed simp

lemma lenient_plain:
  assumes "resolves_plainly fs" "is_absolute p"
  shows "plain_path (canonicalize_lenient fs p)"
proof (cases "fs_canonicalize fs p")
  case None
  have "plain_path ''/''" by (simp add: plain_path_body is_absolute_def starts_with_def path_body_def)
  with None show ?thesis
    using plain_fold[OF assms(1), of "path_body p" p] assms(2)
    by (simp add: canonicalize_lenient_def path_components_absolute path_push_def is_absolute_def starts_with_def)
qed (use assms(1) in \<open>auto simp: canonicalize_lenient_def resolves_plainly_def\<close>)

lemma is_within_prefix: "is_within c b \<longleftrightarrow> prefix (path_components b) (path_components c)"
  by (auto simp: is_within_def)

lemma is_within_refl [simp]: "is_within p p"
  by (simp add: is_within_def)

lemma is_within_trans: "is_within a b \<Longrightarrow> is_within b c \<Longrightarrow> is_within a c"
  by (auto simp: is_within_prefix intro: prefix_order.trans)

lemma is_within_beneath: "plain_path p \<Longrightarrow> plain_path b \<Longrightarrow> is_within p b \<Longrightarrow> beneath b p"
proof -
  assume pb: "plain_path p" "plain_path b" "is_within p b"
  then obtain names rest where p: "path_components p = RootDir # map Normal names" and "path_components p = path_components b @ rest"
    using plain_path_components by (fastforce simp: is_within_prefix prefix_def)
  moreover obtain bs where "path_components b = RootDir # map Normal bs" using pb plain_path_components by blast
  ultimately have "map Normal names = map Normal bs @ rest" by simp
  then obtain ns where "rest = map Normal ns" by (metis append_eq_map_conv)
  with \<open>path_components p = path_components b @ rest\<close> show ?thesis by (auto simp: beneath_def)
qed

lemma deny_wins: "list_ex (\<lambda>d. is_within (canonicalize_lenient fs p) d) (ps_deny sc) \<Longrightarrow> scope_classify fs sc p = SV_Denied"
  by (simp add: scope_classify_def classify_canonical_def)

lemma resolve_classifies: "scope_resolve fs sc p = (canonicalize_lenient fs p, scope_classify fs sc p)"
  by (simp add: scope_resolve_def scope_classify_def Let_def)

end
