(* ===== verification/Policy_Arity.thy ===== *)
theory Policy_Arity
  imports Policy_Scope Ordering
begin

text \<open>
  The command-arity dictionary and the patterns an "always allow" learns (\<open>crates/daemon/src/policy/arity.rs\<close>).
\<close>

subsection \<open>The dictionary\<close>

definition ARITY :: "(string \<times> nat) list" where
  "ARITY =
     [(''aws'', 3), (''az'', 3), (''bazel'', 2), (''brew'', 2), (''bun'', 2), (''bun run'', 3),
      (''bun x'', 3), (''cargo'', 2), (''cargo add'', 3), (''cargo run'', 3), (''cat'', 1), (''cd'', 1),
      (''cdk'', 2), (''cf'', 2), (''chmod'', 1), (''chown'', 1), (''cmake'', 2), (''composer'', 2),
      (''consul'', 2), (''consul kv'', 3), (''cp'', 1), (''crictl'', 2), (''deno'', 2),
      (''deno task'', 3), (''docker'', 2), (''docker builder'', 3), (''docker compose'', 3),
      (''docker container'', 3), (''docker image'', 3), (''docker network'', 3), (''docker volume'', 3),
      (''doctl'', 3), (''echo'', 1), (''eksctl'', 2), (''eksctl create'', 3), (''env'', 1),
      (''export'', 1), (''firebase'', 2), (''flyctl'', 2), (''gcloud'', 3), (''gh'', 3), (''git'', 2),
      (''git config'', 3), (''git remote'', 3), (''git stash'', 3), (''go'', 2), (''gradle'', 2),
      (''grep'', 1), (''helm'', 2), (''heroku'', 2), (''hugo'', 2), (''ip'', 2), (''ip addr'', 3),
      (''ip link'', 3), (''ip netns'', 3), (''ip route'', 3), (''kill'', 1), (''killall'', 1),
      (''kind'', 2), (''kind create'', 3), (''kubectl'', 2), (''kubectl kustomize'', 3),
      (''kubectl rollout'', 3), (''kustomize'', 2), (''ln'', 1), (''ls'', 1), (''make'', 2), (''mc'', 2),
      (''mc admin'', 3), (''minikube'', 2), (''mkdir'', 1), (''mongosh'', 2), (''mv'', 1), (''mvn'', 2),
      (''mysql'', 2), (''ng'', 2), (''npm'', 2), (''npm exec'', 3), (''npm init'', 3), (''npm run'', 3),
      (''npm view'', 3), (''nvm'', 2), (''nx'', 2), (''openssl'', 2), (''openssl req'', 3),
      (''openssl x509'', 3), (''pip'', 2), (''pipenv'', 2), (''pnpm'', 2), (''pnpm dlx'', 3),
      (''pnpm exec'', 3), (''pnpm run'', 3), (''podman'', 2), (''podman container'', 3),
      (''podman image'', 3), (''poetry'', 2), (''ps'', 1), (''psql'', 2), (''pulumi'', 2),
      (''pulumi stack'', 3), (''pwd'', 1), (''pyenv'', 2), (''python'', 2), (''rake'', 2), (''rbenv'', 2),
      (''redis-cli'', 2), (''rm'', 1), (''rmdir'', 1), (''rustup'', 2), (''serverless'', 2),
      (''sfdx'', 3), (''skaffold'', 2), (''sleep'', 1), (''sls'', 2), (''source'', 1), (''sst'', 2),
      (''swift'', 2), (''systemctl'', 2), (''tail'', 1), (''terraform'', 2), (''terraform workspace'', 3),
      (''tmux'', 2), (''touch'', 1), (''turbo'', 2), (''ufw'', 2), (''unset'', 1), (''vault'', 2),
      (''vault auth'', 3), (''vault kv'', 3), (''vercel'', 2), (''volta'', 2), (''which'', 1),
      (''wp'', 2), (''yarn'', 2), (''yarn dlx'', 3), (''yarn run'', 3)]"

text \<open>\<open>slice::binary_search_by\<close>: the last position not above the key is kept in \<open>base\<close>.\<close>

function bsearch :: "('a \<Rightarrow> ordering) \<Rightarrow> 'a list \<Rightarrow> nat \<Rightarrow> nat \<Rightarrow> nat" where
  "bsearch f xs base n =
     (if n \<le> 1 then base
      else (let half = n div 2; mid = base + half in
            bsearch f xs (if f (xs ! mid) = Greater then base else mid) (n - half)))"
  by auto
termination
  by (relation "measure (\<lambda>(f, xs, base, n). n)") auto

declare bsearch.simps [simp del]

definition binary_search_by :: "('a \<Rightarrow> ordering) \<Rightarrow> 'a list \<Rightarrow> nat option" where
  "binary_search_by f xs =
     (if xs = [] then None
      else (let i = bsearch f xs 0 (length xs) in if f (xs ! i) = Equal then Some i else None))"

definition arity_lookup :: "string \<Rightarrow> nat option" where
  "arity_lookup p = map_option (\<lambda>i. snd (ARITY ! i)) (binary_search_by (\<lambda>e. lin_cmp (fst e) p) ARITY)"

fun longest_listed :: "nat \<Rightarrow> string list \<Rightarrow> string list" where
  "longest_listed 0 tokens = take 1 tokens"
| "longest_listed (Suc n) tokens =
     (case arity_lookup (join '' '' (take (Suc n) tokens)) of
        Some arity \<Rightarrow> take (min arity (length tokens)) tokens
      | None \<Rightarrow> longest_listed n tokens)"

definition command_prefix :: "string list \<Rightarrow> string list" where
  "command_prefix tokens = longest_listed (length tokens) tokens"

subsection \<open>Patterns\<close>

definition UNLEARNABLE_PROGRAMS :: "string list" where
  "UNLEARNABLE_PROGRAMS =
     [''sh'', ''bash'', ''zsh'', ''dash'', ''fish'', ''ksh'', ''pwsh'', ''powershell'', ''python'', ''python3'', ''node'', ''deno'', ''bun'',
      ''ruby'', ''perl'', ''php'', ''env'', ''xargs'', ''sudo'', ''doas'', ''nice'', ''nohup'', ''time'', ''timeout'', ''eval'']"

definition has_shell_chaining_or_substitution :: "string \<Rightarrow> bool" where
  "has_shell_chaining_or_substitution token =
     list_ex (\<lambda>c. c \<in> {CHR '';'', CHR ''|'', CHR ''&'', CHR 0x60, CHR ''$'', CHR 0x0A, CHR 0x0D}) token"

definition command_pattern :: "string \<Rightarrow> string list \<Rightarrow> (string \<times> string) list \<Rightarrow> string option" where
  "command_pattern program args environment =
     (if program = [] \<or> CHR ''/'' \<in> set program \<or> CHR 0x5C \<in> set program \<or> environment \<noteq> []
         \<or> program \<in> set UNLEARNABLE_PROGRAMS \<or> list_ex has_shell_chaining_or_substitution args
      then None
      else
        (let pre = command_prefix (program # args) in
         if list_ex (\<lambda>t. starts_with ''-'' t) pre then None else Some (join '' '' pre @ '' *'')))"

definition strip_suffix :: "string \<Rightarrow> string \<Rightarrow> string option" where
  "strip_suffix p s = (if ends_with p s then Some (take (length s - length p) s) else None)"

definition pattern_matches :: "string \<Rightarrow> string \<Rightarrow> string list \<Rightarrow> bool" where
  "pattern_matches pattern program args =
     (if list_ex has_shell_chaining_or_substitution args then False
      else case strip_suffix '' *'' pattern of
        None \<Rightarrow> False
      | Some head \<Rightarrow>
          (let want = split_char (CHR '' '') head; have = program # args in
           length want \<le> length have \<and> take (length want) have = want))"

subsection \<open>The search finds what is listed\<close>

lemma bsearch_hits:
  assumes "sorted_wrt (<) (map fst xs)" "i < length xs" "fst (xs ! i) = k"
    and "base \<le> i" "i < base + n" "base + n \<le> length xs"
  shows "bsearch (\<lambda>e. lin_cmp (fst e) k) xs base n = i"
  using assms(4-6)
proof (induction n arbitrary: base rule: less_induct)
  case (less n)
  show ?case
  proof (cases "n \<le> 1")
    case True
    with less.prems show ?thesis by (simp add: bsearch.simps[of _ _ _ n])
  next
    case False
    define half mid where "half = n div 2" and "mid = base + half"
    have half: "0 < half" "half < n" and mid: "mid < length xs" using False less.prems by (auto simp: half_def mid_def)
    have step: "bsearch (\<lambda>e. lin_cmp (fst e) k) xs base n
        = bsearch (\<lambda>e. lin_cmp (fst e) k) xs (if k < fst (xs ! mid) then base else mid) (n - half)"
      using False by (subst bsearch.simps) (simp add: Let_def half_def mid_def)
    have key: "fst (xs ! u) < fst (xs ! v)" if "u < v" "v < length xs" for u v
      using sorted_wrt_nth_less[OF assms(1), of u v] that by simp
    have "k < fst (xs ! mid) \<longleftrightarrow> i < mid"
      using key[of i mid] key[of mid i] assms(2,3) mid by (metis linorder_less_linear order.asym)
    then have cmp: "(if k < fst (xs ! mid) then base else mid) = (if i < mid then base else mid)" by simp
    have "half \<le> n - half" by (simp add: half_def)
    then show ?thesis unfolding step cmp
      using less.IH[of "n - half" base] less.IH[of "n - half" mid] less.prems half by (simp add: mid_def)
  qed
qed

lemma binary_search_sorted:
  fixes xs :: "('a :: linorder \<times> 'b) list"
  assumes s: "sorted_wrt (<) (map fst xs)"
  shows "map_option (\<lambda>i. snd (xs ! i)) (binary_search_by (\<lambda>e. lin_cmp (fst e) k) xs) = map_of xs k"
proof (cases "map_of xs k")
  case (Some v)
  then obtain i where i: "i < length xs" "xs ! i = (k, v)" by (metis in_set_conv_nth map_of_SomeD)
  then have "bsearch (\<lambda>e. lin_cmp (fst e) k) xs 0 (length xs) = i" using s by (intro bsearch_hits) auto
  with i Some show ?thesis by (auto simp: binary_search_by_def Let_def)
next
  case None
  then have no: "fst e \<noteq> k" if "e \<in> set xs" for e using that by (auto simp: map_of_eq_None_iff)
  let ?f = "\<lambda>e :: 'a \<times> 'b. lin_cmp (fst e) k"
  have "bsearch ?f xs base n < length xs" if "base + n \<le> length xs" "0 < n" for base n
    using that by (induction ?f xs base n rule: bsearch.induct) (subst bsearch.simps, auto simp: Let_def)
  from this[of 0 "length xs"] None no show ?thesis by (auto simp: binary_search_by_def Let_def)
qed

lemma arity_sorted: "sorted_wrt (<) (map fst ARITY)"
proof -
  have "successively (<) (map fst ARITY)" by code_simp
  then show ?thesis by (simp add: successively_conv_sorted_wrt)
qed

lemma arity_lookup_map: "arity_lookup = map_of ARITY"
  by (rule ext) (simp add: arity_lookup_def binary_search_sorted arity_sorted)

lemma arity_positive: "arity_lookup p = Some a \<Longrightarrow> 0 < a"
proof -
  have "list_all (\<lambda>e. 0 < snd e) ARITY" by code_simp
  moreover assume "arity_lookup p = Some a"
  ultimately show ?thesis unfolding arity_lookup_map by (auto simp: list_all_iff dest!: map_of_SomeD)
qed

subsection \<open>Prefixes\<close>

lemma longest_listed_prefix: "prefix (longest_listed n tokens) tokens"
  by (induction n) (auto simp: take_is_prefix split: option.splits)

lemma longest_listed_nonempty: "tokens \<noteq> [] \<Longrightarrow> longest_listed n tokens \<noteq> []"
  by (induction n) (auto split: option.splits dest: arity_positive)

lemma command_prefix_nonempty: "tokens \<noteq> [] \<Longrightarrow> command_prefix tokens \<noteq> []"
  by (simp add: command_prefix_def longest_listed_nonempty)

text \<open>The longest listed prefix decides; with none listed the first token stands alone.\<close>

lemma longest_listed_decides:
  assumes "0 < k" "k \<le> n" "arity_lookup (join '' '' (take k tokens)) = Some a"
    "\<And>j. k < j \<Longrightarrow> j \<le> n \<Longrightarrow> arity_lookup (join '' '' (take j tokens)) = None"
  shows "longest_listed n tokens = take a tokens"
  using assms
proof (induction n)
  case (Suc n)
  show ?case
  proof (cases "k = Suc n")
    case False
    then show ?thesis using Suc by simp
  qed (use Suc.prems(3) in \<open>simp add: min_def\<close>)
qed simp

lemma longest_listed_unknown:
  "(\<And>j. 0 < j \<Longrightarrow> j \<le> n \<Longrightarrow> arity_lookup (join '' '' (take j tokens)) = None) \<Longrightarrow> longest_listed n tokens = take 1 tokens"
  by (induction n) auto

lemma strip_suffix_append [simp]: "strip_suffix p (s @ p) = Some s"
  by (simp add: strip_suffix_def ends_with_def)

lemma pattern_matches_head:
  assumes "ts \<noteq> []" "list_all (\<lambda>t. CHR '' '' \<notin> set t) ts"
  shows "pattern_matches (join '' '' ts @ '' *'') program args \<longleftrightarrow>
           \<not> list_ex has_shell_chaining_or_substitution args \<and> prefix ts (program # args)"
proof -
  have "prefix ts xs \<longleftrightarrow> length ts \<le> length xs \<and> take (length ts) xs = ts" for xs :: "string list"
    by (auto simp: prefix_def append_eq_conv_conj) (metis append_take_drop_id)
  then show ?thesis by (simp add: pattern_matches_def split_join[OF assms] Let_def)
qed

lemma command_pattern_Some:
  assumes "command_pattern program args environment = Some pattern"
  shows "pattern = join '' '' (command_prefix (program # args)) @ '' *''" "environment = []"
    "program \<notin> set UNLEARNABLE_PROGRAMS" "CHR ''/'' \<notin> set program" "\<not> list_ex has_shell_chaining_or_substitution args"
    "\<not> list_ex (\<lambda>t. starts_with ''-'' t) (command_prefix (program # args))"
  using assms by (auto simp: command_pattern_def Let_def split: if_splits)

text \<open>
  C14: A learned pattern is exact. When the tokens of the learned prefix hold no space, the pattern covers an invocation
  if and only if its leading tokens are that prefix and none of its arguments holds a character a shell would act on; it
  covers the invocation it was learned from, holds no flag, and was learned with an empty environment and from a program
  that is no interpreter.
\<close>

theorem learned_pattern_exact:
  assumes "command_pattern program args environment = Some pattern"
    and "list_all (\<lambda>t. CHR '' '' \<notin> set t) (command_prefix (program # args))"
  shows "(pattern_matches pattern program' args' \<longleftrightarrow>
            \<not> list_ex has_shell_chaining_or_substitution args'
            \<and> prefix (command_prefix (program # args)) (program' # args'))
    \<and> pattern_matches pattern program args
    \<and> \<not> list_ex (\<lambda>t. starts_with ''-'' t) (command_prefix (program # args))
    \<and> environment = [] \<and> program \<notin> set UNLEARNABLE_PROGRAMS"
proof -
  note parts = command_pattern_Some[OF assms(1)]
  have "command_prefix (program # args) \<noteq> []" by (simp add: command_prefix_nonempty)
  note head = pattern_matches_head[OF this assms(2)]
  have "prefix (command_prefix (program # args)) (program # args)"
    unfolding command_prefix_def by (rule longest_listed_prefix)
  with head parts show ?thesis by simp
qed

lemma lookup_git: "arity_lookup ''git'' = Some 2" "arity_lookup ''git push'' = None"
  "arity_lookup ''git push origin'' = None" "arity_lookup ''git push origin main'' = None"
  unfolding arity_lookup_map by code_simp+

lemma git_push_pattern:
  "command_prefix [''git'', ''push'', ''origin'', ''main''] = [''git'', ''push'']"
  "command_pattern ''git'' [''push'', ''origin'', ''main''] [] = Some ''git push *''"
proof -
  show p: "command_prefix [''git'', ''push'', ''origin'', ''main''] = [''git'', ''push'']"
    by (simp add: command_prefix_def lookup_git)
  show "command_pattern ''git'' [''push'', ''origin'', ''main''] [] = Some ''git push *''"
    by (simp add: command_pattern_def p UNLEARNABLE_PROGRAMS_def has_shell_chaining_or_substitution_def starts_with_def)
qed

theorem learned_pattern_exact_witness:
  "pattern_matches ''git push *'' ''git'' [''push'', ''-uf'', ''origin'', ''main'']
   \<and> \<not> pattern_matches ''git push *'' ''git'' [''pull'', ''origin''] "
proof -
  have sp: "list_all (\<lambda>t. CHR '' '' \<notin> set t) (command_prefix [''git'', ''push'', ''origin'', ''main''])"
    by (simp add: git_push_pattern)
  show ?thesis
    using learned_pattern_exact[OF git_push_pattern(2) sp, of "''git''" "[''push'', ''-uf'', ''origin'', ''main'']"]
      learned_pattern_exact[OF git_push_pattern(2) sp, of "''git''" "[''pull'', ''origin'']"]
    by (simp add: git_push_pattern has_shell_chaining_or_substitution_def)
qed

text \<open>
  A token that holds a space is joined and split again: the pattern learned from one odd argument covers an
  invocation with other leading tokens, and not the one it was learned from.
\<close>

lemma pattern_confuses_spaces:
  "\<exists>pattern. command_pattern ''git'' [''push origin''] [] = Some pattern
     \<and> \<not> pattern_matches pattern ''git'' [''push origin'']
     \<and> pattern_matches pattern ''git'' [''push'', ''origin'', ''--mirror'']"
proof -
  have "command_prefix [''git'', ''push origin''] = [''git'', ''push origin'']"
    by (simp add: command_prefix_def lookup_git)
  then have "command_pattern ''git'' [''push origin''] [] = Some ''git push origin *''"
    by (simp add: command_pattern_def UNLEARNABLE_PROGRAMS_def has_shell_chaining_or_substitution_def starts_with_def)
  moreover have "\<not> pattern_matches ''git push origin *'' ''git'' [''push origin'']"
    "pattern_matches ''git push origin *'' ''git'' [''push'', ''origin'', ''--mirror'']"
    by (simp_all add: pattern_matches_def strip_suffix_def ends_with_def has_shell_chaining_or_substitution_def)
  ultimately show ?thesis by blast
qed

end
