(* ===== verification/Policy_Engine.thy ===== *)
theory Policy_Engine
  imports Policy_Arity Routing_Seam Json
begin

text \<open>
  The policy engine (\<open>crates/daemon/src/policy/mod.rs\<close>): from a proposed action
  (\<open>crates/protocol/src/run.rs\<close>), the merged policy and the context of a run to a decision with its reason and
  the capability granted. The file system, the home directory and the clock are the record \<open>policy_env\<close>; the JSON
  printer and SHA-256, which make the policy version, are parameters.
\<close>

subsection \<open>Actions\<close>

datatype proposed_action =
    PA_ReadFiles "string list"
  | PA_WritePatch string
  | PA_ExecuteCommand string "string list" "(string \<times> string) list" "string option"
  | PA_NetworkRequest string
  | PA_GitCommit string
  | PA_GitPush string string
  | PA_GitHubMutation string string
  | PA_PublishDocument string string "string list" string
  | PA_BlackboardPost string string
  | PA_BlackboardQuery string
  | PA_McpToolCall string string string string
  | PA_AcpToolCall string string string
  | PA_RecordMemory
  | PA_SearchRegistry
  | PA_DocumentEdit string string
  | PA_WorkflowQuery string
  | PA_WorkflowCreate string string
  | PA_WorkflowRun string string string
  | PA_TaskWrite string string
  | PA_TaskRead string
  | PA_CouncilCreate string string
  | PA_CouncilRun string string
  | PA_CouncilResultRead string
  | PA_CodeGraphQuery string string
  | PA_CodeGraphAssert string string
  | PA_AskUser nat "string list"
  | PA_RestoreCheckpoint string "32 word" string string
  | PA_WriteProcessStdin int nat
  | PA_PlanTransition agent_mode
  | PA_ReadSecret string
  | PA_Unknown

subsection \<open>Decisions\<close>

definition CAPABILITY_GRANT_TTL_MINUTES :: int where
  "CAPABILITY_GRANT_TTL_MINUTES = 15"

definition GITHUB_API_ENDPOINT :: string where
  "GITHUB_API_ENDPOINT = ''api.github.com:443''"

datatype decision = D_Allow | D_Deny | D_RequireApproval

record policy_reason =
  pr_code :: string
  pr_message :: string

definition reason :: "string \<Rightarrow> string \<Rightarrow> policy_reason" where
  "reason code message = \<lparr> pr_code = code, pr_message = message \<rparr>"

text \<open>Instants are counted in seconds.\<close>

record capability_grant =
  cg_capability :: run_capability
  cg_expires_at :: int

record policy_decision =
  pd_decision :: decision
  pd_reasons :: "policy_reason list"
  pd_capability_grant :: "capability_grant option"
  pd_policy_version :: string
  pd_approval_reusable :: bool

record mode_overlay =
  mo_write_allowed :: bool
  mo_command_allowed :: bool
  mo_network_allowed :: bool

definition permissive :: mode_overlay where
  "permissive = \<lparr> mo_write_allowed = True, mo_command_allowed = True, mo_network_allowed = True \<rparr>"

definition read_only :: mode_overlay where
  "read_only = \<lparr> mo_write_allowed = False, mo_command_allowed = False, mo_network_allowed = False \<rparr>"

record eval_context =
  ec_repository :: string
  ec_worktree :: string
  ec_mode :: mode_overlay
  ec_plan_write_root :: "string option"
  ec_write_target :: "string option"

definition new_context :: "string \<Rightarrow> string \<Rightarrow> eval_context" where
  "new_context repository worktree =
     \<lparr> ec_repository = repository, ec_worktree = worktree, ec_mode = permissive, ec_plan_write_root = None,
       ec_write_target = None \<rparr>"

record policy_env =
  pe_fs :: file_system
  pe_home_var :: "string option"
  pe_base_home :: "string option"
  pe_now :: int

definition pe_home :: "policy_env \<Rightarrow> string option" where
  "pe_home env = (case pe_home_var env of Some h \<Rightarrow> Some h | None \<Rightarrow> pe_base_home env)"

subsection \<open>Scopes of a context\<close>

text \<open>\<open>str::replace\<close> of every occurrence of a non-empty string.\<close>

function str_replace :: "string \<Rightarrow> string \<Rightarrow> string \<Rightarrow> string" where
  "str_replace p r [] = []"
| "str_replace p r (c # s) =
     (if p \<noteq> [] \<and> starts_with p (c # s) then r @ str_replace p r (drop (length p) (c # s))
      else c # str_replace p r s)"
  by pat_completeness auto
termination
  by (relation "measure (\<lambda>(p, r, s). length s)") auto

definition str_contains :: "string \<Rightarrow> string \<Rightarrow> bool" where
  "str_contains p s \<longleftrightarrow> str_find p s \<noteq> None"

definition expand_vars :: "eval_context \<Rightarrow> string option \<Rightarrow> string \<Rightarrow> string option" where
  "expand_vars ctx home raw =
     (let a = (if str_contains ''$REPOSITORY'' raw then str_replace ''$REPOSITORY'' (ec_repository ctx) raw else raw);
          b = (if str_contains ''$WORKTREE'' a then str_replace ''$WORKTREE'' (ec_worktree ctx) a else a)
      in if str_contains ''$HOME'' b then map_option (\<lambda>h. str_replace ''$HOME'' h b) home else Some b)"

fun expand_denies :: "file_system \<Rightarrow> eval_context \<Rightarrow> string option \<Rightarrow> string list \<Rightarrow> bool \<times> string list" where
  "expand_denies fs ctx home [] = (True, [])"
| "expand_denies fs ctx home (e # es) =
     (case expand_vars ctx home e of
        None \<Rightarrow> (False, [])
      | Some x \<Rightarrow> (let (ok, ds) = expand_denies fs ctx home es in (ok, canonicalize_lenient fs x # ds)))"

definition build_path_scope_with_home ::
  "file_system \<Rightarrow> string list \<Rightarrow> string list \<Rightarrow> eval_context \<Rightarrow> string option \<Rightarrow> path_scope" where
  "build_path_scope_with_home fs roots deny ctx home =
     (let (ok, denies) = expand_denies fs ctx home deny in
      if \<not> ok then \<lparr> ps_roots = [], ps_deny = denies \<rparr>
      else \<lparr> ps_roots = map (canonicalize_lenient fs) (List.map_filter (expand_vars ctx home) roots),
             ps_deny = denies \<rparr>)"

definition build_path_scope :: "policy_env \<Rightarrow> string list \<Rightarrow> string list \<Rightarrow> eval_context \<Rightarrow> path_scope" where
  "build_path_scope env roots deny ctx = build_path_scope_with_home (pe_fs env) roots deny ctx (pe_home env)"

subsection \<open>Engines\<close>

record policy_engine =
  en_merged :: merged_policy
  en_version :: string

fun network_default_str :: "network_default \<Rightarrow> string" where
  "network_default_str ND_Allow = ''allow''"
| "network_default_str ND_Deny = ''deny''"

fun approval_action_str :: "approval_action \<Rightarrow> string" where
  "approval_action_str AA_Allow = ''allow''"
| "approval_action_str AA_Approval = ''approval''"
| "approval_action_str AA_AlwaysApproval = ''always-approval''"
| "approval_action_str AA_Deny = ''deny''"

definition merged_json :: "merged_policy \<Rightarrow> json" where
  "merged_json m =
     (let strs = (\<lambda>xs. JArr (map JStr xs)); act = (\<lambda>a. JStr (approval_action_str a)) in
      JObj [(''schema_version'', JNum (PosInt (ucast (mp_schema_version m)))),
        (''fs_read'', strs (mp_fs_read m)), (''fs_write'', strs (mp_fs_write m)), (''fs_deny'', strs (mp_fs_deny m)),
        (''shell_allowed_programs'', strs (mp_shell_allowed_programs m)),
        (''shell_interpreter_requires_approval'', JBool (mp_shell_interpreter_requires_approval m)),
        (''shell_maximum_seconds'', JNum (PosInt (mp_shell_maximum_seconds m))),
        (''network_allow'', strs (mp_network_allow m)),
        (''network_default'', JStr (network_default_str (mp_network_default m))),
        (''git_commit'', act (mp_git_commit m)), (''git_push'', act (mp_git_push m)),
        (''git_force_push'', act (mp_git_force_push m)), (''git_delete_branch'', act (mp_git_delete_branch m)),
        (''mcp_default'', act (mp_mcp_default m)),
        (''mcp_servers'', JObj (map (\<lambda>(k, a). (k, act a)) (mp_mcp_servers m)))])"

definition version_of :: "crypto \<Rightarrow> serde \<Rightarrow> merged_policy \<Rightarrow> string" where
  "version_of C sd m = cr_hex_encode C (cr_sha256 C (str_bytes (js_to_text sd (merged_json m))))"

definition from_merged :: "crypto \<Rightarrow> serde \<Rightarrow> merged_policy \<Rightarrow> policy_engine" where
  "from_merged C sd m = \<lparr> en_merged = m, en_version = version_of C sd m \<rparr>"

definition with_defaults :: "crypto \<Rightarrow> serde \<Rightarrow> policy_engine" where
  "with_defaults C sd = from_merged C sd builtin_defaults"

definition admitting_network :: "crypto \<Rightarrow> serde \<Rightarrow> string list \<Rightarrow> policy_engine \<Rightarrow> policy_engine" where
  "admitting_network C sd endpoints en =
     from_merged C sd ((en_merged en)\<lparr> mp_network_allow := mp_network_allow (en_merged en) @ endpoints \<rparr>)"

definition with_defaults_allowing_network :: "crypto \<Rightarrow> serde \<Rightarrow> string list \<Rightarrow> policy_engine" where
  "with_defaults_allowing_network C sd endpoints =
     from_merged C sd (builtin_defaults\<lparr> mp_network_allow := mp_network_allow builtin_defaults @ endpoints \<rparr>)"

definition load_over ::
  "(string \<Rightarrow> read_error + string) \<Rightarrow> (string \<Rightarrow> string + raw_policy) \<Rightarrow> (raw_policy \<Rightarrow> merged_policy \<Rightarrow> merged_policy)
     \<Rightarrow> string option \<Rightarrow> merged_policy \<Rightarrow> policy_load_error + merged_policy" where
  "load_over read toml overlay path m =
     (case path of
        None \<Rightarrow> Inr m
      | Some p \<Rightarrow> res_bind (load_layer read toml p) (\<lambda>layer.
          Inr (case layer of None \<Rightarrow> m | Some raw \<Rightarrow> overlay raw m)))"

definition load_policy ::
  "crypto \<Rightarrow> serde \<Rightarrow> (string \<Rightarrow> read_error + string) \<Rightarrow> (string \<Rightarrow> string + raw_policy) \<Rightarrow> string option \<Rightarrow> string option
     \<Rightarrow> policy_load_error + policy_engine" where
  "load_policy C sd read toml repo_policy global_policy =
     res_bind (load_over read toml apply_trusted_overlay global_policy builtin_defaults) (\<lambda>m.
       res_bind (load_over read toml apply_untrusted_overlay repo_policy m) (\<lambda>m'. Inr (from_merged C sd m')))"

definition file_read_scope :: "policy_env \<Rightarrow> policy_engine \<Rightarrow> eval_context \<Rightarrow> path_scope" where
  "file_read_scope env en ctx = build_path_scope env (mp_fs_read (en_merged en)) (mp_fs_deny (en_merged en)) ctx"

definition file_write_scope :: "policy_env \<Rightarrow> policy_engine \<Rightarrow> eval_context \<Rightarrow> path_scope" where
  "file_write_scope env en ctx = build_path_scope env (mp_fs_write (en_merged en)) (mp_fs_deny (en_merged en)) ctx"

definition command_scope_of :: "policy_engine \<Rightarrow> command_scope" where
  "command_scope_of en =
     \<lparr> cs_allowed_programs = mp_shell_allowed_programs (en_merged en),
       cs_maximum_seconds = mp_shell_maximum_seconds (en_merged en) \<rparr>"

definition network_scope_of :: "policy_engine \<Rightarrow> network_scope" where
  "network_scope_of en =
     \<lparr> ns_allow = mp_network_allow (en_merged en), ns_default = mp_network_default (en_merged en) \<rparr>"

subsection \<open>Building decisions\<close>

definition mint_grant :: "policy_env \<Rightarrow> run_capability \<Rightarrow> capability_grant" where
  "mint_grant env c = \<lparr> cg_capability = c, cg_expires_at = pe_now env + CAPABILITY_GRANT_TTL_MINUTES * 60 \<rparr>"

definition pd_allow :: "policy_env \<Rightarrow> policy_engine \<Rightarrow> run_capability \<Rightarrow> policy_reason \<Rightarrow> policy_decision" where
  "pd_allow env en c r =
     \<lparr> pd_decision = D_Allow, pd_reasons = [r], pd_capability_grant = Some (mint_grant env c),
       pd_policy_version = en_version en, pd_approval_reusable = False \<rparr>"

definition pd_require :: "policy_env \<Rightarrow> policy_engine \<Rightarrow> run_capability \<Rightarrow> policy_reason \<Rightarrow> policy_decision" where
  "pd_require env en c r =
     \<lparr> pd_decision = D_RequireApproval, pd_reasons = [r], pd_capability_grant = Some (mint_grant env c),
       pd_policy_version = en_version en, pd_approval_reusable = True \<rparr>"

definition pd_require_once :: "policy_env \<Rightarrow> policy_engine \<Rightarrow> run_capability \<Rightarrow> policy_reason \<Rightarrow> policy_decision" where
  "pd_require_once env en c r =
     \<lparr> pd_decision = D_RequireApproval, pd_reasons = [r], pd_capability_grant = Some (mint_grant env c),
       pd_policy_version = en_version en, pd_approval_reusable = False \<rparr>"

definition pd_deny :: "policy_engine \<Rightarrow> policy_reason \<Rightarrow> policy_decision" where
  "pd_deny en r =
     \<lparr> pd_decision = D_Deny, pd_reasons = [r], pd_capability_grant = None, pd_policy_version = en_version en,
       pd_approval_reusable = False \<rparr>"

text \<open>The always permitted accesses of the daemon's own state carry no grant.\<close>

definition pd_allow_bare :: "policy_engine \<Rightarrow> policy_reason \<Rightarrow> policy_decision" where
  "pd_allow_bare en r =
     \<lparr> pd_decision = D_Allow, pd_reasons = [r], pd_capability_grant = None, pd_policy_version = en_version en,
       pd_approval_reusable = False \<rparr>"

subsection \<open>Files\<close>

definition eval_read :: "policy_env \<Rightarrow> policy_engine \<Rightarrow> string list \<Rightarrow> eval_context \<Rightarrow> policy_decision" where
  "eval_read env en paths ctx =
     (let sc = file_read_scope env en ctx;
          denied = filter (\<lambda>p. scope_classify (pe_fs env) sc p = SV_Denied) paths;
          outside = filter (\<lambda>p. scope_classify (pe_fs env) sc p = SV_OutsideRoots) paths in
      if denied \<noteq> [] then
        pd_deny en (reason ''policy.path-denied'' (''read blocked by the deny list: '' @ join '', '' denied))
      else if outside \<noteq> [] then
        pd_deny en (reason ''policy.path-out-of-scope'' (''read outside the allowed roots: '' @ join '', '' outside))
      else pd_allow env en (RunCap_FileRead sc) (reason ''policy.read-allowed'' ''all paths are within the read scope''))"

definition plan_exception :: "policy_env \<Rightarrow> eval_context \<Rightarrow> path_scope option" where
  "plan_exception env ctx =
     (case (ec_plan_write_root ctx, ec_write_target ctx) of
        (Some plan_root, Some target) \<Rightarrow>
          (let plan_scope = \<lparr> ps_roots = [plan_root], ps_deny = [] \<rparr> in
           if scope_allows (pe_fs env) plan_scope target then Some plan_scope else None)
      | _ \<Rightarrow> None)"

definition eval_write :: "policy_env \<Rightarrow> policy_engine \<Rightarrow> eval_context \<Rightarrow> policy_decision" where
  "eval_write env en ctx =
     (if \<not> mo_write_allowed (ec_mode ctx) then
        (case plan_exception env ctx of
           Some plan_scope \<Rightarrow>
             pd_allow env en (RunCap_FileWrite plan_scope)
               (reason ''policy.plan-file-write-allowed'' ''Plan mode permits writing the plan file under .codypendent/plans/'')
         | None \<Rightarrow> pd_deny en (reason ''policy.write-denied-by-mode'' ''the active mode forbids filesystem writes''))
      else
        (let sc = file_write_scope env en ctx in
         if ps_roots sc = [] then pd_deny en (reason ''policy.no-write-scope'' ''no writable roots are in scope'')
         else pd_allow env en (RunCap_FileWrite sc)
                (reason ''policy.write-allowed'' ''writes are permitted within the worktree scope'')))"

subsection \<open>Commands\<close>

definition git_consumes_next :: "string list" where
  "git_consumes_next =
     [''-C'', ''-c'', ''--config-env'', ''--git-dir'', ''--work-tree'', ''--namespace'', ''--super-prefix'',
      ''--attr-source'']"

definition git_long_values :: "string list" where
  "git_long_values =
     [''--config-env='', ''--exec-path='', ''--git-dir='', ''--work-tree='', ''--namespace='', ''--super-prefix='',
      ''--attr-source='', ''--list-cmds='']"

definition git_flags :: "string list" where
  "git_flags =
     [''-p'', ''-P'', ''-h'', ''--paginate'', ''--no-pager'', ''--no-replace-objects'', ''--bare'', ''--literal-pathspecs'',
      ''--glob-pathspecs'', ''--noglob-pathspecs'', ''--icase-pathspecs'', ''--no-optional-locks'', ''--no-lazy-fetch'',
      ''--no-advice'', ''--version'', ''--help'', ''--exec-path'', ''--html-path'', ''--man-path'', ''--info-path'']"

fun git_subcommand :: "string list \<Rightarrow> string + string option" where
  "git_subcommand [] = Inr None"
| "git_subcommand (arg # rest) =
     (if arg = ''--'' then Inr (case rest of [] \<Rightarrow> None | x # _ \<Rightarrow> Some x)
      else if \<not> starts_with ''-'' arg \<or> arg = ''-'' then Inr (Some arg)
      else if arg \<in> set git_consumes_next then
        (case rest of
           [] \<Rightarrow> Inl (''git global option `'' @ arg @ ''` is missing its value'')
         | _ # rest' \<Rightarrow> git_subcommand rest')
      else if (starts_with ''-C'' arg \<or> starts_with ''-c'' arg) \<and> 2 < length arg
              \<or> list_ex (\<lambda>p. starts_with p arg) git_long_values then git_subcommand rest
      else if arg \<in> set git_flags then git_subcommand rest
      else Inl (''unsupported git global option `'' @ arg @ ''`; refusing to guess the subcommand''))"

definition git_mutating :: "string list" where
  "git_mutating =
     [''add'', ''am'', ''apply'', ''branch'', ''checkout'', ''cherry-pick'', ''clean'', ''commit'', ''merge'', ''mv'',
      ''rebase'', ''reset'', ''restore'', ''revert'', ''rm'', ''stash'', ''switch'', ''tag'', ''worktree'']"

definition git_networked :: "string list" where
  "git_networked = [''clone'', ''fetch'', ''pull'', ''push'', ''ls-remote'', ''submodule'']"

definition force_push :: "string option \<Rightarrow> string list \<Rightarrow> bool" where
  "force_push subcommand args \<longleftrightarrow>
     subcommand = Some ''push''
     \<and> list_ex (\<lambda>arg. arg \<in> {''-f'', ''--force'', ''--force-with-lease'', ''--force-if-includes''}
          \<or> starts_with ''--force-with-lease='' arg \<or> starts_with ''+'' arg) args"

definition delete_branch :: "string option \<Rightarrow> string list \<Rightarrow> bool" where
  "delete_branch subcommand args \<longleftrightarrow>
     subcommand = Some ''branch'' \<and> list_ex (\<lambda>arg. arg \<in> {''-d'', ''-D'', ''--delete''}) args
     \<or> subcommand = Some ''push''
       \<and> list_ex (\<lambda>arg. arg = ''--delete'' \<or> arg = ''-d'' \<or> starts_with '':'' arg) args"

definition command_disposition ::
  "policy_env \<Rightarrow> policy_engine \<Rightarrow> approval_action \<Rightarrow> command_scope \<Rightarrow> string \<Rightarrow> policy_decision" where
  "command_disposition env en disposition sc operation =
     (let c = RunCap_CommandExecute sc in
      case disposition of
        AA_AlwaysApproval \<Rightarrow> pd_require_once env en c
          (reason ''policy.git-shell-always-requires-approval'' (''git '' @ operation @ '' requires a fresh approval every time''))
      | AA_Deny \<Rightarrow> pd_deny en (reason ''policy.git-shell-denied'' (''git '' @ operation @ '' is denied by policy''))
      | _ \<Rightarrow> pd_require env en c
          (reason ''policy.git-shell-requires-approval'' (''git '' @ operation @ '' requires approval'')))"

definition PATH_SCANNED_PROGRAMS :: "string list" where
  "PATH_SCANNED_PROGRAMS =
     [''cd'', ''rm'', ''cp'', ''mv'', ''mkdir'', ''rmdir'', ''touch'', ''chmod'', ''chown'', ''cat'', ''head'', ''tail'', ''ln'']"

datatype path_scan_hit = PS_Denied string | PS_External "string list"

definition glob_literal_prefix :: "string \<Rightarrow> string option" where
  "glob_literal_prefix arg =
     (let literal = takeWhile (\<lambda>c. c \<notin> {CHR ''?'', CHR ''*'', CHR ''[''}) arg in
      if literal = arg then Some arg else if literal = [] then None else Some literal)"

definition expand_home :: "policy_env \<Rightarrow> string \<Rightarrow> string" where
  "expand_home env path =
     (if path = ''~'' then (case pe_home env of Some h \<Rightarrow> h | None \<Rightarrow> ''~'')
      else case strip_prefix ''~/'' path of
        Some rest \<Rightarrow> (case pe_home env of Some h \<Rightarrow> path_push h rest | None \<Rightarrow> path)
      | None \<Rightarrow>
          if path = ''$HOME'' then (case pe_home env of Some h \<Rightarrow> h | None \<Rightarrow> path)
          else case strip_prefix ''$HOME/'' path of
            Some rest \<Rightarrow> (case pe_home env of Some h \<Rightarrow> path_push h rest | None \<Rightarrow> path)
          | None \<Rightarrow> path)"

definition scanned_path :: "policy_env \<Rightarrow> eval_context \<Rightarrow> string \<Rightarrow> string \<Rightarrow> string option" where
  "scanned_path env ctx program arg =
     (if starts_with ''-'' arg \<or> program = ''chmod'' \<and> starts_with ''+'' arg then None
      else map_option (\<lambda>t. let expanded = expand_home env t in
             if is_absolute expanded then expanded else path_push (ec_worktree ctx) expanded)
           (glob_literal_prefix arg))"

definition external_dir :: "policy_env \<Rightarrow> string \<Rightarrow> string" where
  "external_dir env resolved =
     (if fs_is_dir (pe_fs env) resolved then resolved
      else case path_parent resolved of Some d \<Rightarrow> d | None \<Rightarrow> resolved)"

fun scan_args ::
  "policy_env \<Rightarrow> eval_context \<Rightarrow> path_scope \<Rightarrow> path_scope \<Rightarrow> string \<Rightarrow> string list \<Rightarrow> unit btree \<Rightarrow> path_scan_hit option" where
  "scan_args env ctx rd wr program [] ext = (if ext = [] then None else Some (PS_External (map fst ext)))"
| "scan_args env ctx rd wr program (arg # args) ext =
     (case scanned_path env ctx program arg of
        None \<Rightarrow> scan_args env ctx rd wr program args ext
      | Some resolved \<Rightarrow>
          (let a = scope_classify (pe_fs env) rd resolved; b = scope_classify (pe_fs env) wr resolved in
           if a = SV_Denied \<or> b = SV_Denied then Some (PS_Denied resolved)
           else if a = SV_OutsideRoots \<and> b = SV_OutsideRoots then
             scan_args env ctx rd wr program args (bt_insert (external_dir env resolved) () ext)
           else scan_args env ctx rd wr program args ext))"

definition scan_command_paths ::
  "policy_env \<Rightarrow> policy_engine \<Rightarrow> string \<Rightarrow> string list \<Rightarrow> eval_context \<Rightarrow> path_scan_hit option" where
  "scan_command_paths env en program args ctx =
     (if program \<notin> set PATH_SCANNED_PROGRAMS then None
      else scan_args env ctx (file_read_scope env en ctx) (file_write_scope env en ctx) program args [])"

text \<open>What \<open>eval_command\<close> decides of shell git before the path scan; \<open>None\<close> falls through.\<close>

definition eval_shell_git :: "policy_env \<Rightarrow> policy_engine \<Rightarrow> string list \<Rightarrow> eval_context \<Rightarrow> policy_decision option" where
  "eval_shell_git env en args ctx =
     (case git_subcommand args of
        Inl message \<Rightarrow> Some (pd_deny en (reason ''policy.git-global-option-unsupported'' message))
      | Inr subcommand \<Rightarrow>
          if (\<exists>s \<in> set git_mutating. subcommand = Some s) \<and> \<not> mo_write_allowed (ec_mode ctx) then
            Some (pd_deny en (reason ''policy.git-shell-write-denied-by-mode''
                    ''the active mode forbids repository mutations through shell git''))
          else if (\<exists>s \<in> set git_networked. subcommand = Some s) \<and> \<not> mo_network_allowed (ec_mode ctx) then
            Some (pd_deny en (reason ''policy.git-shell-network-denied-by-mode''
                    ''the active mode forbids networked git commands''))
          else if force_push subcommand args then
            Some (command_disposition env en (mp_git_force_push (en_merged en)) (command_scope_of en) ''force-push'')
          else if delete_branch subcommand args then
            Some (command_disposition env en (mp_git_delete_branch (en_merged en)) (command_scope_of en) ''branch deletion'')
          else None)"

definition eval_command :: "policy_env \<Rightarrow> policy_engine \<Rightarrow> string \<Rightarrow> string list \<Rightarrow> eval_context \<Rightarrow> policy_decision" where
  "eval_command env en program args ctx =
     (if \<not> mo_command_allowed (ec_mode ctx) then
        pd_deny en (reason ''policy.command-denied-by-mode'' ''the active mode forbids command execution'')
      else if \<not> allows_program (command_scope_of en) program then
        pd_deny en (reason ''policy.program-not-allowlisted'' (''`'' @ program @ ''` is not in the shell allow-list''))
      else case (if program = ''git'' then eval_shell_git env en args ctx else None) of
        Some d \<Rightarrow> d
      | None \<Rightarrow>
          (case scan_command_paths env en program args ctx of
             Some (PS_Denied path) \<Rightarrow>
               pd_deny en (reason ''policy.command-path-denied''
                 (''`'' @ program @ ''` targets `'' @ path @ ''`, which is on the filesystem deny list''))
           | Some (PS_External dirs) \<Rightarrow>
               pd_require_once env en (RunCap_CommandExecute (command_scope_of en))
                 (reason ''policy.command-touches-external-paths''
                   (''`'' @ program @ ''` touches paths outside the granted roots: '' @ join '', '' dirs))
           | None \<Rightarrow>
               pd_require env en (RunCap_CommandExecute (command_scope_of en))
                 (reason ''policy.command-requires-approval''
                   (''`'' @ program @ ''` is allow-listed; shell execution requires approval''))))"

definition eval_write_process_stdin :: "policy_env \<Rightarrow> policy_engine \<Rightarrow> eval_context \<Rightarrow> policy_decision" where
  "eval_write_process_stdin env en ctx =
     (if \<not> mo_command_allowed (ec_mode ctx) then
        pd_deny en (reason ''policy.command-denied-by-mode''
          ''the active mode forbids command execution, including process stdin'')
      else pd_require_once env en (RunCap_CommandExecute (command_scope_of en))
        (reason ''policy.process-stdin-requires-approval''
          ''writing to a running process's stdin requires explicit approval, like executing a command''))"

subsection \<open>Network, servers and git\<close>

definition eval_network :: "policy_env \<Rightarrow> policy_engine \<Rightarrow> string \<Rightarrow> eval_context \<Rightarrow> policy_decision" where
  "eval_network env en destination ctx =
     (if \<not> mo_network_allowed (ec_mode ctx) then
        pd_deny en (reason ''policy.network-denied-by-mode'' ''the active mode forbids network connections'')
      else if network_allows (network_scope_of en) destination then
        pd_allow env en (RunCap_NetworkConnect (network_scope_of en))
          (reason ''policy.network-allowed'' (''`'' @ destination @ ''` is permitted by the network policy''))
      else pd_deny en (reason ''policy.network-denied''
        (''`'' @ destination @ ''` is not permitted by the network policy'')))"

definition eval_github_mutation :: "policy_env \<Rightarrow> policy_engine \<Rightarrow> eval_context \<Rightarrow> policy_decision" where
  "eval_github_mutation env en ctx =
     (if \<not> mo_network_allowed (ec_mode ctx) then
        pd_deny en (reason ''policy.github-denied-by-mode'' ''the active mode forbids network connections'')
      else if \<not> network_allows (network_scope_of en) GITHUB_API_ENDPOINT then
        pd_deny en (reason ''policy.github-network-denied''
          (''`'' @ GITHUB_API_ENDPOINT @ ''` is not permitted by the network policy''))
      else pd_require env en (RunCap_NetworkConnect (network_scope_of en))
        (reason ''policy.github-requires-approval'' ''GitHub writes require approval''))"

definition eval_mcp_tool_call :: "policy_env \<Rightarrow> policy_engine \<Rightarrow> string \<Rightarrow> eval_context \<Rightarrow> policy_decision" where
  "eval_mcp_tool_call env en server ctx =
     (if \<not> mo_command_allowed (ec_mode ctx) then
        pd_deny en (reason ''policy.mcp-denied-by-mode''
          ''the active mode forbids command execution, and an MCP tool call is an external effect'')
      else
        (let c = RunCap_McpToolCall server in
         case mcp_effective (en_merged en) server of
           AA_Allow \<Rightarrow> pd_allow env en c
             (reason ''policy.mcp-allowed'' (''MCP server `'' @ server @ ''` is allow-listed by policy''))
         | AA_Approval \<Rightarrow> pd_require env en c
             (reason ''policy.mcp-requires-approval'' (''MCP tool calls to `'' @ server @ ''` require approval''))
         | AA_AlwaysApproval \<Rightarrow> pd_require_once env en c
             (reason ''policy.mcp-always-requires-approval''
               (''MCP tool calls to `'' @ server @ ''` require a fresh approval every time''))
         | AA_Deny \<Rightarrow> pd_deny en (reason ''policy.mcp-denied'' (''MCP server `'' @ server @ ''` is denied by policy''))))"

datatype git_op = Op_Commit | Op_Push

definition eval_git :: "policy_env \<Rightarrow> policy_engine \<Rightarrow> git_op \<Rightarrow> eval_context \<Rightarrow> policy_decision" where
  "eval_git env en oper ctx =
     (if \<not> mo_write_allowed (ec_mode ctx) then
        pd_deny en (reason ''policy.git-denied-by-mode'' ''the active mode forbids repository mutations'')
      else
        (let (action, c, name) =
           (case oper of
              Op_Commit \<Rightarrow> (mp_git_commit (en_merged en), RunCap_GitCommit, ''commit'')
            | Op_Push \<Rightarrow> (mp_git_push (en_merged en), RunCap_GitPush, ''push'')) in
         case action of
           AA_Allow \<Rightarrow> pd_allow env en c (reason ''policy.git-allowed'' (''git '' @ name @ '' is permitted by policy''))
         | AA_Approval \<Rightarrow> pd_require env en c
             (reason ''policy.git-requires-approval'' (''git '' @ name @ '' requires approval''))
         | AA_AlwaysApproval \<Rightarrow> pd_require_once env en c
             (reason ''policy.git-always-requires-approval'' (''git '' @ name @ '' requires a fresh approval every time''))
         | AA_Deny \<Rightarrow> pd_deny en (reason ''policy.git-denied'' (''git '' @ name @ '' is denied by policy''))))"

subsection \<open>The daemon's own state\<close>

definition eval_blackboard :: "policy_engine \<Rightarrow> policy_decision" where
  "eval_blackboard en = pd_allow_bare en
     (reason ''policy.blackboard-allowed'' ''a workflow blackboard access targets only the run's own artifact channel'')"

definition eval_record_memory :: "policy_engine \<Rightarrow> policy_decision" where
  "eval_record_memory en = pd_allow_bare en
     (reason ''policy.record-memory-allowed'' ''a memory proposal note targets only the run's own ledger'')"

definition eval_search_registry :: "policy_engine \<Rightarrow> policy_decision" where
  "eval_search_registry en = pd_allow_bare en
     (reason ''policy.search-registry-allowed'' ''a registry search reads only the daemon's own tool/skill catalog'')"

definition eval_document_edit :: "policy_engine \<Rightarrow> policy_decision" where
  "eval_document_edit en = pd_allow_bare en
     (reason ''policy.document-access-allowed''
       ''a collaborative document edit targets only the store and is still gated by the document's collaboration mode'')"

definition eval_ask_user :: "policy_engine \<Rightarrow> policy_decision" where
  "eval_ask_user en = pd_allow_bare en
     (reason ''policy.ask-user-allowed'' ''a question to the operator targets only the session's own human'')"

definition eval_plan_transition :: "policy_engine \<Rightarrow> policy_decision" where
  "eval_plan_transition en = pd_allow_bare en
     (reason ''policy.plan-transition-allowed''
       ''a plan-mode transition targets only the session's own human and queue'')"

definition eval_read_secret :: "policy_engine \<Rightarrow> string \<Rightarrow> policy_decision" where
  "eval_read_secret en name = pd_allow_bare en
     (reason ''policy.secret-brokered'' (''secret `'' @ name @ ''` is brokered per call''))"

definition eval_restore_checkpoint :: "policy_env \<Rightarrow> policy_engine \<Rightarrow> policy_decision" where
  "eval_restore_checkpoint env en = pd_require_once env en RunCap_RestoreCheckpoint
     (reason ''policy.checkpoint-restore-requires-approval''
       ''restoring a worktree checkpoint requires explicit human approval'')"

definition eval_council :: "policy_env \<Rightarrow> policy_engine \<Rightarrow> policy_decision" where
  "eval_council env en = pd_require_once env en RunCap_CouncilManage
     (reason ''policy.council-requires-approval'' ''creating or running an agent council requires explicit approval'')"

definition eval_workflow :: "policy_env \<Rightarrow> policy_engine \<Rightarrow> policy_decision" where
  "eval_workflow env en = pd_require_once env en RunCap_WorkflowManage
     (reason ''policy.workflow-requires-approval'' ''creating or running a workflow requires explicit approval'')"

fun evaluate :: "policy_env \<Rightarrow> policy_engine \<Rightarrow> proposed_action \<Rightarrow> eval_context \<Rightarrow> policy_decision" where
  "evaluate env en (PA_ReadFiles paths) ctx = eval_read env en paths ctx"
| "evaluate env en (PA_WritePatch _) ctx = eval_write env en ctx"
| "evaluate env en (PA_ExecuteCommand program args _ _) ctx = eval_command env en program args ctx"
| "evaluate env en (PA_NetworkRequest destination) ctx = eval_network env en destination ctx"
| "evaluate env en (PA_GitCommit _) ctx = eval_git env en Op_Commit ctx"
| "evaluate env en (PA_GitPush _ _) ctx = eval_git env en Op_Push ctx"
| "evaluate env en (PA_GitHubMutation _ _) ctx = eval_github_mutation env en ctx"
| "evaluate env en (PA_McpToolCall server _ _ _) ctx = eval_mcp_tool_call env en server ctx"
| "evaluate env en (PA_BlackboardPost _ _) ctx = eval_blackboard en"
| "evaluate env en (PA_BlackboardQuery _) ctx = eval_blackboard en"
| "evaluate env en (PA_WorkflowQuery _) ctx = eval_blackboard en"
| "evaluate env en (PA_TaskWrite _ _) ctx = eval_blackboard en"
| "evaluate env en (PA_TaskRead _) ctx = eval_blackboard en"
| "evaluate env en (PA_CouncilResultRead _) ctx = eval_blackboard en"
| "evaluate env en (PA_CodeGraphQuery _ _) ctx = eval_blackboard en"
| "evaluate env en (PA_CodeGraphAssert _ _) ctx = eval_blackboard en"
| "evaluate env en (PA_CouncilCreate _ _) ctx = eval_council env en"
| "evaluate env en (PA_CouncilRun _ _) ctx = eval_council env en"
| "evaluate env en (PA_WorkflowCreate _ _) ctx = eval_workflow env en"
| "evaluate env en (PA_WorkflowRun _ _ _) ctx = eval_workflow env en"
| "evaluate env en (PA_WriteProcessStdin _ _) ctx = eval_write_process_stdin env en ctx"
| "evaluate env en PA_RecordMemory ctx = eval_record_memory en"
| "evaluate env en PA_SearchRegistry ctx = eval_search_registry en"
| "evaluate env en (PA_DocumentEdit _ _) ctx = eval_document_edit en"
| "evaluate env en (PA_AskUser _ _) ctx = eval_ask_user en"
| "evaluate env en (PA_PlanTransition _) ctx = eval_plan_transition en"
| "evaluate env en (PA_RestoreCheckpoint _ _ _ _) ctx = eval_restore_checkpoint env en"
| "evaluate env en (PA_ReadSecret name) ctx = eval_read_secret en name"
| "evaluate env en _ ctx = pd_deny en
     (reason ''policy.unsupported-action'' ''the proposed action is not recognized by this policy engine'')"

subsection \<open>The context of a run\<close>

text \<open>How the agent loop derives the overlay and the plan directory of a mode (\<open>crates/runtime/src/agent.rs\<close>).\<close>

fun mode_overlay_of :: "agent_mode \<Rightarrow> mode_overlay" where
  "mode_overlay_of Build = permissive"
| "mode_overlay_of Plan = \<lparr> mo_write_allowed = False, mo_command_allowed = True, mo_network_allowed = False \<rparr>"
| "mode_overlay_of Review = \<lparr> mo_write_allowed = False, mo_command_allowed = True, mo_network_allowed = False \<rparr>"
| "mode_overlay_of _ = read_only"

definition plan_write_root :: "agent_mode \<Rightarrow> string \<Rightarrow> string option" where
  "plan_write_root mode worktree =
     (if mode = Plan then Some (path_push (path_push worktree ''.codypendent'') ''plans'') else None)"

definition run_eval_ctx :: "string \<Rightarrow> string \<Rightarrow> agent_mode \<Rightarrow> eval_context" where
  "run_eval_ctx read_root worktree mode =
     \<lparr> ec_repository = read_root, ec_worktree = worktree, ec_mode = mode_overlay_of mode,
       ec_plan_write_root = plan_write_root mode worktree, ec_write_target = None \<rparr>"

definition with_write_target :: "string \<Rightarrow> eval_context \<Rightarrow> eval_context" where
  "with_write_target target ctx = ctx\<lparr> ec_write_target := Some target \<rparr>"

end
