(* ===== verification/Policy_Safety.thy ===== *)
theory Policy_Safety
  imports Policy_Engine
begin

text \<open>
  What the decisions of the policy engine guarantee: a narrower policy and a mode are never looser, side effects
  outside the daemon's own state are never allowed outright, allowed reads are contained in the roots. The final
  section shows two ways past these limits that the code has.
\<close>

subsection \<open>Strictness\<close>

definition strictness :: "policy_decision \<Rightarrow> nat" where
  "strictness d =
     (case pd_decision d of
        D_Allow \<Rightarrow> 0
      | D_RequireApproval \<Rightarrow> if pd_approval_reusable d then 1 else 2
      | D_Deny \<Rightarrow> 3)"

lemma strictness_simps [simp]:
  "strictness (pd_allow env en c r) = 0" "strictness (pd_allow_bare en r) = 0"
  "strictness (pd_require env en c r) = 1" "strictness (pd_require_once env en c r) = 2"
  "strictness (pd_deny en r) = 3"
  by (simp_all add: strictness_def pd_allow_def pd_allow_bare_def pd_require_def pd_require_once_def pd_deny_def)

lemma strictness_le: "strictness d \<le> 3"
  by (auto simp: strictness_def split: decision.splits)

lemma strictness_allow: "strictness d = 0 \<longleftrightarrow> pd_decision d = D_Allow"
  by (auto simp: strictness_def split: decision.splits)

subsection \<open>Narrower scopes\<close>

definition roots_stay_inside :: "policy_env \<Rightarrow> eval_context \<Rightarrow> string list \<Rightarrow> string list \<Rightarrow> bool" where
  "roots_stay_inside env ctx rs' rs \<longleftrightarrow>
     list_all (\<lambda>r'. list_all (\<lambda>r. raw_within r' r \<longrightarrow>
         (case expand_vars ctx (pe_home env) r' of
            None \<Rightarrow> True
          | Some e' \<Rightarrow>
              (case expand_vars ctx (pe_home env) r of
                 None \<Rightarrow> False
               | Some e \<Rightarrow> is_within (canonicalize_lenient (pe_fs env) e') (canonicalize_lenient (pe_fs env) e)))) rs) rs'"

definition scope_le :: "path_scope \<Rightarrow> path_scope \<Rightarrow> bool" where
  "scope_le sc' sc \<longleftrightarrow>
     set (ps_deny sc) \<subseteq> set (ps_deny sc') \<and> (\<forall>r' \<in> set (ps_roots sc'). \<exists>r \<in> set (ps_roots sc). is_within r' r)"

fun verdict_rank :: "scope_verdict \<Rightarrow> nat" where
  "verdict_rank SV_Allowed = 0"
| "verdict_rank SV_OutsideRoots = 1"
| "verdict_rank SV_Denied = 2"

lemma classify_mono:
  assumes "scope_le sc' sc"
  shows "verdict_rank (scope_classify fs sc p) \<le> verdict_rank (scope_classify fs sc' p)"
proof -
  let ?c = "canonicalize_lenient fs p"
  have d: "list_ex (is_within ?c) (ps_deny sc) \<Longrightarrow> list_ex (is_within ?c) (ps_deny sc')"
    using assms by (auto simp: scope_le_def list_ex_iff)
  have r: "list_ex (is_within ?c) (ps_roots sc') \<Longrightarrow> list_ex (is_within ?c) (ps_roots sc)"
    using assms is_within_trans by (simp add: scope_le_def list_ex_iff) blast
  show ?thesis using d r by (simp add: scope_classify_def classify_canonical_def)
qed

lemma expand_denies_append:
  "expand_denies fs ctx home (a @ b) =
     (let (ok, ds) = expand_denies fs ctx home a in
      if ok then (let (ok', ds') = expand_denies fs ctx home b in (ok', ds @ ds')) else (False, ds))"
  by (induction a) (auto split: option.splits prod.splits)

lemma build_scope_le:
  assumes deny: "prefix deny deny'" and roots: "roots_within rs' rs" and stay: "roots_stay_inside env ctx rs' rs"
  shows "scope_le (build_path_scope env rs' deny' ctx) (build_path_scope env rs deny ctx)"
proof -
  obtain more where more: "deny' = deny @ more" using deny by (auto simp: prefix_def)
  obtain ok ds where E: "expand_denies (pe_fs env) ctx (pe_home env) deny = (ok, ds)" by fastforce
  obtain ok' ds' where E': "expand_denies (pe_fs env) ctx (pe_home env) more = (ok', ds')" by fastforce
  define out where "out = expand_vars ctx (pe_home env)"
  have inside: "\<exists>r \<in> set (List.map_filter out rs). is_within (canonicalize_lenient (pe_fs env) e') (canonicalize_lenient (pe_fs env) r)"
    if "e' \<in> set (List.map_filter out rs')" for e'
  proof -
    from that obtain r' where r': "r' \<in> set rs'" "out r' = Some e'" by (auto simp: set_map_filter)
    consider "r' \<in> set rs" | r where "r \<in> set rs" "raw_within r' r" using roots r'(1) by (auto simp: roots_within_def)
    then show ?thesis
    proof cases
      case 1
      then show ?thesis using r'(2) by (auto simp: set_map_filter intro!: exI[of _ e'])
    next
      case 2
      then show ?thesis using stay r' unfolding roots_stay_inside_def
        by (fastforce simp: list_all_iff set_map_filter out_def split: option.splits)
    qed
  qed
  show ?thesis
    using inside unfolding scope_le_def build_path_scope_def build_path_scope_with_home_def more expand_denies_append E E' out_def
    by auto
qed

lemma narrower_scopes:
  assumes "narrower (en_merged en') (en_merged en)"
  shows "roots_stay_inside env ctx (mp_fs_read (en_merged en')) (mp_fs_read (en_merged en)) \<Longrightarrow>
           scope_le (file_read_scope env en' ctx) (file_read_scope env en ctx)"
    and "roots_stay_inside env ctx (mp_fs_write (en_merged en')) (mp_fs_write (en_merged en)) \<Longrightarrow>
           scope_le (file_write_scope env en' ctx) (file_write_scope env en ctx)"
  using assms by (auto simp: narrower_def file_read_scope_def file_write_scope_def intro!: build_scope_le)

subsection \<open>Narrower policies are never looser\<close>

fun scan_rank :: "path_scan_hit option \<Rightarrow> nat" where
  "scan_rank None = 1"
| "scan_rank (Some (PS_External _)) = 2"
| "scan_rank (Some (PS_Denied _)) = 3"

lemma bt_insert_nonempty [simp]: "bt_insert k v m \<noteq> []"
  by (cases m) (auto split: if_splits)

lemma scan_rank_external: "ext \<noteq> [] \<Longrightarrow> 2 \<le> scan_rank (scan_args env ctx rd wr program args ext)"
  by (induction env ctx rd wr program args ext rule: scan_args.induct) (auto simp: Let_def split: option.splits)

lemma scan_rank_le: "scan_rank h \<le> 3"
  by (cases h rule: scan_rank.cases) auto

lemma verdict_cases: "verdict_rank v = 0 \<longleftrightarrow> v = SV_Allowed" "v = SV_Denied \<longleftrightarrow> verdict_rank v = 2" "v = SV_OutsideRoots \<longleftrightarrow> verdict_rank v = 1"
  "verdict_rank v \<le> 2"
  by (cases v; simp)+

lemma scan_args_mono:
  assumes rd: "scope_le rd' rd" and wr: "scope_le wr' wr"
  shows "(ext \<noteq> [] \<longrightarrow> ext' \<noteq> []) \<Longrightarrow>
    scan_rank (scan_args env ctx rd wr program args ext) \<le> scan_rank (scan_args env ctx rd' wr' program args ext')"
proof (induction args arbitrary: ext ext')
  case (Cons arg args)
  show ?case
  proof (cases "scanned_path env ctx program arg")
    case None
    then show ?thesis using Cons by simp
  next
    case (Some p)
    define a b a' b' where "a = scope_classify (pe_fs env) rd p" and "b = scope_classify (pe_fs env) wr p"
      and "a' = scope_classify (pe_fs env) rd' p" and "b' = scope_classify (pe_fs env) wr' p"
    note defs = a_def[symmetric] b_def[symmetric] a'_def[symmetric] b'_def[symmetric]
    have le: "verdict_rank a \<le> verdict_rank a'" "verdict_rank b \<le> verdict_rank b'"
      unfolding a_def b_def a'_def b'_def using classify_mono rd wr by blast+
    show ?thesis
    proof (cases "a' = SV_Denied \<or> b' = SV_Denied")
      case True
      then show ?thesis using Some by (simp add: defs scan_rank_le)
    next
      case False
      then have no: "\<not> (a = SV_Denied \<or> b = SV_Denied)"
        using le verdict_cases(4)[of a'] verdict_cases(4)[of b'] by (auto simp: verdict_cases(2))
      have out: "a = SV_OutsideRoots \<and> b = SV_OutsideRoots \<Longrightarrow> a' = SV_OutsideRoots \<and> b' = SV_OutsideRoots"
        using le False by (cases a'; cases b') auto
      show ?thesis using Some False no out Cons.IH Cons.prems by (simp add: defs)
    qed
  qed
qed simp

lemma command_disposition_mono:
  "a \<le> a' \<Longrightarrow> strictness (command_disposition env en a sc oper) \<le> strictness (command_disposition env en' a' sc' oper)"
  by (cases a; cases a') (simp_all add: command_disposition_def less_eq_approval_action_def)

lemma eval_shell_git_cases:
  "eval_shell_git env en args ctx = None \<longleftrightarrow> eval_shell_git env en' args ctx = None"
  by (auto simp: eval_shell_git_def split: sum.splits)

lemma eval_shell_git_mono:
  assumes "narrower (en_merged en') (en_merged en)" "eval_shell_git env en args ctx = Some d" "eval_shell_git env en' args ctx = Some d'"
  shows "strictness d \<le> strictness d'"
  using assms by (auto simp: eval_shell_git_def narrower_def split: sum.splits if_splits intro: command_disposition_mono)

lemma eval_command_rank:
  "strictness (eval_command env en program args ctx) =
     (if \<not> mo_command_allowed (ec_mode ctx) \<or> program \<notin> set (mp_shell_allowed_programs (en_merged en)) then 3
      else case (if program = ''git'' then eval_shell_git env en args ctx else None) of
        Some d \<Rightarrow> strictness d
      | None \<Rightarrow> scan_rank (scan_command_paths env en program args ctx))"
  by (auto simp: eval_command_def allows_program_def command_scope_of_def list_ex_iff split: option.splits path_scan_hit.splits)

lemma eval_command_mono:
  assumes n: "narrower (en_merged en') (en_merged en)"
    and rd: "scope_le (file_read_scope env en' ctx) (file_read_scope env en ctx)"
    and wr: "scope_le (file_write_scope env en' ctx) (file_write_scope env en ctx)"
  shows "strictness (eval_command env en program args ctx) \<le> strictness (eval_command env en' program args ctx)"
proof -
  have progs: "program \<in> set (mp_shell_allowed_programs (en_merged en')) \<Longrightarrow> program \<in> set (mp_shell_allowed_programs (en_merged en))"
    using n by (auto simp: narrower_def)
  have scan: "scan_rank (scan_command_paths env en program args ctx) \<le> scan_rank (scan_command_paths env en' program args ctx)"
    using scan_args_mono[OF rd wr] by (simp add: scan_command_paths_def)
  show ?thesis
  proof (cases "mo_command_allowed (ec_mode ctx) \<and> program \<in> set (mp_shell_allowed_programs (en_merged en'))")
    case True
    then show ?thesis
      unfolding eval_command_rank using progs scan eval_shell_git_cases[of env en args ctx en'] eval_shell_git_mono[OF n, of env args ctx]
      by (auto split: option.splits)
  next
    case False
    then have "strictness (eval_command env en' program args ctx) = 3" unfolding eval_command_rank by auto
    then show ?thesis using strictness_le by simp
  qed
qed

lemma eval_read_rank:
  "strictness (eval_read env en paths ctx) =
     (if \<forall>p \<in> set paths. scope_classify (pe_fs env) (file_read_scope env en ctx) p = SV_Allowed then 0 else 3)"
proof -
  have v: "v = SV_Allowed \<longleftrightarrow> v \<noteq> SV_Denied \<and> v \<noteq> SV_OutsideRoots" for v by (cases v) simp_all
  show ?thesis unfolding v by (auto simp: eval_read_def Let_def filter_empty_conv)
qed

lemma eval_read_mono:
  assumes "scope_le (file_read_scope env en' ctx) (file_read_scope env en ctx)"
  shows "strictness (eval_read env en paths ctx) \<le> strictness (eval_read env en' paths ctx)"
proof -
  have "scope_classify (pe_fs env) (file_read_scope env en ctx) p = SV_Allowed"
    if "scope_classify (pe_fs env) (file_read_scope env en' ctx) p = SV_Allowed" for p
    using classify_mono[OF assms, of "pe_fs env" p] that by (simp add: verdict_cases(1)[symmetric])
  then show ?thesis by (auto simp: eval_read_rank)
qed

lemma eval_git_mono:
  "narrower (en_merged en') (en_merged en) \<Longrightarrow> strictness (eval_git env en oper ctx) \<le> strictness (eval_git env en' oper ctx)"
  by (cases oper)
     (auto simp: eval_git_def narrower_def less_eq_approval_action_def split: approval_action.splits)

lemma eval_mcp_mono:
  "narrower (en_merged en') (en_merged en) \<Longrightarrow>
     strictness (eval_mcp_tool_call env en server ctx) \<le> strictness (eval_mcp_tool_call env en' server ctx)"
proof -
  assume "narrower (en_merged en') (en_merged en)"
  then have "mcp_effective (en_merged en) server \<le> mcp_effective (en_merged en') server" by (simp add: narrower_def)
  then show ?thesis
    by (auto simp: eval_mcp_tool_call_def less_eq_approval_action_def Let_def split: approval_action.splits)
qed

lemma network_mono:
  "narrower (en_merged en') (en_merged en) \<Longrightarrow> network_allows (network_scope_of en') d \<Longrightarrow> network_allows (network_scope_of en) d"
  by (cases "mp_network_default (en_merged en)")
     (auto simp: narrower_def network_allows_def network_scope_of_def list_ex_iff)

lemma eval_write_mono:
  assumes "scope_le (file_write_scope env en' ctx) (file_write_scope env en ctx)"
  shows "strictness (eval_write env en ctx) \<le> strictness (eval_write env en' ctx)"
proof -
  have "ps_roots (file_write_scope env en ctx) = [] \<Longrightarrow> ps_roots (file_write_scope env en' ctx) = []"
    using assms by (cases "ps_roots (file_write_scope env en' ctx)") (auto simp: scope_le_def)
  then show ?thesis by (auto simp: eval_write_def Let_def split: option.splits)
qed

lemmas own_state_defs = eval_blackboard_def eval_record_memory_def eval_search_registry_def eval_document_edit_def
  eval_ask_user_def eval_plan_transition_def eval_read_secret_def eval_restore_checkpoint_def eval_council_def
  eval_workflow_def eval_write_process_stdin_def

lemma narrower_never_looser:
  assumes n: "narrower (en_merged en') (en_merged en)"
    and rd: "roots_stay_inside env ctx (mp_fs_read (en_merged en')) (mp_fs_read (en_merged en))"
    and wr: "roots_stay_inside env ctx (mp_fs_write (en_merged en')) (mp_fs_write (en_merged en))"
  shows "strictness (evaluate env en a ctx) \<le> strictness (evaluate env en' a ctx)"
proof -
  note scopes = narrower_scopes(1)[OF n rd] narrower_scopes(2)[OF n wr]
  have net: "strictness (eval_network env en d ctx) \<le> strictness (eval_network env en' d ctx)" for d
    using network_mono[OF n, of d] by (auto simp: eval_network_def)
  have hub: "strictness (eval_github_mutation env en ctx) \<le> strictness (eval_github_mutation env en' ctx)"
    using network_mono[OF n, of GITHUB_API_ENDPOINT] by (auto simp: eval_github_mutation_def)
  show ?thesis
    by (cases a)
       (simp_all add: own_state_defs eval_read_mono[OF scopes(1)] eval_write_mono[OF scopes(2)]
          eval_command_mono[OF n scopes] eval_git_mono[OF n] eval_mcp_mono[OF n] net hub)
qed

lemma narrower_admitting:
  assumes "narrower m' m"
  shows "narrower (m'\<lparr> mp_network_allow := mp_network_allow m' @ es \<rparr>) (m\<lparr> mp_network_allow := mp_network_allow m @ es \<rparr>)"
proof -
  have "mcp_effective (q\<lparr> mp_network_allow := xs \<rparr>) server = mcp_effective q server" for q xs server
    by (simp add: mcp_effective_def split: option.split)
  then show ?thesis using assms by (auto simp: narrower_def)
qed

lemma load_over_untrusted:
  "load_over read toml apply_untrusted_overlay path m = Inr m' \<Longrightarrow> narrower m' m"
  by (auto simp: load_over_def res_bind_Inr_iff untrusted_overlay_narrower split: option.splits)

lemma load_policy_layers:
  assumes "load_policy C sd read toml repo global = Inr en'" "load_policy C sd read toml None global = Inr en"
  shows "narrower (en_merged en') (en_merged en)"
proof -
  obtain m m' where "load_over read toml apply_trusted_overlay global builtin_defaults = Inr m"
    and m': "load_over read toml apply_untrusted_overlay repo m = Inr m'" "en' = from_merged C sd m'"
    using assms(1) by (auto simp: load_policy_def res_bind_Inr_iff)
  then have "en = from_merged C sd m" using assms(2) by (simp add: load_policy_def load_over_def)
  then show ?thesis using load_over_untrusted[OF m'(1)] m'(2) by (simp add: from_merged_def)
qed

subsection \<open>What is allowed outright\<close>

fun own_state :: "proposed_action \<Rightarrow> bool" where
  "own_state (PA_BlackboardPost _ _) = True"
| "own_state (PA_BlackboardQuery _) = True"
| "own_state (PA_WorkflowQuery _) = True"
| "own_state (PA_TaskWrite _ _) = True"
| "own_state (PA_TaskRead _) = True"
| "own_state (PA_CouncilResultRead _) = True"
| "own_state (PA_CodeGraphQuery _ _) = True"
| "own_state (PA_CodeGraphAssert _ _) = True"
| "own_state PA_RecordMemory = True"
| "own_state PA_SearchRegistry = True"
| "own_state (PA_DocumentEdit _ _) = True"
| "own_state (PA_AskUser _ _) = True"
| "own_state (PA_PlanTransition _) = True"
| "own_state (PA_ReadSecret _) = True"
| "own_state _ = False"

text \<open>
  What the policy promises, over the settings of the merged files alone. An entry of a list of directories holds a path when
  its variables expand and the resolved path lies at or below the resolved entry.
\<close>

definition entry_holds :: "policy_env \<Rightarrow> eval_context \<Rightarrow> string \<Rightarrow> string \<Rightarrow> bool" where
  "entry_holds env ctx entry p \<longleftrightarrow>
     (case expand_vars ctx (pe_home env) entry of
        None \<Rightarrow> False
      | Some e \<Rightarrow> is_within (canonicalize_lenient (pe_fs env) p) (canonicalize_lenient (pe_fs env) e))"

definition expands :: "policy_env \<Rightarrow> eval_context \<Rightarrow> string \<Rightarrow> bool" where
  "expands env ctx entry \<longleftrightarrow> expand_vars ctx (pe_home env) entry \<noteq> None"

fun allowed_outright :: "policy_env \<Rightarrow> merged_policy \<Rightarrow> proposed_action \<Rightarrow> eval_context \<Rightarrow> bool" where
  "allowed_outright env m (PA_ReadFiles paths) ctx =
     (\<forall>p \<in> set paths. (\<exists>r \<in> set (mp_fs_read m). entry_holds env ctx r p)
        \<and> (\<forall>d \<in> set (mp_fs_deny m). expands env ctx d \<and> \<not> entry_holds env ctx d p))"
| "allowed_outright env m (PA_WritePatch _) ctx =
     (mo_write_allowed (ec_mode ctx) \<and> (\<exists>r \<in> set (mp_fs_write m). expands env ctx r)
        \<and> (\<forall>d \<in> set (mp_fs_deny m). expands env ctx d))"
| "allowed_outright env m (PA_NetworkRequest d) ctx =
     (mo_network_allowed (ec_mode ctx) \<and> (d \<in> set (mp_network_allow m) \<or> mp_network_default m = ND_Allow))"
| "allowed_outright env m (PA_GitCommit _) ctx = (mo_write_allowed (ec_mode ctx) \<and> mp_git_commit m = AA_Allow)"
| "allowed_outright env m (PA_GitPush _ _) ctx = (mo_write_allowed (ec_mode ctx) \<and> mp_git_push m = AA_Allow)"
| "allowed_outright env m (PA_McpToolCall server _ _ _) ctx =
     (mo_command_allowed (ec_mode ctx)
        \<and> (map_of (mp_mcp_servers m) server = Some AA_Allow
           \<or> map_of (mp_mcp_servers m) server = None \<and> mp_mcp_default m = AA_Allow))"
| "allowed_outright env m a ctx = own_state a"

lemma expand_denies_fst: "fst (expand_denies fs ctx home ds) \<longleftrightarrow> (\<forall>d \<in> set ds. expand_vars ctx home d \<noteq> None)"
  by (induction ds) (auto split: option.splits prod.splits)

lemma expand_denies_snd:
  "fst (expand_denies fs ctx home ds) \<Longrightarrow>
     set (snd (expand_denies fs ctx home ds)) = {canonicalize_lenient fs e | d e. d \<in> set ds \<and> expand_vars ctx home d = Some e}"
  by (induction ds) (auto split: option.splits prod.splits)

lemma classify_allowed:
  "scope_classify (pe_fs env) (build_path_scope env roots deny ctx) p = SV_Allowed \<longleftrightarrow>
     (\<exists>r \<in> set roots. entry_holds env ctx r p) \<and> (\<forall>d \<in> set deny. expands env ctx d \<and> \<not> entry_holds env ctx d p)"
proof -
  let ?E = "expand_denies (pe_fs env) ctx (pe_home env) deny"
  have sc: "build_path_scope env roots deny ctx =
      (if fst ?E then \<lparr> ps_roots = map (canonicalize_lenient (pe_fs env)) (List.map_filter (expand_vars ctx (pe_home env)) roots),
                      ps_deny = snd ?E \<rparr>
       else \<lparr> ps_roots = [], ps_deny = snd ?E \<rparr>)"
    by (simp add: build_path_scope_def build_path_scope_with_home_def split: prod.splits)
  have root: "list_ex (is_within (canonicalize_lenient (pe_fs env) p))
        (map (canonicalize_lenient (pe_fs env)) (List.map_filter (expand_vars ctx (pe_home env)) roots))
      \<longleftrightarrow> (\<exists>r \<in> set roots. entry_holds env ctx r p)"
    by (auto simp: list_ex_iff set_map_filter entry_holds_def split: option.splits)
  have all: "fst ?E \<longleftrightarrow> (\<forall>d \<in> set deny. expands env ctx d)" by (simp add: expand_denies_fst expands_def)
  have deny: "fst ?E \<Longrightarrow> list_ex (is_within (canonicalize_lenient (pe_fs env) p)) (snd ?E) \<longleftrightarrow> (\<exists>d \<in> set deny. entry_holds env ctx d p)"
    by (fastforce simp: list_ex_iff expand_denies_snd entry_holds_def split: option.splits)
  show ?thesis
  proof (cases "fst ?E")
    case True
    then show ?thesis using all deny by (auto simp: scope_classify_def classify_canonical_def sc root)
  next
    case False
    then show ?thesis using all by (auto simp: scope_classify_def classify_canonical_def sc)
  qed
qed

lemma write_roots:
  "ps_roots (build_path_scope env roots deny ctx) \<noteq> [] \<longleftrightarrow>
     (\<exists>r \<in> set roots. expands env ctx r) \<and> (\<forall>d \<in> set deny. expands env ctx d)"
proof -
  have "List.map_filter f xs \<noteq> [] \<longleftrightarrow> (\<exists>x \<in> set xs. f x \<noteq> None)" for f :: "string \<Rightarrow> string option" and xs
    by (induction xs) (auto simp: List.map_filter_simps split: option.splits)
  then show ?thesis
    using expand_denies_fst[of "pe_fs env" ctx "pe_home env" deny]
    by (auto simp: build_path_scope_def build_path_scope_with_home_def expands_def split: prod.splits)
qed

lemma command_disposition_pos: "0 < strictness (command_disposition env en a sc oper)"
  by (cases a) (simp_all add: command_disposition_def)

lemma eval_command_pos: "0 < strictness (eval_command env en program args ctx)"
proof -
  have "0 < scan_rank h" for h by (cases h rule: scan_rank.cases) auto
  moreover have "eval_shell_git env en args ctx = Some d \<Longrightarrow> 0 < strictness d" for d
    by (auto simp: eval_shell_git_def command_disposition_pos split: sum.splits if_splits)
  ultimately show ?thesis by (auto simp: eval_command_rank split: option.splits)
qed

lemma allow_read:
  "pd_decision (eval_read env en paths ctx) = D_Allow \<longleftrightarrow>
     (\<forall>p \<in> set paths. scope_classify (pe_fs env) (file_read_scope env en ctx) p = SV_Allowed)"
  unfolding strictness_allow[symmetric] by (simp add: eval_read_rank)

lemma allow_command: "pd_decision (eval_command env en program args ctx) \<noteq> D_Allow"
  unfolding strictness_allow[symmetric] using eval_command_pos[of env en program args ctx] by simp

lemma allow_network:
  "pd_decision (eval_network env en d ctx) = D_Allow \<longleftrightarrow>
     mo_network_allowed (ec_mode ctx) \<and> (d \<in> set (mp_network_allow (en_merged en)) \<or> mp_network_default (en_merged en) = ND_Allow)"
  unfolding strictness_allow[symmetric] by (auto simp: eval_network_def network_allows_def network_scope_of_def list_ex_iff)

lemma allow_write:
  assumes "mo_write_allowed (ec_mode ctx) \<or> ec_plan_write_root ctx = None"
  shows "pd_decision (eval_write env en ctx) = D_Allow \<longleftrightarrow>
     mo_write_allowed (ec_mode ctx) \<and> ps_roots (file_write_scope env en ctx) \<noteq> []"
  unfolding strictness_allow[symmetric] using assms by (auto simp: eval_write_def plan_exception_def Let_def)

lemma allow_git:
  "pd_decision (eval_git env en oper ctx) = D_Allow \<longleftrightarrow>
     mo_write_allowed (ec_mode ctx)
     \<and> (case oper of Op_Commit \<Rightarrow> mp_git_commit (en_merged en) | Op_Push \<Rightarrow> mp_git_push (en_merged en)) = AA_Allow"
  unfolding strictness_allow[symmetric] by (cases oper) (auto simp: eval_git_def Let_def split: approval_action.splits)

lemma allow_mcp:
  "pd_decision (eval_mcp_tool_call env en server ctx) = D_Allow \<longleftrightarrow>
     mo_command_allowed (ec_mode ctx) \<and> mcp_effective (en_merged en) server = AA_Allow"
  unfolding strictness_allow[symmetric] by (auto simp: eval_mcp_tool_call_def Let_def split: approval_action.splits)

lemma never_allowed:
  "pd_decision (eval_github_mutation env en ctx) \<noteq> D_Allow" "pd_decision (eval_write_process_stdin env en ctx) \<noteq> D_Allow"
  unfolding strictness_allow[symmetric] by (simp_all add: eval_github_mutation_def eval_write_process_stdin_def)

lemmas allow_decisions = allow_read allow_command allow_network allow_git allow_mcp never_allowed

text \<open>
  C6: Exactly these actions are allowed without a human: reads of which every resolved path lies in a read root and in no entry
  of the deny list, all of whose entries expand; patches when the mode permits writes, a write root expands and so does every
  deny entry; connections, commits, pushes and server calls that the mode permits and the merged settings allow; and accesses of
  the daemon's own state. A command, input to a process, a GitHub write, a council, a workflow, a checkpoint restore, a document
  publication, a call of an external agent and an unknown action never are, whatever the policy files say. A patch in a mode
  without writes that has a plan directory is left out: there the engine does not look at the deny list.
\<close>

theorem evaluate_allow_iff:
  assumes "\<And>diff. a = PA_WritePatch diff \<Longrightarrow> mo_write_allowed (ec_mode ctx) \<or> ec_plan_write_root ctx = None"
  shows "pd_decision (evaluate env en a ctx) = D_Allow \<longleftrightarrow> allowed_outright env (en_merged en) a ctx"
proof (cases a)
  case (PA_WritePatch diff)
  then show ?thesis using assms by (simp add: allow_write file_write_scope_def write_roots)
next
  case (PA_McpToolCall server tool arguments digest)
  then show ?thesis by (auto simp: allow_mcp mcp_effective_def split: option.splits)
qed (simp_all add: allow_decisions own_state_defs file_read_scope_def classify_allowed
       pd_allow_bare_def pd_require_once_def pd_deny_def)

text \<open>
  C7: The repository's policy file only narrows. Whatever it says, and whatever the user's own file and the endpoints the
  daemon admits afterwards are, every action is decided at least as strictly with the file as without it, in every context
  where each root the file narrows to resolves inside the root it narrows.
\<close>

theorem repo_layer_never_loosens:
  assumes with_repo: "load_policy C sd read toml (Some repo) global = Inr en'"
    and without: "load_policy C sd read toml None global = Inr en"
    and "roots_stay_inside env ctx (mp_fs_read (en_merged en')) (mp_fs_read (en_merged en))"
    and "roots_stay_inside env ctx (mp_fs_write (en_merged en')) (mp_fs_write (en_merged en))"
  shows "strictness (evaluate env (admitting_network C sd endpoints en) a ctx)
       \<le> strictness (evaluate env (admitting_network C sd endpoints en') a ctx)"
  using assms(3,4) narrower_admitting[OF load_policy_layers[OF with_repo without]]
  by (intro narrower_never_looser) (simp_all add: admitting_network_def from_merged_def)

subsection \<open>Modes\<close>

lemma permissive_simps [simp]:
  "mo_write_allowed permissive" "mo_command_allowed permissive" "mo_network_allowed permissive"
  by (simp_all add: permissive_def)

lemma scopes_ignore_mode [simp]:
  "file_read_scope env en (ctx\<lparr> ec_mode := mo \<rparr>) = file_read_scope env en ctx"
  "file_write_scope env en (ctx\<lparr> ec_mode := mo \<rparr>) = file_write_scope env en ctx"
proof -
  have vars: "expand_vars (ctx\<lparr> ec_mode := mo \<rparr>) home = expand_vars ctx home" for home
    by (simp add: expand_vars_def fun_eq_iff Let_def)
  have denies: "expand_denies fs (ctx\<lparr> ec_mode := mo \<rparr>) home ds = expand_denies fs ctx home ds" for fs home ds
    by (induction ds) (simp_all add: vars cong: option.case_cong)
  show "file_read_scope env en (ctx\<lparr> ec_mode := mo \<rparr>) = file_read_scope env en ctx"
    "file_write_scope env en (ctx\<lparr> ec_mode := mo \<rparr>) = file_write_scope env en ctx"
    unfolding file_read_scope_def file_write_scope_def build_path_scope_def build_path_scope_with_home_def vars denies
    by (rule refl)+
qed

lemma scan_ignores_mode [simp]:
  "scan_command_paths env en program args (ctx\<lparr> ec_mode := mo \<rparr>) = scan_command_paths env en program args ctx"
proof -
  have "scanned_path env (ctx\<lparr> ec_mode := mo \<rparr>) = scanned_path env ctx"
    by (simp add: scanned_path_def fun_eq_iff Let_def cong: if_cong)
  then have "scan_args env (ctx\<lparr> ec_mode := mo \<rparr>) rd wr program args ext = scan_args env ctx rd wr program args ext" for rd wr ext
    by (induction args arbitrary: ext) (simp_all add: Let_def cong: option.case_cong if_cong)
  then show ?thesis by (simp add: scan_command_paths_def)
qed

lemma shell_git_mode:
  assumes "eval_shell_git env en args ctx = Some d"
  shows "strictness d = 3 \<or> eval_shell_git env en args (ctx\<lparr> ec_mode := permissive \<rparr>) = Some d"
  using assms by (auto simp: eval_shell_git_def permissive_def split: sum.splits if_splits)

lemma shell_git_mode_None:
  "eval_shell_git env en args ctx = None \<Longrightarrow> eval_shell_git env en args (ctx\<lparr> ec_mode := permissive \<rparr>) = None"
  by (auto simp: eval_shell_git_def permissive_def split: sum.splits if_splits)

lemma eval_command_mode:
  "strictness (eval_command env en program args (ctx\<lparr> ec_mode := permissive \<rparr>)) \<le> strictness (eval_command env en program args ctx)"
proof (cases "mo_command_allowed (ec_mode ctx) \<and> program \<in> set (mp_shell_allowed_programs (en_merged en))")
  case True
  show ?thesis
  proof (cases "if program = ''git'' then eval_shell_git env en args ctx else None")
    case None
    then have "(if program = ''git'' then eval_shell_git env en args (ctx\<lparr> ec_mode := permissive \<rparr>) else None) = None"
      using shell_git_mode_None by (simp split: if_splits)
    with None True show ?thesis unfolding eval_command_rank by simp
  next
    case (Some d)
    then have "program = ''git''" "eval_shell_git env en args ctx = Some d" by (simp_all split: if_splits)
    note git = this
    then have rank: "strictness (eval_command env en program args ctx) = strictness d" using True by (simp add: eval_command_rank)
    from shell_git_mode[OF git(2)] show ?thesis
    proof
      assume "strictness d = 3"
      then show ?thesis using rank strictness_le by simp
    next
      assume "eval_shell_git env en args (ctx\<lparr> ec_mode := permissive \<rparr>) = Some d"
      then show ?thesis unfolding rank using git(1) True by (simp add: eval_command_rank)
    qed
  qed
next
  case False
  then have "strictness (eval_command env en program args ctx) = 3" by (auto simp: eval_command_rank)
  then show ?thesis using strictness_le by simp
qed

text \<open>
  C8: A mode only adds restrictions: outside the plan-file exception every action is decided at least as strictly under the
  mode of the run as with no mode at all.
\<close>

theorem mode_only_tightens:
  assumes "plan_exception env ctx = None"
  shows "strictness (evaluate env en a (ctx\<lparr> ec_mode := permissive \<rparr>)) \<le> strictness (evaluate env en a ctx)"
proof (cases a)
  case (PA_ExecuteCommand program args environment cwd)
  then show ?thesis using eval_command_mode by simp
qed (use assms strictness_le in \<open>simp_all add: own_state_defs eval_read_rank eval_write_def eval_network_def eval_git_def
       eval_github_mutation_def eval_mcp_tool_call_def Let_def\<close>)

subsection \<open>Containment of reads\<close>

lemma expand_denies_ok:
  "expand_denies fs ctx home ds = (True, es) \<Longrightarrow> d \<in> set ds \<Longrightarrow> \<exists>e. expand_vars ctx home d = Some e \<and> canonicalize_lenient fs e \<in> set es"
  by (induction ds arbitrary: es) (auto split: option.splits prod.splits)

text \<open>
  C9: An allowed read is contained: its resolved path is absolute without \<open>.\<close> or \<open>..\<close>, lies within a resolved read root, and
  every entry of the deny list resolved and does not hold it. A deny entry that cannot be expanded refuses every read.
\<close>

theorem allowed_reads_contained:
  assumes "resolves_plainly (pe_fs env)" and "pd_decision (evaluate env en (PA_ReadFiles paths) ctx) = D_Allow"
    and "p \<in> set paths" "is_absolute p"
  shows "plain_path (canonicalize_lenient (pe_fs env) p)
    \<and> (\<exists>r e. r \<in> set (mp_fs_read (en_merged en)) \<and> expand_vars ctx (pe_home env) r = Some e
         \<and> is_within (canonicalize_lenient (pe_fs env) p) (canonicalize_lenient (pe_fs env) e))
    \<and> (\<forall>d. d \<in> set (mp_fs_deny (en_merged en)) \<longrightarrow> (\<exists>e. expand_vars ctx (pe_home env) d = Some e
         \<and> \<not> is_within (canonicalize_lenient (pe_fs env) p) (canonicalize_lenient (pe_fs env) e)))"
proof -
  obtain ok ds where E: "expand_denies (pe_fs env) ctx (pe_home env) (mp_fs_deny (en_merged en)) = (ok, ds)" by fastforce
  have "scope_classify (pe_fs env) (file_read_scope env en ctx) p = SV_Allowed"
    using assms(2,3) unfolding strictness_allow[symmetric] by (simp add: eval_read_rank split: if_splits)
  then have root: "list_ex (is_within (canonicalize_lenient (pe_fs env) p)) (ps_roots (file_read_scope env en ctx))"
    and deny: "\<not> list_ex (is_within (canonicalize_lenient (pe_fs env) p)) (ps_deny (file_read_scope env en ctx))"
    by (auto simp: scope_classify_def classify_canonical_def split: if_splits)
  have "ok" using root by (cases ok) (auto simp: file_read_scope_def build_path_scope_def build_path_scope_with_home_def E)
  then have E: "expand_denies (pe_fs env) ctx (pe_home env) (mp_fs_deny (en_merged en)) = (True, ds)" using E by simp
  have sc: "file_read_scope env en ctx = \<lparr> ps_roots = map (canonicalize_lenient (pe_fs env))
      (List.map_filter (expand_vars ctx (pe_home env)) (mp_fs_read (en_merged en))), ps_deny = ds \<rparr>"
    by (simp add: file_read_scope_def build_path_scope_def build_path_scope_with_home_def E)
  have "\<exists>r e. r \<in> set (mp_fs_read (en_merged en)) \<and> expand_vars ctx (pe_home env) r = Some e
         \<and> is_within (canonicalize_lenient (pe_fs env) p) (canonicalize_lenient (pe_fs env) e)"
    using root unfolding sc by (auto simp: list_ex_iff set_map_filter)
  moreover have "\<exists>e. expand_vars ctx (pe_home env) d = Some e
         \<and> \<not> is_within (canonicalize_lenient (pe_fs env) p) (canonicalize_lenient (pe_fs env) e)"
    if "d \<in> set (mp_fs_deny (en_merged en))" for d
    using expand_denies_ok[OF E that] deny unfolding sc by (auto simp: list_ex_iff)
  ultimately show ?thesis using lenient_plain[OF assms(1,4)] by blast
qed

subsection \<open>A concrete file system\<close>

text \<open>
  A repository \<open>/r\<close> whose entry \<open>link\<close> is a symbolic link to \<open>/etc\<close>: what \<open>canonicalize\<close> returns for every path
  that exists.
\<close>

definition sample_paths :: "(string \<times> string) list" where
  "sample_paths =
     [(''/'', ''/''), (''/r'', ''/r''), (''/r/link'', ''/etc''), (''/r/link/passwd'', ''/etc/passwd''), (''/r/src'', ''/r/src''),
      (''/etc'', ''/etc''), (''/etc/passwd'', ''/etc/passwd''), (''/w'', ''/w''), (''/w/.codypendent'', ''/w/.codypendent''),
      (''/w/.codypendent/plans'', ''/w/.codypendent/plans''), (''/h'', ''/h'')]"

definition sample_fs :: file_system where
  "sample_fs =
     \<lparr> fs_canonicalize = map_of sample_paths, fs_exists = (\<lambda>p. map_of sample_paths p \<noteq> None), fs_is_dir = (\<lambda>p. False) \<rparr>"

definition sample_env :: policy_env where
  "sample_env = \<lparr> pe_fs = sample_fs, pe_home_var = Some ''/h'', pe_base_home = None, pe_now = 0 \<rparr>"

definition sample_ctx :: eval_context where
  "sample_ctx = new_context ''/r'' ''/w''"

definition raw_empty :: raw_policy where
  "raw_empty =
     \<lparr> rp_schema_version = None, rp_scope = None, rp_data = None, rp_filesystem = None, rp_shell = None, rp_network = None,
       rp_git = None, rp_mcp = None, rp_plugins = None, rp_memory = None \<rparr>"

text \<open>The repository's file, as its only setting the read roots.\<close>

definition sample_raw :: "string \<Rightarrow> raw_policy" where
  "sample_raw r = raw_empty\<lparr> rp_filesystem := Some \<lparr> rf_read = Some [r], rf_write = None, rf_deny = None \<rparr> \<rparr>"

definition sample_read :: "string \<Rightarrow> read_error + string" where
  "sample_read path = (if path = ''/r/.codypendent/policy.toml'' then Inr [] else Inl RE_NotFound)"

definition sample_engine :: "crypto \<Rightarrow> serde \<Rightarrow> string \<Rightarrow> policy_engine" where
  "sample_engine C sd r = from_merged C sd (builtin_defaults\<lparr> mp_fs_read := intersect_roots [''$REPOSITORY''] [r] \<rparr>)"

lemma sample_loads:
  "load_policy C sd sample_read (\<lambda>_. Inr (sample_raw r)) (Some ''/r/.codypendent/policy.toml'') None = Inr (sample_engine C sd r)"
  "load_policy C sd sample_read (\<lambda>_. Inr (sample_raw r)) None None = Inr (from_merged C sd builtin_defaults)"
  by (simp_all add: load_policy_def load_over_def load_layer_def sample_read_def sample_engine_def sample_raw_def raw_empty_def
        apply_untrusted_overlay_def when_set_def narrow_filesystem_def builtin_defaults_def)

lemma sample_plain: "resolves_plainly sample_fs"
proof -
  have "list_all (\<lambda>(p, q). plain_path q) sample_paths" by code_simp
  then show ?thesis by (auto simp: resolves_plainly_def sample_fs_def list_all_iff dest!: map_of_SomeD)
qed

lemma sample_roots:
  "intersect_roots [''$REPOSITORY''] [''$REPOSITORY/src''] = [''$REPOSITORY/src'']"
  "intersect_roots [''$REPOSITORY''] [''$REPOSITORY/link''] = [''$REPOSITORY/link'']"
  by code_simp+

lemma sample_stays:
  "roots_stay_inside sample_env sample_ctx [''$REPOSITORY/src''] [''$REPOSITORY'']"
  "roots_stay_inside sample_env sample_ctx [''$WORKTREE''] [''$WORKTREE'']"
  by code_simp+

lemma from_merged_sel [simp]: "en_merged (from_merged C sd m) = m"
  by (simp add: from_merged_def)

lemma builtin_roots [simp]:
  "mp_fs_read builtin_defaults = [''$REPOSITORY'']" "mp_fs_write builtin_defaults = [''$WORKTREE'']"
  by (simp_all add: builtin_defaults_def)

theorem evaluate_allow_iff_witness:
  "pd_decision (evaluate sample_env (with_defaults example_crypto serde_example) (PA_WritePatch []) sample_ctx) = D_Allow
   \<and> pd_decision (evaluate sample_env (with_defaults example_crypto serde_example) (PA_ReadFiles [''/r/link/passwd'']) sample_ctx) \<noteq> D_Allow"
proof -
  have w: "\<forall>d \<in> set (mp_fs_deny builtin_defaults). expands sample_env sample_ctx d"
    "\<exists>r \<in> set (mp_fs_write builtin_defaults). expands sample_env sample_ctx r"
    "\<not> (\<exists>r \<in> set (mp_fs_read builtin_defaults). entry_holds sample_env sample_ctx r ''/r/link/passwd'')"
    "mo_write_allowed (ec_mode sample_ctx)"
    by code_simp+
  show ?thesis
    using evaluate_allow_iff[of "PA_WritePatch []" sample_ctx sample_env "with_defaults example_crypto serde_example"]
      evaluate_allow_iff[of "PA_ReadFiles [''/r/link/passwd'']" sample_ctx sample_env "with_defaults example_crypto serde_example"] w
    by (simp add: with_defaults_def del: bex_simps ball_simps)
qed

theorem repo_layer_never_loosens_witness:
  "strictness (evaluate sample_env (admitting_network example_crypto serde_example [] (from_merged example_crypto serde_example builtin_defaults))
        (PA_ReadFiles [''/etc/passwd'']) sample_ctx)
      \<le> strictness (evaluate sample_env
          (admitting_network example_crypto serde_example [] (sample_engine example_crypto serde_example ''$REPOSITORY/src''))
        (PA_ReadFiles [''/etc/passwd'']) sample_ctx)"
  by (rule repo_layer_never_loosens[OF sample_loads])
     (simp_all add: sample_engine_def sample_roots sample_stays)

theorem mode_only_tightens_witness:
  "plan_exception sample_env (run_eval_ctx ''/r'' ''/w'' Explore) = None
   \<and> strictness (evaluate sample_env (with_defaults example_crypto serde_example) (PA_GitCommit []) ((run_eval_ctx ''/r'' ''/w'' Explore)\<lparr> ec_mode := permissive \<rparr>))
        \<le> strictness (evaluate sample_env (with_defaults example_crypto serde_example) (PA_GitCommit [])
             (run_eval_ctx ''/r'' ''/w'' Explore))"
proof -
  have "plan_exception sample_env (run_eval_ctx ''/r'' ''/w'' Explore) = None"
    by (simp add: plan_exception_def run_eval_ctx_def plan_write_root_def)
  with mode_only_tightens[OF this] show ?thesis by blast
qed

lemma sample_read_scope:
  "scope_classify sample_fs (build_path_scope sample_env [''$REPOSITORY''] (mp_fs_deny builtin_defaults) sample_ctx) ''/r/src'' = SV_Allowed"
  "scope_classify sample_fs (build_path_scope sample_env [''$REPOSITORY''] (mp_fs_deny builtin_defaults) sample_ctx) ''/etc/passwd'' = SV_OutsideRoots"
  "scope_classify sample_fs (build_path_scope sample_env [''$REPOSITORY/link''] (mp_fs_deny builtin_defaults) sample_ctx) ''/etc/passwd'' = SV_Allowed"
  by code_simp+

lemma sample_env_fs [simp]: "pe_fs sample_env = sample_fs"
  by (simp add: sample_env_def)

theorem allowed_reads_contained_witness:
  "plain_path (canonicalize_lenient sample_fs ''/r/src'')"
proof -
  let ?en = "from_merged example_crypto serde_example builtin_defaults"
  have "pd_decision (evaluate sample_env ?en (PA_ReadFiles [''/r/src'']) sample_ctx) = D_Allow"
    unfolding strictness_allow[symmetric] by (simp add: eval_read_rank file_read_scope_def sample_read_scope)
  moreover have "is_absolute ''/r/src''" by (simp add: is_absolute_def starts_with_def)
  ultimately show ?thesis
    using allowed_reads_contained[of sample_env ?en "[''/r/src'']" sample_ctx "''/r/src''"] sample_plain by simp
qed

subsection \<open>Ways past the limits\<close>

text \<open>
  C39: A repository's policy file can widen the read scope through a symbolic link. The file of a repository whose entry
  \<open>link\<close> points to \<open>/etc\<close> narrows the read roots to \<open>$REPOSITORY/link\<close>, which lies below \<open>$REPOSITORY\<close> as a string; the root
  is resolved when an action is evaluated, so a file of \<open>/etc\<close> that is refused without the policy file is allowed with it.
\<close>

theorem symlinked_root_widens:
  "\<exists>toml en en'.
     resolves_plainly (pe_fs sample_env)
     \<and> load_policy C sd sample_read toml None None = Inr en
     \<and> load_policy C sd sample_read toml (Some ''/r/.codypendent/policy.toml'') None = Inr en'
     \<and> raw_within ''$REPOSITORY/link'' ''$REPOSITORY''
     \<and> pd_decision (evaluate sample_env en (PA_ReadFiles [''/etc/passwd'']) sample_ctx) = D_Deny
     \<and> pd_decision (evaluate sample_env en' (PA_ReadFiles [''/etc/passwd'']) sample_ctx) = D_Allow"
proof (intro exI conjI)
  show "resolves_plainly (pe_fs sample_env)" by (simp add: sample_plain)
  show "raw_within ''$REPOSITORY/link'' ''$REPOSITORY''" by code_simp
  show "pd_decision (evaluate sample_env (from_merged C sd builtin_defaults) (PA_ReadFiles [''/etc/passwd'']) sample_ctx) = D_Deny"
    by (simp add: eval_read_def file_read_scope_def sample_read_scope pd_deny_def)
  show "pd_decision (evaluate sample_env (sample_engine C sd ''$REPOSITORY/link'') (PA_ReadFiles [''/etc/passwd'']) sample_ctx) = D_Allow"
    unfolding strictness_allow[symmetric]
    by (simp add: eval_read_rank file_read_scope_def sample_engine_def sample_roots sample_read_scope)
qed (rule sample_loads)+

text \<open>
  The plan-file exception consults neither the write roots nor the deny list: with \<open>.codypendent\<close> of the worktree on the
  deny list, a plan-mode write below it is allowed although the write scope denies the same path.
\<close>

definition plans_denied :: merged_policy where
  "plans_denied = builtin_defaults\<lparr> mp_fs_deny := mp_fs_deny builtin_defaults @ [''$WORKTREE/.codypendent''] \<rparr>"

definition plan_ctx :: eval_context where
  "plan_ctx = with_write_target ''/w/.codypendent/plans/p.md'' (run_eval_ctx ''/r'' ''/w'' Plan)"

lemma plan_write_ignores_deny:
  "scope_classify sample_fs (build_path_scope sample_env (mp_fs_write plans_denied) (mp_fs_deny plans_denied) plan_ctx)
     ''/w/.codypendent/plans/p.md'' = SV_Denied"
  "pd_decision (evaluate sample_env (from_merged C sd plans_denied) (PA_WritePatch []) plan_ctx) = D_Allow"
proof -
  show "scope_classify sample_fs (build_path_scope sample_env (mp_fs_write plans_denied) (mp_fs_deny plans_denied) plan_ctx)
     ''/w/.codypendent/plans/p.md'' = SV_Denied" by code_simp
  have "plan_exception sample_env plan_ctx \<noteq> None" "\<not> mo_write_allowed (ec_mode plan_ctx)" by code_simp+
  then show "pd_decision (evaluate sample_env (from_merged C sd plans_denied) (PA_WritePatch []) plan_ctx) = D_Allow"
    unfolding strictness_allow[symmetric] by (auto simp: eval_write_def)
qed

text \<open>Git bundles short options: \<open>-uf\<close> forces the push, and is not among the spellings the engine looks for.\<close>

lemma bundled_force_flag:
  assumes "mo_command_allowed (ec_mode ctx)" "mo_network_allowed (ec_mode ctx)"
  shows "strictness (evaluate env (from_merged C sd builtin_defaults) (PA_ExecuteCommand ''git'' [''push'', ''-f'', ''origin'', ''main''] [] cwd) ctx) = 3"
    and "strictness (evaluate env (from_merged C sd builtin_defaults) (PA_ExecuteCommand ''git'' [''push'', ''-uf'', ''origin'', ''main''] [] cwd) ctx) = 1"
proof -
  have sub: "git_subcommand (''push'' # args) = Inr (Some ''push'')" for args by (simp add: starts_with_def)
  have listed: "''git'' \<in> set (mp_shell_allowed_programs builtin_defaults)" by code_simp
  have "eval_shell_git env (from_merged C sd builtin_defaults) [''push'', ''-f'', ''origin'', ''main''] ctx
      = Some (command_disposition env (from_merged C sd builtin_defaults) AA_Deny (command_scope_of (from_merged C sd builtin_defaults)) ''force-push'')"
    using assms by (simp add: eval_shell_git_def sub git_mutating_def force_push_def builtin_defaults_def del: git_subcommand.simps)
  then show "strictness (evaluate env (from_merged C sd builtin_defaults) (PA_ExecuteCommand ''git'' [''push'', ''-f'', ''origin'', ''main''] [] cwd) ctx) = 3"
    using listed assms by (simp add: eval_command_rank command_disposition_def)
  have "eval_shell_git env (from_merged C sd builtin_defaults) [''push'', ''-uf'', ''origin'', ''main''] ctx = None"
    using assms by (simp add: eval_shell_git_def sub git_mutating_def force_push_def delete_branch_def starts_with_def del: git_subcommand.simps)
  then show "strictness (evaluate env (from_merged C sd builtin_defaults) (PA_ExecuteCommand ''git'' [''push'', ''-uf'', ''origin'', ''main''] [] cwd) ctx) = 1"
    using listed assms by (simp add: eval_command_rank scan_command_paths_def PATH_SCANNED_PROGRAMS_def)
qed

end
