(* ===== verification/Policy_Gate.thy ===== *)
theory Policy_Gate
  imports Policy_Safety Hooks
begin

text \<open>
  The daemon's half of the capability seam (\<open>crates/daemon/src/policy_gate.rs\<close>): the adapter that answers a sandboxed
  guest's requests and a hook's rewritten tool calls by the policy engine of the run. The lowering of tool calls,
  which the daemon's assembly supplies, is a field of the adapter.
\<close>

subsection \<open>The adapter\<close>

record run_policy_adapter =
  ra_engine :: policy_engine
  ra_ctx :: eval_context
  ra_lower_tool :: "(string \<Rightarrow> string \<Rightarrow> proposed_action option) option"

definition new_adapter :: "policy_engine \<Rightarrow> eval_context \<Rightarrow> run_policy_adapter" where
  "new_adapter en ctx = \<lparr> ra_engine = en, ra_ctx = ctx, ra_lower_tool = None \<rparr>"

definition with_tool_lowering :: "(string \<Rightarrow> string \<Rightarrow> proposed_action option) \<Rightarrow> run_policy_adapter \<Rightarrow> run_policy_adapter" where
  "with_tool_lowering lowering ad = ad\<lparr> ra_lower_tool := Some lowering \<rparr>"

fun lower_request :: "run_policy_adapter \<Rightarrow> host_request \<Rightarrow> gate_denied + proposed_action" where
  "lower_request ad (ReadFile path) = Inr (PA_ReadFiles [path])"
| "lower_request ad (WriteFile _) =
     Inl \<lparr> den_code = ''policy.unsupported-action'', den_message = ''sandboxed writes are not supported'' \<rparr>"
| "lower_request ad (RunCommand program args) = Inr (PA_ExecuteCommand program args [] (Some (ec_worktree (ra_ctx ad))))"
| "lower_request ad (Connect host port) = Inr (PA_NetworkRequest (host @ '':'' @ dec (unat port)))"
| "lower_request ad (ReadSecret name) = Inr (PA_ReadSecret name)"

definition denial_of :: "policy_decision \<Rightarrow> string \<Rightarrow> string \<Rightarrow> gate_denied" where
  "denial_of d fallback_code fallback_message =
     (case pd_reasons d of
        r # _ \<Rightarrow> \<lparr> den_code = pr_code r, den_message = pr_message r \<rparr>
      | [] \<Rightarrow> \<lparr> den_code = fallback_code, den_message = fallback_message \<rparr>)"

definition adapter_authorize :: "policy_env \<Rightarrow> run_policy_adapter \<Rightarrow> run_policy_gate" where
  "adapter_authorize env ad request seal =
     res_bind (lower_request ad request) (\<lambda>action.
       let d = evaluate env (ra_engine ad) action (ra_ctx ad) in
       case pd_decision d of
         D_Allow \<Rightarrow> Inr (issue seal (''run-policy@'' @ pd_policy_version d))
       | D_Deny \<Rightarrow> Inl (denial_of d ''policy.denied'' ''the run policy refused this request'')
       | D_RequireApproval \<Rightarrow>
           Inl \<lparr> den_code = ''policy.approval-required'',
                 den_message = ''this action needs a human approval that has not been granted'' \<rparr>)"

definition adapter_reentry :: "policy_env \<Rightarrow> run_policy_adapter \<Rightarrow> tool_call \<Rightarrow> string + bool" where
  "adapter_reentry env ad call =
     (case ra_lower_tool ad of
        None \<Rightarrow> Inl ''policy.unknown-tool''
      | Some lowering \<Rightarrow>
          (case lowering (tc_name call) (tc_arguments_json call) of
             None \<Rightarrow> Inl ''policy.unknown-tool''
           | Some action \<Rightarrow>
               (let d = evaluate env (ra_engine ad) action (ra_ctx ad) in
                case pd_decision d of
                  D_Allow \<Rightarrow> Inr True
                | D_RequireApproval \<Rightarrow> Inr False
                | D_Deny \<Rightarrow> Inl (case pd_reasons d of r # _ \<Rightarrow> pr_code r | [] \<Rightarrow> ''policy.denied''))))"

subsection \<open>Guests under both gates\<close>

lemma adapter_authorize_Inr:
  "adapter_authorize env ad r seal = Inr g \<longleftrightarrow>
     (\<exists>a. lower_request ad r = Inr a \<and> pd_decision (evaluate env (ra_engine ad) a (ra_ctx ad)) = D_Allow
        \<and> g = issue seal (''run-policy@'' @ pd_policy_version (evaluate env (ra_engine ad) a (ra_ctx ad))))"
proof -
  have "(case pd_decision d of D_Allow \<Rightarrow> Inr x | D_Deny \<Rightarrow> Inl y | D_RequireApproval \<Rightarrow> Inl z) = Inr g
      \<longleftrightarrow> pd_decision d = D_Allow \<and> g = x" for d :: policy_decision and x and y z :: gate_denied
    by (cases "pd_decision d") auto
  then show ?thesis unfolding adapter_authorize_def res_bind_Inr_iff Let_def by simp
qed

text \<open>
  C10: A sandboxed guest acts only within its plugin's grant and where the run's policy allows outright, without a human: when
  the broker over the profile of a reachable plugin, with the run's policy behind it, returns a grant, the request is a
  read, a connection or a brokered secret, never a write or a command; a granted capability covers it; a path it reads is
  in the read scope of the run, and a destination it connects to is admitted by the mode and by the network policy of the run.
\<close>

theorem guest_within_grant_and_policy:
  assumes "plugin_reach C p"
    and "broker_request C (derive (ip_manifest p) (ip_granted p)) (adapter_authorize env ad) r = Inr g"
  shows "(\<exists>c. c |\<in>| ip_granted p \<and> cap_covers c r)
    \<and> (case r of
         ReadFile path \<Rightarrow> scope_classify (pe_fs env) (file_read_scope env (ra_engine ad) (ra_ctx ad)) path = SV_Allowed
       | WriteFile _ \<Rightarrow> False
       | RunCommand _ _ \<Rightarrow> False
       | Connect host port \<Rightarrow> mo_network_allowed (ec_mode (ra_ctx ad))
           \<and> (host @ '':'' @ dec (unat port) \<in> set (mp_network_allow (en_merged (ra_engine ad)))
              \<or> mp_network_default (en_merged (ra_engine ad)) = ND_Allow)
       | ReadSecret _ \<Rightarrow> True)"
proof -
  have "permits (derive (ip_manifest p) (ip_granted p)) r"
    and "adapter_authorize env ad r \<lparr> seal_digest = request_digest C r \<rparr> = Inr g"
    using assms(2) by (simp_all add: broker_request_ok_iff)
  then show ?thesis using permits_covered by (cases r) (auto simp: adapter_authorize_Inr allow_decisions)
qed

lemma sample_gate:
  "broker_request example_crypto (derive (ip_manifest networked_plugin) (ip_granted networked_plugin))
     (adapter_authorize sample_env (new_adapter (with_defaults_allowing_network example_crypto serde_example [''api:443'']) sample_ctx))
     (Connect ''api'' 443)
   = Inr (issue \<lparr> seal_digest = request_digest example_crypto (Connect ''api'' 443) \<rparr>
        (''run-policy@'' @ en_version (with_defaults_allowing_network example_crypto serde_example [''api:443''])))"
proof -
  have d: "dec 443 = ''443''" by code_simp
  have mode: "mo_network_allowed (ec_mode sample_ctx)" by (simp add: sample_ctx_def new_context_def)
  have "network_allows (network_scope_of (with_defaults_allowing_network example_crypto serde_example [''api:443''])) ''api:443''"
    by (simp add: network_allows_def network_scope_of_def with_defaults_allowing_network_def list_ex_iff)
  then show ?thesis
    using d mode by (simp add: broker_request_ok_iff adapter_authorize_def new_adapter_def eval_network_def pd_allow_def
        allows_network_def list_ex_iff networked_plugin_def answers_def issue_def)
qed

theorem guest_within_grant_and_policy_witness:
  "\<exists>c. c |\<in>| ip_granted networked_plugin \<and> cap_covers c (Connect ''api'' 443)"
  using guest_within_grant_and_policy[OF networked_reach sample_gate] by blast

subsection \<open>Rewritten calls\<close>

text \<open>
  A call a hook rewrote runs only when the run's policy does not deny the action it stands for, and with a decision that
  asks for approval only under an approval of this very call.
\<close>

lemma rewrite_meets_policy:
  assumes "reenter C (adapter_reentry env ad) digest u = Inr a"
  shows "\<exists>lowering action. ra_lower_tool ad = Some lowering
      \<and> lowering (tc_name (un_value u)) (tc_arguments_json (un_value u)) = Some action
      \<and> strictness (evaluate env (ra_engine ad) action (ra_ctx ad)) \<noteq> 3
      \<and> (strictness (evaluate env (ra_engine ad) action (ra_ctx ad)) = 0 \<or> digest = Some (call_digest C (un_value u)))"
  using assms
  by (auto simp: reenter_def adapter_reentry_def strictness_def Let_def split: sum.splits if_splits option.splits decision.splits)

lemma no_lowering_no_rewrite: "ra_lower_tool ad = None \<Longrightarrow> \<exists>e. reenter C (adapter_reentry env ad) digest u = Inl e"
  by (simp add: reenter_def adapter_reentry_def)

end
