(* ===== verification/Approvals.thy ===== *)
theory Approvals
  imports Policy_Safety
begin

text \<open>
  The approval broker (\<open>crates/daemon/src/approvals.rs\<close>): the tables \<open>approvals\<close> and \<open>approval_rules\<close> with the columns of
  \<open>migrations/0002_phase1.sql\<close> and \<open>0038_approval_patterns.sql\<close>, the ledger events it appends, the in-memory waiters, and
  reuse of earlier approvals. Every transaction is one function on the tables. Instants are integers, so the parsing of
  stored timestamps and ids, which the daemon wrote itself, is left out; so are the inbox entry and the contents of
  the control-plane outbox, which other components read, though a failing outbox aborts the transaction as it does in
  the code (the parameter \<open>outbox\<close>). The serializer of actions is the parameter \<open>action_codec\<close>; the repository a run was
  launched in is the parameter \<open>provenance\<close>.
\<close>

subsection \<open>Rows, events and errors\<close>

datatype approval_status = AS_Pending | AS_Approved | AS_Rejected | AS_Expired

datatype approval_decision = AD_Approve | AD_Reject | AD_Unknown

datatype approval_scope = Scope_Once | Scope_Run | Scope_Pattern | Scope_Repository | Scope_Unknown

record approval_row =
  ar_id :: string
  ar_run_id :: string
  ar_action_json :: string
  ar_risk_json :: string
  ar_capabilities_json :: string
  ar_state :: approval_status
  ar_scope :: string
  ar_pattern :: "string option"
  ar_resolved_by :: "string option"
  ar_requested_at :: int
  ar_resolved_at :: "int option"
  ar_expires_at :: "int option"

record approval_rule =
  rl_id :: string
  rl_repository :: string
  rl_kind :: string
  rl_pattern :: string
  rl_created_from :: string
  rl_created_by :: string
  rl_created_at :: int
  rl_revoked_at :: "int option"
  rl_revoked_by :: "string option"

datatype event_actor = Act_System | Act_Human string

datatype event_body =
    EB_ApprovalRequested string proposed_action string "string option"
  | EB_ApprovalResolved string approval_decision

record session_event =
  ev_session :: string
  ev_sequence :: int
  ev_occurred_at :: int
  ev_actor :: event_actor
  ev_body :: event_body

record run_info =
  ri_session :: string
  ri_state :: string

record approvals_db =
  ad_approvals :: "approval_row list"
  ad_rules :: "approval_rule list"
  ad_sessions :: "(string \<times> string) list"
  ad_runs :: "(string \<times> run_info) list"
  ad_events :: "session_event list"

datatype auto_approval = Auto_RunDigest | Auto_RunPattern string | Auto_RepositoryRule string string

fun auto_resolved_by :: "auto_approval \<Rightarrow> string" where
  "auto_resolved_by Auto_RunDigest = ''auto:run-scope''"
| "auto_resolved_by (Auto_RunPattern pattern) = ''auto:pattern:'' @ pattern"
| "auto_resolved_by (Auto_RepositoryRule rule_id _) = ''auto:repo-rule:'' @ rule_id"

fun state_as_db :: "approval_status \<Rightarrow> string" where
  "state_as_db AS_Pending = ''pending''"
| "state_as_db AS_Approved = ''approved''"
| "state_as_db AS_Rejected = ''rejected''"
| "state_as_db AS_Expired = ''expired''"

datatype approval_error =
    AE_NotFound string
  | AE_AlreadyResolved string string
  | AE_UnsupportedDecision
  | AE_UnsupportedScope
  | AE_WaiterGone string
  | AE_SessionClosed
  | AE_PatternUnavailable
  | AE_Corrupt string
  | AE_Database string
  | AE_Serde string

record action_codec =
  ac_json :: "proposed_action \<Rightarrow> string"
  ac_parse :: "string \<Rightarrow> string + proposed_action"

subsection \<open>Helpers\<close>

definition digest_of :: "crypto \<Rightarrow> string \<Rightarrow> string" where
  "digest_of C s = cr_hex_encode C (cr_sha256 C (str_bytes s))"

definition action_digest :: "crypto \<Rightarrow> action_codec \<Rightarrow> proposed_action \<Rightarrow> string" where
  "action_digest C ac a = digest_of C (ac_json ac a)"

fun decision_state :: "approval_decision \<Rightarrow> approval_error + approval_status" where
  "decision_state AD_Approve = Inr AS_Approved"
| "decision_state AD_Reject = Inr AS_Rejected"
| "decision_state AD_Unknown = Inl AE_UnsupportedDecision"

fun scope_to_db :: "approval_scope \<Rightarrow> approval_error + string" where
  "scope_to_db Scope_Once = Inr ''once''"
| "scope_to_db Scope_Run = Inr ''run''"
| "scope_to_db Scope_Pattern = Inr ''pattern''"
| "scope_to_db Scope_Repository = Inr ''repository''"
| "scope_to_db Scope_Unknown = Inl AE_UnsupportedScope"

definition next_sequence :: "approvals_db \<Rightarrow> string \<Rightarrow> int" where
  "next_sequence db session =
     fold max (map ev_sequence (filter (\<lambda>e. ev_session e = session) (ad_events db))) 0 + 1"

definition append_event :: "string \<Rightarrow> event_actor \<Rightarrow> event_body \<Rightarrow> int \<Rightarrow> approvals_db \<Rightarrow> session_event \<times> approvals_db" where
  "append_event session actor body now db =
     (let e = \<lparr> ev_session = session, ev_sequence = next_sequence db session, ev_occurred_at = now, ev_actor = actor,
                ev_body = body \<rparr>
      in (e, db\<lparr> ad_events := ad_events db @ [e] \<rparr>))"

fun learnable_pattern :: "proposed_action \<Rightarrow> string option" where
  "learnable_pattern (PA_ExecuteCommand program args environment _) = command_pattern program args environment"
| "learnable_pattern _ = None"

subsection \<open>Reuse\<close>

definition run_scoped_match :: "crypto \<Rightarrow> approvals_db \<Rightarrow> string \<Rightarrow> string \<Rightarrow> bool" where
  "run_scoped_match C db run_id digest =
     list_ex (\<lambda>r. ar_run_id r = run_id \<and> ar_scope r = ''run'' \<and> ar_state r = AS_Approved
                  \<and> digest_of C (ar_action_json r) = digest) (ad_approvals db)"

definition run_pattern_match :: "approvals_db \<Rightarrow> string \<Rightarrow> string \<Rightarrow> string list \<Rightarrow> string option" where
  "run_pattern_match db run_id program args =
     find (\<lambda>p. pattern_matches p program args)
       (List.map_filter ar_pattern
         (filter (\<lambda>r. ar_run_id r = run_id \<and> ar_scope r = ''pattern'' \<and> ar_state r = AS_Approved) (ad_approvals db)))"

definition rule_match :: "approvals_db \<Rightarrow> string \<Rightarrow> string \<Rightarrow> string list \<Rightarrow> approval_rule option" where
  "rule_match db repository program args =
     find (\<lambda>rl. pattern_matches (rl_pattern rl) program args)
       (filter (\<lambda>rl. rl_repository rl = repository \<and> rl_kind rl = ''command-prefix'' \<and> rl_revoked_at rl = None) (ad_rules db))"

fun pattern_match :: "approvals_db \<Rightarrow> string \<Rightarrow> string option \<Rightarrow> proposed_action \<Rightarrow> auto_approval option" where
  "pattern_match db run_id repository (PA_ExecuteCommand program args environment _) =
     (if command_pattern program args environment = None then None
      else case run_pattern_match db run_id program args of
        Some p \<Rightarrow> Some (Auto_RunPattern p)
      | None \<Rightarrow>
          (case repository of
             None \<Rightarrow> None
           | Some repo \<Rightarrow>
               map_option (\<lambda>rl. Auto_RepositoryRule (rl_id rl) (rl_pattern rl)) (rule_match db repo program args)))"
| "pattern_match db run_id repository _ = None"

record approval_request =
  rq_id :: string
  rq_session :: string
  rq_run :: string
  rq_repository :: "string option"
  rq_action :: proposed_action
  rq_risk_json :: string
  rq_capabilities_json :: string
  rq_expires_at :: "int option"
  rq_allow_run_reuse :: bool

definition auto_approve :: "crypto \<Rightarrow> action_codec \<Rightarrow> approval_request \<Rightarrow> approvals_db \<Rightarrow> auto_approval option" where
  "auto_approve C ac rq db =
     (if rq_allow_run_reuse rq then
        if run_scoped_match C db (rq_run rq) (action_digest C ac (rq_action rq)) then Some Auto_RunDigest
        else pattern_match db (rq_run rq) (rq_repository rq) (rq_action rq)
      else None)"

subsection \<open>Requesting\<close>

definition request_row :: "action_codec \<Rightarrow> approval_request \<Rightarrow> auto_approval option \<Rightarrow> int \<Rightarrow> approval_row" where
  "request_row ac rq auto now =
     \<lparr> ar_id = rq_id rq, ar_run_id = rq_run rq, ar_action_json = ac_json ac (rq_action rq), ar_risk_json = rq_risk_json rq,
       ar_capabilities_json = rq_capabilities_json rq,
       ar_state = (if auto \<noteq> None then AS_Approved else AS_Pending), ar_scope = ''once'', ar_pattern = None,
       ar_resolved_by = map_option auto_resolved_by auto, ar_requested_at = now,
       ar_resolved_at = (if auto \<noteq> None then Some now else None), ar_expires_at = rq_expires_at rq \<rparr>"

text \<open>The transaction of \<open>request_with_id_and_reuse\<close>, given what the reuse queries before it found.\<close>

definition request_tx ::
  "action_codec \<Rightarrow> (string \<Rightarrow> string option) \<Rightarrow> approval_request \<Rightarrow> auto_approval option \<Rightarrow> int \<Rightarrow> approvals_db
     \<Rightarrow> approval_error + session_event list \<times> approvals_db" where
  "request_tx ac outbox rq auto now db =
     (if (case map_of (ad_sessions db) (rq_session rq) of Some st \<Rightarrow> st = ''closed'' | None \<Rightarrow> True) then Inl AE_SessionClosed
      else if rq_id rq \<in> ar_id ` set (ad_approvals db) then Inl (AE_Database ''UNIQUE constraint failed: approvals.id'')
      else if map_of (ad_runs db) (rq_run rq) = None then Inl (AE_Database ''FOREIGN KEY constraint failed'')
      else
        (let db1 = db\<lparr> ad_approvals := ad_approvals db @ [request_row ac rq auto now] \<rparr>;
             (e1, db2) = append_event (rq_session rq) Act_System
                (EB_ApprovalRequested (rq_id rq) (rq_action rq) (rq_risk_json rq) (learnable_pattern (rq_action rq))) now db1 in
         if auto = None then Inr ([e1], db2)
         else
           (let (e2, db3) = append_event (rq_session rq) Act_System (EB_ApprovalResolved (rq_id rq) AD_Approve) now db2 in
            case outbox (rq_id rq) of
              Some e \<Rightarrow> Inl (AE_Corrupt (''control-plane outbox: '' @ e))
            | None \<Rightarrow> Inr ([e1, e2], db3))))"

subsection \<open>Waiters\<close>

type_synonym waiters = "string \<rightharpoonup> approval_decision option"

definition register_waiter :: "string \<Rightarrow> approval_decision option \<Rightarrow> waiters \<Rightarrow> waiters" where
  "register_waiter approval_id initial w =
     (let w1 = (case w approval_id of None \<Rightarrow> w(approval_id \<mapsto> None) | Some _ \<Rightarrow> w) in
      case initial of None \<Rightarrow> w1 | Some d \<Rightarrow> w1(approval_id \<mapsto> Some d))"

definition wake :: "string \<Rightarrow> approval_decision \<Rightarrow> waiters \<Rightarrow> waiters" where
  "wake approval_id d w = w(approval_id \<mapsto> Some d)"

definition forget_waiter :: "string \<Rightarrow> waiters \<Rightarrow> waiters" where
  "forget_waiter approval_id w = w(approval_id := None)"

text \<open>
  One turn of the loop of \<open>await_decision\<close>: the retained decision, or no waiter at all; \<open>None\<close> while the
  run stays parked.
\<close>

definition await_decision :: "string \<Rightarrow> waiters \<Rightarrow> ((approval_error + approval_decision) \<times> waiters) option" where
  "await_decision approval_id w =
     (case w approval_id of
        None \<Rightarrow> Some (Inl (AE_NotFound approval_id), w)
      | Some (Some d) \<Rightarrow> Some (Inr d, w(approval_id := None))
      | Some None \<Rightarrow> None)"

subsection \<open>Resolving\<close>

definition find_row :: "approvals_db \<Rightarrow> string \<Rightarrow> approval_row option" where
  "find_row db approval_id = find (\<lambda>r. ar_id r = approval_id) (ad_approvals db)"

definition update_pending :: "string \<Rightarrow> (approval_row \<Rightarrow> approval_row) \<Rightarrow> approvals_db \<Rightarrow> approvals_db" where
  "update_pending approval_id f db =
     db\<lparr> ad_approvals := map (\<lambda>r. if ar_id r = approval_id \<and> ar_state r = AS_Pending then f r else r) (ad_approvals db) \<rparr>"

definition add_rule ::
  "(string \<Rightarrow> string \<Rightarrow> string + string option) \<Rightarrow> string \<Rightarrow> string \<Rightarrow> string \<Rightarrow> string \<Rightarrow> string \<Rightarrow> string \<Rightarrow> int \<Rightarrow> approvals_db
     \<Rightarrow> approval_error + approvals_db" where
  "add_rule provenance rule_id run_id session_id approval_id pattern resolved_by now db =
     (case provenance run_id session_id of
        Inl e \<Rightarrow> Inl (AE_Corrupt (''run repository: '' @ e))
      | Inr repository \<Rightarrow>
          (case repository of
             None \<Rightarrow> Inl AE_PatternUnavailable
           | Some repo \<Rightarrow>
               if repo = [] then Inl AE_PatternUnavailable
               else if rule_id \<in> rl_id ` set (ad_rules db) then Inl (AE_Database ''UNIQUE constraint failed: approval_rules.id'')
               else Inr (db\<lparr> ad_rules := ad_rules db @
                 [\<lparr> rl_id = rule_id, rl_repository = repo, rl_kind = ''command-prefix'', rl_pattern = pattern,
                    rl_created_from = approval_id, rl_created_by = resolved_by, rl_created_at = now, rl_revoked_at = None,
                    rl_revoked_by = None \<rparr>] \<rparr>)))"

definition learn_tx ::
  "action_codec \<Rightarrow> (string \<Rightarrow> string \<Rightarrow> string + string option) \<Rightarrow> string \<Rightarrow> approval_row \<Rightarrow> string \<Rightarrow> approval_decision
     \<Rightarrow> approval_scope \<Rightarrow> string \<Rightarrow> int \<Rightarrow> approvals_db \<Rightarrow> approval_error + string option \<times> approvals_db" where
  "learn_tx ac provenance rule_id row session_id d scope resolved_by now db =
     (if d = AD_Approve \<and> (scope = Scope_Pattern \<or> scope = Scope_Repository) then
        (case ac_parse ac (ar_action_json row) of
           Inl e \<Rightarrow> Inl (AE_Serde e)
         | Inr action \<Rightarrow>
             (case learnable_pattern action of
                None \<Rightarrow> Inl AE_PatternUnavailable
              | Some pattern \<Rightarrow>
                  if scope = Scope_Repository then
                    res_bind (add_rule provenance rule_id (ar_run_id row) session_id (ar_id row) pattern resolved_by now db)
                      (\<lambda>db'. Inr (Some pattern, db'))
                  else Inr (Some pattern, db)))
      else Inr (None, db))"

definition resolve_in_tx ::
  "action_codec \<Rightarrow> (string \<Rightarrow> string option) \<Rightarrow> (string \<Rightarrow> string \<Rightarrow> string + string option) \<Rightarrow> string \<Rightarrow> string
     \<Rightarrow> approval_decision \<Rightarrow> approval_scope \<Rightarrow> string \<Rightarrow> int \<Rightarrow> approvals_db \<Rightarrow> approval_error + session_event \<times> approvals_db" where
  "resolve_in_tx ac outbox provenance rule_id approval_id d scope resolved_by now db =
     res_bind (decision_state d) (\<lambda>state.
     res_bind (scope_to_db scope) (\<lambda>scope_db.
     res_bind (ok_or (AE_NotFound approval_id)
       (case find_row db approval_id of
          None \<Rightarrow> None
        | Some row \<Rightarrow> map_option (\<lambda>ri. (row, ri_session ri)) (map_of (ad_runs db) (ar_run_id row)))) (\<lambda>(row, session_id).
     if ar_state row \<noteq> AS_Pending then Inl (AE_AlreadyResolved approval_id (state_as_db (ar_state row)))
     else
       res_bind (learn_tx ac provenance rule_id row session_id d scope resolved_by now db) (\<lambda>(pattern, db1).
         (let db2 = update_pending approval_id
                (\<lambda>r. r\<lparr> ar_state := state, ar_scope := scope_db, ar_pattern := pattern, ar_resolved_by := Some resolved_by,
                        ar_resolved_at := Some now \<rparr>) db1;
              (e, db3) = append_event session_id (Act_Human resolved_by) (EB_ApprovalResolved approval_id d) now db2 in
          case outbox approval_id of
            Some x \<Rightarrow> Inl (AE_Corrupt (''control-plane outbox: '' @ x))
          | None \<Rightarrow> Inr (e, db3))))))"

subsection \<open>Expiry\<close>

text \<open>The transaction both expiries run for one candidate; \<open>None\<close> when the row is no longer pending.\<close>

definition expire_tx :: "(string \<Rightarrow> string option) \<Rightarrow> int \<Rightarrow> string \<times> string \<Rightarrow> approvals_db
     \<Rightarrow> approval_error + (session_event \<times> approvals_db) option" where
  "expire_tx outbox now = (\<lambda>(approval_id, session_id) db.
     if \<not> list_ex (\<lambda>r. ar_id r = approval_id \<and> ar_state r = AS_Pending) (ad_approvals db) then Inr None
     else
       (let db1 = update_pending approval_id (\<lambda>r. r\<lparr> ar_state := AS_Expired, ar_resolved_at := Some now \<rparr>) db;
            (e, db2) = append_event session_id Act_System (EB_ApprovalResolved approval_id AD_Reject) now db1 in
        case outbox approval_id of
          Some x \<Rightarrow> Inl (AE_Corrupt (''control-plane outbox: '' @ x))
        | None \<Rightarrow> Inr (Some (e, db2))))"

definition with_session :: "approvals_db \<Rightarrow> approval_row \<Rightarrow> (string \<times> string) option" where
  "with_session db r = map_option (\<lambda>ri. (ar_id r, ri_session ri)) (map_of (ad_runs db) (ar_run_id r))"

definition due_candidates :: "approvals_db \<Rightarrow> int \<Rightarrow> (string \<times> string) list" where
  "due_candidates db now =
     List.map_filter (with_session db)
       (filter (\<lambda>r. ar_state r = AS_Pending \<and> (case ar_expires_at r of Some t \<Rightarrow> t \<le> now | None \<Rightarrow> False)) (ad_approvals db))"

definition orphan_candidates :: "approvals_db \<Rightarrow> (string \<times> string) list" where
  "orphan_candidates db =
     List.map_filter (with_session db)
       (filter (\<lambda>r. ar_state r = AS_Pending
          \<and> (case map_of (ad_runs db) (ar_run_id r) of
               Some ri \<Rightarrow> ri_state ri \<in> {''Completed'', ''Failed'', ''Cancelled''} | None \<Rightarrow> False)) (ad_approvals db))"

record broker =
  br_db :: approvals_db
  br_waiters :: waiters
  br_hub :: bool
  br_published :: "session_event list"

definition publish :: "session_event list \<Rightarrow> broker \<Rightarrow> broker" where
  "publish es b = (if br_hub b then b\<lparr> br_published := br_published b @ es \<rparr> else b)"

text \<open>The loop of \<open>expire_due\<close> and \<open>expire_orphaned\<close>: a failing transaction ends it and keeps the earlier ones.\<close>

fun expire_loop ::
  "(string \<Rightarrow> string option) \<Rightarrow> int \<Rightarrow> (string \<times> string) list \<Rightarrow> string list \<Rightarrow> broker
     \<Rightarrow> (approval_error + string list) \<times> broker" where
  "expire_loop outbox now [] acc b = (Inr acc, b)"
| "expire_loop outbox now (c # cs) acc b =
     (case expire_tx outbox now c (br_db b) of
        Inl e \<Rightarrow> (Inl e, b)
      | Inr None \<Rightarrow> expire_loop outbox now cs acc b
      | Inr (Some (e, db)) \<Rightarrow>
          expire_loop outbox now cs (acc @ [fst c])
            (publish [e] (b\<lparr> br_db := db, br_waiters := wake (fst c) AD_Reject (br_waiters b) \<rparr>)))"

definition expire_due :: "(string \<Rightarrow> string option) \<Rightarrow> int \<Rightarrow> broker \<Rightarrow> (approval_error + nat) \<times> broker" where
  "expire_due outbox now b =
     (let (r, b') = expire_loop outbox now (due_candidates (br_db b) now) [] b in
      (case r of Inl e \<Rightarrow> Inl e | Inr ids \<Rightarrow> Inr (length ids), b'))"

definition expire_orphaned :: "(string \<Rightarrow> string option) \<Rightarrow> int \<Rightarrow> broker \<Rightarrow> (approval_error + string list) \<times> broker" where
  "expire_orphaned outbox now b = expire_loop outbox now (orphan_candidates (br_db b)) [] b"

subsection \<open>Whole operations\<close>

definition request_with_id_and_reuse ::
  "crypto \<Rightarrow> action_codec \<Rightarrow> (string \<Rightarrow> string option) \<Rightarrow> approval_request \<Rightarrow> int \<Rightarrow> broker \<Rightarrow> (approval_error + string) \<times> broker" where
  "request_with_id_and_reuse C ac outbox rq now b =
     (let auto = auto_approve C ac rq (br_db b) in
      case request_tx ac outbox rq auto now (br_db b) of
        Inl e \<Rightarrow> (Inl e, b)
      | Inr (es, db) \<Rightarrow>
          (Inr (rq_id rq),
           publish es (b\<lparr> br_db := db,
             br_waiters := register_waiter (rq_id rq) (map_option (\<lambda>_. AD_Approve) auto) (br_waiters b) \<rparr>)))"

definition resolve_approval ::
  "action_codec \<Rightarrow> (string \<Rightarrow> string option) \<Rightarrow> (string \<Rightarrow> string \<Rightarrow> string + string option) \<Rightarrow> string \<Rightarrow> string
     \<Rightarrow> approval_decision \<Rightarrow> approval_scope \<Rightarrow> string \<Rightarrow> int \<Rightarrow> broker \<Rightarrow> (approval_error + session_event) \<times> broker" where
  "resolve_approval ac outbox provenance rule_id approval_id d scope resolved_by now b =
     (case resolve_in_tx ac outbox provenance rule_id approval_id d scope resolved_by now (br_db b) of
        Inl e \<Rightarrow> (Inl e, b)
      | Inr (e, db) \<Rightarrow> (Inr e, b\<lparr> br_db := db, br_waiters := wake approval_id d (br_waiters b) \<rparr>))"

definition reload_waiters :: "approvals_db \<Rightarrow> waiters \<Rightarrow> waiters" where
  "reload_waiters db w =
     fold (\<lambda>r. register_waiter (ar_id r) None) (filter (\<lambda>r. ar_state r = AS_Pending \<and> map_of (ad_runs db) (ar_run_id r) \<noteq> None) (ad_approvals db)) w"

text \<open>The command \<open>approvals rules revoke\<close> (\<open>crates/cli/src/commands.rs\<close>).\<close>

definition revoke_rule :: "string \<Rightarrow> int \<Rightarrow> approvals_db \<Rightarrow> approvals_db" where
  "revoke_rule rule_id now db =
     db\<lparr> ad_rules := map (\<lambda>rl. if rl_id rl = rule_id \<and> rl_revoked_at rl = None
            then rl\<lparr> rl_revoked_at := Some now, rl_revoked_by := Some ''cli'' \<rparr> else rl) (ad_rules db) \<rparr>"

end
