(* ===== verification/Approvals_Safety.thy ===== *)
theory Approvals_Safety
  imports Approvals
begin

text \<open>
  What the approval broker guarantees over every interleaving of its transactions, its waiters, restarts and the
  changes other components make to sessions and runs.
\<close>

subsection \<open>Interleavings\<close>

text \<open>
  The awaits of the code split an operation: a request first queries for reuse, then commits, then registers its waiter;
  a resolution and an expiry commit, then wake. What is between two of these points is kept in the queues; \<open>sy_gone\<close>
  records the approvals whose decision was taken, or whose waiter was dropped by a cancelled run or a restart.
  Three histories that no step reads say where an approval came from: \<open>sy_queried\<close> holds every reuse query with the tables it
  read, \<open>sy_requested\<close> every request that was committed, \<open>sy_resolved\<close> every resolution with the repositories of runs as it saw them.
\<close>

record approvals_sys =
  sy_db :: approvals_db
  sy_waiters :: waiters
  sy_matching :: "(approval_request \<times> auto_approval option) list"
  sy_registering :: "(string \<times> approval_decision option) list"
  sy_waking :: "(string \<times> approval_decision) list"
  sy_taken :: "(string \<times> approval_decision) list"
  sy_gone :: "string set"
  sy_queried :: "(approval_request \<times> approvals_db) list"
  sy_requested :: "approval_request list"
  sy_resolved :: "(string \<times> (string \<Rightarrow> string \<Rightarrow> string + string option)) list"

inductive approvals_step :: "crypto \<Rightarrow> action_codec \<Rightarrow> approvals_sys \<Rightarrow> approvals_sys \<Rightarrow> bool" for C ac where
  step_match: "approvals_step C ac s (s\<lparr> sy_matching := (rq, auto_approve C ac rq (sy_db s)) # sy_matching s,
       sy_queried := (rq, sy_db s) # sy_queried s \<rparr>)"
| step_request:
    "(rq, auto) \<in> set (sy_matching s) \<Longrightarrow> request_tx ac outbox rq auto now (sy_db s) = Inr (es, db) \<Longrightarrow>
     approvals_step C ac s (s\<lparr> sy_db := db, sy_matching := remove1 (rq, auto) (sy_matching s),
       sy_registering := (rq_id rq, map_option (\<lambda>_. AD_Approve) auto) # sy_registering s, sy_requested := rq # sy_requested s \<rparr>)"
| step_request_fails:
    "request_tx ac outbox rq auto now (sy_db s) = Inl e \<Longrightarrow>
     approvals_step C ac s (s\<lparr> sy_matching := remove1 (rq, auto) (sy_matching s) \<rparr>)"
| step_register:
    "(i, initial) \<in> set (sy_registering s) \<Longrightarrow>
     approvals_step C ac s (s\<lparr> sy_waiters := register_waiter i initial (sy_waiters s),
       sy_registering := remove1 (i, initial) (sy_registering s) \<rparr>)"
| step_resolve:
    "resolve_in_tx ac outbox provenance rule_id i d scope resolved_by now (sy_db s) = Inr (e, db) \<Longrightarrow>
     approvals_step C ac s (s\<lparr> sy_db := db, sy_waking := (i, d) # sy_waking s, sy_resolved := (i, provenance) # sy_resolved s \<rparr>)"
| step_expire:
    "expire_tx outbox now (i, session) (sy_db s) = Inr (Some (e, db)) \<Longrightarrow>
     approvals_step C ac s (s\<lparr> sy_db := db, sy_waking := (i, AD_Reject) # sy_waking s \<rparr>)"
| step_wake:
    "(i, d) \<in> set (sy_waking s) \<Longrightarrow>
     approvals_step C ac s (s\<lparr> sy_waiters := wake i d (sy_waiters s), sy_waking := remove1 (i, d) (sy_waking s) \<rparr>)"
| step_await:
    "await_decision i (sy_waiters s) = Some (Inr d, w) \<Longrightarrow>
     approvals_step C ac s (s\<lparr> sy_waiters := w, sy_taken := (i, d) # sy_taken s, sy_gone := insert i (sy_gone s) \<rparr>)"
| step_forget:
    "approvals_step C ac s (s\<lparr> sy_waiters := forget_waiter i (sy_waiters s), sy_gone := insert i (sy_gone s) \<rparr>)"
| step_reload: "approvals_step C ac s (s\<lparr> sy_waiters := reload_waiters (sy_db s) (sy_waiters s) \<rparr>)"
| step_restart:
    "approvals_step C ac s (s\<lparr> sy_waiters := Map.empty, sy_matching := [], sy_registering := [], sy_waking := [],
       sy_gone := sy_gone s \<union> {ar_id r | r. r \<in> set (ad_approvals (sy_db s)) \<and> ar_state r \<noteq> AS_Pending} \<rparr>)"
| step_revoke: "approvals_step C ac s (s\<lparr> sy_db := revoke_rule rule_id now (sy_db s) \<rparr>)"
| step_others: "approvals_step C ac s (s\<lparr> sy_db := (sy_db s)\<lparr> ad_sessions := sessions, ad_runs := runs \<rparr> \<rparr>)"

definition approvals_empty :: approvals_db where
  "approvals_empty = \<lparr> ad_approvals = [], ad_rules = [], ad_sessions = [], ad_runs = [], ad_events = [] \<rparr>"

definition empty_sys :: approvals_sys where
  "empty_sys = \<lparr> sy_db = approvals_empty, sy_waiters = Map.empty, sy_matching = [], sy_registering = [], sy_waking = [],
     sy_taken = [], sy_gone = {}, sy_queried = [], sy_requested = [], sy_resolved = [] \<rparr>"

inductive approvals_reach :: "crypto \<Rightarrow> action_codec \<Rightarrow> approvals_sys \<Rightarrow> bool" for C ac where
  reach_start: "approvals_reach C ac empty_sys"
| reach_next: "approvals_reach C ac s \<Longrightarrow> approvals_step C ac s s' \<Longrightarrow> approvals_reach C ac s'"

subsection \<open>What holds of the tables\<close>

definition final :: "approval_row \<Rightarrow> bool" where
  "final r \<longleftrightarrow> ar_state r \<noteq> AS_Pending"

fun stands_for :: "approval_decision \<Rightarrow> approval_status \<Rightarrow> bool" where
  "stands_for AD_Approve st = (st = AS_Approved)"
| "stands_for AD_Reject st = (st = AS_Rejected \<or> st = AS_Expired)"
| "stands_for AD_Unknown st = False"

definition decided :: "approvals_db \<Rightarrow> string \<Rightarrow> approval_decision \<Rightarrow> bool" where
  "decided db i d \<longleftrightarrow> (\<exists>r \<in> set (ad_approvals db). ar_id r = i \<and> stands_for d (ar_state r))"

definition human_approved :: "approvals_db \<Rightarrow> string \<Rightarrow> bool" where
  "human_approved db i \<longleftrightarrow>
     (\<exists>e \<in> set (ad_events db). ev_body e = EB_ApprovalResolved i AD_Approve \<and> ev_actor e \<noteq> Act_System)"

text \<open>A pattern covers a command that brings no environment of its own; a row's pattern is the one its action teaches.\<close>

definition command_covered :: "string \<Rightarrow> proposed_action \<Rightarrow> bool" where
  "command_covered pattern a \<longleftrightarrow>
     (\<exists>program args cwd. a = PA_ExecuteCommand program args [] cwd \<and> pattern_matches pattern program args)"

definition learned_from :: "action_codec \<Rightarrow> approval_row \<Rightarrow> string \<Rightarrow> bool" where
  "learned_from ac r pattern \<longleftrightarrow> (\<exists>a. ac_parse ac (ar_action_json r) = Inr a \<and> learnable_pattern a = Some pattern)"

definition approved_as :: "approvals_db \<Rightarrow> string \<Rightarrow> approval_row \<Rightarrow> bool" where
  "approved_as db scope r \<longleftrightarrow>
     r \<in> set (ad_approvals db) \<and> ar_state r = AS_Approved \<and> ar_scope r = scope \<and> human_approved db (ar_id r)"

text \<open>
  The human decision that covers a request in the tables a reuse query read: for its run, or for its repository by a rule
  that is not revoked.
\<close>

definition covered_in_run :: "crypto \<Rightarrow> action_codec \<Rightarrow> approvals_db \<Rightarrow> approval_request \<Rightarrow> bool" where
  "covered_in_run C ac db rq \<longleftrightarrow>
     (\<exists>r. ar_run_id r = rq_run rq
        \<and> (approved_as db ''run'' r \<and> digest_of C (ar_action_json r) = digest_of C (ac_json ac (rq_action rq))
           \<or> approved_as db ''pattern'' r
             \<and> (\<exists>p. ar_pattern r = Some p \<and> learned_from ac r p \<and> command_covered p (rq_action rq))))"

definition rule_backed :: "action_codec \<Rightarrow> approvals_db \<Rightarrow> approval_rule \<Rightarrow> bool" where
  "rule_backed ac db rl \<longleftrightarrow>
     (\<exists>r. approved_as db ''repository'' r \<and> ar_id r = rl_created_from rl \<and> learned_from ac r (rl_pattern rl))"

definition covered_in_repository :: "action_codec \<Rightarrow> approvals_db \<Rightarrow> approval_request \<Rightarrow> bool" where
  "covered_in_repository ac db rq \<longleftrightarrow>
     (\<exists>rl \<in> set (ad_rules db). rq_repository rq = Some (rl_repository rl) \<and> rl_kind rl = ''command-prefix''
        \<and> rl_revoked_at rl = None \<and> rule_backed ac db rl \<and> command_covered (rl_pattern rl) (rq_action rq))"

definition resolved_events :: "string \<Rightarrow> session_event list \<Rightarrow> session_event list" where
  "resolved_events i es = filter (\<lambda>e. \<exists>d. ev_body e = EB_ApprovalResolved i d) es"

definition row_justified :: "action_codec \<Rightarrow> approvals_db \<Rightarrow> approval_row \<Rightarrow> bool" where
  "row_justified ac db r \<longleftrightarrow>
     (ar_state r = AS_Approved \<longrightarrow>
        (ar_scope r \<noteq> ''once'' \<longrightarrow> human_approved db (ar_id r)) \<and> (\<forall>p. ar_pattern r = Some p \<longrightarrow> learned_from ac r p))"

definition events_match :: "approvals_db \<Rightarrow> bool" where
  "events_match db \<longleftrightarrow>
     (\<forall>i. length (resolved_events i (ad_events db)) = (if \<exists>r \<in> set (ad_approvals db). ar_id r = i \<and> final r then 1 else 0))"

definition tables_ok :: "action_codec \<Rightarrow> approvals_db \<Rightarrow> bool" where
  "tables_ok ac db \<longleftrightarrow>
     distinct (map ar_id (ad_approvals db)) \<and> (\<forall>r \<in> set (ad_approvals db). row_justified ac db r)
     \<and> (\<forall>rl \<in> set (ad_rules db). rule_backed ac db rl) \<and> events_match db"

text \<open>Later tables keep every event, every decided row and all of a rule but its revocation.\<close>

definition same_rule :: "approval_rule \<Rightarrow> approval_rule \<Rightarrow> bool" where
  "same_rule rl rl' \<longleftrightarrow>
     rl_id rl' = rl_id rl \<and> rl_repository rl' = rl_repository rl \<and> rl_kind rl' = rl_kind rl \<and> rl_pattern rl' = rl_pattern rl
     \<and> rl_created_from rl' = rl_created_from rl"

definition extends :: "approvals_db \<Rightarrow> approvals_db \<Rightarrow> bool" where
  "extends db db' \<longleftrightarrow>
     set (ad_events db) \<subseteq> set (ad_events db')
     \<and> (\<forall>r \<in> set (ad_approvals db). final r \<longrightarrow> r \<in> set (ad_approvals db'))
     \<and> (\<forall>rl \<in> set (ad_rules db). \<exists>rl' \<in> set (ad_rules db'). same_rule rl rl')"

lemma same_rule_refl [simp]: "same_rule rl rl"
  by (simp add: same_rule_def)

lemma extends_refl: "extends db db"
  by (auto simp: extends_def intro: same_rule_refl)

lemma extends_trans:
  assumes "extends db db'" "extends db' db''"
  shows "extends db db''"
proof -
  have "same_rule a b \<Longrightarrow> same_rule b c \<Longrightarrow> same_rule a c" for a b c by (simp add: same_rule_def)
  then show ?thesis using assms unfolding extends_def by (metis subset_trans)
qed

lemma stands_final: "stands_for d (ar_state r) \<Longrightarrow> final r"
  by (cases d) (auto simp: final_def)

lemma human_mono: "extends db db' \<Longrightarrow> human_approved db i \<Longrightarrow> human_approved db' i"
  by (auto simp: extends_def human_approved_def)

lemma decided_mono: "extends db db' \<Longrightarrow> decided db i d \<Longrightarrow> decided db' i d"
  using stands_final by (fastforce simp: extends_def decided_def)

lemma backed_mono: "extends db db' \<Longrightarrow> rule_backed ac db rl \<Longrightarrow> rule_backed ac db' rl"
proof -
  assume x: "extends db db'" and "rule_backed ac db rl"
  then obtain r where r: "approved_as db ''repository'' r" "ar_id r = rl_created_from rl" "learned_from ac r (rl_pattern rl)"
    by (auto simp: rule_backed_def)
  then have "approved_as db' ''repository'' r"
    using x human_mono[OF x] by (auto simp: approved_as_def extends_def final_def)
  with r show ?thesis unfolding rule_backed_def by blast
qed

subsection \<open>The transactions\<close>

lemma append_event_sel:
  "append_event session actor body now db = (e, db') \<Longrightarrow>
     ad_approvals db' = ad_approvals db \<and> ad_rules db' = ad_rules db \<and> ad_events db' = ad_events db @ [e]
     \<and> ev_body e = body \<and> ev_actor e = actor"
  by (auto simp: append_event_def Let_def)

lemma request_tx_effect:
  assumes "request_tx ac outbox rq auto now db = Inr (es, db')"
  shows "ad_approvals db' = ad_approvals db @ [request_row ac rq auto now]" "ad_rules db' = ad_rules db"
    "rq_id rq \<notin> ar_id ` set (ad_approvals db)" "ad_events db' = ad_events db @ es"
    "\<exists>e1. (\<forall>i d. ev_body e1 \<noteq> EB_ApprovalResolved i d)
       \<and> (if auto = None then es = [e1]
          else \<exists>e2. es = [e1, e2] \<and> ev_body e2 = EB_ApprovalResolved (rq_id rq) AD_Approve \<and> ev_actor e2 = Act_System)"
proof -
  define db1 where "db1 = db\<lparr> ad_approvals := ad_approvals db @ [request_row ac rq auto now] \<rparr>"
  obtain e1 db2 where a1: "append_event (rq_session rq) Act_System
      (EB_ApprovalRequested (rq_id rq) (rq_action rq) (rq_risk_json rq) (learnable_pattern (rq_action rq))) now db1 = (e1, db2)"
    by fastforce
  obtain e2 db3 where a2: "append_event (rq_session rq) Act_System (EB_ApprovalResolved (rq_id rq) AD_Approve) now db2 = (e2, db3)"
    by fastforce
  show fresh: "rq_id rq \<notin> ar_id ` set (ad_approvals db)"
    using assms unfolding request_tx_def by (simp split: if_splits)
  have res: "es = (if auto = None then [e1] else [e1, e2]) \<and> db' = (if auto = None then db2 else db3)"
    using assms unfolding request_tx_def db1_def[symmetric] Let_def a1 prod.case a2
    by (simp split: if_splits option.splits)
  note s1 = append_event_sel[OF a1] and s2 = append_event_sel[OF a2]
  show "ad_approvals db' = ad_approvals db @ [request_row ac rq auto now]" "ad_rules db' = ad_rules db"
    "ad_events db' = ad_events db @ es"
    using res s1 s2 by (auto simp: db1_def)
  show "\<exists>e1. (\<forall>i d. ev_body e1 \<noteq> EB_ApprovalResolved i d)
       \<and> (if auto = None then es = [e1]
          else \<exists>e2. es = [e1, e2] \<and> ev_body e2 = EB_ApprovalResolved (rq_id rq) AD_Approve \<and> ev_actor e2 = Act_System)"
    using res s1 s2 by (intro exI[of _ e1]) simp
qed

lemma resolve_effect:
  assumes "resolve_in_tx ac outbox provenance rule_id i d scope resolved_by now db = Inr (e, db')"
  shows "\<exists>row st scope_db pattern. find_row db i = Some row \<and> ar_state row = AS_Pending \<and> decision_state d = Inr st
    \<and> ad_approvals db' = ad_approvals (update_pending i (\<lambda>r. r\<lparr> ar_state := st, ar_scope := scope_db, ar_pattern := pattern,
          ar_resolved_by := Some resolved_by, ar_resolved_at := Some now \<rparr>) db)
    \<and> (\<forall>p. pattern = Some p \<longrightarrow> learned_from ac row p)
    \<and> (\<exists>new. ad_rules db' = ad_rules db @ new
         \<and> (\<forall>rl \<in> set new. d = AD_Approve \<and> scope_db = ''repository'' \<and> rl_created_from rl = i \<and> learned_from ac row (rl_pattern rl)
              \<and> (\<exists>session. provenance (ar_run_id row) session = Inr (Some (rl_repository rl)))))
    \<and> ad_events db' = ad_events db @ [e] \<and> ev_body e = EB_ApprovalResolved i d \<and> ev_actor e = Act_Human resolved_by"
proof -
  obtain st scope_db row session pattern db1 where st: "decision_state d = Inr st" and sc: "scope_to_db scope = Inr scope_db"
    and row: "find_row db i = Some row" "ar_state row = AS_Pending"
    and learn: "learn_tx ac provenance rule_id row session d scope resolved_by now db = Inr (pattern, db1)"
    and tx: "append_event session (Act_Human resolved_by) (EB_ApprovalResolved i d) now
        (update_pending i (\<lambda>r. r\<lparr> ar_state := st, ar_scope := scope_db, ar_pattern := pattern,
          ar_resolved_by := Some resolved_by, ar_resolved_at := Some now \<rparr>) db1) = (e, db')"
    using assms by (auto simp: resolve_in_tx_def res_bind_Inr_iff Let_def split: if_splits option.splits prod.splits)
  have "ar_id row = i" using row(1) by (auto simp: find_row_def dest: find_Some_D)
  with learn sc have "ad_approvals db1 = ad_approvals db \<and> ad_events db1 = ad_events db
      \<and> (\<forall>p. pattern = Some p \<longrightarrow> learned_from ac row p)
      \<and> (\<exists>new. ad_rules db1 = ad_rules db @ new
           \<and> (\<forall>rl \<in> set new. d = AD_Approve \<and> scope_db = ''repository'' \<and> rl_created_from rl = i \<and> learned_from ac row (rl_pattern rl)
              \<and> (\<exists>session. provenance (ar_run_id row) session = Inr (Some (rl_repository rl)))))"
    by (auto simp: learn_tx_def add_rule_def res_bind_Inr_iff learned_from_def intro!: exI[of _ session]
        split: if_splits option.splits sum.splits)
  with append_event_sel[OF tx] row st show ?thesis by (fastforce simp: update_pending_def)
qed

lemma expire_effect:
  assumes "expire_tx outbox now (i, session) db = Inr (Some (e, db'))"
  shows "(\<exists>r \<in> set (ad_approvals db). ar_id r = i \<and> ar_state r = AS_Pending)
    \<and> ad_approvals db' = ad_approvals (update_pending i (\<lambda>r. r\<lparr> ar_state := AS_Expired, ar_resolved_at := Some now \<rparr>) db)
    \<and> ad_rules db' = ad_rules db \<and> ad_events db' = ad_events db @ [e]
    \<and> ev_body e = EB_ApprovalResolved i AD_Reject \<and> ev_actor e = Act_System"
proof -
  obtain db1 where "append_event session Act_System (EB_ApprovalResolved i AD_Reject) now
      (update_pending i (\<lambda>r. r\<lparr> ar_state := AS_Expired, ar_resolved_at := Some now \<rparr>) db) = (e, db')"
    and "\<exists>r \<in> set (ad_approvals db). ar_id r = i \<and> ar_state r = AS_Pending"
    using assms by (auto simp: expire_tx_def Let_def list_ex_iff split: if_splits option.splits prod.splits)
  with append_event_sel show ?thesis by (fastforce simp: update_pending_def)
qed

lemma updated_rows:
  assumes "r \<in> set (ad_approvals (update_pending i f db))"
  shows "(r \<in> set (ad_approvals db) \<and> \<not> (ar_id r = i \<and> ar_state r = AS_Pending))
    \<or> (\<exists>r0 \<in> set (ad_approvals db). ar_id r0 = i \<and> ar_state r0 = AS_Pending \<and> r = f r0)"
  using assms by (auto simp: update_pending_def split: if_splits)

lemma updated_keeps_final: "r \<in> set (ad_approvals db) \<Longrightarrow> final r \<Longrightarrow> r \<in> set (ad_approvals (update_pending i f db))"
  by (auto simp: update_pending_def final_def image_iff)

lemma updated_row: "r \<in> set (ad_approvals db) \<Longrightarrow> ar_id r = i \<Longrightarrow> ar_state r = AS_Pending \<Longrightarrow> f r \<in> set (ad_approvals (update_pending i f db))"
  by (auto simp: update_pending_def image_iff)

lemma updated_ids: "(\<And>r. ar_id (f r) = ar_id r) \<Longrightarrow> map ar_id (ad_approvals (update_pending i f db)) = map ar_id (ad_approvals db)"
  by (simp add: update_pending_def)

lemma extends_same_rules:
  "set (ad_events db) \<subseteq> set (ad_events db') \<Longrightarrow> (\<And>r. r \<in> set (ad_approvals db) \<Longrightarrow> final r \<Longrightarrow> r \<in> set (ad_approvals db'))
     \<Longrightarrow> set (ad_rules db) \<subseteq> set (ad_rules db') \<Longrightarrow> extends db db'"
  unfolding extends_def using same_rule_refl by blast

lemma request_extends: "request_tx ac outbox rq auto now db = Inr (es, db') \<Longrightarrow> extends db db'"
  using request_tx_effect[of ac outbox rq auto now db es db'] by (intro extends_same_rules) auto

lemma resolve_extends:
  assumes "resolve_in_tx ac outbox provenance rule_id i d scope resolved_by now db = Inr (e, db')"
  shows "extends db db'"
proof -
  obtain f new where "ad_approvals db' = ad_approvals (update_pending i f db)" "ad_rules db' = ad_rules db @ new"
    "ad_events db' = ad_events db @ [e]"
    using resolve_effect[OF assms] by blast
  then show ?thesis using updated_keeps_final by (intro extends_same_rules) auto
qed

lemma expire_extends: "expire_tx outbox now (i, session) db = Inr (Some (e, db')) \<Longrightarrow> extends db db'"
  using expire_effect[of outbox now i session db e db'] updated_keeps_final by (intro extends_same_rules) auto

lemma revoke_extends: "extends db (revoke_rule rule_id now db)"
proof -
  have "\<exists>rl' \<in> set (ad_rules (revoke_rule rule_id now db)). same_rule rl rl'"
    if "rl \<in> set (ad_rules db)" for rl
    using that by (intro bexI[of _ "if rl_id rl = rule_id \<and> rl_revoked_at rl = None
        then rl\<lparr> rl_revoked_at := Some now, rl_revoked_by := Some ''cli'' \<rparr> else rl"]) (auto simp: revoke_rule_def same_rule_def)
  then show ?thesis by (auto simp: extends_def) (simp_all add: revoke_rule_def)
qed

lemma others_extends: "extends db (db\<lparr> ad_sessions := sessions, ad_runs := runs \<rparr>)"
  by (auto simp: extends_def intro: same_rule_refl)

subsection \<open>The tables stay well formed\<close>

lemma justified_mono: "extends db db' \<Longrightarrow> row_justified ac db r \<Longrightarrow> row_justified ac db' r"
  unfolding row_justified_def using human_mono by blast

lemma tables_ok_decide:
  assumes ok: "tables_ok ac db" and x: "extends db db'"
    and pending: "r0 \<in> set (ad_approvals db)" "ar_id r0 = i" "ar_state r0 = AS_Pending"
    and rows: "ad_approvals db' = ad_approvals (update_pending i f db)"
    and f: "\<And>r. ar_id (f r) = ar_id r" "\<And>r. final (f r)" "row_justified ac db' (f r0)"
    and rules: "\<And>rl. rl \<in> set (ad_rules db') \<Longrightarrow> rl \<in> set (ad_rules db) \<or> rule_backed ac db' rl"
    and ev: "ad_events db' = ad_events db @ [e]" "ev_body e = EB_ApprovalResolved i d"
  shows "tables_ok ac db'"
proof -
  have dist: "distinct (map ar_id (ad_approvals db))" using ok by (simp add: tables_ok_def)
  have only: "r = r0" if "r \<in> set (ad_approvals db)" "ar_id r = i" for r
    using dist that pending by (auto simp: distinct_map dest: inj_onD)
  have "row_justified ac db' r" if "r \<in> set (ad_approvals db')" for r
    using that ok f(3) only justified_mono[OF x] unfolding rows tables_ok_def by (auto dest!: updated_rows)
  moreover have "rule_backed ac db' rl" if "rl \<in> set (ad_rules db')" for rl
    using rules[OF that] ok backed_mono[OF x] by (auto simp: tables_ok_def)
  moreover have "events_match db'"
    unfolding events_match_def
  proof
    fix j
    have old: "length (resolved_events j (ad_events db)) = (if \<exists>r \<in> set (ad_approvals db). ar_id r = j \<and> final r then 1 else 0)"
      using ok by (simp add: tables_ok_def events_match_def)
    show "length (resolved_events j (ad_events db')) = (if \<exists>r \<in> set (ad_approvals db'). ar_id r = j \<and> final r then 1 else 0)"
    proof (cases "j = i")
      case True
      have "\<not> (\<exists>r \<in> set (ad_approvals db). ar_id r = i \<and> final r)" using only pending(3) unfolding final_def by blast
      moreover have "\<exists>r \<in> set (ad_approvals db'). ar_id r = i \<and> final r"
        unfolding rows using updated_row[OF pending] f(1,2) pending(2) by (intro bexI[of _ "f r0"]) simp_all
      ultimately show ?thesis using old by (simp add: True ev resolved_events_def)
    next
      case False
      have "(\<exists>r \<in> set (ad_approvals db'). ar_id r = j \<and> final r) \<longleftrightarrow> (\<exists>r \<in> set (ad_approvals db). ar_id r = j \<and> final r)"
        (is "?new = ?old")
      proof
        assume ?new
        then obtain r where r: "r \<in> set (ad_approvals db')" "ar_id r = j" "final r" by blast
        then show ?old using updated_rows[OF r(1)[unfolded rows]] False f(1) by auto
      next
        assume ?old
        then show ?new unfolding rows using updated_keeps_final by blast
      qed
      with old False show ?thesis by (simp add: ev resolved_events_def)
    qed
  qed
  ultimately show ?thesis using dist by (simp add: tables_ok_def rows updated_ids f(1))
qed

lemma find_row_D: "find_row db i = Some r \<Longrightarrow> r \<in> set (ad_approvals db) \<and> ar_id r = i"
  by (auto simp: find_row_def dest: find_Some_D)

text \<open>What is known of a rule a resolution adds: the repository is that of the run, as the resolution saw it.\<close>

lemma resolve_rules:
  assumes tx: "resolve_in_tx ac outbox provenance rule_id i d scope resolved_by now db = Inr (e, db')" and rl: "rl \<in> set (ad_rules db')"
  shows "rl \<in> set (ad_rules db)
    \<or> (\<exists>r session. approved_as db' ''repository'' r \<and> ar_id r = rl_created_from rl \<and> rl_created_from rl = i
        \<and> learned_from ac r (rl_pattern rl) \<and> provenance (ar_run_id r) session = Inr (Some (rl_repository rl)))"
proof (cases "rl \<in> set (ad_rules db)")
  case False
  obtain row st scope_db pattern new where row: "find_row db i = Some row" "ar_state row = AS_Pending" and st: "decision_state d = Inr st"
    and rows: "ad_approvals db' = ad_approvals (update_pending i (\<lambda>r. r\<lparr> ar_state := st, ar_scope := scope_db, ar_pattern := pattern,
          ar_resolved_by := Some resolved_by, ar_resolved_at := Some now \<rparr>) db)"
    and new: "ad_rules db' = ad_rules db @ new"
      "\<forall>rl \<in> set new. d = AD_Approve \<and> scope_db = ''repository'' \<and> rl_created_from rl = i \<and> learned_from ac row (rl_pattern rl)
         \<and> (\<exists>session. provenance (ar_run_id row) session = Inr (Some (rl_repository rl)))"
    and ev: "ad_events db' = ad_events db @ [e]" "ev_body e = EB_ApprovalResolved i d" "ev_actor e = Act_Human resolved_by"
    using resolve_effect[OF tx] by blast
  let ?f = "\<lambda>r. r\<lparr> ar_state := st, ar_scope := scope_db, ar_pattern := pattern, ar_resolved_by := Some resolved_by,
      ar_resolved_at := Some now \<rparr>"
  obtain session where rl': "d = AD_Approve" "scope_db = ''repository''" "rl_created_from rl = i" "learned_from ac row (rl_pattern rl)"
    "provenance (ar_run_id row) session = Inr (Some (rl_repository rl))"
    using rl False new by auto
  have mem: "row \<in> set (ad_approvals db)" "ar_id row = i" using find_row_D[OF row(1)] by simp_all
  have "?f row \<in> set (ad_approvals db')" unfolding rows by (rule updated_row[OF mem row(2)])
  moreover have "human_approved db' i" using ev rl'(1) by (auto simp: human_approved_def)
  moreover have "st = AS_Approved" using st rl'(1) by simp
  ultimately have "approved_as db' ''repository'' (?f row)" using rl'(2) mem(2) by (simp add: approved_as_def)
  moreover have "learned_from ac (?f row) (rl_pattern rl)" using rl'(4) by (simp add: learned_from_def)
  ultimately show ?thesis using rl'(3,5) mem(2) by (intro disjI2 exI[of _ "?f row"] exI[of _ session]) simp
qed simp

lemma resolve_tables_ok:
  assumes ok: "tables_ok ac db" and tx: "resolve_in_tx ac outbox provenance rule_id i d scope resolved_by now db = Inr (e, db')"
  shows "tables_ok ac db'"
proof -
  note x = resolve_extends[OF tx]
  obtain row st scope_db pattern where row: "find_row db i = Some row" "ar_state row = AS_Pending" and st: "decision_state d = Inr st"
    and rows: "ad_approvals db' = ad_approvals (update_pending i (\<lambda>r. r\<lparr> ar_state := st, ar_scope := scope_db, ar_pattern := pattern,
          ar_resolved_by := Some resolved_by, ar_resolved_at := Some now \<rparr>) db)"
    and pat: "\<forall>p. pattern = Some p \<longrightarrow> learned_from ac row p"
    and ev: "ad_events db' = ad_events db @ [e]" "ev_body e = EB_ApprovalResolved i d" "ev_actor e = Act_Human resolved_by"
    using resolve_effect[OF tx] by blast
  have human: "d = AD_Approve \<Longrightarrow> human_approved db' i" using ev by (auto simp: human_approved_def)
  have st_d: "st = AS_Approved \<longleftrightarrow> d = AD_Approve" "st \<noteq> AS_Pending" using st by (cases d; auto)+
  have mem: "row \<in> set (ad_approvals db)" "ar_id row = i" using find_row_D[OF row(1)] by simp_all
  let ?f = "\<lambda>r. r\<lparr> ar_state := st, ar_scope := scope_db, ar_pattern := pattern, ar_resolved_by := Some resolved_by,
      ar_resolved_at := Some now \<rparr>"
  show ?thesis
  proof (rule tables_ok_decide[OF ok x mem row(2) rows])
    show "row_justified ac db' (?f row)"
      using st_d human mem(2) pat unfolding row_justified_def by (simp add: learned_from_def)
    show "rl \<in> set (ad_rules db) \<or> rule_backed ac db' rl" if "rl \<in> set (ad_rules db')" for rl
      using resolve_rules[OF tx that] by (auto simp: rule_backed_def)
  qed (use ev st_d in \<open>simp_all add: final_def\<close>)
qed

lemma expire_tables_ok:
  assumes ok: "tables_ok ac db" and tx: "expire_tx outbox now (i, session) db = Inr (Some (e, db'))"
  shows "tables_ok ac db'"
proof -
  obtain r0 where r0: "r0 \<in> set (ad_approvals db)" "ar_id r0 = i" "ar_state r0 = AS_Pending"
    and rows: "ad_approvals db' = ad_approvals (update_pending i (\<lambda>r. r\<lparr> ar_state := AS_Expired, ar_resolved_at := Some now \<rparr>) db)"
    and rest: "ad_rules db' = ad_rules db" "ad_events db' = ad_events db @ [e]" "ev_body e = EB_ApprovalResolved i AD_Reject"
    using expire_effect[OF tx] by blast
  show ?thesis
    by (rule tables_ok_decide[OF ok expire_extends[OF tx] r0 rows _ _ _ _ rest(2,3)])
       (simp_all add: rest(1) final_def row_justified_def)
qed

lemma request_tables_ok:
  assumes ok: "tables_ok ac db" and tx: "request_tx ac outbox rq auto now db = Inr (es, db')"
  shows "tables_ok ac db'"
proof -
  note eff = request_tx_effect[OF tx] and x = request_extends[OF tx]
  obtain e1 where e1: "\<forall>i d. ev_body e1 \<noteq> EB_ApprovalResolved i d"
    and es: "if auto = None then es = [e1]
          else \<exists>e2. es = [e1, e2] \<and> ev_body e2 = EB_ApprovalResolved (rq_id rq) AD_Approve \<and> ev_actor e2 = Act_System"
    using eff(5) by blast
  have new: "row_justified ac db' (request_row ac rq auto now)"
    by (simp add: row_justified_def request_row_def)
  have old: "row_justified ac db' r" if "r \<in> set (ad_approvals db)" for r
    using that ok justified_mono[OF x] by (auto simp: tables_ok_def)
  have "events_match db'"
    unfolding events_match_def
  proof
    fix j
    have "length (resolved_events j (ad_events db)) = (if \<exists>r \<in> set (ad_approvals db). ar_id r = j \<and> final r then 1 else 0)"
      using ok by (simp add: tables_ok_def events_match_def)
    moreover have "length (resolved_events j es) = (if j = rq_id rq \<and> auto \<noteq> None then 1 else 0)"
      using e1 es by (auto simp: resolved_events_def split: if_splits)
    moreover have "final (request_row ac rq auto now) \<longleftrightarrow> auto \<noteq> None" "ar_id (request_row ac rq auto now) = rq_id rq"
      by (auto simp: final_def request_row_def)
    ultimately show "length (resolved_events j (ad_events db')) = (if \<exists>r \<in> set (ad_approvals db'). ar_id r = j \<and> final r then 1 else 0)"
      using eff(3) by (auto simp: eff(1,4) resolved_events_def image_iff)
  qed
  then show ?thesis using ok new old eff(3) backed_mono[OF x]
    by (auto simp: tables_ok_def eff(1,2) request_row_def)
qed

lemma revoke_tables_ok:
  assumes ok: "tables_ok ac db"
  shows "tables_ok ac (revoke_rule rule_id now db)"
proof -
  have "row_justified ac (revoke_rule rule_id now db) r" if "r \<in> set (ad_approvals db)" for r
    using that ok justified_mono[OF revoke_extends] by (auto simp: tables_ok_def)
  moreover have "rule_backed ac (revoke_rule rule_id now db) rl" if rl: "rl \<in> set (ad_rules (revoke_rule rule_id now db))" for rl
  proof -
    obtain rl0 where rl0: "rl0 \<in> set (ad_rules db)"
      and "rl = (if rl_id rl0 = rule_id \<and> rl_revoked_at rl0 = None
                 then rl0\<lparr> rl_revoked_at := Some now, rl_revoked_by := Some ''cli'' \<rparr> else rl0)"
      using rl by (auto simp: revoke_rule_def)
    then have "rl_pattern rl = rl_pattern rl0" "rl_created_from rl = rl_created_from rl0" by simp_all
    moreover from rl0 have "rule_backed ac (revoke_rule rule_id now db) rl0" using ok backed_mono[OF revoke_extends] by (simp add: tables_ok_def)
    ultimately show ?thesis by (simp add: rule_backed_def)
  qed
  moreover have "ad_approvals (revoke_rule rule_id now db) = ad_approvals db" "events_match (revoke_rule rule_id now db) = events_match db"
    by (simp_all add: revoke_rule_def events_match_def)
  ultimately show ?thesis using ok by (simp add: tables_ok_def)
qed

lemma others_tables_ok:
  assumes ok: "tables_ok ac db"
  shows "tables_ok ac (db\<lparr> ad_sessions := sessions, ad_runs := runs \<rparr>)"
  using ok justified_mono[OF others_extends] backed_mono[OF others_extends]
  by (simp add: tables_ok_def events_match_def)

subsection \<open>Reuse goes back to a human\<close>

lemma auto_covered:
  assumes ok: "tables_ok ac db" and "auto_approve C ac rq db = Some a"
  shows "rq_allow_run_reuse rq \<and> (covered_in_run C ac db rq \<or> covered_in_repository ac db rq)"
proof -
  have reuse: "rq_allow_run_reuse rq" using assms(2) by (simp add: auto_approve_def split: if_splits)
  have human: "human_approved db (ar_id r)"
    if "r \<in> set (ad_approvals db)" "ar_state r = AS_Approved" "ar_scope r \<noteq> ''once''" for r
    using ok that by (simp add: tables_ok_def row_justified_def)
  show ?thesis
  proof (cases "run_scoped_match C db (rq_run rq) (action_digest C ac (rq_action rq))")
    case True
    then have "covered_in_run C ac db rq"
      using human by (auto simp: run_scoped_match_def list_ex_iff covered_in_run_def approved_as_def action_digest_def)
    with reuse show ?thesis by simp
  next
    case False
    then have match: "pattern_match db (rq_run rq) (rq_repository rq) (rq_action rq) = Some a"
      using assms(2) reuse by (simp add: auto_approve_def)
    then obtain program args environment cwd where act: "rq_action rq = PA_ExecuteCommand program args environment cwd"
      by (cases "rq_action rq") auto
    then obtain pat where "command_pattern program args environment = Some pat" using match by (auto split: if_splits)
    then have "environment = []" by (rule command_pattern_Some(2))
    then have covers: "pattern_matches p program args \<Longrightarrow> command_covered p (rq_action rq)" for p
      using act by (simp add: command_covered_def)
    show ?thesis
    proof (cases "run_pattern_match db (rq_run rq) program args")
      case None
      then obtain repo rl where "rq_repository rq = Some repo" "rule_match db repo program args = Some rl"
        using match act by (auto split: if_splits option.splits)
      then have rl: "rl \<in> set (ad_rules db)" "rq_repository rq = Some (rl_repository rl)" "rl_kind rl = ''command-prefix''"
        "rl_revoked_at rl = None" "pattern_matches (rl_pattern rl) program args"
        by (auto simp: rule_match_def dest!: find_Some_D)
      moreover from rl(1) have "rule_backed ac db rl" using ok by (simp add: tables_ok_def)
      ultimately have "covered_in_repository ac db rq" using covers by (auto simp: covered_in_repository_def)
      with reuse show ?thesis by simp
    next
      case (Some p)
      then obtain r where r: "r \<in> set (ad_approvals db)" "ar_run_id r = rq_run rq" "ar_scope r = ''pattern''"
        "ar_state r = AS_Approved" "ar_pattern r = Some p" "pattern_matches p program args"
        by (auto simp: run_pattern_match_def set_map_filter dest!: find_Some_D)
      moreover from r have "learned_from ac r p" using ok by (simp add: tables_ok_def row_justified_def)
      ultimately have "covered_in_run C ac db rq" using human covers by (auto simp: covered_in_run_def approved_as_def)
      with reuse show ?thesis by simp
    qed
  qed
qed

subsection \<open>The invariant of the system\<close>

definition told :: "approvals_sys \<Rightarrow> string \<Rightarrow> approval_decision \<Rightarrow> bool" where
  "told s i d \<longleftrightarrow> sy_waiters s i = Some (Some d) \<or> (i, d) \<in> set (sy_waking s) \<or> (i, Some d) \<in> set (sy_registering s)"

definition sys_ok :: "action_codec \<Rightarrow> approvals_sys \<Rightarrow> bool" where
  "sys_ok ac s \<longleftrightarrow>
     tables_ok ac (sy_db s)
     \<and> (\<forall>i d. told s i d \<or> (i, d) \<in> set (sy_taken s) \<longrightarrow> decided (sy_db s) i d)
     \<and> (\<forall>r \<in> set (ad_approvals (sy_db s)). final r \<longrightarrow> ar_id r \<in> sy_gone s \<or> (\<exists>d. told s (ar_id r) d))"

lemma decided_unique:
  "tables_ok ac db \<Longrightarrow> decided db i d \<Longrightarrow> decided db i d' \<Longrightarrow> d = d'"
proof -
  assume ok: "tables_ok ac db" and "decided db i d" "decided db i d'"
  then obtain r r' where "r \<in> set (ad_approvals db)" "r' \<in> set (ad_approvals db)" "ar_id r = ar_id r'"
    "stands_for d (ar_state r)" "stands_for d' (ar_state r')" by (auto simp: decided_def)
  moreover then have "r = r'" using ok by (auto simp: tables_ok_def distinct_map dest: inj_onD)
  ultimately show ?thesis by (cases d; cases d') auto
qed

lemma sys_ok_tables:
  assumes ok: "sys_ok ac s" and x: "extends (sy_db s) db" and t: "tables_ok ac db"
    and told: "\<And>i d. told s' i d \<Longrightarrow> told s i d \<or> decided db i d"
    and keep: "\<And>i d. told s i d \<Longrightarrow> told s' i d"
    and rows: "\<And>r. r \<in> set (ad_approvals db) \<Longrightarrow> final r \<Longrightarrow> r \<in> set (ad_approvals (sy_db s)) \<or> (\<exists>d. told s' (ar_id r) d)"
    and rest: "sy_db s' = db" "sy_taken s' = sy_taken s" "sy_gone s' = sy_gone s"
  shows "sys_ok ac s'"
  unfolding sys_ok_def rest
proof (intro conjI allI impI ballI)
  show "decided db i d" if "told s' i d \<or> (i, d) \<in> set (sy_taken s)" for i d
    using that told ok decided_mono[OF x] unfolding sys_ok_def by blast
  show "ar_id r \<in> sy_gone s \<or> (\<exists>d. told s' (ar_id r) d)" if "r \<in> set (ad_approvals db)" "final r" for r
    using rows[OF that] that ok keep unfolding sys_ok_def by blast
qed (rule t)

lemma reload_waiters_some: "reload_waiters db w i = Some (Some d) \<longleftrightarrow> w i = Some (Some d)"
proof -
  have "fold (\<lambda>r. register_waiter (ar_id r) None) rs w i = Some (Some d) \<longleftrightarrow> w i = Some (Some d)" for rs
    by (induction rs arbitrary: w) (auto simp: register_waiter_def split: option.splits)
  then show ?thesis by (simp add: reload_waiters_def)
qed

lemma request_rows:
  assumes "request_tx ac outbox rq auto now db = Inr (es, db')" "r \<in> set (ad_approvals db')" "final r"
  shows "r \<in> set (ad_approvals db) \<or> ar_id r = rq_id rq \<and> auto \<noteq> None"
  using request_tx_effect(1)[OF assms(1)] assms(2,3) by (cases auto) (auto simp: request_row_def final_def)

lemma resolve_rows:
  assumes "resolve_in_tx ac outbox provenance rule_id i d scope resolved_by now db = Inr (e, db')" "r \<in> set (ad_approvals db')"
  shows "r \<in> set (ad_approvals db) \<or> ar_id r = i"
  using resolve_effect[OF assms(1)] assms(2) by (auto dest!: updated_rows)

lemma expire_rows:
  assumes "expire_tx outbox now (i, session) db = Inr (Some (e, db'))" "r \<in> set (ad_approvals db')"
  shows "r \<in> set (ad_approvals db) \<or> ar_id r = i"
  using expire_effect[OF assms(1)] assms(2) by (auto dest!: updated_rows)

lemma request_decides:
  "request_tx ac outbox rq (Some a) now db = Inr (es, db') \<Longrightarrow> decided db' (rq_id rq) AD_Approve"
  using request_tx_effect(1)[of ac outbox rq "Some a" now db es db'] by (simp add: decided_def request_row_def)

lemma resolve_decides:
  assumes "resolve_in_tx ac outbox provenance rule_id i d scope resolved_by now db = Inr (e, db')"
  shows "decided db' i d"
proof -
  obtain row st scope_db pattern where row: "find_row db i = Some row" "ar_state row = AS_Pending" and st: "decision_state d = Inr st"
    and rows: "ad_approvals db' = ad_approvals (update_pending i (\<lambda>r. r\<lparr> ar_state := st, ar_scope := scope_db, ar_pattern := pattern,
          ar_resolved_by := Some resolved_by, ar_resolved_at := Some now \<rparr>) db)"
    using resolve_effect[OF assms] by blast
  have "row \<in> set (ad_approvals db)" "ar_id row = i" using find_row_D[OF row(1)] by simp_all
  note new = updated_row[OF this row(2)]
  have "stands_for d st" using st by (cases d) auto
  with new[of "\<lambda>r. r\<lparr> ar_state := st, ar_scope := scope_db, ar_pattern := pattern, ar_resolved_by := Some resolved_by,
      ar_resolved_at := Some now \<rparr>"] \<open>ar_id row = i\<close>
  show ?thesis unfolding decided_def rows by (intro bexI) auto
qed

lemma expire_decides:
  assumes "expire_tx outbox now (i, session) db = Inr (Some (e, db'))"
  shows "decided db' i AD_Reject"
proof -
  obtain r0 where r0: "r0 \<in> set (ad_approvals db)" "ar_id r0 = i" "ar_state r0 = AS_Pending"
    and rows: "ad_approvals db' = ad_approvals (update_pending i (\<lambda>r. r\<lparr> ar_state := AS_Expired, ar_resolved_at := Some now \<rparr>) db)"
    using expire_effect[OF assms] by blast
  show ?thesis unfolding decided_def rows
    using updated_row[OF r0, of "\<lambda>r. r\<lparr> ar_state := AS_Expired, ar_resolved_at := Some now \<rparr>"] r0(2) by (intro bexI) auto
qed

lemma sys_ok_waiters:
  assumes ok: "sys_ok ac s" and same: "sy_db s' = sy_db s"
    and told: "\<And>i d. told s' i d \<Longrightarrow> told s i d"
    and taken: "\<And>i d. (i, d) \<in> set (sy_taken s') \<Longrightarrow> (i, d) \<in> set (sy_taken s) \<or> told s i d"
    and keep: "\<And>i d. told s i d \<Longrightarrow> i \<in> sy_gone s' \<or> (\<exists>d'. told s' i d')" and gone: "sy_gone s \<subseteq> sy_gone s'"
  shows "sys_ok ac s'"
  using ok told taken keep gone unfolding sys_ok_def same by blast

lemma register_some:
  "register_waiter i initial w j = Some (Some d) \<longleftrightarrow> (if j = i \<and> initial \<noteq> None then initial = Some d else w j = Some (Some d))"
  by (auto simp: register_waiter_def split: option.splits)

lemma sys_ok_step:
  assumes "approvals_step C ac s s'" and ok: "sys_ok ac s"
  shows "sys_ok ac s'"
  using assms(1)
proof cases
  case (step_match rq)
  then show ?thesis using ok by (simp add: sys_ok_def told_def)
next
  case (step_request rq auto outbox now es db)
  have t: "tables_ok ac db" using ok request_tables_ok[OF _ step_request(3)] by (simp add: sys_ok_def)
  show ?thesis
  proof (rule sys_ok_tables[OF ok request_extends[OF step_request(3)] t])
    show "told s i d \<or> decided db i d" if "told s' i d" for i d
      using that step_request(1,3) request_decides by (cases auto) (auto simp: told_def)
    show "r \<in> set (ad_approvals (sy_db s)) \<or> (\<exists>d. told s' (ar_id r) d)" if "r \<in> set (ad_approvals db)" "final r" for r
      using request_rows[OF step_request(3) that] by (auto simp: step_request(1) told_def)
  qed (auto simp: step_request(1) told_def)
next
  case (step_request_fails outbox rq auto now e)
  then show ?thesis using ok by (simp add: sys_ok_def told_def)
next
  case (step_register i initial)
  show ?thesis
  proof (rule sys_ok_waiters[OF ok])
    show "told s j d" if "told s' j d" for j d
      using that step_register set_remove1_subset[of "(i, initial)" "sy_registering s"]
      by (auto simp: told_def register_some split: if_splits)
    show "j \<in> sy_gone s' \<or> (\<exists>d'. told s' j d')" if "told s j d" for j d
      using that in_set_remove1[of "(j, Some d)" "(i, initial)" "sy_registering s"]
      by (cases "j = i \<and> initial \<noteq> None") (auto simp: step_register(1) told_def register_some)
  qed (simp_all add: step_register(1))
next
  case (step_resolve outbox provenance rule_id i d scope resolved_by now e db)
  have t: "tables_ok ac db" using ok resolve_tables_ok[OF _ step_resolve(2)] by (simp add: sys_ok_def)
  show ?thesis
  proof (rule sys_ok_tables[OF ok resolve_extends[OF step_resolve(2)] t])
    show "told s j c \<or> decided db j c" if "told s' j c" for j c
      using that step_resolve(1) resolve_decides[OF step_resolve(2)] by (auto simp: told_def)
    show "r \<in> set (ad_approvals (sy_db s)) \<or> (\<exists>d. told s' (ar_id r) d)" if "r \<in> set (ad_approvals db)" "final r" for r
      using resolve_rows[OF step_resolve(2) that(1)] by (auto simp: step_resolve(1) told_def)
  qed (auto simp: step_resolve(1) told_def)
next
  case (step_expire outbox now i session e db)
  have t: "tables_ok ac db" using ok expire_tables_ok[OF _ step_expire(2)] by (simp add: sys_ok_def)
  show ?thesis
  proof (rule sys_ok_tables[OF ok expire_extends[OF step_expire(2)] t])
    show "told s j c \<or> decided db j c" if "told s' j c" for j c
      using that step_expire(1) expire_decides[OF step_expire(2)] by (auto simp: told_def)
    show "r \<in> set (ad_approvals (sy_db s)) \<or> (\<exists>d. told s' (ar_id r) d)" if "r \<in> set (ad_approvals db)" "final r" for r
      using expire_rows[OF step_expire(2) that(1)] by (auto simp: step_expire(1) told_def)
  qed (auto simp: step_expire(1) told_def)
next
  case (step_wake i d)
  show ?thesis
  proof (rule sys_ok_waiters[OF ok])
    show "told s j c" if "told s' j c" for j c
      using that step_wake set_remove1_subset[of "(i, d)" "sy_waking s"] by (auto simp: told_def wake_def split: if_splits)
    show "j \<in> sy_gone s' \<or> (\<exists>d'. told s' j d')" if "told s j c" for j c
      using that in_set_remove1[of "(j, c)" "(i, d)" "sy_waking s"]
      by (cases "j = i") (auto simp: step_wake(1) told_def wake_def)
  qed (simp_all add: step_wake(1))
next
  case (step_await i d w)
  have w: "sy_waiters s i = Some (Some d)" "w = (sy_waiters s)(i := None)"
    using step_await(2) by (auto simp: await_decision_def split: option.splits)
  show ?thesis
    by (rule sys_ok_waiters[OF ok]) (auto simp: step_await(1) told_def w split: if_splits)
next
  case (step_forget i)
  show ?thesis
    by (rule sys_ok_waiters[OF ok]) (auto simp: step_forget told_def forget_waiter_def split: if_splits)
next
  case step_reload
  then show ?thesis using ok by (simp add: sys_ok_def told_def reload_waiters_some)
next
  case step_restart
  then show ?thesis using ok by (auto simp: sys_ok_def told_def final_def)
next
  case (step_revoke rule_id now)
  then show ?thesis
    using ok revoke_tables_ok by (intro sys_ok_tables[OF ok revoke_extends]) (auto simp: sys_ok_def told_def revoke_rule_def)
next
  case (step_others sessions runs)
  then show ?thesis
    using ok others_tables_ok by (intro sys_ok_tables[OF ok others_extends]) (auto simp: sys_ok_def told_def)
qed

lemma sys_ok_reach: "approvals_reach C ac s \<Longrightarrow> sys_ok ac s"
proof (induction rule: approvals_reach.induct)
  case reach_start
  then show ?case by (simp add: empty_sys_def approvals_empty_def sys_ok_def tables_ok_def events_match_def told_def resolved_events_def)
qed (rule sys_ok_step)

lemma step_extends: "approvals_step C ac s s' \<Longrightarrow> extends (sy_db s) (sy_db s')"
  by (erule approvals_step.cases)
     (auto simp: extends_refl intro: request_extends resolve_extends expire_extends revoke_extends others_extends)

subsection \<open>Where an approval comes from\<close>

definition covered_by_human :: "crypto \<Rightarrow> action_codec \<Rightarrow> approvals_db \<Rightarrow> approval_request \<Rightarrow> bool" where
  "covered_by_human C ac db rq \<longleftrightarrow>
     rq_allow_run_reuse rq \<and> (covered_in_run C ac db rq \<or> covered_in_repository ac db rq)"

definition row_of_request :: "action_codec \<Rightarrow> approval_request \<Rightarrow> approval_row \<Rightarrow> bool" where
  "row_of_request ac rq r \<longleftrightarrow>
     ar_id r = rq_id rq \<and> ar_run_id r = rq_run rq \<and> ar_action_json r = ac_json ac (rq_action rq)"

definition query_covered :: "crypto \<Rightarrow> action_codec \<Rightarrow> approvals_sys \<Rightarrow> approval_request \<Rightarrow> bool" where
  "query_covered C ac s rq \<longleftrightarrow> (\<exists>seen. (rq, seen) \<in> set (sy_queried s) \<and> covered_by_human C ac seen rq)"

definition row_origin :: "crypto \<Rightarrow> action_codec \<Rightarrow> approvals_sys \<Rightarrow> approval_row \<Rightarrow> bool" where
  "row_origin C ac s r \<longleftrightarrow>
     human_approved (sy_db s) (ar_id r)
     \<or> (\<exists>rq \<in> set (sy_requested s). row_of_request ac rq r \<and> query_covered C ac s rq)"

definition origin_ok :: "crypto \<Rightarrow> action_codec \<Rightarrow> approvals_sys \<Rightarrow> bool" where
  "origin_ok C ac s \<longleftrightarrow>
     (\<forall>(rq, seen) \<in> set (sy_queried s). extends seen (sy_db s))
     \<and> (\<forall>rq a. (rq, Some a) \<in> set (sy_matching s) \<longrightarrow> query_covered C ac s rq)
     \<and> (\<forall>r \<in> set (ad_approvals (sy_db s)). ar_state r = AS_Approved \<longrightarrow> row_origin C ac s r)
     \<and> rq_id ` set (sy_requested s) \<subseteq> ar_id ` set (ad_approvals (sy_db s)) \<and> distinct (map rq_id (sy_requested s))"

lemma row_origin_mono:
  assumes "extends (sy_db s) (sy_db s')" "set (sy_queried s) \<subseteq> set (sy_queried s')" "set (sy_requested s) \<subseteq> set (sy_requested s')"
    and "row_origin C ac s r"
  shows "row_origin C ac s' r"
  using assms human_mono[OF assms(1)] unfolding row_origin_def query_covered_def by blast

lemma origin_ok_keep:
  assumes ok: "origin_ok C ac s" and x: "extends (sy_db s) (sy_db s')"
    and same: "sy_queried s' = sy_queried s" "sy_requested s' = sy_requested s" "set (sy_matching s') \<subseteq> set (sy_matching s)"
    and ids: "ar_id ` set (ad_approvals (sy_db s)) \<subseteq> ar_id ` set (ad_approvals (sy_db s'))"
    and rows: "\<And>r. r \<in> set (ad_approvals (sy_db s')) \<Longrightarrow> ar_state r = AS_Approved
        \<Longrightarrow> r \<in> set (ad_approvals (sy_db s)) \<or> human_approved (sy_db s') (ar_id r)"
  shows "origin_ok C ac s'"
proof -
  have "row_origin C ac s' r" if r: "r \<in> set (ad_approvals (sy_db s'))" "ar_state r = AS_Approved" for r
  proof (cases "human_approved (sy_db s') (ar_id r)")
    case True
    then show ?thesis by (simp add: row_origin_def)
  next
    case False
    then have "row_origin C ac s r" using rows[OF r] r ok by (auto simp: origin_ok_def)
    then show ?thesis using same by (intro row_origin_mono[OF x]) simp_all
  qed
  moreover have "extends seen (sy_db s')" if "(rq, seen) \<in> set (sy_queried s)" for rq seen
    using that ok extends_trans[OF _ x] by (fastforce simp: origin_ok_def)
  moreover have "query_covered C ac s' rq" if "(rq, Some a) \<in> set (sy_matching s')" for rq a
  proof -
    from that same(3) have "(rq, Some a) \<in> set (sy_matching s)" by (rule rev_subsetD)
    then have "query_covered C ac s rq" using ok unfolding origin_ok_def by blast
    then show ?thesis by (simp add: query_covered_def same(1))
  qed
  moreover have "rq_id ` set (sy_requested s) \<subseteq> ar_id ` set (ad_approvals (sy_db s'))" "distinct (map rq_id (sy_requested s))"
    using ok order_trans[OF _ ids] by (simp_all add: origin_ok_def)
  ultimately show ?thesis unfolding origin_ok_def same(1,2) by auto
qed

lemma updated_same_ids:
  "(\<And>r. ar_id (f r) = ar_id r) \<Longrightarrow> ar_id ` set (ad_approvals (update_pending i f db)) = ar_id ` set (ad_approvals db)"
  using arg_cong[OF updated_ids[of f i db], of set] by simp

lemma origin_ok_match:
  assumes t: "tables_ok ac (sy_db s)" and ok: "origin_ok C ac s"
    and step_match: "s' = s\<lparr> sy_matching := (rq, auto_approve C ac rq (sy_db s)) # sy_matching s, sy_queried := (rq, sy_db s) # sy_queried s \<rparr>"
  shows "origin_ok C ac s'"
proof -
  have covered: "covered_by_human C ac (sy_db s) rq" if "auto_approve C ac rq (sy_db s) = Some a" for a
    using auto_covered[OF t that] by (simp add: covered_by_human_def)
  have "row_origin C ac s' r" if "r \<in> set (ad_approvals (sy_db s))" "ar_state r = AS_Approved" for r
    using that ok by (intro row_origin_mono[of s s']) (auto simp: step_match extends_refl origin_ok_def)
  moreover have "query_covered C ac s' rq'" if "(rq', Some a) \<in> set (sy_matching s')" for rq' a
  proof (cases "(rq', Some a) \<in> set (sy_matching s)")
    case True
    then have "query_covered C ac s rq'" using ok unfolding origin_ok_def by blast
    then show ?thesis unfolding query_covered_def step_match by auto
  next
    case False
    then have "rq' = rq" "auto_approve C ac rq (sy_db s) = Some a" using that by (auto simp: step_match)
    then show ?thesis using covered unfolding query_covered_def step_match by auto
  qed
  ultimately show ?thesis using ok extends_refl by (auto simp: origin_ok_def step_match)
qed

lemma origin_ok_request:
  assumes ok: "origin_ok C ac s" and matched: "(rq, auto) \<in> set (sy_matching s)"
    and tx: "request_tx ac outbox rq auto now (sy_db s) = Inr (es, db)"
    and s': "s' = s\<lparr> sy_db := db, sy_matching := remove1 (rq, auto) (sy_matching s),
       sy_registering := (rq_id rq, map_option (\<lambda>_. AD_Approve) auto) # sy_registering s, sy_requested := rq # sy_requested s \<rparr>"
  shows "origin_ok C ac s'"
proof -
  note eff = request_tx_effect[OF tx] and x = request_extends[OF tx]
  have db: "sy_db s' = db" and q: "sy_queried s' = sy_queried s" and n: "sy_requested s' = rq # sy_requested s"
    and m: "set (sy_matching s') \<subseteq> set (sy_matching s)"
    using set_remove1_subset[of "(rq, auto)" "sy_matching s"] by (simp_all add: s')
  have "row_origin C ac s' r" if r: "r \<in> set (ad_approvals db)" "ar_state r = AS_Approved" for r
  proof (cases "r \<in> set (ad_approvals (sy_db s))")
    case True
    then have "row_origin C ac s r" using r ok by (simp add: origin_ok_def)
    then show ?thesis using x q n by (intro row_origin_mono[of s s']) (auto simp: db)
  next
    case False
    then have new: "r = request_row ac rq auto now" using r eff(1) by simp
    then have "auto \<noteq> None" using r by (auto simp: request_row_def split: if_splits)
    then have "query_covered C ac s' rq" using matched ok unfolding origin_ok_def query_covered_def q by blast
    moreover have "row_of_request ac rq r" by (simp add: new row_of_request_def request_row_def)
    ultimately show ?thesis by (auto simp: row_origin_def n)
  qed
  moreover have "extends seen db" if "(rq', seen) \<in> set (sy_queried s)" for rq' seen
    using that ok extends_trans[OF _ x] by (fastforce simp: origin_ok_def)
  moreover have "query_covered C ac s' rq'" if "(rq', Some a) \<in> set (sy_matching s')" for rq' a
    using that m ok unfolding origin_ok_def query_covered_def q by blast
  moreover have "rq_id rq \<notin> rq_id ` set (sy_requested s)" using ok eff(3) by (auto simp: origin_ok_def)
  moreover have "ar_id ` set (ad_approvals db) = insert (rq_id rq) (ar_id ` set (ad_approvals (sy_db s)))"
    by (simp add: eff(1) request_row_def)
  ultimately show ?thesis using ok unfolding origin_ok_def db q n by auto
qed

lemma origin_ok_step:
  assumes "approvals_step C ac s s'" and t: "tables_ok ac (sy_db s)" and ok: "origin_ok C ac s"
  shows "origin_ok C ac s'"
  using assms(1)
proof cases
  case (step_match rq)
  then show ?thesis by (rule origin_ok_match[OF t ok])
next
  case (step_request rq auto outbox now es db)
  then show ?thesis by (intro origin_ok_request[OF ok])
next
  case (step_request_fails outbox rq auto now e)
  then show ?thesis using set_remove1_subset[of "(rq, auto)" "sy_matching s"] by (intro origin_ok_keep[OF ok]) (simp_all add: extends_refl)
next
  case (step_resolve outbox provenance rule_id i d scope resolved_by now e db)
  obtain st scope_db pattern where st: "decision_state d = Inr st"
    and rows: "ad_approvals db = ad_approvals (update_pending i (\<lambda>r. r\<lparr> ar_state := st, ar_scope := scope_db, ar_pattern := pattern,
          ar_resolved_by := Some resolved_by, ar_resolved_at := Some now \<rparr>) (sy_db s))"
    and ev: "ad_events db = ad_events (sy_db s) @ [e]" "ev_body e = EB_ApprovalResolved i d" "ev_actor e = Act_Human resolved_by"
    using resolve_effect[OF step_resolve(2)] by blast
  have human: "d = AD_Approve \<Longrightarrow> human_approved db i" using ev by (auto simp: human_approved_def)
  have "st = AS_Approved \<Longrightarrow> d = AD_Approve" using st by (cases d) auto
  then show ?thesis
    using human resolve_extends[OF step_resolve(2)]
    by (intro origin_ok_keep[OF ok]) (auto simp: step_resolve(1) rows updated_same_ids dest!: updated_rows)
next
  case (step_expire outbox now i session e db)
  then have "ad_approvals db = ad_approvals (update_pending i (\<lambda>r. r\<lparr> ar_state := AS_Expired, ar_resolved_at := Some now \<rparr>) (sy_db s))"
    using expire_effect by blast
  then show ?thesis
    using expire_extends[OF step_expire(2)]
    by (intro origin_ok_keep[OF ok]) (auto simp: step_expire(1) updated_same_ids dest!: updated_rows)
next
  case (step_revoke rule_id now)
  then show ?thesis by (intro origin_ok_keep[OF ok]) (simp_all add: revoke_extends, simp_all add: revoke_rule_def)
next
  case (step_others sessions runs)
  then show ?thesis by (intro origin_ok_keep[OF ok]) (simp_all add: others_extends)
qed (auto intro!: origin_ok_keep[OF ok] simp: extends_refl)

lemma origin_ok_reach: "approvals_reach C ac s \<Longrightarrow> origin_ok C ac s"
proof (induction rule: approvals_reach.induct)
  case reach_start
  then show ?case by (simp add: origin_ok_def empty_sys_def approvals_empty_def)
next
  case (reach_next s s')
  then show ?case using origin_ok_step sys_ok_reach[OF reach_next.hyps(1)] by (simp add: sys_ok_def)
qed

text \<open>A rule is for the repository of the run whose approval taught it.\<close>

definition rule_home :: "approvals_sys \<Rightarrow> approval_rule \<Rightarrow> bool" where
  "rule_home s rl \<longleftrightarrow>
     (\<exists>r provenance session. approved_as (sy_db s) ''repository'' r \<and> ar_id r = rl_created_from rl
        \<and> (ar_id r, provenance) \<in> set (sy_resolved s) \<and> provenance (ar_run_id r) session = Inr (Some (rl_repository rl)))"

lemma approved_as_mono: "extends db db' \<Longrightarrow> approved_as db scope r \<Longrightarrow> approved_as db' scope r"
  using human_mono[of db db'] by (auto simp: approved_as_def extends_def final_def)

lemma rule_home_keep:
  assumes "extends (sy_db s) (sy_db s')" "set (sy_resolved s) \<subseteq> set (sy_resolved s')"
    and "rl_created_from rl' = rl_created_from rl" "rl_repository rl' = rl_repository rl" and "rule_home s rl"
  shows "rule_home s' rl'"
proof -
  obtain r provenance session where r: "approved_as (sy_db s) ''repository'' r" "ar_id r = rl_created_from rl"
    "(ar_id r, provenance) \<in> set (sy_resolved s)" "provenance (ar_run_id r) session = Inr (Some (rl_repository rl))"
    using assms(5) unfolding rule_home_def by blast
  have "approved_as (sy_db s') ''repository'' r" by (rule approved_as_mono[OF assms(1) r(1)])
  moreover have "(ar_id r, provenance) \<in> set (sy_resolved s')" using r(3) assms(2) by (rule rev_subsetD)
  ultimately show ?thesis unfolding rule_home_def using r(2,4) assms(3,4) by (intro exI[of _ r] exI[of _ provenance] exI[of _ session]) simp
qed

lemma rule_home_step:
  assumes step: "approvals_step C ac s s'" and home: "\<And>rl. rl \<in> set (ad_rules (sy_db s)) \<Longrightarrow> rule_home s rl"
    and rl: "rl \<in> set (ad_rules (sy_db s'))"
  shows "rule_home s' rl"
proof -
  note x = step_extends[OF step]
  have more: "set (sy_resolved s) \<subseteq> set (sy_resolved s')" using step by cases auto
  have "(\<exists>rl0 \<in> set (ad_rules (sy_db s)). rl_created_from rl = rl_created_from rl0 \<and> rl_repository rl = rl_repository rl0) \<or> rule_home s' rl"
    using step
  proof cases
    case (step_resolve outbox provenance rule_id i d scope resolved_by now e db)
    then show ?thesis
      using resolve_rules[OF step_resolve(2), of rl] rl by (fastforce simp: rule_home_def)
  next
    case (step_request rq auto outbox now es db)
    then show ?thesis using rl request_tx_effect(2)[OF step_request(3)] by auto
  next
    case (step_expire outbox now i session e db)
    then show ?thesis using rl expire_effect[OF step_expire(2)] by auto
  next
    case (step_revoke rule_id now)
    then show ?thesis using rl by (auto simp: revoke_rule_def split: if_splits)
  qed (use rl in auto)
  then show ?thesis using home rule_home_keep[OF x more] by blast
qed

lemma rule_home_reach: "approvals_reach C ac s \<Longrightarrow> rl \<in> set (ad_rules (sy_db s)) \<Longrightarrow> rule_home s rl"
proof (induction arbitrary: rl rule: approvals_reach.induct)
  case reach_start
  then show ?case by (simp add: empty_sys_def approvals_empty_def)
qed (rule rule_home_step)

subsection \<open>Properties\<close>

text \<open>
  C11: An approval is decided once. Over every interleaving, approval ids are unique, the ledger holds exactly one resolution
  for an approval that is decided and none for a pending one, and no later step changes a decided row.
\<close>

theorem approval_decided_once:
  assumes "approvals_reach C ac s"
  shows "distinct (map ar_id (ad_approvals (sy_db s)))
    \<and> (\<forall>i. length (resolved_events i (ad_events (sy_db s)))
          = (if \<exists>r \<in> set (ad_approvals (sy_db s)). ar_id r = i \<and> final r then 1 else 0))
    \<and> (\<forall>s' r. approvals_step C ac s s' \<longrightarrow> r \<in> set (ad_approvals (sy_db s)) \<longrightarrow> final r \<longrightarrow> r \<in> set (ad_approvals (sy_db s')))"
  using sys_ok_reach[OF assms] step_extends[of C ac s] by (auto simp: sys_ok_def tables_ok_def events_match_def extends_def)

text \<open>
  C12: A decision reaches the run that waits for it. When an approval is decided, its wake-up and its registration are done in
  whatever order, and neither the run nor a restart has dropped the waiter, waiting returns at once with the decision of the
  row; and every decision a run was ever told is the one its row holds.
\<close>

theorem decision_delivered:
  assumes "approvals_reach C ac s" and "r \<in> set (ad_approvals (sy_db s))" "final r" "ar_id r \<notin> sy_gone s"
    and "ar_id r \<notin> fst ` set (sy_waking s)" "ar_id r \<notin> fst ` set (sy_registering s)"
  shows "(\<exists>d w. await_decision (ar_id r) (sy_waiters s) = Some (Inr d, w) \<and> stands_for d (ar_state r))
    \<and> (\<forall>i d. (i, d) \<in> set (sy_taken s) \<longrightarrow> decided (sy_db s) i d)"
proof -
  note ok = sys_ok_reach[OF assms(1)]
  obtain d where "told s (ar_id r) d" using ok assms(2,3,4) unfolding sys_ok_def by blast
  then have w: "sy_waiters s (ar_id r) = Some (Some d)" using assms(5,6) by (force simp: told_def)
  then have "decided (sy_db s) (ar_id r) d" using ok by (simp add: sys_ok_def told_def)
  then obtain r' where "r' \<in> set (ad_approvals (sy_db s))" "ar_id r' = ar_id r" "stands_for d (ar_state r')" by (auto simp: decided_def)
  moreover then have "r' = r" using ok assms(2) by (auto simp: sys_ok_def tables_ok_def distinct_map dest: inj_onD)
  ultimately show ?thesis using w ok by (auto simp: await_decision_def sys_ok_def)
qed

text \<open>
  C13: Nothing is approved without a human. Every approved row was approved by a human in the ledger, or is the automatic answer to
  the one request committed under its id, which allows reuse and is for the row's run and action; the tables the reuse query
  of that request read, which the present tables still extend, covered it by a human's decision: a run-scoped approval of the
  same run with the same digest, a pattern-scoped approval of the same run whose pattern was learned from the approved action
  and covers the command, or a rule of the request's own repository that was not revoked then, whose pattern was learned from
  an action a human approved for the repository and covers the command. Every rule, in force or revoked, is for the repository of
  the run whose approval taught it, as that resolution saw it.
\<close>

theorem approval_has_human_origin:
  assumes "approvals_reach C ac s" and "r \<in> set (ad_approvals (sy_db s))" "ar_state r = AS_Approved"
  shows "distinct (map rq_id (sy_requested s))
    \<and> (\<forall>rl. rl \<in> set (ad_rules (sy_db s)) \<longrightarrow> rule_home s rl)
    \<and> (human_approved (sy_db s) (ar_id r)
       \<or> (\<exists>rq seen. rq \<in> set (sy_requested s) \<and> row_of_request ac rq r \<and> rq_allow_run_reuse rq
            \<and> (rq, seen) \<in> set (sy_queried s) \<and> extends seen (sy_db s)
            \<and> (covered_in_run C ac seen rq \<or> covered_in_repository ac seen rq)))"
proof -
  note ok = origin_ok_reach[OF assms(1)]
  then have "row_origin C ac s r" using assms(2,3) by (simp add: origin_ok_def)
  moreover have "extends seen (sy_db s)" if "(rq, seen) \<in> set (sy_queried s)" for rq seen
    using that ok by (auto simp: origin_ok_def)
  moreover have "distinct (map rq_id (sy_requested s))" using ok by (simp add: origin_ok_def)
  ultimately show ?thesis
    using rule_home_reach[OF assms(1)] unfolding row_origin_def query_covered_def covered_by_human_def by blast
qed

subsection \<open>A push, approved as a pattern\<close>

definition push_action :: proposed_action where
  "push_action = PA_ExecuteCommand ''git'' [''push'', ''origin'', ''main''] [] None"

definition force_action :: proposed_action where
  "force_action = PA_ExecuteCommand ''git'' [''push'', ''-uf'', ''origin'', ''main''] [] None"

definition push_codec :: action_codec where
  "push_codec =
     \<lparr> ac_json = (\<lambda>a. if a = push_action then ''push'' else if a = force_action then ''force'' else ''other''),
       ac_parse = (\<lambda>t. if t = ''push'' then Inr push_action else if t = ''force'' then Inr force_action else Inl ''other'') \<rparr>"

definition push_request :: "string \<Rightarrow> proposed_action \<Rightarrow> bool \<Rightarrow> approval_request" where
  "push_request i a reuse =
     \<lparr> rq_id = i, rq_session = ''s'', rq_run = ''r'', rq_repository = None, rq_action = a, rq_risk_json = ''{}'',
       rq_capabilities_json = ''[]'', rq_expires_at = None, rq_allow_run_reuse = reuse \<rparr>"

definition push_db0 :: approvals_db where
  "push_db0 = approvals_empty\<lparr> ad_sessions := [(''s'', ''open'')], ad_runs := [(''r'', \<lparr> ri_session = ''s'', ri_state = ''Running'' \<rparr>)] \<rparr>"

definition push_event1 :: session_event where
  "push_event1 =
     \<lparr> ev_session = ''s'', ev_sequence = 1, ev_occurred_at = 0, ev_actor = Act_System,
       ev_body = EB_ApprovalRequested ''a1'' push_action ''{}'' (Some ''git push *'') \<rparr>"

definition push_event2 :: session_event where
  "push_event2 =
     \<lparr> ev_session = ''s'', ev_sequence = 2, ev_occurred_at = 1, ev_actor = Act_Human ''me'',
       ev_body = EB_ApprovalResolved ''a1'' AD_Approve \<rparr>"

definition push_row :: approval_row where
  "push_row =
     \<lparr> ar_id = ''a1'', ar_run_id = ''r'', ar_action_json = ''push'', ar_risk_json = ''{}'', ar_capabilities_json = ''[]'',
       ar_state = AS_Approved, ar_scope = ''pattern'', ar_pattern = Some ''git push *'', ar_resolved_by = Some ''me'',
       ar_requested_at = 0, ar_resolved_at = Some 1, ar_expires_at = None \<rparr>"

definition push_db1 :: approvals_db where
  "push_db1 = push_db0\<lparr> ad_approvals := [request_row push_codec (push_request ''a1'' push_action True) None 0], ad_events := [push_event1] \<rparr>"

definition push_db2 :: approvals_db where
  "push_db2 = push_db0\<lparr> ad_approvals := [push_row], ad_events := [push_event1, push_event2] \<rparr>"

definition push_sys :: approvals_sys where
  "push_sys = empty_sys\<lparr> sy_db := push_db2, sy_waiters := [''a1'' \<mapsto> Some AD_Approve],
     sy_queried := [(push_request ''a1'' push_action True, push_db0)], sy_requested := [push_request ''a1'' push_action True],
     sy_resolved := [(''a1'', \<lambda>_ _. Inr None)] \<rparr>"

lemma push_learns: "learnable_pattern push_action = Some ''git push *''"
  by (simp add: push_action_def git_push_pattern)

lemma push_request_tx:
  "request_tx push_codec (\<lambda>_. None) (push_request ''a1'' push_action True) None 0 push_db0 = Inr ([push_event1], push_db1)"
  by (simp add: request_tx_def push_request_def push_db0_def push_db1_def push_event1_def approvals_empty_def append_event_def next_sequence_def
        push_learns Let_def)

lemma push_resolve_tx:
  "resolve_in_tx push_codec (\<lambda>_. None) (\<lambda>_ _. Inr None) ''rule'' ''a1'' AD_Approve Scope_Pattern ''me'' 1 push_db1 = Inr (push_event2, push_db2)"
  by (simp add: resolve_in_tx_def push_db1_def push_db2_def push_db0_def approvals_empty_def find_row_def request_row_def push_request_def
        learn_tx_def push_codec_def push_learns append_event_def next_sequence_def push_event2_def push_event1_def push_row_def
        update_pending_def Let_def)

lemma push_reach: "approvals_reach C push_codec push_sys"
proof -
  let ?s1 = "empty_sys\<lparr> sy_db := push_db0 \<rparr>"
  let ?rq = "push_request ''a1'' push_action True"
  have s1: "approvals_reach C push_codec ?s1"
    using reach_next[OF reach_start step_others[where s = empty_sys and sessions = "[(''s'', ''open'')]"
      and runs = "[(''r'', \<lparr> ri_session = ''s'', ri_state = ''Running'' \<rparr>)]"]]
    by (simp add: push_db0_def empty_sys_def)
  have none: "auto_approve C push_codec ?rq push_db0 = None"
    by (simp add: auto_approve_def run_scoped_match_def push_db0_def approvals_empty_def push_request_def push_action_def
          run_pattern_match_def List.map_filter_def)
  let ?q1 = "?s1\<lparr> sy_queried := [(?rq, push_db0)] \<rparr>"
  let ?q2 = "?q1\<lparr> sy_requested := [?rq] \<rparr>"
  have s2: "approvals_reach C push_codec (?q1\<lparr> sy_matching := [(?rq, None)] \<rparr>)"
    using reach_next[OF s1 step_match[where rq = ?rq]] none by (simp add: empty_sys_def)
  have s3: "approvals_reach C push_codec (?q2\<lparr> sy_db := push_db1, sy_registering := [(''a1'', None)] \<rparr>)"
    using reach_next[OF s2 step_request[where rq = ?rq and auto = None and outbox = "\<lambda>_. None" and now = 0 and es = "[push_event1]" and db = push_db1]]
      push_request_tx by (simp add: empty_sys_def push_request_def)
  have s4: "approvals_reach C push_codec (?q2\<lparr> sy_db := push_db1, sy_waiters := [''a1'' \<mapsto> None] \<rparr>)"
    using reach_next[OF s3 step_register[where i = "''a1''" and initial = None]] by (simp add: empty_sys_def register_waiter_def)
  have s5: "approvals_reach C push_codec (?q2\<lparr> sy_db := push_db2, sy_waiters := [''a1'' \<mapsto> None], sy_waking := [(''a1'', AD_Approve)],
      sy_resolved := [(''a1'', \<lambda>_ _. Inr None)] \<rparr>)"
    using reach_next[OF s4 step_resolve[where i = "''a1''" and e = push_event2 and db = push_db2 and outbox = "\<lambda>_. None"
      and provenance = "\<lambda>_ _. Inr None" and rule_id = "''rule''" and d = AD_Approve and scope = Scope_Pattern and resolved_by = "''me''" and now = 1]]
      push_resolve_tx
    by (simp add: empty_sys_def)
  show ?thesis
    using reach_next[OF s5 step_wake[where i = "''a1''" and d = AD_Approve]] by (simp add: empty_sys_def push_sys_def wake_def)
qed

lemma push_final: "push_row \<in> set (ad_approvals (sy_db push_sys))" "final push_row" "ar_state push_row = AS_Approved"
  by (simp_all add: push_sys_def push_db2_def push_row_def final_def)

theorem approval_decided_once_witness:
  "length (resolved_events ''a1'' (ad_events push_db2)) = 1"
  using approval_decided_once[OF push_reach[of example_crypto]] push_final
  by (auto simp: push_sys_def push_db2_def push_row_def final_def)

theorem decision_delivered_witness:
  "\<exists>d w. await_decision ''a1'' [''a1'' \<mapsto> Some AD_Approve] = Some (Inr d, w)"
  using decision_delivered[OF push_reach[of example_crypto] push_final(1,2)]
  by (auto simp: push_sys_def empty_sys_def push_row_def)

lemma force_lookups: "arity_lookup ''git push -uf origin main'' = None" "arity_lookup ''git push -uf origin'' = None"
  "arity_lookup ''git push -uf'' = None"
  unfolding arity_lookup_map by code_simp+

lemma force_auto:
  "auto_approve C push_codec (push_request ''a2'' force_action True) push_db2 = Some (Auto_RunPattern ''git push *'')"
proof -
  have pre: "command_prefix [''git'', ''push'', ''-uf'', ''origin'', ''main''] = [''git'', ''push'']"
    by (simp add: command_prefix_def lookup_git force_lookups)
  have pat: "command_pattern ''git'' [''push'', ''-uf'', ''origin'', ''main''] [] = Some ''git push *''"
    by (simp add: command_pattern_def pre UNLEARNABLE_PROGRAMS_def has_shell_chaining_or_substitution_def starts_with_def)
  have "pattern_matches ''git push *'' ''git'' [''push'', ''-uf'', ''origin'', ''main'']"
    by (simp add: pattern_matches_def strip_suffix_def ends_with_def has_shell_chaining_or_substitution_def)
  then have "run_pattern_match push_db2 ''r'' ''git'' [''push'', ''-uf'', ''origin'', ''main''] = Some ''git push *''"
    by (simp add: run_pattern_match_def push_db2_def push_row_def List.map_filter_def)
  moreover have "\<not> run_scoped_match C push_db2 ''r'' digest" for digest
    by (simp add: run_scoped_match_def push_db2_def push_row_def)
  ultimately show ?thesis using pat by (simp add: auto_approve_def push_request_def force_action_def)
qed

text \<open>The second push of the run, approved by the pattern the human accepted for the first.\<close>

definition force_row :: approval_row where
  "force_row = request_row push_codec (push_request ''a2'' force_action True) (Some (Auto_RunPattern ''git push *'')) 2"

definition push_db3 :: approvals_db where
  "push_db3 =
     (case request_tx push_codec (\<lambda>_. None) (push_request ''a2'' force_action True) (Some (Auto_RunPattern ''git push *'')) 2 push_db2 of
        Inr (es, db) \<Rightarrow> db | Inl e \<Rightarrow> push_db2)"

definition pushed_sys :: approvals_sys where
  "pushed_sys = push_sys\<lparr> sy_db := push_db3, sy_registering := [(''a2'', Some AD_Approve)],
     sy_queried := (push_request ''a2'' force_action True, push_db2) # sy_queried push_sys,
     sy_requested := push_request ''a2'' force_action True # sy_requested push_sys \<rparr>"

lemma force_request_tx:
  "\<exists>es. request_tx push_codec (\<lambda>_. None) (push_request ''a2'' force_action True) (Some (Auto_RunPattern ''git push *'')) 2 push_db2
     = Inr (es, push_db3)"
  unfolding push_db3_def
  by (simp add: request_tx_def push_request_def push_db2_def push_db0_def push_row_def approvals_empty_def append_event_def Let_def)

lemma pushed_reach: "approvals_reach C push_codec pushed_sys"
proof -
  let ?rq = "push_request ''a2'' force_action True" and ?auto = "Some (Auto_RunPattern ''git push *'')"
  obtain es where tx: "request_tx push_codec (\<lambda>_. None) ?rq ?auto 2 push_db2 = Inr (es, push_db3)" using force_request_tx by blast
  have "approvals_reach C push_codec (push_sys\<lparr> sy_matching := [(?rq, ?auto)], sy_queried := (?rq, push_db2) # sy_queried push_sys \<rparr>)"
    using reach_next[OF push_reach[of C] step_match[where rq = ?rq]] force_auto[of C] by (simp add: push_sys_def empty_sys_def)
  from reach_next[OF this step_request[where rq = ?rq and auto = ?auto and outbox = "\<lambda>_. None" and now = 2 and es = es and db = push_db3]] tx
  show ?thesis by (simp add: push_sys_def pushed_sys_def empty_sys_def push_request_def)
qed

lemma pushed_row: "force_row \<in> set (ad_approvals (sy_db pushed_sys))" "ar_state force_row = AS_Approved" "ar_id force_row = ''a2''"
  "\<not> human_approved (sy_db pushed_sys) ''a2''"
proof -
  obtain es where tx: "request_tx push_codec (\<lambda>_. None) (push_request ''a2'' force_action True) (Some (Auto_RunPattern ''git push *'')) 2
      push_db2 = Inr (es, push_db3)" using force_request_tx by blast
  note eff = request_tx_effect[OF tx]
  show "force_row \<in> set (ad_approvals (sy_db pushed_sys))" by (simp add: pushed_sys_def eff(1) force_row_def)
  show "ar_state force_row = AS_Approved" "ar_id force_row = ''a2''" by (simp_all add: force_row_def request_row_def push_request_def)
  have "ev_body e = EB_ApprovalResolved ''a2'' AD_Approve \<Longrightarrow> ev_actor e = Act_System" if "e \<in> set es" for e
    using eff(5) that by auto
  then show "\<not> human_approved (sy_db pushed_sys) ''a2''"
    by (auto simp: human_approved_def pushed_sys_def eff(4) push_db2_def push_event1_def push_event2_def)
qed

theorem approval_has_human_origin_witness:
  "\<exists>rq seen. row_of_request push_codec rq force_row \<and> (rq, seen) \<in> set (sy_queried pushed_sys)
     \<and> (covered_in_run example_crypto push_codec seen rq \<or> covered_in_repository push_codec seen rq)"
  using approval_has_human_origin[OF pushed_reach[of example_crypto] pushed_row(1,2)] pushed_row(3,4) by auto

text \<open>
  C40: A force push can be approved by nobody. The built-in policy denies force pushes and spells out the forms it looks for; git
  also accepts the bundled short options \<open>-uf\<close>. That command falls through to the ordinary approval, which may be reused: after a
  human approved one plain push of the run as a pattern, the forced push is approved automatically.
\<close>

theorem force_push_auto_approved:
  assumes "mo_command_allowed (ec_mode ctx)" "mo_network_allowed (ec_mode ctx)"
  shows "mp_git_force_push builtin_defaults = AA_Deny
    \<and> pd_decision (evaluate env (with_defaults C sd) (PA_ExecuteCommand ''git'' [''push'', ''-f'', ''origin'', ''main''] [] None) ctx) = D_Deny
    \<and> approvals_reach C push_codec push_sys \<and> map ar_action_json (ad_approvals (sy_db push_sys)) = [ac_json push_codec push_action]
    \<and> auto_approve C push_codec
        (push_request ''a2'' force_action (pd_approval_reusable (evaluate env (with_defaults C sd) force_action ctx))) (sy_db push_sys)
      = Some (Auto_RunPattern ''git push *'')"
proof -
  have deny: "strictness d = 3 \<Longrightarrow> pd_decision d = D_Deny" and req: "strictness d = 1 \<Longrightarrow> pd_approval_reusable d" for d
    by (auto simp: strictness_def split: decision.splits if_splits)
  have "auto_approve C push_codec (push_request ''a2'' force_action True) push_db2 = Some (Auto_RunPattern ''git push *'')"
    by (rule force_auto)
  moreover have "mp_git_force_push builtin_defaults = AA_Deny" by (simp add: builtin_defaults_def)
  moreover have "map ar_action_json (ad_approvals push_db2) = [ac_json push_codec push_action]"
    by (simp add: push_db2_def push_row_def push_codec_def)
  ultimately show ?thesis
    using push_reach deny[OF bundled_force_flag(1)[OF assms]] req[OF bundled_force_flag(2)[OF assms]]
    by (simp add: with_defaults_def force_action_def push_sys_def)
qed

theorem force_push_auto_approved_witness:
  "auto_approve example_crypto push_codec
     (push_request ''a2'' force_action (pd_approval_reusable (evaluate sample_env (with_defaults example_crypto serde_example) force_action sample_ctx)))
     (sy_db push_sys) = Some (Auto_RunPattern ''git push *'')"
  using force_push_auto_approved[of sample_ctx] by (simp add: sample_ctx_def new_context_def permissive_def)

text \<open>
  A waiter dropped because its run was cancelled comes back when the approval is resolved later, and nobody is left
  to take it.
\<close>

lemma wake_after_forget: "wake i d (forget_waiter i w) i = Some (Some d)"
  by (simp add: wake_def)

end
