(* ===== verification/Spec2Isabelle.thy ===== *)
theory Spec2Isabelle
  imports Resolve Drive_Attempts Conductor Routing_Seam Sanitize Hook_Engine Policy_Gate Approvals_Safety
begin

text \<open>
  A model of the core of codypendent, a local agent platform, and its correctness: the workflow engine, the model router,
  the plugin sandbox's decisions, the lifecycle hooks, the policy engine and the approval broker.

  \<^bold>\<open>The program.\<close> A workflow is a YAML manifest: inputs, a budget and steps that name a tool or an agent role and the steps
  they depend on. The compiler validates it into a graph of nodes. The store keeps runs of compiled workflows, their
  nodes and checkpoints in three SQLite tables; the driver runs the ready nodes of a run, several at a time, through an
  executor and records every transition; the conductor offers the commands on runs (drive, pause, cancel, resume, retry) and
  recovers incomplete runs at startup. Nodes are charged against nested budgets and exchange artifacts on a blackboard. The
  model an agent node uses is chosen by the router. Plugins are installed disabled, approved capability by capability and run
  in a sandbox whose profile is derived from the grant; each of their requests is checked against the grant and the policy of the
  run. Hooks are programs a user or a repository registers for events; an approved hook can deny, or rewrite, a tool call.
  Every action an agent proposes is evaluated against the policy of its run: built-in rules, the user's policy file over them and
  the repository's file, which may only narrow. What the policy neither allows nor denies is put to a human; the broker keeps the
  requests, answers those an earlier approval covers, and wakes the waiting run.

  \<^bold>\<open>Shared theories.\<close>
  \<^item> \<open>Prelude\<close>: results as sums with their bind and loops, saturating 64-bit arithmetic, ordered maps as sorted association
    lists (Rust's \<open>BTreeMap\<close>), searches in lists. \<open>Rust_Str\<close>: strings as bytes, \<open>trim\<close>, \<open>find\<close>, \<open>split\<close>, decimal and
    little-endian renderings. \<open>F64\<close>: IEEE doubles as rationals with rounding. \<open>Json\<close>: values of
    \<open>serde_json\<close>; the printer and the parser are a parameter, the record \<open>serde\<close>. \<open>Ordering\<close>: comparators and the choice of a
    best element by \<open>max_by\<close> and \<open>min_by\<close>.

  \<^bold>\<open>Workflow engine\<close> (files of \<open>src/crates/workflow/src\<close>).
  \<^item> \<open>Workflow_Model\<close>: the data of \<open>model.rs\<close> and \<open>agent.rs\<close>. \<open>Manifest_Json\<close>: the JSON a definition serializes to, and
    \<open>definition_digest\<close> of \<open>source.rs\<close>.
  \<^item> \<open>Binding\<close>: \<open>binding.rs\<close>, placeholders in \<open>with:\<close> maps. \<open>Registry\<close>: \<open>registry.rs\<close>. \<open>Resolve\<close>: \<open>resolve.rs\<close>, agent profiles of a
    directory. \<open>Budget\<close>: \<open>budget.rs\<close>. \<open>Blackboard\<close>: \<open>blackboard.rs\<close>, one table and its operations.
  \<^item> \<open>Compile\<close>: \<open>compile.rs\<close>, one definition for each check and for each loop. The signature is the digest of a byte string that
    the model builds field by field; the digest is a parameter.
  \<^item> \<open>Store\<close>: \<open>store.rs\<close> over a record of three tables (the columns of \<open>migrations/0010_workflow_runs.sql\<close> and later ones the
    code reads). Each operation is a function on the tables; an \<open>UPDATE\<close> is a map over the rows with its \<open>WHERE\<close> clause,
    an \<open>INSERT\<close> fails on an existing key. Clock readings and fresh ids are arguments.
  \<^item> \<open>Drive\<close>: \<open>drive.rs\<close> as a step machine. The driver's program counter stands at the awaits of \<open>run_observed\<close>, each node
    future is a task with the program counter of \<open>run_node\<close>, and a step is one store operation of the driver, of one task, or
    of a concurrent command. \<open>Drive_Safety\<close>, \<open>Drive_Progress\<close> and \<open>Drive_Attempts\<close> hold its lemmas.
  \<^item> \<open>Conductor\<close>: \<open>conductor.rs\<close>; the interleaving of a drive is an argument, a list of choices.

  \<^bold>\<open>Model routing.\<close>
  \<^item> \<open>Routing\<close>: \<open>crates/routing\<close>: capabilities, task classification, model profiles, the validated policy, and the
    router's filters, utility and fallbacks. \<open>Endpoint\<close>: whether the base URL of a model is local
    (\<open>crates/runtime/src/bench.rs\<close>). \<open>Routing_Seam\<close>: the daemon's configuration and selection
    (\<open>crates/codypendentd/src/routing.rs\<close>).

  \<^bold>\<open>Plugins and hooks\<close> (\<open>src/crates/sandbox/src\<close> and \<open>src/crates/daemon/src\<close>).
  \<^item> \<open>Plugin_Manifest\<close>: \<open>manifest.rs\<close>, the manifest and its validation. \<open>Plugin_Permission\<close>: \<open>permission.rs\<close>, grants and
    the permission diff. \<open>Plugin_Verify\<close>: \<open>verify.rs\<close>. \<open>Plugin_Lifecycle\<close>: \<open>lifecycle.rs\<close>, the plugin record and one
    definition for each transition.
  \<^item> \<open>Sandbox_Gate\<close>: \<open>profile.rs\<close>, \<open>gate.rs\<close> and the checks \<open>executor.rs\<close> makes before it starts a plugin.
    \<open>Sanitize\<close>: \<open>sanitize.rs\<close> over code points.
  \<^item> \<open>Hooks\<close>: \<open>hook.rs\<close>, the hook file, verdicts and how they combine. \<open>Hook_Registry\<close>: \<open>hooks.rs\<close> of the daemon and the approval
    commands over the table \<open>hooks\<close>. \<open>Hook_Engine\<close>: \<open>hook_exec.rs\<close> and \<open>hook_engine.rs\<close>, the run of one hook and the
    dispatch of an event.

  \<^bold>\<open>Policy and approvals\<close> (\<open>src/crates/daemon/src\<close>).
  \<^item> \<open>Policy_Config\<close>: \<open>policy/config.rs\<close>, the merged policy, the files and the two overlays. \<open>Policy_Scope\<close>: \<open>policy/scope.rs\<close>, path, command
    and network scopes; a path is its Unix string, and the questions the code asks of the disk are the record \<open>file_system\<close>.
    \<open>Policy_Arity\<close>: \<open>policy/arity.rs\<close>, the patterns an approval learns.
  \<^item> \<open>Policy_Engine\<close>: \<open>policy/mod.rs\<close>, one definition for each evaluation, over the actions of \<open>crates/protocol/src/run.rs\<close>, with the mode
    overlay and context of \<open>crates/runtime/src/agent.rs\<close>. \<open>Policy_Safety\<close> holds its lemmas. \<open>Policy_Gate\<close>: \<open>policy_gate.rs\<close>, the engine behind
    the sandbox gate and behind the re-entry of rewritten calls.
  \<^item> \<open>Approvals\<close>: \<open>approvals.rs\<close> over the tables \<open>approvals\<close>, \<open>approval_rules\<close> and \<open>events\<close>, the waiters as a map, and one definition for
    each transaction. \<open>Approvals_Safety\<close> interleaves them: reuse queries, transactions, registrations, wake-ups, waits, cancellations
    and restarts are separate steps, taken in any order.

  \<^bold>\<open>What is shown.\<close>
  \<^item> Compiler: a compiled workflow is a well-formed graph over exactly the manifest's steps; the order is the reference order;
    a reported cycle is real; the registry check is exact; every node's inputs bind. The locale \<open>topo_graph\<close> of \<open>Compile\<close> states
    what the store and the driver use of such a graph, and is interpreted on every compiled workflow.
  \<^item> Store: by rule induction over all operations, keys stay unique, rows are never deleted and what a run was created from
    is never rewritten; a start is idempotent and adopts only the same request; retry and the frontier are exact. The locale
    \<open>run_cell\<close> states the run's state as a compare-and-set cell and is interpreted on \<open>set_run_state_if_legal\<close>.
  \<^item> Driver, over every interleaving with tasks, pauses, cancels and resumes: nodes run only after their dependencies, never twice
    at a time and never more than allowed; a run is completed only when all nodes are; finished runs do not move; no attempt runs
    twice; a drive takes a bounded number of steps and is never stuck.
  \<^item> Conductor: the commands allow exactly the documented moves; a drive leaves its run finished or paused; recovery accounts
    for every run.
  \<^item> Budgets, blackboard and binding: charging gives the documented verdict for ceilings below \<open>2 ^ 62\<close>, the 80\% line computed on
    unbounded integers, and is monotone; costs survive storage; the conversion is exact below a stated bound; supersession is linear and its history is found; the
    scanner and the interpolation are exact.
  \<^item> Routing: a routed model passes every filter; when some eligible model reaches the threshold, the route is the best of those that
    do; a policy is accepted exactly when its values are in range. On well-formed URLs whose host is an IPv4 address or a
    name, \<open>endpoint_location\<close> is the documented test, stated apart from the code as \<open>on_device\<close>; with the daemon's
    configuration, restricted content never goes to a model whose endpoint is such a URL and not on the device. URLs with user
    information or a bracketed address are outside that statement; one with a backslash is misclassified. The comparators are interpretations of the locale \<open>keyed_cmp\<close>, which
    carries the choice of a unique best element.
  \<^item> Plugins: over every sequence of lifecycle operations the invariant of the record holds and authority grows only by an
    approval (locale \<open>guarded_machine\<close>); a request the broker passes is within the grant; a used grant is not used again;
    sanitized output is bounded and free of the control sequences the code names.
  \<^item> Hooks: combined verdicts are the meet of a semilattice; a hook that runs has the specification parsed from a text a scan read, and
    an approve command named its slug while its row registered that text; unless a call is refused, every approved blocking
    hook with a readable stored specification ran cleanly on it, and one that cannot be read is audited as quarantined; a
    rewritten call is authorized anew.
  \<^item> Policy: merging root lists is exact on the regions they denote; which actions are allowed outright is characterized over the
    merged settings, the plan directory of a mode without writes left aside, and no command is; a repository's file and a mode never make a decision less strict; an allowed read stays in the resolved roots
    and off the deny list; a guest's request meets its grant and the policy; a learned pattern covers exactly the commands with
    its leading tokens.
  \<^item> Approvals, over every interleaving: a request is decided once, with one event; its decision reaches the run that waits; every
    approval goes back to a human's decision that covered the request in the tables its reuse query read: of the same run, or by
    an unrevoked rule of the request's repository, learned from an approval of a run of that repository. Histories of the
    queries, requests and resolutions, which no step reads, carry this.
  \<^item> Behaviour that departs from what the code says: two graphs with one signature; a start that adopts another owner's run; a
    cancelled run that executes a skipped node; a recovery that overwrites a cancel; a warning far below the line for very
    large ceilings; a grant of the root directory; an approval that reaches hooks of other repositories; a
    repository's read root that leaves the repository through a link; a force push approved without a human; and others, as
    lemmas of their theories.

  \<^bold>\<open>Bounds and fuel.\<close> The loops of the compiler, the store, the driver and the scanners are recursions with termination proofs or
  steps of a relation. The two walks of \<open>history\<close> take fuel, and as many turns as the table has rows are shown to be enough. A
  drive is a list of choices; \<open>drive_step_bound\<close> bounds its length and \<open>drive_returns\<close> shows that it can always be completed.

  \<^bold>\<open>Parameters.\<close> The YAML and TOML readers, the JSON text codec, semantic versions, SHA-256 and Ed25519, lower-casing, the file
  system, the home directory, the executor's outcomes, the processes hooks start, the JSON of an action, the repository of a run, the control-plane
  outbox, the clock and fresh ids. What a theorem needs
  of them is a named hypothesis, shown to hold for a concrete instance by its witness.

  \<^bold>\<open>Not modelled.\<close> The database pool and migrations (\<open>db.rs\<close>) and transport errors of SQLite, which are input and output; the
  catalogue of built-in, user and repository manifests (\<open>source.rs\<close>), which walks directories; the WebAssembly host, packaging and trust
  store of the sandbox; the inbox entries the broker writes and its decoding of stored rows on a restart; the
  owner the server gives, at startup, to runs stored without one (\<open>server.rs\<close>), so that the immutability of a run's row is of the
  operations of \<open>store.rs\<close>. The decision logic of
  \<open>crates/secrets\<close>, \<open>crates/providers\<close>, \<open>crates/marketplace\<close> and \<open>crates/eval\<close> could follow in the same way. The terminal client, the daemon's server, the agent runtime and the integrations
  are mostly input and output.
\<close>

end
